(* ===== verification/RT_Prelude.thy ===== *)
theory RT_Prelude
  imports Main "HOL-Library.Word" "HOL-Library.Signed_Division"
begin

section \<open>Prelude: types, faults, error propagation, shared lemmas\<close>

text \<open>
  What every component of the library shares: the machine integer types, the ways a call can
  end other than by returning (\<open>fault\<close>), the sequencing of calls that may fault
  (\<open>bindE\<close>, \<open>ASSERT\<close>), the compile-time constants of \<open>rt_debug_defs.h\<close> and
  \<open>rt_debug_api.h\<close>, and the list and word lemmas that the component proofs use through the
  collections \<open>exec_simps\<close> (evaluation of an operation) and \<open>const_defs\<close> (the constants).
\<close>

named_theorems exec_simps "rules that run a sequence of calls"
named_theorems const_defs "definitions of the compile-time constants"

unbundle bit_operations_syntax

type_synonym u8 = "8 word"
type_synonym u16 = "16 word"
type_synonym u32 = "32 word"
type_synonym u64 = "64 word"

subsection \<open>How a call can end without returning\<close>

text \<open>
  \<open>AssertFail\<close>: an \<open>ASSERT\<close> (the macro is \<open>assert\<close>, and the build never defines
  \<open>NDEBUG\<close>) aborts the process. \<open>MemFault\<close>: an access outside the object it is meant for,
  or to memory that is not mapped. \<open>NullDeref\<close>: a null pointer is followed. \<open>DivByZero\<close>: \<open>%\<close> by a
  zero divisor. \<open>Deadlock\<close>: a spin lock that is held is taken and never released.
  \<open>FormatFault\<close>: a \<open>printf\<close> format that the arguments do not fit (undefined in C).
\<close>

datatype fault = AssertFail | MemFault | NullDeref | DivByZero | Deadlock | FormatFault

definition bindE :: "fault + 'a \<Rightarrow> ('a \<Rightarrow> fault + 'b) \<Rightarrow> fault + 'b" where
  "bindE m k = (case m of Inl f \<Rightarrow> Inl f | Inr x \<Rightarrow> k x)"

definition ASSERT :: "bool \<Rightarrow> fault + 'a \<Rightarrow> fault + 'a" where
  "ASSERT c k = (if c then k else Inl AssertFail)"

lemma bindE_Inl [simp, exec_simps]: "bindE (Inl f) k = Inl f"
  by (simp add: bindE_def)

lemma bindE_Inr [simp, exec_simps]: "bindE (Inr x) k = k x"
  by (simp add: bindE_def)

lemma bindE_assoc: "bindE (bindE x f) h = bindE x (\<lambda>y. bindE (f y) h)"
  by (cases x) simp_all

lemma ASSERT_True [simp, exec_simps]: "ASSERT True k = k"
  by (simp add: ASSERT_def)

lemma ASSERT_False [simp, exec_simps]: "ASSERT False k = Inl AssertFail"
  by (simp add: ASSERT_def)

lemma bindE_eq_Inr: "bindE m k = Inr y \<longleftrightarrow> (\<exists>x. m = Inr x \<and> k x = Inr y)"
  by (cases m) auto

lemma bindE_eq_Inl: "bindE m k = Inl f \<longleftrightarrow> m = Inl f \<or> (\<exists>x. m = Inr x \<and> k x = Inl f)"
  by (cases m) auto

lemma ASSERT_eq_Inr: "ASSERT c k = Inr y \<longleftrightarrow> c \<and> k = Inr y"
  by (simp add: ASSERT_def)

lemma bindE_cong [fundef_cong]:
  "m = m' \<Longrightarrow> (\<And>x. m' = Inr x \<Longrightarrow> k x = k' x) \<Longrightarrow> bindE m k = bindE m' k'"
  by (cases m') auto

text \<open>Sequencing of a loop that may not end (\<open>None\<close>) with what follows it.\<close>

definition bindD :: "(fault + 'a) option \<Rightarrow> ('a \<Rightarrow> (fault + 'b) option) \<Rightarrow> (fault + 'b) option" where
  "bindD m k = (case m of None \<Rightarrow> None | Some (Inl f) \<Rightarrow> Some (Inl f) | Some (Inr x) \<Rightarrow> k x)"

lemma bindD_simps [simp, exec_simps]:
  "bindD None k = None" "bindD (Some (Inl f)) k = Some (Inl f)" "bindD (Some (Inr x)) k = k x"
  by (simp_all add: bindD_def)

lemma bindD_eq_Some_Inr: "bindD m k = Some (Inr y) \<longleftrightarrow> (\<exists>x. m = Some (Inr x) \<and> k x = Some (Inr y))"
  by (auto simp: bindD_def split: option.splits sum.splits)

subsection \<open>Result codes\<close>

datatype EResultT = E_OK | E_FAIL

subsection \<open>Compile-time constants\<close>

definition CACHE_ALIGNMENT :: nat where [const_defs]: "CACHE_ALIGNMENT = 64"
definition NUM_COUNTERS :: nat where [const_defs]: "NUM_COUNTERS = 20"
definition MAX_GROUP_NUM :: nat where [const_defs]: "MAX_GROUP_NUM = 10"
definition TRACE_ENTRIES_NUM :: nat where [const_defs]: "TRACE_ENTRIES_NUM = 1000"
definition PROF_FIFO_SIZE :: nat where [const_defs]: "PROF_FIFO_SIZE = 10"
definition PROF_GROUP_MAX :: nat where [const_defs]: "PROF_GROUP_MAX = 50"
definition MAX_TRACE_FORMATS :: nat where [const_defs]: "MAX_TRACE_FORMATS = 50"
definition LOG_GROUP_BUFSIZE :: nat where [const_defs]: "LOG_GROUP_BUFSIZE = 128"
definition TRACE_STRING_SIZE :: nat where [const_defs]: "TRACE_STRING_SIZE = 128"
definition MDO_NAME_SIZE :: nat where [const_defs]: "MDO_NAME_SIZE = 80"
definition BILLION :: u64 where [const_defs]: "BILLION = 1000000000"

subsection \<open>Words\<close>

lemma unat_succ_mod:
  fixes i n :: u32
  assumes "i < n"
  shows "unat ((i + 1) mod n) = (unat i + 1) mod unat n"
proof -
  have "unat i < unat n" using assms by (simp add: word_less_nat_alt)
  moreover have "unat n < 2 ^ 32" using unsigned_less [of n] by simp
  ultimately have "unat (i + 1) = unat i + 1" by (simp add: unat_word_ariths)
  then show ?thesis by (simp add: unat_mod_distrib)
qed

lemma word32_eq_of_nat: "unat w = k \<Longrightarrow> (w :: u32) = of_nat k"
  by auto

lemma unat_of_nat_u32: "k < 2 ^ 32 \<Longrightarrow> unat (of_nat k :: u32) = k"
  by (simp add: unat_of_nat take_bit_nat_eq_self)

lemma unat_of_nat_u64: "k < 2 ^ 64 \<Longrightarrow> unat (of_nat k :: u64) = k"
  by (simp add: unat_of_nat take_bit_nat_eq_self)

subsection \<open>Modular windows\<close>

text \<open>The distance from \<open>r\<close> to \<open>w\<close> going up modulo \<open>n\<close>, used by the ring buffers.\<close>

definition gap :: "nat \<Rightarrow> nat \<Rightarrow> nat \<Rightarrow> nat" where
  "gap n r w = (w + n - r) mod n"

lemma gap_less: "0 < n \<Longrightarrow> gap n r w < n"
  by (simp add: gap_def)

lemma gap_cases:
  assumes "r < n" "w < n"
  shows "gap n r w = (if r \<le> w then w - r else w + n - r)"
  using assms by (auto simp: gap_def le_mod_geq)

lemma mod_succ_cases: "i < n \<Longrightarrow> (i + 1) mod n = (if i + 1 = n then 0 else i + (1::nat))"
  by (simp add: mod_Suc)

lemma gap_0_1: "2 \<le> n \<Longrightarrow> gap n 0 1 = 1"
  by (simp add: gap_cases)

lemma gap_0_iff: "r < n \<Longrightarrow> w < n \<Longrightarrow> gap n r w = 0 \<longleftrightarrow> w = r"
  by (auto simp: gap_cases)

lemma gap_succ_right:
  assumes "r < n" "w < n" "(w + 1) mod n \<noteq> r"
  shows "gap n r ((w + 1) mod n) = gap n r w + 1"
  using assms by (auto simp: gap_cases mod_Suc split: if_splits)

lemma gap_succ_left:
  assumes "r < n" "w < n" "w \<noteq> r"
  shows "gap n ((r + 1) mod n) w = gap n r w - 1"
  using assms by (auto simp: gap_cases mod_Suc split: if_splits)

lemma gap_full_iff:
  assumes "r < n" "w < n" "w \<noteq> r"
  shows "(w + 1) mod n = r \<longleftrightarrow> gap n r w = n - 1"
  using assms by (auto simp: gap_cases mod_Suc split: if_splits)

lemma gap_one_iff:
  assumes "r < n" "w < n" "2 \<le> n"
  shows "(r + 1) mod n = w \<longleftrightarrow> gap n r w = 1"
  using assms by (auto simp: gap_cases mod_Suc split: if_splits)

lemma add_gap_mod:
  assumes "r < n" "w < n"
  shows "(r + gap n r w) mod n = w"
  using assms by (auto simp: gap_cases)

lemma add_mod_eq_iff:
  assumes "r < n" "i < n" "j < n"
  shows "(r + i) mod n = (r + j) mod n \<longleftrightarrow> i = (j :: nat)"
proof
  assume *: "(r + i) mod n = (r + j) mod n"
  have "(r + k) mod n = (if r + k < n then r + k else r + k - n)" if "k < n" for k
    using that assms(1) by (simp add: le_mod_geq)
  with * assms show "i = j" by (auto split: if_splits)
qed simp

subsection \<open>Lists\<close>

lemma map_nth_upt_Suc:
  "map f [0..<Suc k] = f 0 # map (\<lambda>i. f (Suc i)) [0..<k]"
  by (simp add: upt_conv_Cons map_Suc_upt [symmetric] comp_def del: upt_Suc)

lemma take_Suc_list_update: "i < length xs \<Longrightarrow> take (Suc i) (xs[i := x]) = take i xs @ [x]"
  by (simp add: take_Suc_conv_app_nth)

subsection \<open>Arrays\<close>

text \<open>\<open>xs[i]\<close> and \<open>xs[i] = f(xs[i])\<close> on an array whose length is known: out of it is a fault.\<close>

definition arr_get :: "'a list \<Rightarrow> nat \<Rightarrow> fault + 'a" where
  "arr_get xs i = (if i < length xs then Inr (xs ! i) else Inl MemFault)"

definition arr_mod :: "'a list \<Rightarrow> nat \<Rightarrow> ('a \<Rightarrow> fault + 'a) \<Rightarrow> fault + 'a list" where
  "arr_mod xs i f = bindE (arr_get xs i) (\<lambda>x. bindE (f x) (\<lambda>y. Inr (xs[i := y])))"

lemma arr_get_in [simp, exec_simps]: "i < length xs \<Longrightarrow> arr_get xs i = Inr (xs ! i)"
  by (simp add: arr_get_def)

lemma arr_get_out: "length xs \<le> i \<Longrightarrow> arr_get xs i = Inl MemFault"
  by (simp add: arr_get_def)

lemma arr_mod_in [exec_simps]:
  "i < length xs \<Longrightarrow> f (xs ! i) = Inr y \<Longrightarrow> arr_mod xs i f = Inr (xs[i := y])"
  by (simp add: arr_mod_def)

lemma arr_mod_out: "length xs \<le> i \<Longrightarrow> arr_mod xs i f = Inl MemFault"
  by (simp add: arr_mod_def arr_get_out)

subsection \<open>Loops over an index range\<close>

text \<open>\<open>for(i : xs) s = f(i, s);\<close> where an iteration may fault.\<close>

fun foldE :: "('i \<Rightarrow> 's \<Rightarrow> fault + 's) \<Rightarrow> 'i list \<Rightarrow> 's \<Rightarrow> fault + 's" where
  "foldE f [] s = Inr s"
| "foldE f (i # is) s = bindE (f i s) (\<lambda>s. foldE f is s)"

lemma foldE_append: "foldE f (xs @ ys) s = bindE (foldE f xs s) (\<lambda>s. foldE f ys s)"
proof (induction xs arbitrary: s)
  case (Cons x xs)
  then show ?case by (cases "f x s") auto
qed simp

lemma foldE_fold:
  "(\<And>i s. i \<in> set xs \<Longrightarrow> f i s = Inr (g i s)) \<Longrightarrow> foldE f xs s = Inr (fold g xs s)"
  by (induction xs arbitrary: s) auto

text \<open>An invariant of the loop, with the number of iterations done.\<close>

lemma foldE_upt:
  assumes "P 0 s" "\<And>k s. k < n \<Longrightarrow> P k s \<Longrightarrow> \<exists>s'. f k s = Inr s' \<and> P (Suc k) s'"
  shows "\<exists>s'. foldE f [0..<n] s = Inr s' \<and> P n s'"
  using assms
proof (induction n)
  case (Suc n)
  then obtain s1 where "foldE f [0..<n] s = Inr s1" "P n s1"
    by (meson less_Suc_eq)
  with Suc.prems(2) [of n s1] show ?case by (auto simp: foldE_append)
qed simp

text \<open>What every iteration preserves.\<close>

lemma foldE_inv:
  assumes "foldE f xs s = Inr s'" "P s" "\<And>i s s'. P s \<Longrightarrow> f i s = Inr s' \<Longrightarrow> P s'"
  shows "P s'"
  using assms(1,2)
  by (induction xs arbitrary: s) (auto simp: bindE_eq_Inr dest: assms(3))

text \<open>A loop that must fail at some iteration, and can fail in no other way.\<close>

lemma foldE_fails:
  assumes "\<And>x s. x \<in> set xs \<Longrightarrow> (\<exists>s'. f x s = Inr s') \<or> f x s = Inl e"
    "x \<in> set xs" "\<And>s. f x s = Inl e"
  shows "foldE f xs s = Inl e"
  using assms
proof (induction xs arbitrary: s)
  case (Cons y xs)
  have y: "(\<exists>s'. f y s = Inr s') \<or> f y s = Inl e" using Cons.prems(1) by simp
  show ?case
  proof (cases "x = y")
    case False
    then have "foldE f xs s' = Inl e" for s' using Cons by simp
    then show ?thesis using y by auto
  qed (use Cons.prems(3) in simp)
qed simp

text \<open>The same loop when an iteration may also never end.\<close>

fun foldD :: "('i \<Rightarrow> 's \<Rightarrow> (fault + 's) option) \<Rightarrow> 'i list \<Rightarrow> 's \<Rightarrow> (fault + 's) option" where
  "foldD f [] s = Some (Inr s)"
| "foldD f (i # is) s = bindD (f i s) (\<lambda>s. foldD f is s)"

lemma foldD_append: "foldD f (xs @ ys) s = bindD (foldD f xs s) (\<lambda>s. foldD f ys s)"
proof (induction xs arbitrary: s)
  case (Cons x xs)
  then show ?case by (cases "f x s" rule: option.exhaust) (auto simp: bindD_def split: sum.splits)
qed simp

lemma foldD_upt:
  assumes "P 0 s" "\<And>k s. k < n \<Longrightarrow> P k s \<Longrightarrow> \<exists>s'. f k s = Some (Inr s') \<and> P (Suc k) s'"
  shows "\<exists>s'. foldD f [0..<n] s = Some (Inr s') \<and> P n s'"
  using assms
proof (induction n)
  case (Suc n)
  then obtain s1 where "foldD f [0..<n] s = Some (Inr s1)" "P n s1"
    by (meson less_Suc_eq)
  with Suc.prems(2) [of n s1] show ?case by (auto simp: foldD_append)
qed simp

lemma foldD_inv:
  assumes "foldD f xs s = Some (Inr s')" "P s" "\<And>i s s'. P s \<Longrightarrow> f i s = Some (Inr s') \<Longrightarrow> P s'"
  shows "P s'"
  using assms(1,2)
  by (induction xs arbitrary: s) (auto simp: bindD_eq_Some_Inr dest: assms(3))

end
