(* ===== verification/C_Strings.thy ===== *)
theory C_Strings
  imports RT_Prelude
begin

section \<open>C strings in fixed-size buffers\<close>

text \<open>
  The records of the shared memory hold \<open>char[N]\<close> arrays. A buffer is modelled as the list of
  its \<open>N\<close> characters, so that \<open>strcpy\<close> past its end and a read that finds no terminating zero
  are faults of the model. A C string passed as an argument (or obtained by reading a buffer) is
  the list of its characters without the terminating zero.
  The second part is the linear name search that the event counters, the trace formats, the
  profilers and the groups all use to find an entry that exists already.
\<close>

abbreviation NUL :: char where "NUL \<equiv> CHR 0x00"

type_synonym cbuf = "char list"

definition terminated :: "cbuf \<Rightarrow> bool" where
  "terminated b \<longleftrightarrow> NUL \<in> set b"

text \<open>The characters up to the first zero, and the checked read that needs one.\<close>

definition str_of :: "cbuf \<Rightarrow> string" where
  "str_of b = takeWhile (\<lambda>c. c \<noteq> NUL) b"

definition c_str :: "cbuf \<Rightarrow> fault + string" where
  "c_str b = (if terminated b then Inr (str_of b) else Inl MemFault)"

definition strcpy :: "cbuf \<Rightarrow> string \<Rightarrow> fault + cbuf" where
  "strcpy dst s =
     (if length s < length dst then Inr (s @ NUL # drop (Suc (length s)) dst) else Inl MemFault)"

definition strncpy :: "cbuf \<Rightarrow> string \<Rightarrow> nat \<Rightarrow> fault + cbuf" where
  "strncpy dst s n =
     (if n \<le> length dst then Inr (take n (s @ replicate n NUL) @ drop n dst) else Inl MemFault)"

text \<open>\<open>strcmp(b, s) == 0\<close>: compares up to the first difference or the common end.\<close>

fun strcmp_eq :: "cbuf \<Rightarrow> string \<Rightarrow> fault + bool" where
  "strcmp_eq [] s = Inl MemFault"
| "strcmp_eq (c # cs) [] = Inr (c = NUL)"
| "strcmp_eq (c # cs) (d # ds) =
     (if c = NUL then Inr False else if c = d then strcmp_eq cs ds else Inr False)"

text \<open>\<open>b[0] = 0\<close>\<close>

definition clear_str :: "cbuf \<Rightarrow> cbuf" where
  "clear_str b = b[0 := NUL]"

subsection \<open>Facts about the string operations\<close>

definition c_string :: "string \<Rightarrow> bool" where
  "c_string s \<longleftrightarrow> NUL \<notin> set s"

text \<open>A string that can be stored: a C string that leaves room for its terminator.\<close>

definition fits :: "nat \<Rightarrow> string \<Rightarrow> bool" where
  "fits l s \<longleftrightarrow> c_string s \<and> length s < l"

lemma str_of_append_NUL [simp]: "c_string s \<Longrightarrow> str_of (s @ NUL # r) = s"
  by (auto simp: str_of_def c_string_def takeWhile_tail)

lemma terminated_append_NUL [simp]: "terminated (s @ NUL # r)"
  by (simp add: terminated_def)

lemma c_string_str_of [simp]: "c_string (str_of b)"
  by (auto simp: c_string_def str_of_def dest: set_takeWhileD)

lemma length_str_of: "terminated b \<Longrightarrow> length (str_of b) < length b"
proof (induction b)
  case (Cons c b)
  then show ?case by (auto simp: terminated_def str_of_def)
qed (simp add: terminated_def)

lemma length_str_of_le: "length (str_of b) \<le> length b"
  by (simp add: str_of_def length_takeWhile_le)

lemma c_str_terminated [simp]: "terminated b \<Longrightarrow> c_str b = Inr (str_of b)"
  by (simp add: c_str_def)

lemma strcpy_ok:
  assumes "length s < length dst" "c_string s"
  obtains b where "strcpy dst s = Inr b" "length b = length dst" "terminated b" "str_of b = s"
  using assms by (simp add: strcpy_def)

lemma strcpy_fits:
  assumes "fits n s" "length dst = n"
  shows "\<exists>b. strcpy dst s = Inr b \<and> length b = n \<and> terminated b \<and> str_of b = s"
  using assms strcpy_ok [of s dst] by (auto simp: fits_def)

lemma strcpy_eq_Inr_iff: "strcpy dst s = Inr b \<longleftrightarrow>
    length s < length dst \<and> b = s @ NUL # drop (Suc (length s)) dst"
  by (auto simp: strcpy_def)

lemma strcpy_overflow: "length dst \<le> length s \<Longrightarrow> strcpy dst s = Inl MemFault"
  by (simp add: strcpy_def)

lemma strncpy_ok:
  assumes "length s < n" "n \<le> length dst" "c_string s"
  obtains b where "strncpy dst s n = Inr b" "length b = length dst" "terminated b" "str_of b = s"
proof
  let ?b = "s @ NUL # (replicate (n - Suc (length s)) NUL @ drop n dst)"
  have "n - length s = Suc (n - Suc (length s))" using assms(1) by simp
  then have "replicate (n - length s) NUL = NUL # replicate (n - Suc (length s)) NUL"
    by (metis replicate_Suc)
  then show "strncpy dst s n = Inr ?b"
    using assms by (simp add: strncpy_def min_absorb1 less_imp_le)
  show "length ?b = length dst" using assms by simp
  show "terminated ?b" by simp
  show "str_of ?b = s" using assms(3) by (rule str_of_append_NUL)
qed

lemma strncpy_truncates:
  assumes "n \<le> length s" "n \<le> length dst"
  shows "strncpy dst s n = Inr (take n s @ drop n dst)"
  using assms by (simp add: strncpy_def)

lemma strcmp_eq_terminated:
  "terminated b \<Longrightarrow> c_string s \<Longrightarrow> strcmp_eq b s = Inr (str_of b = s)"
  by (induction b s rule: strcmp_eq.induct) (auto simp: terminated_def c_string_def str_of_def)

lemma length_clear_str [simp]: "length (clear_str b) = length b"
  by (simp add: clear_str_def)

lemma terminated_clear_str [simp]: "b \<noteq> [] \<Longrightarrow> terminated (clear_str b)"
  by (cases b) (auto simp: clear_str_def terminated_def)

lemma str_of_clear_str [simp]: "b \<noteq> [] \<Longrightarrow> str_of (clear_str b) = []"
  by (cases b) (auto simp: clear_str_def str_of_def)

subsection \<open>Linear search for a name\<close>

text \<open>
  The loop \<open>for(i = 0; i < num; i++) if(strcmp(x[i].name, nm) == 0) return i;\<close> over the names
  stored in an array. An index outside the array is a fault.
\<close>

function scan_names :: "cbuf list \<Rightarrow> string \<Rightarrow> nat \<Rightarrow> nat \<Rightarrow> fault + nat option" where
  "scan_names bufs nm i num =
     (if i < num then
        (if i < length bufs then
           bindE (strcmp_eq (bufs ! i) nm)
             (\<lambda>eq. if eq then Inr (Some i) else scan_names bufs nm (Suc i) num)
         else Inl MemFault)
      else Inr None)"
  by pat_completeness auto
termination
  by (relation "measure (\<lambda>(bufs, nm, i, num). num - i)") auto

declare scan_names.simps [simp del]

text \<open>The first position of an element in a list.\<close>

fun first_pos :: "'a \<Rightarrow> 'a list \<Rightarrow> nat option" where
  "first_pos x [] = None"
| "first_pos x (y # ys) = (if y = x then Some 0 else map_option Suc (first_pos x ys))"

lemma first_pos_None_iff: "first_pos x xs = None \<longleftrightarrow> x \<notin> set xs"
  by (induction xs) auto

lemma first_pos_notin [simp]: "x \<notin> set xs \<Longrightarrow> first_pos x xs = None"
  by (simp add: first_pos_None_iff)

lemma first_pos_SomeD: "first_pos x xs = Some i \<Longrightarrow> i < length xs \<and> xs ! i = x"
  by (induction xs arbitrary: i) (auto split: if_splits)

lemma first_pos_first: "first_pos x xs = Some i \<Longrightarrow> j < i \<Longrightarrow> xs ! j \<noteq> x"
  by (induction xs arbitrary: i j) (auto split: if_splits simp: nth_Cons split: nat.splits)

lemma first_pos_append_hit: "x \<in> set xs \<Longrightarrow> first_pos x (xs @ ys) = first_pos x xs"
  by (induction xs) auto

lemma first_pos_append_miss:
  "x \<notin> set xs \<Longrightarrow> first_pos x (xs @ ys) = map_option (\<lambda>i. length xs + i) (first_pos x ys)"
proof (cases "first_pos x ys")
  case None
  moreover assume "x \<notin> set xs"
  ultimately have "x \<notin> set (xs @ ys)" by (simp add: first_pos_None_iff)
  with None show ?thesis by simp
next
  case (Some k)
  assume "x \<notin> set xs"
  with Some show ?thesis by (induction xs) auto
qed

lemma first_pos_distinct:
  "distinct xs \<Longrightarrow> i < length xs \<Longrightarrow> first_pos (xs ! i) xs = Some i"
  by (induction xs arbitrary: i) (auto simp: nth_Cons split: nat.splits)

lemma scan_names_spec:
  assumes "num \<le> length bufs" "\<And>j. i \<le> j \<Longrightarrow> j < num \<Longrightarrow> terminated (bufs ! j)" "c_string nm"
  shows "scan_names bufs nm i num =
    Inr (map_option (\<lambda>k. i + k) (first_pos nm (map str_of (drop i (take num bufs)))))"
  using assms
proof (induction bufs nm i num rule: scan_names.induct)
  case (1 bufs nm i num)
  show ?case
  proof (cases "i < num")
    case True
    with 1 have "drop i (take num bufs) = bufs ! i # drop (Suc i) (take num bufs)"
      by (simp add: Cons_nth_drop_Suc [symmetric])
    moreover have "strcmp_eq (bufs ! i) nm = Inr (str_of (bufs ! i) = nm)"
      using 1 True by (simp add: strcmp_eq_terminated)
    moreover have "i < length bufs" using 1 True by simp
    ultimately show ?thesis
      using 1 True by (simp add: scan_names.simps [of bufs nm i num] option.map_comp comp_def)
  next
    case False
    then show ?thesis by (simp add: scan_names.simps [of bufs nm i num])
  qed
qed

lemma scan_names_0:
  assumes "num \<le> length bufs" "\<forall>b \<in> set (take num bufs). terminated b" "c_string nm"
  shows "scan_names bufs nm 0 num = Inr (first_pos nm (map str_of (take num bufs)))"
proof -
  have "terminated (bufs ! j)" if "j < num" for j
    using assms(1,2) that by (metis in_set_conv_nth length_take min.absorb2 nth_take)
  then show ?thesis
    using scan_names_spec [of num bufs 0 nm] assms by (simp add: option.map_ident)
qed

end
