(* ===== verification/Mem_Layout.thy ===== *)
theory Mem_Layout
  imports RT_Prelude
begin

section \<open>The size and alignment macros of \<open>i_osa_api.h\<close>\<close>

text \<open>
  The macros are given at the width at which the memory areas use them: \<open>ALIGN_SIZE\<close> and
  \<open>ADD_SIZE_FOR_MEM_ALIGN\<close> at \<open>uint32_t\<close>, \<open>ALIGN_POINTER\<close> and the fixed alignments at
  \<open>uint64_t\<close>. They wrap as the code does.
\<close>

definition ALIGN_SIZE :: "u32 \<Rightarrow> u32 \<Rightarrow> u32" where
  "ALIGN_SIZE x a = (x + a - 1) AND NOT (a - 1)"

definition ADD_SIZE_FOR_MEM_ALIGN :: "u32 \<Rightarrow> u32 \<Rightarrow> u32" where
  "ADD_SIZE_FOR_MEM_ALIGN x a = x + a - 1"

definition ALIGN_POINTER :: "u64 \<Rightarrow> u64 \<Rightarrow> u64" where
  "ALIGN_POINTER x a = (x + a - 1) AND NOT (a - 1)"

definition ALIGN_128BIT :: "u64 \<Rightarrow> u64" where "ALIGN_128BIT n = n AND NOT 0xf"
definition INC_128BIT :: "u64 \<Rightarrow> u64" where "INC_128BIT n = n + 0x10"
definition CHECK_ALIGN_128BIT :: "u64 \<Rightarrow> bool" where "CHECK_ALIGN_128BIT n \<longleftrightarrow> n AND 0xc = 0"
definition ALIGN_64BIT :: "u64 \<Rightarrow> u64" where "ALIGN_64BIT n = n AND NOT 0x7"
definition INC_64BIT :: "u64 \<Rightarrow> u64" where "INC_64BIT n = n + 8"
definition CHECK_ALIGN_64BIT :: "u64 \<Rightarrow> bool" where "CHECK_ALIGN_64BIT n \<longleftrightarrow> n AND 0x7 = 0"
definition ALIGN_32BIT :: "u64 \<Rightarrow> u64" where "ALIGN_32BIT n = n AND NOT 0x3"
definition INC_32BIT :: "u64 \<Rightarrow> u64" where "INC_32BIT n = n + 4"
definition CHECK_ALIGN_32BIT :: "u64 \<Rightarrow> bool" where "CHECK_ALIGN_32BIT n \<longleftrightarrow> n AND 0x3 = 0"
definition BITS_TO_BYTES :: "u32 \<Rightarrow> u32" where "BITS_TO_BYTES n = drop_bit 3 (n + 7)"
definition BITS_TO_WORDS :: "u32 \<Rightarrow> u32" where "BITS_TO_WORDS n = drop_bit 5 (n + 31)"
definition ALIGN_TO_4 :: "u32 \<Rightarrow> u32" where "ALIGN_TO_4 n = (n + 3) AND NOT 3"
definition W32_TO_BYTES :: "u32 \<Rightarrow> u32" where "W32_TO_BYTES n = push_bit 2 n"
definition BYTES_TO_W32 :: "u32 \<Rightarrow> u32" where "BYTES_TO_W32 n = drop_bit 2 n"

lemma and_not_mask_unat:
  fixes w :: "'a::len word"
  shows "unat (w AND NOT (mask k)) = unat w div 2 ^ k * 2 ^ k"
proof -
  have "w AND NOT (mask k) = push_bit k (drop_bit k w)"
    by (rule bit_eqI) (auto simp: bit_simps)
  then have *: "unat (w AND NOT (mask k)) =
      take_bit LENGTH('a) (push_bit k (drop_bit k (take_bit LENGTH('a) (unat w))))"
    by (simp only: unsigned_push_bit_eq unsigned_drop_bit_eq)
  have "take_bit LENGTH('a) (unat w) = unat w"
    by (simp add: take_bit_nat_eq_self)
  moreover have "unat w div 2 ^ k * 2 ^ k \<le> unat w" by simp
  then have "unat w div 2 ^ k * 2 ^ k < 2 ^ LENGTH('a)"
    using unsigned_less [of w] by (meson le_less_trans)
  then have "take_bit LENGTH('a) (push_bit k (drop_bit k (unat w))) = unat w div 2 ^ k * 2 ^ k"
    by (simp add: push_bit_eq_mult drop_bit_eq_div take_bit_nat_eq_self)
  ultimately show ?thesis using * by simp
qed

end
