(* ===== verification/Mem_Area.thy ===== *)
theory Mem_Area
  imports C_Strings Mem_Layout
begin

section \<open>Memory areas: \<open>CMemArea\<close> and \<open>StaticMemArea<T, N>\<close>\<close>

text \<open>
  The state and the operations of the two classes of \<open>i_cpp_sys_api.h\<close>, and the spin locks of
  \<open>i_osa_api.h\<close> they use. \<open>chunk_buf\<close> is the memory the chunks live in (the member \<open>buf_\<close> of
  \<open>StaticMemArea\<close>; its length is the template argument \<open>CHUNKS_NUM\<close>) and \<open>elem_size\<close> is
  \<open>sizeof(T)\<close>. Chunks are addressed by the byte, as in the code: \<open>GetReadBufP\<close> and
  \<open>GetWriteBufP\<close> multiply the chunk stride by an index at \<open>uint32_t\<close>, and a load or a store is a
  fault unless its address is the start of an element of \<open>chunk_buf\<close>.
  \<open>StaticMemArea\<close> addresses relative to its own \<open>buf_\<close>, so its pointers are offsets.
  \<open>CMemArea\<close> adds the index to the absolute pointers \<open>ptr_producer_\<close> and \<open>ptr_consumer_\<close>; its
  operations therefore take the address \<open>base\<close> at which \<open>chunk_buf\<close> is mapped in the calling
  process. \<open>memcpy\<close> copies one element; its \<open>data_size\<close> is used for the size assertion only
  (every caller passes the \<open>sizeof\<close> of the element).
\<close>

datatype EAccessT = E_READ | E_WRITE

subsection \<open>Spin locks\<close>

text \<open>A lock is held or free. Locking a held lock in a sequential run never returns.\<close>

type_synonym OSA_spinlock_t = bool

definition OSA_spinlock_create :: "OSA_spinlock_t \<Rightarrow> OSA_spinlock_t" where
  "OSA_spinlock_create l = False"

definition OSA_spinlock_lock :: "OSA_spinlock_t \<Rightarrow> fault + OSA_spinlock_t" where
  "OSA_spinlock_lock l = (if l then Inl Deadlock else Inr True)"

definition OSA_spinlock_trylock :: "OSA_spinlock_t \<Rightarrow> bool \<times> OSA_spinlock_t" where
  "OSA_spinlock_trylock l = (\<not> l, True)"

definition OSA_spinlock_unlock :: "OSA_spinlock_t \<Rightarrow> OSA_spinlock_t" where
  "OSA_spinlock_unlock l = False"

subsection \<open>State\<close>

record 'a mem_area =
  allocated_ptr :: u64
  ptr_producer :: u64
  ptr_consumer :: u64
  number_chunks :: u32
  single_chunk_size :: u32
  wr_ind :: u32
  rd_ind :: u32
  access_mode :: EAccessT
  attrib :: u32
  in_lock :: OSA_spinlock_t
  out_lock :: OSA_spinlock_t
  area_name :: cbuf
  chunk_buf :: "'a list"
  elem_size :: u32

subsection \<open>Chunk memory\<close>

definition chunk_index :: "nat \<Rightarrow> 'a mem_area \<Rightarrow> fault + nat" where
  "chunk_index off m =
     (let es = unat (elem_size m) in
      if es \<noteq> 0 \<and> off mod es = 0 \<and> off div es < length (chunk_buf m) then Inr (off div es)
      else Inl MemFault)"

definition chunk_load :: "nat \<Rightarrow> 'a mem_area \<Rightarrow> fault + 'a" where
  "chunk_load off m = bindE (chunk_index off m) (\<lambda>k. Inr (chunk_buf m ! k))"

definition chunk_store :: "nat \<Rightarrow> 'a \<Rightarrow> 'a mem_area \<Rightarrow> fault + 'a mem_area" where
  "chunk_store off d m =
     bindE (chunk_index off m) (\<lambda>k. Inr (m\<lparr>chunk_buf := (chunk_buf m)[k := d]\<rparr>))"

subsection \<open>Setup and allocation\<close>

definition e_DEFINE_WITHOUT_ALLOCATE_BIT_NUM :: nat where
  "e_DEFINE_WITHOUT_ALLOCATE_BIT_NUM = 0"
definition e_SHR_CONSUMER :: nat where "e_SHR_CONSUMER = 1"
definition e_SHR_PRODUCER :: nat where "e_SHR_PRODUCER = 2"

definition CMemArea_Setup ::
  "u32 \<Rightarrow> u32 \<Rightarrow> string \<Rightarrow> EAccessT \<Rightarrow> u32 \<Rightarrow> 'a mem_area \<Rightarrow> fault + 'a mem_area" where
  "CMemArea_Setup sz inc_size name acc attr m =
     bindE (strcpy (area_name m) name) (\<lambda>nm.
       Inr (m\<lparr>rd_ind := 0, wr_ind := 1, number_chunks := sz,
              single_chunk_size := ALIGN_SIZE inc_size (of_nat CACHE_ALIGNMENT),
              access_mode := acc, attrib := attr, area_name := nm,
              in_lock := OSA_spinlock_create (in_lock m),
              out_lock := OSA_spinlock_create (out_lock m)\<rparr>))"

text \<open>\<open>(attrib_ >> bit) && 1\<close>: a logical conjunction, so any bit from \<open>bit\<close> up makes it true.\<close>

definition shr_flag :: "u32 \<Rightarrow> nat \<Rightarrow> bool" where
  "shr_flag attr b \<longleftrightarrow> drop_bit b attr \<noteq> 0"

definition shr_roles :: "u32 \<Rightarrow> bool \<times> bool" where
  "shr_roles attr =
     (let consumer = shr_flag attr e_SHR_CONSUMER; producer = shr_flag attr e_SHR_PRODUCER in
      if \<not> producer \<and> \<not> consumer then (True, True) else (producer, consumer))"

text \<open>
  \<open>mem_buf\<close> is the argument (0 is \<open>NULL\<close>); \<open>new_ptr\<close> is what \<open>new char[total_size]\<close> returns.
  \<open>!(attrib_ >> 0) & 0x1\<close> negates before it masks: it holds when no bit at all is set.
\<close>

definition CMemArea_MemAlloc :: "u64 \<Rightarrow> u64 \<Rightarrow> 'a mem_area \<Rightarrow> fault + 'a mem_area" where
  "CMemArea_MemAlloc mem_buf new_ptr m =
     (let total_size = ADD_SIZE_FOR_MEM_ALIGN (single_chunk_size m * number_chunks m)
                         (of_nat CACHE_ALIGNMENT) in
      ASSERT (0 < total_size)
       (if mem_buf = 0 then
          (if drop_bit e_DEFINE_WITHOUT_ALLOCATE_BIT_NUM (attrib m) = 0 then
             ASSERT (new_ptr \<noteq> 0)
               (let p = ALIGN_POINTER new_ptr (of_nat CACHE_ALIGNMENT) in
                Inr (m\<lparr>allocated_ptr := new_ptr, ptr_producer := p, ptr_consumer := p\<rparr>))
           else Inr m)
        else
          (let (producer, consumer) = shr_roles (attrib m) in
           ASSERT (ALIGN_64BIT mem_buf = mem_buf)
             (let m = (if producer then m\<lparr>ptr_producer := mem_buf\<rparr> else m) in
              Inr (if consumer then m\<lparr>ptr_consumer := mem_buf\<rparr> else m)))))"

definition CMemArea_Init :: "'a mem_area \<Rightarrow> 'a mem_area" where
  "CMemArea_Init m = m\<lparr>ptr_producer := 0, ptr_consumer := 0\<rparr>"

definition GetAttrib :: "'a mem_area \<Rightarrow> u32" where "GetAttrib m = attrib m"
definition SetAccess :: "EAccessT \<Rightarrow> 'a mem_area \<Rightarrow> 'a mem_area" where
  "SetAccess a m = m\<lparr>access_mode := a\<rparr>"
definition GetAccess :: "'a mem_area \<Rightarrow> EAccessT" where "GetAccess m = access_mode m"
definition GetDataSize :: "'a mem_area \<Rightarrow> u32" where "GetDataSize m = single_chunk_size m"
definition GetTotalDataSize :: "'a mem_area \<Rightarrow> u32" where
  "GetTotalDataSize m = single_chunk_size m * number_chunks m"

text \<open>
  \<open>StaticMemArea::Setup\<close> ignores the sizes it is given and passes the template's own;
  \<open>StaticMemArea::MemAlloc\<close> passes its \<open>buf_\<close>, which the calling process sees at \<open>base\<close>.
\<close>

definition StaticMemArea_Setup ::
  "u32 \<Rightarrow> u32 \<Rightarrow> string \<Rightarrow> EAccessT \<Rightarrow> u32 \<Rightarrow> 'a mem_area \<Rightarrow> fault + 'a mem_area" where
  "StaticMemArea_Setup sz inc_size name acc attr m =
     CMemArea_Setup (of_nat (length (chunk_buf m))) (elem_size m) name acc attr m"

definition StaticMemArea_MemAlloc :: "u64 \<Rightarrow> 'a mem_area \<Rightarrow> fault + 'a mem_area" where
  "StaticMemArea_MemAlloc base m = CMemArea_MemAlloc base 0 m"

subsection \<open>Read and write positions\<close>

definition CMemArea_GetReadBufP :: "'a mem_area \<Rightarrow> u64" where
  "CMemArea_GetReadBufP m = ptr_consumer m + ucast (single_chunk_size m * rd_ind m)"

definition CMemArea_GetWriteBufP :: "'a mem_area \<Rightarrow> u64" where
  "CMemArea_GetWriteBufP m = ptr_producer m + ucast (single_chunk_size m * wr_ind m)"

definition StaticMemArea_GetReadBufP :: "'a mem_area \<Rightarrow> u32" where
  "StaticMemArea_GetReadBufP m = single_chunk_size m * rd_ind m"

definition StaticMemArea_GetWriteBufP :: "'a mem_area \<Rightarrow> u32" where
  "StaticMemArea_GetWriteBufP m = single_chunk_size m * wr_ind m"

text \<open>\<open>(i + 1) % number_chunks_\<close>\<close>

definition next_ind :: "u32 \<Rightarrow> u32 \<Rightarrow> fault + u32" where
  "next_ind i n = (if n = 0 then Inl DivByZero else Inr ((i + 1) mod n))"

subsection \<open>The single-threaded FIFO and the double buffer\<close>

definition CMemArea_PushFIFO :: "'a mem_area \<Rightarrow> fault + (u64 option \<times> 'a mem_area)" where
  "CMemArea_PushFIFO m =
     bindE (next_ind (wr_ind m) (number_chunks m)) (\<lambda>tmp.
       if tmp = rd_ind m then Inr (None, m)
       else let m = m\<lparr>wr_ind := tmp\<rparr> in Inr (Some (CMemArea_GetWriteBufP m), m))"

definition CMemArea_PopFIFO :: "'a mem_area \<Rightarrow> fault + (u64 option \<times> 'a mem_area)" where
  "CMemArea_PopFIFO m =
     bindE (next_ind (rd_ind m) (number_chunks m)) (\<lambda>tmp.
       if tmp = wr_ind m then Inr (None, m)
       else let m = m\<lparr>rd_ind := tmp\<rparr> in Inr (Some (CMemArea_GetReadBufP m), m))"

definition CMemArea_DualBufSwap :: "'a mem_area \<Rightarrow> fault + 'a mem_area" where
  "CMemArea_DualBufSwap m =
     bindE (CMemArea_PushFIFO m) (\<lambda>(_, m). bindE (CMemArea_PopFIFO m) (\<lambda>(_, m). Inr m))"

subsection \<open>The chunk pool\<close>

text \<open>The result is the address of the chunk: absolute, or relative to \<open>buf_\<close>.\<close>

definition CMemArea_AllocPoolChunk :: "'a mem_area \<Rightarrow> fault + (u64 \<times> 'a mem_area)" where
  "CMemArea_AllocPoolChunk m =
     bindE (OSA_spinlock_lock (out_lock m)) (\<lambda>l. let m = m\<lparr>out_lock := l\<rparr> in
     bindE (next_ind (wr_ind m) (number_chunks m)) (\<lambda>w. let m = m\<lparr>wr_ind := w\<rparr> in
       Inr (CMemArea_GetWriteBufP m, m\<lparr>out_lock := OSA_spinlock_unlock (out_lock m)\<rparr>)))"

definition StaticMemArea_AllocPoolChunk :: "'a mem_area \<Rightarrow> fault + (u32 \<times> 'a mem_area)" where
  "StaticMemArea_AllocPoolChunk m =
     bindE (OSA_spinlock_lock (out_lock m)) (\<lambda>l. let m = m\<lparr>out_lock := l\<rparr> in
     bindE (next_ind (wr_ind m) (number_chunks m)) (\<lambda>w. let m = m\<lparr>wr_ind := w\<rparr> in
       Inr (StaticMemArea_GetWriteBufP m, m\<lparr>out_lock := OSA_spinlock_unlock (out_lock m)\<rparr>)))"

definition CMemArea_GetPrevChunk :: "u32 \<Rightarrow> 'a mem_area \<Rightarrow> fault + u64" where
  "CMemArea_GetPrevChunk prev_idx m =
     (let (producer, consumer) = shr_roles (attrib m);
          p = (if producer then ptr_producer m else ptr_consumer m) in
      ASSERT (prev_idx < number_chunks m)
       (if single_chunk_size m = 0 then Inl DivByZero
        else let prev_abs_indx = (number_chunks m + wr_ind m - prev_idx) mod single_chunk_size m
             in Inr (p + ucast (single_chunk_size m * prev_abs_indx))))"

definition GetEntry :: "u32 \<Rightarrow> 'a mem_area \<Rightarrow> fault + 'a" where
  "GetEntry num m = ASSERT (unat num < length (chunk_buf m)) (Inr (chunk_buf m ! unat num))"

text \<open>An assignment through the pointer that \<open>GetEntry\<close> returns.\<close>

definition GetEntry_assign :: "u32 \<Rightarrow> ('a \<Rightarrow> 'a) \<Rightarrow> 'a mem_area \<Rightarrow> fault + 'a mem_area" where
  "GetEntry_assign num f m =
     bindE (GetEntry num m) (\<lambda>e. Inr (m\<lparr>chunk_buf := (chunk_buf m)[unat num := f e]\<rparr>))"

subsection \<open>The multi-threaded FIFO\<close>

text \<open>
  \<open>CMemArea\<close> and \<open>StaticMemArea\<close> have the same two bodies over their own \<open>GetWriteBufP\<close> and
  \<open>GetReadBufP\<close>; \<open>wr_off\<close> and \<open>rd_off\<close> give the byte offset of that address in \<open>chunk_buf\<close>.
\<close>

definition push_mt ::
  "('a mem_area \<Rightarrow> nat) \<Rightarrow> 'a \<Rightarrow> u32 \<Rightarrow> 'a mem_area \<Rightarrow> fault + (EResultT \<times> 'a mem_area)" where
  "push_mt wr_off d data_size m =
     bindE (OSA_spinlock_lock (in_lock m)) (\<lambda>l. let m = m\<lparr>in_lock := l\<rparr> in
     bindE (next_ind (wr_ind m) (number_chunks m)) (\<lambda>tmp.
     bindE (if tmp = rd_ind m then Inr (E_FAIL, m)
            else ASSERT (data_size \<le> single_chunk_size m)
                   (bindE (chunk_store (wr_off m) d m) (\<lambda>m. Inr (E_OK, m\<lparr>wr_ind := tmp\<rparr>))))
       (\<lambda>(res, m). Inr (res, m\<lparr>in_lock := OSA_spinlock_unlock (in_lock m)\<rparr>))))"

definition pop_mt ::
  "('a mem_area \<Rightarrow> nat) \<Rightarrow> u32 \<Rightarrow> 'a mem_area \<Rightarrow> fault + ('a option \<times> 'a mem_area)" where
  "pop_mt rd_off data_size m =
     bindE (OSA_spinlock_lock (out_lock m)) (\<lambda>l. let m = m\<lparr>out_lock := l\<rparr> in
     bindE (next_ind (rd_ind m) (number_chunks m)) (\<lambda>tmp.
     bindE (if tmp \<noteq> wr_ind m then
              let m = m\<lparr>rd_ind := tmp\<rparr> in
              ASSERT (data_size \<le> single_chunk_size m)
                (bindE (chunk_load (rd_off m) m) (\<lambda>d. Inr (Some d, m)))
            else Inr (None, m))
       (\<lambda>(res, m). Inr (res, m\<lparr>out_lock := OSA_spinlock_unlock (out_lock m)\<rparr>))))"

definition StaticMemArea_PushFIFO_MT ::
  "'a \<Rightarrow> u32 \<Rightarrow> 'a mem_area \<Rightarrow> fault + (EResultT \<times> 'a mem_area)" where
  "StaticMemArea_PushFIFO_MT = push_mt (\<lambda>m. unat (StaticMemArea_GetWriteBufP m))"

definition StaticMemArea_PopFIFO_MT ::
  "u32 \<Rightarrow> 'a mem_area \<Rightarrow> fault + ('a option \<times> 'a mem_area)" where
  "StaticMemArea_PopFIFO_MT = pop_mt (\<lambda>m. unat (StaticMemArea_GetReadBufP m))"

definition CMemArea_PushFIFO_MT ::
  "u64 \<Rightarrow> 'a \<Rightarrow> u32 \<Rightarrow> 'a mem_area \<Rightarrow> fault + (EResultT \<times> 'a mem_area)" where
  "CMemArea_PushFIFO_MT base = push_mt (\<lambda>m. unat (CMemArea_GetWriteBufP m - base))"

definition CMemArea_PopFIFO_MT ::
  "u64 \<Rightarrow> u32 \<Rightarrow> 'a mem_area \<Rightarrow> fault + ('a option \<times> 'a mem_area)" where
  "CMemArea_PopFIFO_MT base = pop_mt (\<lambda>m. unat (CMemArea_GetReadBufP m - base))"

end
