(* ===== verification/Fifo_Contract.thy ===== *)
theory Fifo_Contract
  imports RT_Prelude
begin

section \<open>The FIFO contract of a memory area\<close>

text \<open>
  The abstract specification of \<open>PushFIFO_MT\<close> and \<open>PopFIFO_MT\<close>, a bounded queue given by the
  list of its elements, as the locale \<open>bounded_fifo\<close>, and the lemmas that the loggers and the
  profilers need of it: the loop that drops the oldest element until a push succeeds, the loop
  that drains the queue, a run of any mix of operations. \<open>Area_Fifo\<close> proves that the memory
  areas meet the contract.
\<close>

subsection \<open>The interface\<close>

text \<open>The last \<open>k\<close> elements of a list.\<close>

definition keep_last :: "nat \<Rightarrow> 'a list \<Rightarrow> 'a list" where
  "keep_last k xs = drop (length xs - k) xs"

lemma keep_last_short [simp]: "length xs \<le> k \<Longrightarrow> keep_last k xs = xs"
  by (simp add: keep_last_def)

lemma length_keep_last [simp]: "length (keep_last k xs) = min k (length xs)"
  by (simp add: keep_last_def)

lemma keep_last_append: "keep_last k (keep_last k xs @ ys) = keep_last k (xs @ ys)"
  by (cases "length xs \<le> k") (auto simp: keep_last_def add.commute)

lemma keep_last_snoc:
  "0 < k \<Longrightarrow> length xs = k \<Longrightarrow> keep_last k (xs @ [d]) = tl xs @ [d]"
  by (cases xs) (auto simp: keep_last_def add.commute)

lemma set_keep_last: "set (keep_last n xs) \<subseteq> set xs"
  by (simp add: keep_last_def set_drop_subset)

lemma keep_last_map: "keep_last n (map f xs) = map f (keep_last n xs)"
  by (simp add: keep_last_def drop_map)

text \<open>The loop \<open>while(Push(d) == E_FAIL) Pop(dummy);\<close>: \<open>None\<close> is a loop that never ends.\<close>

partial_function (option) push_evict ::
  "('a \<Rightarrow> 's \<Rightarrow> fault + (EResultT \<times> 's)) \<Rightarrow> ('s \<Rightarrow> fault + ('a option \<times> 's)) \<Rightarrow>
   'a \<Rightarrow> 's \<Rightarrow> (fault + 's) option" where
  "push_evict push pop d s =
     (case push d s of
        Inl f \<Rightarrow> Some (Inl f)
      | Inr (res, s1) \<Rightarrow>
          if res = E_OK then Some (Inr s1)
          else (case pop s1 of
                  Inl f \<Rightarrow> Some (Inl f)
                | Inr (x, s2) \<Rightarrow> push_evict push pop d s2))"

text \<open>The loop \<open>while(Pop(&x) != NULL) acc = f(x, acc);\<close>\<close>

partial_function (option) pop_all ::
  "('s \<Rightarrow> fault + ('a option \<times> 's)) \<Rightarrow> ('a \<Rightarrow> 'b \<Rightarrow> 'b) \<Rightarrow> 'b \<Rightarrow> 's \<Rightarrow> (fault + ('b \<times> 's)) option" where
  "pop_all pop f acc s =
     (case pop s of
        Inl e \<Rightarrow> Some (Inl e)
      | Inr (None, s1) \<Rightarrow> Some (Inr (acc, s1))
      | Inr (Some x, s1) \<Rightarrow> pop_all pop f (f x acc) s1)"

text \<open>What every pop preserves, the loop preserves.\<close>

lemma pop_all_inv:
  fixes pop :: "'s \<Rightarrow> fault + ('a option \<times> 's)" and r :: 'b
  assumes "pop_all pop f acc s = Some (Inr (r, s'))" "P s"
    and step: "\<And>s x s1. P s \<Longrightarrow> pop s = Inr (x, s1) \<Longrightarrow> P s1"
  shows "P s'"
proof -
  define keeps where "keeps pop \<longleftrightarrow> (\<forall>s x s1. P s \<longrightarrow> pop s = Inr (x, s1) \<longrightarrow> P s1)"
    for pop :: "'s \<Rightarrow> fault + ('a option \<times> 's)"
  define good where "good y \<longleftrightarrow> (case y of Inl _ \<Rightarrow> True | Inr (r, s') \<Rightarrow> P s')" for y :: "fault + ('b \<times> 's)"
  have "keeps pop \<longrightarrow> P s \<longrightarrow> good (Inr (r, s'))"
  proof (rule pop_all.raw_induct [where P = "\<lambda>pop _ _ s y. keeps pop \<longrightarrow> P s \<longrightarrow> good y", OF _ assms(1)], intro impI)
    fix loop and pop :: "'s \<Rightarrow> fault + ('a option \<times> 's)" and f :: "'a \<Rightarrow> 'b \<Rightarrow> 'b" and acc s y
    assume IH: "\<And>pop f acc s y. loop pop f acc s = Some y \<Longrightarrow> keeps pop \<longrightarrow> P s \<longrightarrow> good y"
      and body: "(case pop s of Inl e \<Rightarrow> Some (Inl e) | Inr (None, s1) \<Rightarrow> Some (Inr (acc, s1))
        | Inr (Some x, s1) \<Rightarrow> loop pop f (f x acc) s1) = Some y"
      and k: "keeps pop" and p: "P s"
    have next_ok: "P s1" if "pop s = Inr (x, s1)" for x s1
      using that k p unfolding keeps_def by blast
    show "good y"
    proof (cases "pop s")
      case (Inr a)
      then obtain x s1 where a: "pop s = Inr (x, s1)" by (cases a) auto
      show ?thesis
      proof (cases x)
        case (Some d)
        with a body have "loop pop f (f d acc) s1 = Some y" by simp
        from IH [OF this] k next_ok [OF a] show ?thesis by blast
      qed (use body a next_ok [OF a] in \<open>auto simp: good_def\<close>)
    qed (use body in \<open>auto simp: good_def\<close>)
  qed
  with assms(2) step show ?thesis by (simp add: good_def keeps_def)
qed

text \<open>A run of operations, and what a bounded queue answers to it.\<close>

datatype 'a fifo_op = Push 'a | Pop
datatype 'a fifo_ans = Pushed EResultT | Popped "'a option"

fun run_ops ::
  "('a \<Rightarrow> 's \<Rightarrow> fault + (EResultT \<times> 's)) \<Rightarrow> ('s \<Rightarrow> fault + ('a option \<times> 's)) \<Rightarrow>
   'a fifo_op list \<Rightarrow> 's \<Rightarrow> fault + ('a fifo_ans list \<times> 's)" where
  "run_ops push pop [] s = Inr ([], s)"
| "run_ops push pop (Push d # ops) s =
     bindE (push d s) (\<lambda>(r, s1).
       bindE (run_ops push pop ops s1) (\<lambda>(rs, s2). Inr (Pushed r # rs, s2)))"
| "run_ops push pop (Pop # ops) s =
     bindE (pop s) (\<lambda>(r, s1).
       bindE (run_ops push pop ops s1) (\<lambda>(rs, s2). Inr (Popped r # rs, s2)))"

fun spec_ops :: "nat \<Rightarrow> 'a fifo_op list \<Rightarrow> 'a list \<Rightarrow> 'a fifo_ans list \<times> 'a list" where
  "spec_ops cap [] q = ([], q)"
| "spec_ops cap (Push d # ops) q =
     (if length q < cap then apfst ((#) (Pushed E_OK)) (spec_ops cap ops (q @ [d]))
      else apfst ((#) (Pushed E_FAIL)) (spec_ops cap ops q))"
| "spec_ops cap (Pop # ops) [] = apfst ((#) (Popped None)) (spec_ops cap ops [])"
| "spec_ops cap (Pop # ops) (x # q) = apfst ((#) (Popped (Some x))) (spec_ops cap ops q)"

locale bounded_fifo =
  fixes push :: "'a \<Rightarrow> 's \<Rightarrow> fault + (EResultT \<times> 's)"
    and pop :: "'s \<Rightarrow> fault + ('a option \<times> 's)"
    and contents :: "'s \<Rightarrow> 'a list"
    and cap :: "'s \<Rightarrow> nat"
    and frame :: "'s \<Rightarrow> 'f"
    and invar :: "'s \<Rightarrow> bool"
  assumes len_cap: "invar s \<Longrightarrow> length (contents s) \<le> cap s"
    and push_room: "invar s \<Longrightarrow> length (contents s) < cap s \<Longrightarrow>
      \<exists>s'. push d s = Inr (E_OK, s') \<and> invar s' \<and> contents s' = contents s @ [d] \<and>
           cap s' = cap s \<and> frame s' = frame s"
    and push_full: "invar s \<Longrightarrow> length (contents s) = cap s \<Longrightarrow> push d s = Inr (E_FAIL, s)"
    and pop_empty: "invar s \<Longrightarrow> contents s = [] \<Longrightarrow> pop s = Inr (None, s)"
    and pop_item: "invar s \<Longrightarrow> contents s = x # q \<Longrightarrow>
      \<exists>s'. pop s = Inr (Some x, s') \<and> invar s' \<and> contents s' = q \<and>
           cap s' = cap s \<and> frame s' = frame s"
begin

lemma evict_spec:
  assumes "invar s" "0 < cap s"
  shows "\<exists>s'. push_evict push pop d s = Some (Inr s') \<and> invar s' \<and>
    contents s' = keep_last (cap s) (contents s @ [d]) \<and> cap s' = cap s \<and> frame s' = frame s"
proof (cases "length (contents s) < cap s")
  case True
  from push_room [OF assms(1) this] obtain s1 where "push d s = Inr (E_OK, s1)" "invar s1"
      "contents s1 = contents s @ [d]" "cap s1 = cap s" "frame s1 = frame s" by blast
  with True show ?thesis by (simp add: push_evict.simps [of push pop d s])
next
  case False
  with len_cap assms have full: "length (contents s) = cap s" by fastforce
  with assms obtain x q where q: "contents s = x # q" by (cases "contents s") auto
  obtain s1 where s1: "pop s = Inr (Some x, s1)" "invar s1" "contents s1 = q"
      "cap s1 = cap s" "frame s1 = frame s"
    using pop_item [OF assms(1) q] by blast
  then have "length (contents s1) < cap s1" using full q by simp
  from push_room [OF s1(2) this] obtain s2 where "push d s1 = Inr (E_OK, s2)" "invar s2"
      "contents s2 = q @ [d]" "cap s2 = cap s" "frame s2 = frame s"
    using s1 by metis
  moreover have "keep_last (cap s) (contents s @ [d]) = q @ [d]"
    using full q assms(2) by (simp add: keep_last_snoc del: append_Cons)
  ultimately show ?thesis
    using s1 push_full [OF assms(1) full]
    by (simp add: push_evict.simps [of push pop d s] push_evict.simps [of push pop d s1])
qed

lemma pop_all_spec:
  assumes "invar s"
  shows "\<exists>s'. pop_all pop f acc s = Some (Inr (fold f (contents s) acc, s')) \<and> invar s' \<and>
    contents s' = [] \<and> cap s' = cap s \<and> frame s' = frame s"
  using assms
proof (induction "contents s" arbitrary: s acc)
  case Nil
  then show ?case using pop_empty [of s] by (simp add: pop_all.simps [of pop f acc s])
next
  case (Cons x q)
  from pop_item [OF Cons.prems Cons.hyps(2) [symmetric]] obtain s1 where
    s1: "pop s = Inr (Some x, s1)" "invar s1" "contents s1 = q" "cap s1 = cap s"
      "frame s1 = frame s" by blast
  from Cons.hyps(1) [of s1 "f x acc"] s1 show ?case
    by (simp add: pop_all.simps [of pop f acc s] Cons.hyps(2) [symmetric])
qed

lemma run_ops_spec:
  assumes "invar s"
  shows "\<exists>s'. run_ops push pop ops s = Inr (fst (spec_ops (cap s) ops (contents s)), s') \<and>
    contents s' = snd (spec_ops (cap s) ops (contents s)) \<and> invar s' \<and> frame s' = frame s"
  using assms
proof (induction ops arbitrary: s)
  case (Cons op ops)
  show ?case
  proof (cases op)
    case (Push d)
    show ?thesis
    proof (cases "length (contents s) < cap s")
      case True
      with push_room [OF Cons.prems this] obtain s1 where
        "push d s = Inr (E_OK, s1)" "invar s1" "contents s1 = contents s @ [d]"
        "cap s1 = cap s" "frame s1 = frame s" by blast
      with Cons.IH [of s1] Push True show ?thesis by (auto simp: apfst_def map_prod_def split: prod.splits)
    next
      case False
      with len_cap [OF Cons.prems] have "push d s = Inr (E_FAIL, s)"
        by (intro push_full Cons.prems) simp
      with Cons.IH [of s] Cons.prems Push False show ?thesis by (auto simp: apfst_def map_prod_def split: prod.splits)
    qed
  next
    case Pop
    show ?thesis
    proof (cases "contents s")
      case Nil
      with Cons.IH [of s] Cons.prems Pop pop_empty [of s] show ?thesis by (auto simp: apfst_def map_prod_def split: prod.splits)
    next
      case (Cons x q)
      with pop_item [OF \<open>invar s\<close> this] obtain s1 where
        "pop s = Inr (Some x, s1)" "invar s1" "contents s1 = q" "cap s1 = cap s"
        "frame s1 = frame s" by blast
      with Cons.IH [of s1] Pop Cons show ?thesis by (auto simp: apfst_def map_prod_def split: prod.splits)
    qed
  qed
qed simp

end

end
