(* ===== verification/Area_Fifo.thy ===== *)
theory Area_Fifo
  imports Mem_Area Fifo_Contract
begin

section \<open>The memory areas meet the FIFO contract\<close>

text \<open>
  The well-formedness invariant of a memory area, the list of elements it holds, the effect of
  every queue operation in terms of both, and the interpretations of \<open>bounded_fifo\<close> on the two
  classes. A ring of \<open>n\<close> chunks holds at most \<open>n - 2\<close> elements: \<open>rd_ind_\<close> is the chunk read last,
  and \<open>wr_ind_\<close> the one written next. \<open>CMemArea\<close> meets the contract only while its absolute
  pointers are the addresses of the calling process.
\<close>

subsection \<open>Invariant and abstraction\<close>

text \<open>
  What any use of an area keeps (\<open>pool_wf\<close>), and what its use as a FIFO adds: the two indices
  are never equal.
\<close>

definition pool_wf :: "'a mem_area \<Rightarrow> bool" where
  "pool_wf m \<longleftrightarrow>
     number_chunks m = of_nat (length (chunk_buf m)) \<and> 2 \<le> length (chunk_buf m) \<and>
     0 < elem_size m \<and> unat (elem_size m) * length (chunk_buf m) < 2 ^ 32 \<and>
     single_chunk_size m = elem_size m \<and>
     unat (wr_ind m) < length (chunk_buf m) \<and> unat (rd_ind m) < length (chunk_buf m) \<and>
     \<not> in_lock m \<and> \<not> out_lock m"

definition area_wf :: "'a mem_area \<Rightarrow> bool" where
  "area_wf m \<longleftrightarrow> pool_wf m \<and> wr_ind m \<noteq> rd_ind m"

definition ring_window :: "'a list \<Rightarrow> nat \<Rightarrow> nat \<Rightarrow> 'a list" where
  "ring_window buf r k = map (\<lambda>i. buf ! ((r + 1 + i) mod length buf)) [0..<k]"

definition fifo_contents :: "'a mem_area \<Rightarrow> 'a list" where
  "fifo_contents m =
     ring_window (chunk_buf m) (unat (rd_ind m))
       (gap (length (chunk_buf m)) (unat (rd_ind m)) (unat (wr_ind m)) - 1)"

definition fifo_cap :: "'a mem_area \<Rightarrow> nat" where
  "fifo_cap m = length (chunk_buf m) - 2"

text \<open>What no queue operation touches.\<close>

definition area_frame :: "'a mem_area \<Rightarrow> nat \<times> u32 \<times> u64 \<times> u64 \<times> u32 \<times> cbuf" where
  "area_frame m =
     (length (chunk_buf m), elem_size m, ptr_producer m, ptr_consumer m, attrib m, area_name m)"

text \<open>The absolute pointers are those of a process that maps the buffer at \<open>base\<close>.\<close>

definition area_at :: "u64 \<Rightarrow> 'a mem_area \<Rightarrow> bool" where
  "area_at base m \<longleftrightarrow> ptr_producer m = base \<and> ptr_consumer m = base"

lemma length_ring_window [simp]: "length (ring_window buf r k) = k"
  by (simp add: ring_window_def)

lemma ring_window_0 [simp]: "ring_window buf r 0 = []"
  by (simp add: ring_window_def)

lemma ring_window_Cons:
  "ring_window buf r (Suc k) =
     buf ! ((r + 1) mod length buf) # ring_window buf ((r + 1) mod length buf) k"
proof -
  have "((r + 1) mod length buf + 1 + i) mod length buf = (r + 1 + Suc i) mod length buf" for i
    using mod_add_left_eq [of "r + 1" "length buf" "1 + i"] by (simp add: add.assoc)
  then show ?thesis by (simp add: ring_window_def map_nth_upt_Suc del: upt_Suc)
qed

lemma ring_window_snoc:
  assumes "r < length buf" "k + 1 < length buf"
  shows "ring_window (buf[(r + 1 + k) mod length buf := d]) r (Suc k) = ring_window buf r k @ [d]"
proof -
  let ?n = "length buf"
  have "buf[(r + 1 + k) mod ?n := d] ! ((r + 1 + i) mod ?n) = buf ! ((r + 1 + i) mod ?n)"
    if "i < k" for i
    using add_mod_eq_iff [of r ?n "1 + k" "1 + i"] assms that by (simp add: add.assoc)
  moreover have "buf[(r + 1 + k) mod ?n := d] ! ((r + 1 + k) mod ?n) = d"
    using assms by (intro nth_list_update_eq mod_less_divisor) linarith
  ultimately show ?thesis by (simp add: ring_window_def)
qed

subsection \<open>Facts of a well-formed area\<close>

lemma pool_wf_bounds:
  assumes "pool_wf m"
  shows "length (chunk_buf m) < 2 ^ 32" "unat (number_chunks m) = length (chunk_buf m)"
    "0 < unat (elem_size m)" "number_chunks m \<noteq> 0"
proof -
  have "0 < unat (elem_size m)" using assms by (simp add: pool_wf_def word_less_nat_alt)
  then show "0 < unat (elem_size m)" .
  have "length (chunk_buf m) \<le> unat (elem_size m) * length (chunk_buf m)"
    using \<open>0 < unat (elem_size m)\<close> by simp
  then show l: "length (chunk_buf m) < 2 ^ 32"
    using assms by (auto simp only: pool_wf_def)
  then show u: "unat (number_chunks m) = length (chunk_buf m)"
    using assms by (simp add: pool_wf_def unat_of_nat_u32)
  show "number_chunks m \<noteq> 0" using u assms by (auto simp: pool_wf_def)
qed

lemma next_ind_wf:
  assumes "pool_wf m" "unat i < length (chunk_buf m)"
  shows "next_ind i (number_chunks m) = Inr (of_nat ((unat i + 1) mod length (chunk_buf m)))"
proof -
  have "i < number_chunks m"
    using assms pool_wf_bounds(2) [OF assms(1)] by (simp add: word_less_nat_alt)
  then have "unat ((i + 1) mod number_chunks m) = (unat i + 1) mod length (chunk_buf m)"
    using unat_succ_mod [of i "number_chunks m"] pool_wf_bounds(2) [OF assms(1)] by simp
  then have "(i + 1) mod number_chunks m = of_nat ((unat i + 1) mod length (chunk_buf m))"
    by (rule word32_eq_of_nat)
  with pool_wf_bounds(4) [OF assms(1)] show ?thesis by (simp add: next_ind_def)
qed

lemma unat_of_nat_ind:
  assumes "pool_wf m" "k < length (chunk_buf m)"
  shows "unat (of_nat k :: u32) = k"
  using assms pool_wf_bounds(1) [OF assms(1)] by (intro unat_of_nat_u32) simp

lemma of_nat_ind_eq_iff:
  assumes "pool_wf m" "k < length (chunk_buf m)"
  shows "(of_nat k :: u32) = i \<longleftrightarrow> k = unat i"
  using unat_of_nat_ind [OF assms] by auto

lemma stride_wf:
  assumes "pool_wf m" "unat i < length (chunk_buf m)"
  shows "unat (single_chunk_size m * i) = unat (elem_size m) * unat i"
proof -
  have "unat (elem_size m) * unat i \<le> unat (elem_size m) * length (chunk_buf m)"
    using assms(2) by simp
  also have "\<dots> < 2 ^ 32" using assms(1) by (simp add: pool_wf_def)
  finally show ?thesis using assms(1) by (simp add: pool_wf_def unat_word_ariths)
qed

lemma chunk_index_wf:
  assumes "pool_wf m" "k < length (chunk_buf m)"
  shows "chunk_index (unat (elem_size m) * k) m = Inr k"
  using assms pool_wf_bounds(3) [OF assms(1)] by (simp add: chunk_index_def Let_def)

lemma area_wf_pool: "area_wf m \<Longrightarrow> pool_wf m"
  by (simp add: area_wf_def)

lemma area_wf_apart: "area_wf m \<Longrightarrow> unat (wr_ind m) \<noteq> unat (rd_ind m)"
  by (simp add: area_wf_def word_unat_eq_iff)

lemma release_in_lock: "\<not> in_lock m \<Longrightarrow> m\<lparr>in_lock := False\<rparr> = m"
  by (cases m) simp

lemma release_out_lock: "\<not> out_lock m \<Longrightarrow> m\<lparr>out_lock := False\<rparr> = m"
  by (cases m) simp

subsection \<open>Effect of a push and of a pop\<close>

definition pushed :: "'a \<Rightarrow> 'a mem_area \<Rightarrow> 'a mem_area" where
  "pushed d m = m\<lparr>chunk_buf := (chunk_buf m)[unat (wr_ind m) := d],
     wr_ind := of_nat ((unat (wr_ind m) + 1) mod length (chunk_buf m))\<rparr>"

definition popped :: "'a mem_area \<Rightarrow> 'a mem_area" where
  "popped m = m\<lparr>rd_ind := of_nat ((unat (rd_ind m) + 1) mod length (chunk_buf m))\<rparr>"

lemma push_mt_wf:
  assumes "area_wf m" "ds \<le> elem_size m"
    and off: "wr_off (m\<lparr>in_lock := True\<rparr>) = unat (elem_size m) * unat (wr_ind m)"
  shows "push_mt wr_off d ds m =
    (if (unat (wr_ind m) + 1) mod length (chunk_buf m) = unat (rd_ind m) then Inr (E_FAIL, m)
     else Inr (E_OK, pushed d m))"
proof -
  let ?n = "length (chunk_buf m)" and ?w = "unat (wr_ind m)"
  have wf: "?w < ?n" "2 \<le> ?n" "\<not> in_lock m" "ds \<le> single_chunk_size m"
    using assms(1,2) by (auto simp: area_wf_def pool_wf_def)
  then have "(?w + 1) mod ?n < ?n" by (intro mod_less_divisor) linarith
  then have "(of_nat ((?w + 1) mod ?n) = rd_ind m) = ((?w + 1) mod ?n = unat (rd_ind m))"
    using of_nat_ind_eq_iff [OF area_wf_pool [OF assms(1)]] by blast
  moreover have "chunk_index (unat (elem_size m) * ?w) (m\<lparr>in_lock := True\<rparr>) = Inr ?w"
    using chunk_index_wf [OF area_wf_pool [OF assms(1)] wf(1)] by (simp add: chunk_index_def)
  moreover have "m\<lparr>in_lock := True, chunk_buf := b, wr_ind := w, in_lock := False\<rparr>
      = m\<lparr>chunk_buf := b, wr_ind := w\<rparr>" for b w
    using wf(3) by (cases m) simp
  ultimately show ?thesis
    using wf off next_ind_wf [OF area_wf_pool [OF assms(1)] wf(1)]
    by (simp add: push_mt_def OSA_spinlock_lock_def OSA_spinlock_unlock_def chunk_store_def
        pushed_def release_in_lock)
qed

lemma pop_mt_wf:
  assumes "area_wf m" "ds \<le> elem_size m"
    and off: "\<And>i. unat i < length (chunk_buf m) \<Longrightarrow>
      rd_off (m\<lparr>out_lock := True, rd_ind := i\<rparr>) = unat (elem_size m) * unat i"
  shows "pop_mt rd_off ds m =
    (if (unat (rd_ind m) + 1) mod length (chunk_buf m) = unat (wr_ind m) then Inr (None, m)
     else Inr (Some (chunk_buf m ! ((unat (rd_ind m) + 1) mod length (chunk_buf m))), popped m))"
proof -
  let ?n = "length (chunk_buf m)" and ?k = "(unat (rd_ind m) + 1) mod length (chunk_buf m)"
  have wf: "unat (rd_ind m) < ?n" "2 \<le> ?n" "\<not> out_lock m" "ds \<le> single_chunk_size m"
    using assms(1,2) by (auto simp: area_wf_def pool_wf_def)
  then have k: "?k < ?n" by (intro mod_less_divisor) linarith
  then have "(of_nat ?k = wr_ind m) = (?k = unat (wr_ind m))"
    using of_nat_ind_eq_iff [OF area_wf_pool [OF assms(1)]] by blast
  moreover have u: "unat (of_nat ?k :: u32) = ?k" using unat_of_nat_ind [OF area_wf_pool [OF assms(1)] k] .
  moreover have "chunk_index (unat (elem_size m) * ?k) (m\<lparr>out_lock := True, rd_ind := i\<rparr>) = Inr ?k"
    for i using chunk_index_wf [OF area_wf_pool [OF assms(1)] k] by (simp add: chunk_index_def)
  moreover have "m\<lparr>out_lock := True, rd_ind := r, out_lock := False\<rparr> = m\<lparr>rd_ind := r\<rparr>" for r
    using wf(3) by (cases m) simp
  ultimately show ?thesis
    using wf off [of "of_nat ?k"] k next_ind_wf [OF area_wf_pool [OF assms(1)] wf(1)]
    by (simp add: pop_mt_def OSA_spinlock_lock_def OSA_spinlock_unlock_def chunk_load_def Let_def
        popped_def release_out_lock)
qed

lemma area_wf_pushed:
  assumes "area_wf m" "(unat (wr_ind m) + 1) mod length (chunk_buf m) \<noteq> unat (rd_ind m)"
  shows "area_wf (pushed d m)"
proof -
  have k: "(unat (wr_ind m) + 1) mod length (chunk_buf m) < length (chunk_buf m)"
    using assms(1) by (intro mod_less_divisor) (auto simp: area_wf_def pool_wf_def)
  show ?thesis
    using assms k unat_of_nat_ind [OF area_wf_pool [OF assms(1)] k] of_nat_ind_eq_iff [OF area_wf_pool [OF assms(1)] k]
    by (simp add: area_wf_def pool_wf_def pushed_def)
qed

lemma area_wf_popped:
  assumes "area_wf m" "(unat (rd_ind m) + 1) mod length (chunk_buf m) \<noteq> unat (wr_ind m)"
  shows "area_wf (popped m)"
proof -
  have k: "(unat (rd_ind m) + 1) mod length (chunk_buf m) < length (chunk_buf m)"
    using assms(1) by (intro mod_less_divisor) (auto simp: area_wf_def pool_wf_def)
  have "wr_ind m \<noteq> of_nat ((unat (rd_ind m) + 1) mod length (chunk_buf m))"
    using of_nat_ind_eq_iff [OF area_wf_pool [OF assms(1)] k] assms(2) by metis
  then show ?thesis
    using assms k unat_of_nat_ind [OF area_wf_pool [OF assms(1)] k]
    by (simp add: area_wf_def pool_wf_def popped_def)
qed

lemma frame_pushed [simp]: "area_frame (pushed d m) = area_frame m"
  by (simp add: area_frame_def pushed_def)

lemma frame_popped [simp]: "area_frame (popped m) = area_frame m"
  by (simp add: area_frame_def popped_def)

lemma length_fifo_contents:
  "length (fifo_contents m) =
     gap (length (chunk_buf m)) (unat (rd_ind m)) (unat (wr_ind m)) - 1"
  by (simp add: fifo_contents_def)

lemma gap_wf:
  assumes "area_wf m"
  shows "1 \<le> gap (length (chunk_buf m)) (unat (rd_ind m)) (unat (wr_ind m))"
    "gap (length (chunk_buf m)) (unat (rd_ind m)) (unat (wr_ind m)) < length (chunk_buf m)"
proof -
  let ?g = "gap (length (chunk_buf m)) (unat (rd_ind m)) (unat (wr_ind m))"
  have b: "unat (rd_ind m) < length (chunk_buf m)" "unat (wr_ind m) < length (chunk_buf m)"
    using assms by (auto simp: area_wf_def pool_wf_def)
  then have "?g \<noteq> 0" using area_wf_apart [OF assms] by (simp add: gap_0_iff)
  then show "1 \<le> ?g" by simp
  show "?g < length (chunk_buf m)" using b by (intro gap_less) linarith
qed

lemma full_iff:
  assumes "area_wf m"
  shows "(unat (wr_ind m) + 1) mod length (chunk_buf m) = unat (rd_ind m) \<longleftrightarrow>
    length (fifo_contents m) = fifo_cap m"
proof -
  have "2 \<le> length (chunk_buf m)" using assms by (simp add: area_wf_def pool_wf_def)
  moreover have "(unat (wr_ind m) + 1) mod length (chunk_buf m) = unat (rd_ind m) \<longleftrightarrow>
      gap (length (chunk_buf m)) (unat (rd_ind m)) (unat (wr_ind m)) = length (chunk_buf m) - 1"
    using assms area_wf_apart [OF assms] by (intro gap_full_iff) (auto simp: area_wf_def pool_wf_def)
  ultimately show ?thesis
    using gap_wf [OF assms] by (auto simp: length_fifo_contents fifo_cap_def)
qed

lemma empty_iff:
  assumes "area_wf m"
  shows "(unat (rd_ind m) + 1) mod length (chunk_buf m) = unat (wr_ind m) \<longleftrightarrow>
    fifo_contents m = []"
proof -
  have "(unat (rd_ind m) + 1) mod length (chunk_buf m) = unat (wr_ind m) \<longleftrightarrow>
      gap (length (chunk_buf m)) (unat (rd_ind m)) (unat (wr_ind m)) = 1"
    using assms by (intro gap_one_iff) (auto simp: area_wf_def pool_wf_def)
  then show ?thesis
    using gap_wf [OF assms] by (simp add: length_0_conv [symmetric] length_fifo_contents)
qed

lemma contents_len_cap: "area_wf m \<Longrightarrow> length (fifo_contents m) \<le> fifo_cap m"
  using gap_wf [of m] by (simp add: length_fifo_contents fifo_cap_def)

lemma contents_pushed:
  assumes "area_wf m" "(unat (wr_ind m) + 1) mod length (chunk_buf m) \<noteq> unat (rd_ind m)"
  shows "fifo_contents (pushed d m) = fifo_contents m @ [d]"
proof -
  let ?n = "length (chunk_buf m)" and ?r = "unat (rd_ind m)" and ?w = "unat (wr_ind m)"
  let ?g = "gap ?n ?r ?w"
  have b: "?r < ?n" "?w < ?n" "?w \<noteq> ?r"
    using assms(1) area_wf_apart by (auto simp: area_wf_def pool_wf_def)
  have g: "1 \<le> ?g" "?g < ?n" using gap_wf [OF assms(1)] by auto
  have w: "?w = (?r + 1 + (?g - 1)) mod ?n" using add_gap_mod [OF b(1,2)] g(1) by simp
  have k: "(?w + 1) mod ?n < ?n" using b by (intro mod_less_divisor) linarith
  have "fifo_contents (pushed d m) = ring_window ((chunk_buf m)[?w := d]) ?r (Suc (?g - 1))"
    using gap_succ_right [OF b(1,2) assms(2)] unat_of_nat_ind [OF area_wf_pool [OF assms(1)] k] g(1)
    by (simp add: fifo_contents_def pushed_def)
  also have "\<dots> = ring_window (chunk_buf m) ?r (?g - 1) @ [d]"
    by (subst (1) w, rule ring_window_snoc) (use b g in linarith)+
  finally show ?thesis by (simp add: fifo_contents_def)
qed

lemma contents_popped:
  assumes "area_wf m" "(unat (rd_ind m) + 1) mod length (chunk_buf m) \<noteq> unat (wr_ind m)"
  shows "fifo_contents m =
    chunk_buf m ! ((unat (rd_ind m) + 1) mod length (chunk_buf m)) # fifo_contents (popped m)"
proof -
  let ?n = "length (chunk_buf m)" and ?r = "unat (rd_ind m)" and ?w = "unat (wr_ind m)"
  let ?g = "gap ?n ?r ?w"
  have b: "?r < ?n" "?w < ?n" "?w \<noteq> ?r" "2 \<le> ?n"
    using assms(1) area_wf_apart by (auto simp: area_wf_def pool_wf_def)
  have "?g \<noteq> 1" using gap_one_iff [OF b(1,2,4)] assms(2) by simp
  then have g: "2 \<le> ?g" using gap_wf(1) [OF assms(1)] by simp
  have k: "(?r + 1) mod ?n < ?n" using b by (intro mod_less_divisor) linarith
  have "?g - 1 = Suc (?g - 2)" using g by linarith
  then have "fifo_contents m = ring_window (chunk_buf m) ?r (Suc (?g - 2))"
    by (simp only: fifo_contents_def)
  then show ?thesis
    using gap_succ_left [OF b(1,2,3)] unat_of_nat_ind [OF area_wf_pool [OF assms(1)] k] g
    by (simp add: ring_window_Cons fifo_contents_def popped_def numeral_2_eq_2)
qed

subsection \<open>The contract\<close>

lemma mt_bounded_fifo:
  assumes wf: "\<And>m. I m \<Longrightarrow> area_wf m \<and> sz \<le> elem_size m"
    and w_off: "\<And>m. I m \<Longrightarrow>
      wo (m\<lparr>in_lock := True\<rparr>) = unat (elem_size m) * unat (wr_ind m)"
    and r_off: "\<And>m i. I m \<Longrightarrow> unat i < length (chunk_buf m) \<Longrightarrow>
      ro (m\<lparr>out_lock := True, rd_ind := i\<rparr>) = unat (elem_size m) * unat i"
    and keep: "\<And>m m'. I m \<Longrightarrow> area_wf m' \<Longrightarrow> area_frame m' = area_frame m \<Longrightarrow> I m'"
  shows "bounded_fifo (\<lambda>d. push_mt wo d sz) (pop_mt ro sz) fifo_contents fifo_cap area_frame I"
proof
  fix s d assume I: "I s"
  note a = wf [OF I, THEN conjunct1] and z = wf [OF I, THEN conjunct2]
  note push = push_mt_wf [where wr_off = wo, OF a z w_off [OF I]]
    and pop = pop_mt_wf [where rd_off = ro, OF a z r_off [OF I]]
  show "length (fifo_contents s) \<le> fifo_cap s" using a by (rule contents_len_cap)
  show "\<exists>s'. push_mt wo d sz s = Inr (E_OK, s') \<and> I s' \<and> fifo_contents s' = fifo_contents s @ [d] \<and>
      fifo_cap s' = fifo_cap s \<and> area_frame s' = area_frame s"
    if "length (fifo_contents s) < fifo_cap s"
    using that push full_iff [OF a] contents_pushed [OF a] keep [OF I area_wf_pushed [OF a]]
    by (auto simp: fifo_cap_def pushed_def area_frame_def)
  show "push_mt wo d sz s = Inr (E_FAIL, s)" if "length (fifo_contents s) = fifo_cap s"
    using that push full_iff [OF a] by simp
  show "pop_mt ro sz s = Inr (None, s)" if "fifo_contents s = []"
    using that pop empty_iff [OF a] by simp
  show "\<exists>s'. pop_mt ro sz s = Inr (Some x, s') \<and> I s' \<and> fifo_contents s' = q \<and>
      fifo_cap s' = fifo_cap s \<and> area_frame s' = area_frame s"
    if "fifo_contents s = x # q" for x q
  proof -
    from that have ne: "(unat (rd_ind s) + 1) mod length (chunk_buf s) \<noteq> unat (wr_ind s)"
      using empty_iff [OF a] by simp
    with that pop contents_popped [OF a ne] keep [OF I area_wf_popped [OF a ne]]
    show ?thesis by (auto simp: fifo_cap_def popped_def area_frame_def)
  qed
qed

definition area_ready :: "u32 \<Rightarrow> 'a mem_area \<Rightarrow> bool" where
  "area_ready sz m \<longleftrightarrow> area_wf m \<and> sz \<le> elem_size m"

interpretation sq: bounded_fifo
  "\<lambda>d. StaticMemArea_PushFIFO_MT d sz" "StaticMemArea_PopFIFO_MT sz"
  fifo_contents fifo_cap area_frame "area_ready sz" for sz
  unfolding StaticMemArea_PushFIFO_MT_def StaticMemArea_PopFIFO_MT_def
proof (rule mt_bounded_fifo)
  fix m :: "'a mem_area" assume "area_ready sz m"
  then have wf: "area_wf m" "unat (wr_ind m) < length (chunk_buf m)"
    by (auto simp: area_ready_def area_wf_def pool_wf_def)
  show "unat (StaticMemArea_GetWriteBufP (m\<lparr>in_lock := True\<rparr>)) = unat (elem_size m) * unat (wr_ind m)"
    using stride_wf [OF area_wf_pool [OF wf(1)] wf(2)] by (simp add: StaticMemArea_GetWriteBufP_def)
  show "unat (StaticMemArea_GetReadBufP (m\<lparr>out_lock := True, rd_ind := i\<rparr>)) =
      unat (elem_size m) * unat i" if "unat i < length (chunk_buf m)" for i
    using stride_wf [OF area_wf_pool [OF wf(1)] that] by (simp add: StaticMemArea_GetReadBufP_def)
qed (auto simp: area_ready_def area_frame_def)

lemma unat_ucast_u32_u64: "unat (ucast (w :: u32) :: u64) = unat w"
proof -
  have "unat w < 2 ^ 32" using unsigned_less [of w] by simp
  then show ?thesis by (simp add: unsigned_ucast_eq take_bit_nat_eq_self)
qed

interpretation cq: bounded_fifo
  "\<lambda>d. CMemArea_PushFIFO_MT base d sz" "CMemArea_PopFIFO_MT base sz"
  fifo_contents fifo_cap area_frame "\<lambda>m. area_ready sz m \<and> area_at base m" for base sz
  unfolding CMemArea_PushFIFO_MT_def CMemArea_PopFIFO_MT_def
proof (rule mt_bounded_fifo)
  fix m :: "'a mem_area" assume I: "area_ready sz m \<and> area_at base m"
  then have wf: "area_wf m" "unat (wr_ind m) < length (chunk_buf m)"
    by (auto simp: area_ready_def area_wf_def pool_wf_def)
  show "unat (CMemArea_GetWriteBufP (m\<lparr>in_lock := True\<rparr>) - base) = unat (elem_size m) * unat (wr_ind m)"
    using stride_wf [OF area_wf_pool [OF wf(1)] wf(2)] I by (simp add: CMemArea_GetWriteBufP_def area_at_def unat_ucast_u32_u64)
  show "unat (CMemArea_GetReadBufP (m\<lparr>out_lock := True, rd_ind := i\<rparr>) - base) =
      unat (elem_size m) * unat i" if "unat i < length (chunk_buf m)" for i
    using stride_wf [OF area_wf_pool [OF wf(1)] that] I
    by (simp add: CMemArea_GetReadBufP_def area_at_def unat_ucast_u32_u64)
qed (auto simp: area_ready_def area_frame_def area_at_def)

subsection \<open>A fresh area\<close>

lemma align_cache_line: "ALIGN_SIZE x (of_nat CACHE_ALIGNMENT) = (x + 63) AND NOT (mask 6)"
  by (simp add: ALIGN_SIZE_def CACHE_ALIGNMENT_def mask_eq_exp_minus_1 add.commute)

lemma Setup_ready:
  assumes "2 \<le> length (chunk_buf m)" "0 < elem_size m"
    "unat (elem_size m) * length (chunk_buf m) < 2 ^ 32"
    "ALIGN_SIZE (elem_size m) (of_nat CACHE_ALIGNMENT) = elem_size m"
    "length name < length (area_name m)" "c_string name"
  shows "\<exists>m'. StaticMemArea_Setup sz inc name acc attr m = Inr m' \<and> area_wf m' \<and>
    fifo_contents m' = [] \<and> chunk_buf m' = chunk_buf m \<and> elem_size m' = elem_size m \<and>
    attrib m' = attr \<and> length (area_name m') = length (area_name m) \<and>
    terminated (area_name m') \<and> str_of (area_name m') = name \<and>
    rd_ind m' = 0 \<and> wr_ind m' = 1 \<and> ptr_producer m' = ptr_producer m \<and>
    ptr_consumer m' = ptr_consumer m"
proof -
  obtain b where "strcpy (area_name m) name = Inr b" "length b = length (area_name m)"
    "terminated b" "str_of b = name"
    using strcpy_ok [OF assms(5,6)] .
  moreover have "gap (length (chunk_buf m)) 0 1 = 1"
    using assms(1) by (rule gap_0_1)
  moreover have "chunk_buf m \<noteq> []" using assms(1) by auto
  ultimately show ?thesis
    using assms(1-4) unfolding StaticMemArea_Setup_def CMemArea_Setup_def
    by (simp add: area_wf_def pool_wf_def fifo_contents_def OSA_spinlock_create_def)
qed

subsection \<open>The chunk pool\<close>

text \<open>\<open>AllocPoolChunk\<close> hands out the chunk after the last one, whatever \<open>rd_ind_\<close> is.\<close>

definition pool_next :: "'a mem_area \<Rightarrow> nat" where
  "pool_next m = (unat (wr_ind m) + 1) mod length (chunk_buf m)"

lemma pool_next_less: "pool_wf m \<Longrightarrow> pool_next m < length (chunk_buf m)"
  unfolding pool_next_def by (intro mod_less_divisor) (auto simp: pool_wf_def)

lemma AllocPoolChunk_wf:
  assumes "pool_wf m"
  shows "\<exists>p. StaticMemArea_AllocPoolChunk m = Inr (p, m\<lparr>wr_ind := of_nat (pool_next m)\<rparr>) \<and>
    unat p = unat (elem_size m) * pool_next m"
proof -
  have k: "pool_next m < length (chunk_buf m)" using pool_next_less [OF assms] .
  have u: "unat (of_nat (pool_next m) :: u32) = pool_next m" using unat_of_nat_ind [OF assms k] .
  have w: "unat (wr_ind m) < length (chunk_buf m)" "\<not> out_lock m"
    using assms by (auto simp: pool_wf_def)
  have "m\<lparr>out_lock := True, wr_ind := i, out_lock := False\<rparr> = m\<lparr>wr_ind := i\<rparr>" for i
    using w(2) by (cases m) simp
  then show ?thesis
    using next_ind_wf [OF assms w(1)] stride_wf [OF assms, of "of_nat (pool_next m)"] u k w
    by (simp add: StaticMemArea_AllocPoolChunk_def OSA_spinlock_lock_def OSA_spinlock_unlock_def
        StaticMemArea_GetWriteBufP_def pool_next_def)
qed

lemma chunk_store_wf:
  assumes "pool_wf m" "k < length (chunk_buf m)" "off = unat (elem_size m) * k"
  shows "chunk_store off d m = Inr (m\<lparr>chunk_buf := (chunk_buf m)[k := d]\<rparr>)"
  using chunk_index_wf [OF assms(1,2)] assms(3) by (simp add: chunk_store_def)

lemma pool_wf_write:
  assumes "pool_wf m" "k < length (chunk_buf m)"
  shows "pool_wf (m\<lparr>wr_ind := of_nat k, chunk_buf := (chunk_buf m)[j := d]\<rparr>)"
  using assms unat_of_nat_ind [OF assms] by (simp add: pool_wf_def)

lemma pool_wf_buf: "pool_wf m \<Longrightarrow> length b = length (chunk_buf m) \<Longrightarrow> pool_wf (m\<lparr>chunk_buf := b\<rparr>)"
  by (simp add: pool_wf_def)

lemma GetEntry_in: "k < length (chunk_buf m) \<Longrightarrow> k < 2 ^ 32 \<Longrightarrow> GetEntry (of_nat k) m = Inr (chunk_buf m ! k)"
  using unat_of_nat_u32 [of k] by (simp add: GetEntry_def)

lemma GetEntry_assign_in:
  "k < length (chunk_buf m) \<Longrightarrow> k < 2 ^ 32 \<Longrightarrow>
    GetEntry_assign (of_nat k) f m = Inr (m\<lparr>chunk_buf := (chunk_buf m)[k := f (chunk_buf m ! k)]\<rparr>)"
  using unat_of_nat_u32 [of k] GetEntry_in [of k m] by (simp add: GetEntry_assign_def)

lemma foldE_GetEntry_assign:
  assumes "n \<le> length (chunk_buf m)" "n < 2 ^ 32"
  shows "foldE (\<lambda>i. GetEntry_assign (of_nat i) f) [0..<n] m =
    Inr (m\<lparr>chunk_buf := map f (take n (chunk_buf m)) @ drop n (chunk_buf m)\<rparr>)"
  using assms
proof (induction n)
  case (Suc n)
  let ?b = "map f (take n (chunk_buf m)) @ drop n (chunk_buf m)"
  have n: "n < length (chunk_buf m)" "n < 2 ^ 32" using Suc.prems by auto
  have "?b[n := f (?b ! n)] = map f (take (Suc n) (chunk_buf m)) @ drop (Suc n) (chunk_buf m)"
    using n(1) by (simp add: take_Suc_conv_app_nth nth_append list_update_append
        Cons_nth_drop_Suc [symmetric])
  then show ?case
    using Suc.IH n GetEntry_assign_in [of n "m\<lparr>chunk_buf := ?b\<rparr>" f]
    by (simp add: foldE_append)
qed simp

subsection \<open>Attaching a static buffer\<close>

lemma StaticMemArea_MemAlloc_ok:
  assumes "pool_wf m" "attrib m = 0" "base \<noteq> 0" "ALIGN_64BIT base = base"
    "unat (elem_size m) * length (chunk_buf m) + 63 < 2 ^ 32"
  shows "StaticMemArea_MemAlloc base m = Inr (m\<lparr>ptr_producer := base, ptr_consumer := base\<rparr>)"
proof -
  have "unat (single_chunk_size m * number_chunks m) = unat (elem_size m) * length (chunk_buf m)"
    using assms(1) pool_wf_bounds(2) [OF assms(1)]
    by (simp add: pool_wf_def unat_word_ariths)
  then have "unat (single_chunk_size m * number_chunks m + 63) =
      unat (elem_size m) * length (chunk_buf m) + 63"
    using assms(5) by (simp add: unat_word_ariths)
  then have "0 < ADD_SIZE_FOR_MEM_ALIGN (single_chunk_size m * number_chunks m) (of_nat CACHE_ALIGNMENT)"
    by (simp add: ADD_SIZE_FOR_MEM_ALIGN_def CACHE_ALIGNMENT_def word_less_nat_alt
        add_diff_eq [symmetric])
  then show ?thesis
    using assms(2-4)
    by (simp add: StaticMemArea_MemAlloc_def CMemArea_MemAlloc_def Let_def shr_roles_def shr_flag_def)
qed

subsection \<open>Properties\<close>

text \<open>A buffer of \<open>n\<close> chunks of one cache line, zeroed, that \<open>Setup\<close> has not yet been called on.\<close>

definition raw_area :: "nat \<Rightarrow> nat mem_area" where
  "raw_area n =
     \<lparr>allocated_ptr = 0, ptr_producer = 0, ptr_consumer = 0, number_chunks = 0,
      single_chunk_size = 0, wr_ind = 0, rd_ind = 0, access_mode = E_READ, attrib = 0,
      in_lock = False, out_lock = False, area_name = replicate MDO_NAME_SIZE NUL,
      chunk_buf = replicate n 0, elem_size = 64\<rparr>"

text \<open>C1: \<open>StaticMemArea\<close> is a bounded queue. For elements whose size is a multiple of 64 (as for every area of the program), with
  the size that is copied not larger, after \<open>Setup\<close>, any sequence of \<open>PushFIFO_MT\<close>
  and \<open>PopFIFO_MT\<close>, in any order, never faults and answers exactly as a queue that holds at most
  \<open>n - 2\<close> elements, where \<open>n\<close> is the number of chunks: first in, first out, \<open>E_FAIL\<close> when it is
  full, \<open>NULL\<close> when it is empty.\<close>

theorem static_fifo_refines_queue:
  assumes m: "2 \<le> length (chunk_buf m)" "0 < elem_size m"
    "unat (elem_size m) * length (chunk_buf m) < 2 ^ 32"
    "ALIGN_SIZE (elem_size m) (of_nat CACHE_ALIGNMENT) = elem_size m"
    and name: "length name < length (area_name m)" "c_string name"
    and sz: "sz \<le> elem_size m"
  shows "\<exists>m0 m1. StaticMemArea_Setup n inc name acc attr m = Inr m0 \<and>
    run_ops (\<lambda>d. StaticMemArea_PushFIFO_MT d sz) (StaticMemArea_PopFIFO_MT sz) ops m0 =
      Inr (fst (spec_ops (length (chunk_buf m) - 2) ops []), m1) \<and>
    fifo_contents m1 = snd (spec_ops (length (chunk_buf m) - 2) ops [])"
proof -
  obtain m0 where m0: "StaticMemArea_Setup n inc name acc attr m = Inr m0" "area_wf m0"
    "fifo_contents m0 = []" "chunk_buf m0 = chunk_buf m" "elem_size m0 = elem_size m"
    using Setup_ready [OF m name] by blast
  have "area_ready sz m0" using m0(2,5) sz by (simp add: area_ready_def)
  from sq.run_ops_spec [OF this, of ops] m0 show ?thesis by (auto simp: fifo_cap_def)
qed

theorem static_fifo_refines_queue_witness:
  "\<exists>m0 m1. StaticMemArea_Setup 0 0 ''q'' E_READ 0 (raw_area 4) = Inr m0 \<and>
     run_ops (\<lambda>d. StaticMemArea_PushFIFO_MT d 64) (StaticMemArea_PopFIFO_MT 64)
       [Pop, Push 1, Push 2, Push 3, Pop, Push 4] m0 =
       Inr ([Popped None, Pushed E_OK, Pushed E_OK, Pushed E_FAIL, Popped (Some 1), Pushed E_OK], m1) \<and>
     fifo_contents m1 = [2, 4]"
  using static_fifo_refines_queue [of "raw_area 4" "''q''" 64 0 0 E_READ 0
      "[Pop, Push 1, Push 2, Push 3, Pop, Push 4]"]
  by (simp add: raw_area_def ALIGN_SIZE_def CACHE_ALIGNMENT_def MDO_NAME_SIZE_def c_string_def apfst_def)

text \<open>\<open>CMemArea\<close> is the same bounded queue for the process whose addresses it holds: as long
  as its absolute pointers are the address \<open>base\<close> of the buffer in the calling process, any
  sequence of pushes and pops answers as a queue of \<open>n - 2\<close> elements and leaves the pointers alone.\<close>

theorem cmem_fifo_refines_queue:
  assumes "area_ready sz m" "area_at base m"
  shows "\<exists>m1. run_ops (\<lambda>d. CMemArea_PushFIFO_MT base d sz) (CMemArea_PopFIFO_MT base sz) ops m =
      Inr (fst (spec_ops (fifo_cap m) ops (fifo_contents m)), m1) \<and>
    fifo_contents m1 = snd (spec_ops (fifo_cap m) ops (fifo_contents m)) \<and>
    area_ready sz m1 \<and> area_at base m1"
  using cq.run_ops_spec [of sz m base ops] assms by auto

theorem cmem_fifo_refines_queue_witness:
  "\<exists>m m1. fifo_cap m = 2 \<and>
     run_ops (\<lambda>d. CMemArea_PushFIFO_MT 4096 d 64) (CMemArea_PopFIFO_MT 4096 64) [Push (7 :: nat), Pop, Pop] m =
       Inr ([Pushed E_OK, Popped (Some 7), Popped None], m1) \<and> area_at 4096 m1"
proof -
  let ?m = "(raw_area 4)\<lparr>ptr_producer := 4096, ptr_consumer := 4096, number_chunks := 4,
    single_chunk_size := 64, wr_ind := 1\<rparr>"
  have "gap 4 0 1 = 1" by (rule gap_0_1) simp
  then have "area_ready 64 ?m" "area_at 4096 ?m" "fifo_cap ?m = 2" "fifo_contents ?m = []"
    by (simp_all add: raw_area_def area_ready_def area_wf_def pool_wf_def area_at_def fifo_cap_def
        fifo_contents_def)
  moreover from cmem_fifo_refines_queue [OF this(1,2), of "[Push 7, Pop, Pop]"] this(3,4)
  obtain m1 where "run_ops (\<lambda>d. CMemArea_PushFIFO_MT 4096 d 64) (CMemArea_PopFIFO_MT 4096 64)
      [Push 7, Pop, Pop] ?m = Inr ([Pushed E_OK, Popped (Some 7), Popped None], m1)" "area_at 4096 m1"
    by (auto simp: apfst_def)
  ultimately show ?thesis by blast
qed

end
