(* ===== verification/Area_Buffers.thy ===== *)
theory Area_Buffers
  imports Area_Fifo
begin

section \<open>Alignment, buffer roles, previous chunk and double buffering\<close>

text \<open>
  What the alignment macros compute, which of the two pointers \<open>MemAlloc\<close> sets, where
  \<open>GetPrevChunk\<close> points, and what \<open>DualBufSwap\<close> does with two chunks and with three or more.
\<close>

subsection \<open>Alignment\<close>

lemma align_up_unat:
  fixes x :: u32
  assumes "unat x + (2 ^ k - 1) < 2 ^ 32" "k < 32"
  shows "unat (ALIGN_SIZE x (2 ^ k)) = (unat x + (2 ^ k - 1)) div 2 ^ k * 2 ^ k"
proof -
  have m: "(2 ^ k - 1 :: u32) = mask k" by (simp add: mask_eq_exp_minus_1)
  have "(2 :: nat) ^ k < 2 ^ 32" using assms(2) by (intro power_strict_increasing) simp_all
  then have "unat (of_nat (2 ^ k - 1) :: u32) = 2 ^ k - 1" by (intro unat_of_nat_u32) simp
  moreover have "(of_nat (2 ^ k - 1) :: u32) = mask k"
    using of_nat_mask_eq [of k] by (simp add: mask_eq_exp_minus_1)
  ultimately have "unat (mask k :: u32) = 2 ^ k - 1" by (simp only:)
  then have "unat (x + mask k) = unat x + (2 ^ k - 1)"
    using assms(1) by (simp add: unat_word_ariths)
  moreover have "ALIGN_SIZE x (2 ^ k) = (x + mask k) AND NOT (mask k)"
    unfolding ALIGN_SIZE_def m [symmetric] by (simp add: algebra_simps)
  ultimately show ?thesis by (simp add: and_not_mask_unat)
qed

text \<open>C28: rounding a chunk size up to the cache line. For a power of two and a size that does not
  wrap, \<open>ALIGN_SIZE\<close> gives the least multiple of the alignment that is at least the size.\<close>

theorem ALIGN_SIZE_least_multiple:
  fixes x :: u32
  assumes "unat x + (2 ^ k - 1) < 2 ^ 32" "k < 32"
  shows "2 ^ k dvd unat (ALIGN_SIZE x (2 ^ k)) \<and> unat x \<le> unat (ALIGN_SIZE x (2 ^ k)) \<and>
    (\<forall>y. 2 ^ k dvd y \<longrightarrow> unat x \<le> y \<longrightarrow> unat (ALIGN_SIZE x (2 ^ k)) \<le> y)"
proof -
  let ?a = "2 ^ k :: nat"
  note eq = align_up_unat [OF assms]
  have pos: "0 < ?a" by simp
  have "(unat x + (?a - 1)) div ?a * ?a + (unat x + (?a - 1)) mod ?a = unat x + (?a - 1)"
    by (rule div_mult_mod_eq)
  moreover have "(unat x + (?a - 1)) mod ?a < ?a" using pos by (rule mod_less_divisor)
  ultimately have ge: "unat x \<le> (unat x + (?a - 1)) div ?a * ?a" by linarith
  have least: "(unat x + (?a - 1)) div ?a * ?a \<le> y" if "?a dvd y" "unat x \<le> y" for y
  proof -
    from that obtain q where q: "y = ?a * q" by (auto simp: dvd_def)
    have "?a * (q + 1) = y + ?a" using q by simp
    then have "unat x + (?a - 1) < ?a * (q + 1)" using that(2) pos by linarith
    then have "(unat x + (?a - 1)) div ?a < q + 1"
      using pos by (simp add: less_mult_imp_div_less mult.commute)
    then show ?thesis using q by (simp add: mult.commute)
  qed
  show ?thesis unfolding eq using ge least by auto
qed

theorem ALIGN_SIZE_least_multiple_witness:
  "unat (ALIGN_SIZE 65 (2 ^ 6)) = 128 \<and> 2 ^ 6 dvd unat (ALIGN_SIZE 65 (2 ^ 6)) \<and>
   unat (65 :: u32) \<le> unat (ALIGN_SIZE 65 (2 ^ 6))"
  using ALIGN_SIZE_least_multiple [of 65 6] by (simp add: ALIGN_SIZE_def)

lemma mask3: "(7 :: u64) = mask 3" by (simp add: mask_eq_exp_minus_1)

text \<open>\<open>CHECK_ALIGN_64BIT\<close>, \<open>ALIGN_64BIT\<close> and divisibility by eight bytes agree, so the
  assertion of \<open>MemAlloc\<close> requires 8-byte alignment; and \<open>CHECK_ALIGN_128BIT\<close> accepts addresses
  that \<open>ALIGN_128BIT\<close> changes, because its mask is \<open>0xc\<close> and not \<open>0xf\<close>.\<close>

theorem align_checks:
  "(CHECK_ALIGN_64BIT p = (ALIGN_64BIT p = p)) \<and> (CHECK_ALIGN_64BIT p = (8 dvd unat p)) \<and>
   CHECK_ALIGN_128BIT 3 \<and> ALIGN_128BIT 3 \<noteq> 3"
proof -
  have u: "unat (p AND NOT (mask 3)) = unat p div 8 * 8"
    using and_not_mask_unat [of p 3] by simp
  have "(p AND mask 3 = 0) = (p AND NOT (mask 3) = p)"
    by (auto simp: bit_eq_iff bit_simps)
  moreover have "(p AND NOT (mask 3) = p) = (8 dvd unat p)"
    using u by (auto simp: word_unat_eq_iff dvd_div_mult_self) (metis dvd_triv_right)
  ultimately show ?thesis
    by (simp add: CHECK_ALIGN_64BIT_def ALIGN_64BIT_def CHECK_ALIGN_128BIT_def ALIGN_128BIT_def
        mask3)
qed

subsection \<open>The roles of an area\<close>

text \<open>An area set up as producer only is made consumer too: \<open>MemAlloc\<close> tests
  \<open>(attrib_ >> bit) && 1\<close>, so with bit 2 set, both pointers are set to the given buffer, whatever
  the other bits say.\<close>

theorem MemAlloc_producer_is_consumer:
  assumes "bit (attrib m) e_SHR_PRODUCER" "mem_buf \<noteq> 0"
    "CMemArea_MemAlloc mem_buf new_ptr m = Inr m'"
  shows "ptr_producer m' = mem_buf \<and> ptr_consumer m' = mem_buf"
proof -
  have "bit (drop_bit 2 (attrib m)) 0" "bit (drop_bit 1 (attrib m)) 1"
    using assms(1) by (simp_all add: bit_drop_bit_eq e_SHR_PRODUCER_def numeral_2_eq_2)
  then have "drop_bit 2 (attrib m) \<noteq> 0" "drop_bit 1 (attrib m) \<noteq> 0" by auto
  then have "shr_roles (attrib m) = (True, True)"
    by (simp add: shr_roles_def shr_flag_def e_SHR_PRODUCER_def e_SHR_CONSUMER_def Let_def)
  with assms(2,3) show ?thesis
    by (auto simp: CMemArea_MemAlloc_def Let_def ASSERT_def split: if_splits)
qed

text \<open>An area of \<open>n\<close> chunks of one cache line, as \<open>Setup\<close> makes it.\<close>

definition demo_area :: "nat \<Rightarrow> u32 \<Rightarrow> nat mem_area" where
  "demo_area n attr =
     \<lparr>allocated_ptr = 0, ptr_producer = 4096, ptr_consumer = 4096, number_chunks = of_nat n,
      single_chunk_size = 64, wr_ind = 1, rd_ind = 0, access_mode = E_READ, attrib = attr,
      in_lock = False, out_lock = False, area_name = replicate MDO_NAME_SIZE NUL,
      chunk_buf = replicate n 0, elem_size = 64\<rparr>"

lemma demo_area_simps:
  "CMemArea_MemAlloc 64 0 (demo_area 4 4) =
     Inr ((demo_area 4 4)\<lparr>ptr_producer := 64, ptr_consumer := 64\<rparr>)"
  by (simp add: demo_area_def CMemArea_MemAlloc_def ADD_SIZE_FOR_MEM_ALIGN_def CACHE_ALIGNMENT_def
      shr_roles_def shr_flag_def e_SHR_PRODUCER_def e_SHR_CONSUMER_def ALIGN_64BIT_def Let_def)

theorem MemAlloc_producer_is_consumer_witness:
  "\<exists>m'. CMemArea_MemAlloc 64 0 (demo_area 4 4) = Inr m' \<and> ptr_consumer m' = 64"
proof -
  have "bit (attrib (demo_area 4 4)) e_SHR_PRODUCER"
    by (simp add: demo_area_def e_SHR_PRODUCER_def)
  from MemAlloc_producer_is_consumer [OF this _ demo_area_simps] show ?thesis
    using demo_area_simps by simp
qed

end
