(* ===== verification/Fifo_Threads.thy ===== *)
theory Fifo_Threads
  imports Area_Fifo "HOL-Library.Sublist"
begin

section \<open>The FIFO between threads\<close>

text \<open>
  \<open>PushFIFO_MT\<close> and \<open>PopFIFO_MT\<close> at the grain of their memory accesses. Any number of threads call them at any time;
  the producers exclude each other with \<open>in_lock_\<close> and the consumers with \<open>out_lock_\<close>, but a producer and a
  consumer run at the same time and read each other's index. A copy of a chunk is two accesses: while it is written the chunk holds
  something else (\<open>g\<close>), and what is read while it changes is a mixture (\<open>mix\<close>). Accesses to an index are
  atomic and in the order of the program.
\<close>

subsection \<open>The stages of a call\<close>

datatype 'a stage =
    S_idle
  | S_push_spin 'a
  | S_push_test 'a
  | S_push_copy 'a u32
  | S_push_copied 'a u32
  | S_push_advance 'a u32
  | S_push_unlock EResultT
  | S_pop_spin
  | S_pop_test
  | S_pop_advance u32
  | S_pop_copy
  | S_pop_copied 'a
  | S_pop_unlock "'a option"

text \<open>
  The accesses between lock and unlock. \<open>wo\<close> and \<open>ro\<close> are the offsets of \<open>GetWriteBufP\<close> and \<open>GetReadBufP\<close> of the class. The last
  component marks the access at which the call takes effect.
\<close>

fun fifo_stage ::
  "('a mem_area \<Rightarrow> nat) \<Rightarrow> ('a mem_area \<Rightarrow> nat) \<Rightarrow> ('a \<Rightarrow> 'a \<Rightarrow> 'a) \<Rightarrow> u32 \<Rightarrow> 'a \<Rightarrow> 'a stage \<Rightarrow> 'a mem_area \<Rightarrow>
   fault + ('a stage \<times> 'a mem_area \<times> 'a fifo_op option)" where
  "fifo_stage wo ro mix sz g (S_push_test d) m =
     bindE (next_ind (wr_ind m) (number_chunks m)) (\<lambda>tmp.
       if tmp = rd_ind m then Inr (S_push_unlock E_FAIL, m, Some (Push d))
       else ASSERT (sz \<le> single_chunk_size m) (Inr (S_push_copy d tmp, m, None)))"
| "fifo_stage wo ro mix sz g (S_push_copy d tmp) m =
     bindE (chunk_store (wo m) g m) (\<lambda>m. Inr (S_push_copied d tmp, m, None))"
| "fifo_stage wo ro mix sz g (S_push_copied d tmp) m =
     bindE (chunk_store (wo m) d m) (\<lambda>m. Inr (S_push_advance d tmp, m, None))"
| "fifo_stage wo ro mix sz g (S_push_advance d tmp) m = Inr (S_push_unlock E_OK, m\<lparr>wr_ind := tmp\<rparr>, Some (Push d))"
| "fifo_stage wo ro mix sz g S_pop_test m =
     bindE (next_ind (rd_ind m) (number_chunks m)) (\<lambda>tmp.
       if tmp \<noteq> wr_ind m then Inr (S_pop_advance tmp, m, None) else Inr (S_pop_unlock None, m, Some Pop))"
| "fifo_stage wo ro mix sz g (S_pop_advance tmp) m = Inr (S_pop_copy, m\<lparr>rd_ind := tmp\<rparr>, Some Pop)"
| "fifo_stage wo ro mix sz g S_pop_copy m =
     ASSERT (sz \<le> single_chunk_size m) (bindE (chunk_load (ro m) m) (\<lambda>x. Inr (S_pop_copied x, m, None)))"
| "fifo_stage wo ro mix sz g (S_pop_copied x) m =
     bindE (chunk_load (ro m) m) (\<lambda>y. Inr (S_pop_unlock (Some (if x = y then x else mix x y)), m, None))"
| "fifo_stage wo ro mix sz g st m = Inr (st, m, None)"

text \<open>Who holds which lock.\<close>

fun pushing :: "'a stage \<Rightarrow> bool" where
  "pushing (S_push_test d) = True"
| "pushing (S_push_copy d tmp) = True"
| "pushing (S_push_copied d tmp) = True"
| "pushing (S_push_advance d tmp) = True"
| "pushing (S_push_unlock r) = True"
| "pushing st = False"

fun popping :: "'a stage \<Rightarrow> bool" where
  "popping S_pop_test = True"
| "popping (S_pop_advance tmp) = True"
| "popping S_pop_copy = True"
| "popping (S_pop_copied x) = True"
| "popping (S_pop_unlock x) = True"
| "popping st = False"

fun unlocking :: "'a stage \<Rightarrow> bool" where
  "unlocking (S_push_unlock r) = True"
| "unlocking (S_pop_unlock x) = True"
| "unlocking st = False"

abbreviation inside :: "'a stage \<Rightarrow> bool" where
  "inside st \<equiv> (pushing st \<or> popping st) \<and> \<not> unlocking st"

subsection \<open>Threads\<close>

record 'a ring =
  area :: "'a mem_area"
  stages :: "nat \<Rightarrow> 'a stage"

datatype 'a event = Call nat "'a fifo_op" | Effect nat "'a fifo_op" | Return nat "'a fifo_ans"

text \<open>One access of thread \<open>t\<close>, with what is seen of it from outside and the point at which its call takes effect.\<close>

inductive ring_step ::
  "('a mem_area \<Rightarrow> nat) \<Rightarrow> ('a mem_area \<Rightarrow> nat) \<Rightarrow> ('a \<Rightarrow> 'a \<Rightarrow> 'a) \<Rightarrow> u32 \<Rightarrow> 'a ring \<Rightarrow> 'a event list \<Rightarrow> 'a ring \<Rightarrow> bool"
  for wo ro mix sz where
  call_push: "stages c t = S_idle \<Longrightarrow>
    ring_step wo ro mix sz c [Call t (Push d)] (c\<lparr>stages := (stages c)(t := S_push_spin d)\<rparr>)"
| call_pop: "stages c t = S_idle \<Longrightarrow>
    ring_step wo ro mix sz c [Call t Pop] (c\<lparr>stages := (stages c)(t := S_pop_spin)\<rparr>)"
| lock_push: "stages c t = S_push_spin d \<Longrightarrow> OSA_spinlock_lock (in_lock (area c)) = Inr l \<Longrightarrow>
    ring_step wo ro mix sz c [] (c\<lparr>area := (area c)\<lparr>in_lock := l\<rparr>, stages := (stages c)(t := S_push_test d)\<rparr>)"
| lock_pop: "stages c t = S_pop_spin \<Longrightarrow> OSA_spinlock_lock (out_lock (area c)) = Inr l \<Longrightarrow>
    ring_step wo ro mix sz c [] (c\<lparr>area := (area c)\<lparr>out_lock := l\<rparr>, stages := (stages c)(t := S_pop_test)\<rparr>)"
| access: "inside (stages c t) \<Longrightarrow> fifo_stage wo ro mix sz g (stages c t) (area c) = Inr (st, m, eff) \<Longrightarrow>
    ring_step wo ro mix sz c (case eff of None \<Rightarrow> [] | Some op \<Rightarrow> [Effect t op]) (c\<lparr>area := m, stages := (stages c)(t := st)\<rparr>)"
| return_push: "stages c t = S_push_unlock r \<Longrightarrow>
    ring_step wo ro mix sz c [Return t (Pushed r)]
      (c\<lparr>area := (area c)\<lparr>in_lock := OSA_spinlock_unlock (in_lock (area c))\<rparr>, stages := (stages c)(t := S_idle)\<rparr>)"
| return_pop: "stages c t = S_pop_unlock x \<Longrightarrow>
    ring_step wo ro mix sz c [Return t (Popped x)]
      (c\<lparr>area := (area c)\<lparr>out_lock := OSA_spinlock_unlock (out_lock (area c))\<rparr>, stages := (stages c)(t := S_idle)\<rparr>)"

inductive ring_run ::
  "('a mem_area \<Rightarrow> nat) \<Rightarrow> ('a mem_area \<Rightarrow> nat) \<Rightarrow> ('a \<Rightarrow> 'a \<Rightarrow> 'a) \<Rightarrow> u32 \<Rightarrow> 'a ring \<Rightarrow> 'a event list \<Rightarrow> 'a ring \<Rightarrow> bool"
  for wo ro mix sz where
  start: "ring_run wo ro mix sz c [] c"
| more: "ring_run wo ro mix sz c evs c1 \<Longrightarrow> ring_step wo ro mix sz c1 ev c2 \<Longrightarrow> ring_run wo ro mix sz c (evs @ ev) c2"

text \<open>
  The same step as a function: what thread \<open>t\<close> does next, \<open>op\<close> being what it calls when it is idle and \<open>g\<close> what a chunk holds
  while it is written. \<open>None\<close>: it waits for a lock, or its access is out of bounds.
\<close>

definition ring_next ::
  "('a mem_area \<Rightarrow> nat) \<Rightarrow> ('a mem_area \<Rightarrow> nat) \<Rightarrow> ('a \<Rightarrow> 'a \<Rightarrow> 'a) \<Rightarrow> u32 \<Rightarrow> 'a \<Rightarrow> 'a fifo_op \<Rightarrow> nat \<Rightarrow> 'a ring \<Rightarrow>
   ('a event list \<times> 'a ring) option" where
  "ring_next wo ro mix sz g op t c =
     (let m = area c; put = (\<lambda>m st. c\<lparr>area := m, stages := (stages c)(t := st)\<rparr>) in
      case stages c t of
        S_idle \<Rightarrow> Some ([Call t op], put m (case op of Push d \<Rightarrow> S_push_spin d | Pop \<Rightarrow> S_pop_spin))
      | S_push_spin d \<Rightarrow> (case OSA_spinlock_lock (in_lock m) of
          Inl _ \<Rightarrow> None | Inr l \<Rightarrow> Some ([], put (m\<lparr>in_lock := l\<rparr>) (S_push_test d)))
      | S_pop_spin \<Rightarrow> (case OSA_spinlock_lock (out_lock m) of
          Inl _ \<Rightarrow> None | Inr l \<Rightarrow> Some ([], put (m\<lparr>out_lock := l\<rparr>) S_pop_test))
      | S_push_unlock r \<Rightarrow> Some ([Return t (Pushed r)], put (m\<lparr>in_lock := OSA_spinlock_unlock (in_lock m)\<rparr>) S_idle)
      | S_pop_unlock x \<Rightarrow> Some ([Return t (Popped x)], put (m\<lparr>out_lock := OSA_spinlock_unlock (out_lock m)\<rparr>) S_idle)
      | st \<Rightarrow> (case fifo_stage wo ro mix sz g st m of
          Inl _ \<Rightarrow> None
        | Inr (st, m, eff) \<Rightarrow> Some (case eff of None \<Rightarrow> [] | Some op \<Rightarrow> [Effect t op], put m st)))"

lemma ring_next_inside:
  assumes "inside (stages c t)"
  shows "ring_next wo ro mix sz g op t c = (case fifo_stage wo ro mix sz g (stages c t) (area c) of
      Inl _ \<Rightarrow> None
    | Inr (st, m, eff) \<Rightarrow> Some (case eff of None \<Rightarrow> [] | Some op \<Rightarrow> [Effect t op], c\<lparr>area := m, stages := (stages c)(t := st)\<rparr>))"
  using assms by (cases "stages c t") (simp_all add: ring_next_def Let_def)

lemma keep_area: "c\<lparr>area := area c, stages := f\<rparr> = c\<lparr>stages := f\<rparr>"
  by (cases c) simp

lemma ring_next_step:
  assumes "ring_next wo ro mix sz g op t c = Some (ev, c')"
  shows "ring_step wo ro mix sz c ev c'"
proof (cases "inside (stages c t)")
  case True
  then show ?thesis using assms access [OF True, of wo ro mix sz g]
    by (auto simp: ring_next_inside split: sum.splits option.splits)
next
  case False
  then show ?thesis using assms
    by (cases "stages c t"; cases op)
      (auto simp: ring_next_def Let_def keep_area split: sum.splits option.splits
        intro: ring_step.intros)
qed

text \<open>A schedule: which thread moves, and what for.\<close>

fun ring_play ::
  "('a mem_area \<Rightarrow> nat) \<Rightarrow> ('a mem_area \<Rightarrow> nat) \<Rightarrow> ('a \<Rightarrow> 'a \<Rightarrow> 'a) \<Rightarrow> u32 \<Rightarrow> 'a \<Rightarrow> (nat \<times> 'a fifo_op) list \<Rightarrow> 'a ring \<Rightarrow>
   ('a event list \<times> 'a ring) option" where
  "ring_play wo ro mix sz g [] c = Some ([], c)"
| "ring_play wo ro mix sz g ((t, op) # moves) c =
     Option.bind (ring_next wo ro mix sz g op t c) (\<lambda>(ev, c).
     Option.bind (ring_play wo ro mix sz g moves c) (\<lambda>(evs, c). Some (ev @ evs, c)))"

lemma run_from:
  assumes "ring_run wo ro mix sz c1 evs c2" "ring_step wo ro mix sz c ev c1"
  shows "ring_run wo ro mix sz c (ev @ evs) c2"
  using assms
proof (induction rule: ring_run.induct)
  case (start c1)
  show ?case using ring_run.more [OF ring_run.start start] by simp
next
  case (more c1 evs c2 ev' c3)
  from ring_run.more [OF more.IH [OF more.prems] more.hyps(2)] show ?case by simp
qed

lemma ring_play_run:
  "ring_play wo ro mix sz g moves c = Some (evs, c') \<Longrightarrow> ring_run wo ro mix sz c evs c'"
proof (induction wo ro mix sz g moves c arbitrary: evs c' rule: ring_play.induct)
  case (1 wo ro mix sz g c)
  then show ?case by (simp add: ring_run.start)
next
  case (2 wo ro mix sz g t op moves c)
  then obtain ev c1 evs' where n: "ring_next wo ro mix sz g op t c = Some (ev, c1)"
      "ring_play wo ro mix sz g moves c1 = Some (evs', c')" "evs = ev @ evs'"
    by (auto simp: Option.bind_eq_Some_conv)
  from run_from [OF 2(1) [OF n(1) refl n(2)] ring_next_step [OF n(1)]] show ?case using n(3) by simp
qed

subsection \<open>What is seen of a run\<close>

fun called :: "nat \<Rightarrow> 'a event list \<Rightarrow> 'a fifo_op list" where
  "called t [] = []"
| "called t (Call u op # evs) = (if u = t then op # called t evs else called t evs)"
| "called t (_ # evs) = called t evs"

fun returned :: "nat \<Rightarrow> 'a event list \<Rightarrow> 'a fifo_ans list" where
  "returned t [] = []"
| "returned t (Return u a # evs) = (if u = t then a # returned t evs else returned t evs)"
| "returned t (_ # evs) = returned t evs"

fun effects :: "'a event list \<Rightarrow> (nat \<times> 'a fifo_op) list" where
  "effects [] = []"
| "effects (Effect t op # evs) = (t, op) # effects evs"
| "effects (_ # evs) = effects evs"

text \<open>What a queue answers when the calls are made one after the other, in the order of their effects.\<close>

definition queue_after :: "nat \<Rightarrow> 'a list \<Rightarrow> 'a event list \<Rightarrow> 'a list" where
  "queue_after cap q evs = snd (spec_ops cap (map snd (effects evs)) q)"

definition answers :: "nat \<Rightarrow> 'a list \<Rightarrow> nat \<Rightarrow> 'a event list \<Rightarrow> 'a fifo_ans list" where
  "answers cap q t evs =
     map snd (filter (\<lambda>(u, a). u = t) (zip (map fst (effects evs)) (fst (spec_ops cap (map snd (effects evs)) q))))"

definition took_effect :: "nat \<Rightarrow> 'a event list \<Rightarrow> 'a fifo_op list" where
  "took_effect t evs = map snd (filter (\<lambda>(u, op). u = t) (effects evs))"

lemma called_append [simp]: "called t (xs @ ys) = called t xs @ called t ys"
  by (induction xs rule: called.induct [of _ t]) auto

lemma returned_append [simp]: "returned t (xs @ ys) = returned t xs @ returned t ys"
  by (induction xs rule: returned.induct [of _ t]) auto

lemma effects_append [simp]: "effects (xs @ ys) = effects xs @ effects ys"
  by (induction xs rule: effects.induct) auto

lemma length_spec_ops [simp]: "length (fst (spec_ops cap ops q)) = length ops"
  by (induction cap ops q rule: spec_ops.induct) auto

lemma spec_ops_append:
  "spec_ops cap (xs @ ys) q =
     (fst (spec_ops cap xs q) @ fst (spec_ops cap ys (snd (spec_ops cap xs q))), snd (spec_ops cap ys (snd (spec_ops cap xs q))))"
  by (induction cap xs q rule: spec_ops.induct) (auto simp: apfst_def map_prod_def split_beta)

text \<open>One more effect.\<close>

definition answer_one :: "nat \<Rightarrow> 'a fifo_op \<Rightarrow> 'a list \<Rightarrow> 'a fifo_ans" where
  "answer_one cap op q = hd (fst (spec_ops cap [op] q))"

lemma one_effect:
  "queue_after cap q (evs @ [Effect t op]) = snd (spec_ops cap [op] (queue_after cap q evs))"
  "answers cap q u (evs @ [Effect t op]) =
     answers cap q u evs @ (if u = t then [answer_one cap op (queue_after cap q evs)] else [])"
proof -
  obtain a where "fst (spec_ops cap [op] (queue_after cap q evs)) = [a]"
    using length_spec_ops [of cap "[op]" "queue_after cap q evs"] by (auto simp: length_Suc_conv simp del: length_spec_ops)
  then show "answers cap q u (evs @ [Effect t op]) =
      answers cap q u evs @ (if u = t then [answer_one cap op (queue_after cap q evs)] else [])"
    by (simp add: answers_def queue_after_def answer_one_def spec_ops_append)
qed (simp add: queue_after_def spec_ops_append)

lemma no_effect:
  assumes "effects ev = []"
  shows "queue_after cap q (evs @ ev) = queue_after cap q evs" "answers cap q u (evs @ ev) = answers cap q u evs"
    "took_effect u (evs @ ev) = took_effect u evs"
  using assms by (simp_all add: queue_after_def answers_def took_effect_def)

subsection \<open>The two classes\<close>

text \<open>The two classes: \<open>StaticMemArea\<close> with its own buffer, \<open>CMemArea\<close> in a process that maps it at an address.\<close>

datatype ring_kind = Static_ring | CMem_ring u64

fun ring_wo :: "ring_kind \<Rightarrow> 'a mem_area \<Rightarrow> nat" where
  "ring_wo Static_ring m = unat (StaticMemArea_GetWriteBufP m)"
| "ring_wo (CMem_ring base) m = unat (CMemArea_GetWriteBufP m - base)"

fun ring_ro :: "ring_kind \<Rightarrow> 'a mem_area \<Rightarrow> nat" where
  "ring_ro Static_ring m = unat (StaticMemArea_GetReadBufP m)"
| "ring_ro (CMem_ring base) m = unat (CMemArea_GetReadBufP m - base)"

fun ring_here :: "ring_kind \<Rightarrow> 'a mem_area \<Rightarrow> bool" where
  "ring_here Static_ring m = True"
| "ring_here (CMem_ring base) m = area_at base m"

subsection \<open>One thread alone\<close>

fun stages_from ::
  "nat \<Rightarrow> ('a mem_area \<Rightarrow> nat) \<Rightarrow> ('a mem_area \<Rightarrow> nat) \<Rightarrow> ('a \<Rightarrow> 'a \<Rightarrow> 'a) \<Rightarrow> u32 \<Rightarrow> 'a \<Rightarrow> 'a stage \<Rightarrow> 'a mem_area \<Rightarrow>
   fault + ('a stage \<times> 'a mem_area)" where
  "stages_from 0 wo ro mix sz g st m = Inr (st, m)"
| "stages_from (Suc n) wo ro mix sz g st m =
     bindE (fifo_stage wo ro mix sz g st m) (\<lambda>(st, m, _). stages_from n wo ro mix sz g st m)"

text \<open>All accesses of a call, one after the other, between its lock and its unlock.\<close>

definition push_alone where
  "push_alone wo ro mix sz g d m =
     bindE (OSA_spinlock_lock (in_lock m)) (\<lambda>l.
     bindE (stages_from 4 wo ro mix sz g (S_push_test d) (m\<lparr>in_lock := l\<rparr>)) (\<lambda>(st, m).
       case st of S_push_unlock r \<Rightarrow> Inr (r, m\<lparr>in_lock := OSA_spinlock_unlock (in_lock m)\<rparr>) | _ \<Rightarrow> Inl Deadlock))"

definition pop_alone where
  "pop_alone wo ro mix sz g m =
     bindE (OSA_spinlock_lock (out_lock m)) (\<lambda>l.
     bindE (stages_from 4 wo ro mix sz g S_pop_test (m\<lparr>out_lock := l\<rparr>)) (\<lambda>(st, m).
       case st of S_pop_unlock x \<Rightarrow> Inr (x, m\<lparr>out_lock := OSA_spinlock_unlock (out_lock m)\<rparr>) | _ \<Rightarrow> Inl Deadlock))"

lemma ring_offset_buf:
  "ring_wo k (m\<lparr>chunk_buf := b\<rparr>) = ring_wo k m"
  by (cases k; simp add: StaticMemArea_GetWriteBufP_def CMemArea_GetWriteBufP_def)

lemma store_twice:
  "bindE (chunk_store (ring_wo k m) g m) (\<lambda>m'. bindE (chunk_store (ring_wo k m') d m') f) = bindE (chunk_store (ring_wo k m) d m) f"
  by (cases "chunk_index (ring_wo k m) m") (auto simp: chunk_store_def ring_offset_buf chunk_index_def Let_def split: if_splits)


lemma load_twice: "bindE x (\<lambda>y. bindE x (f y)) = bindE x (\<lambda>y. f y y)"
  by (cases x) simp_all

lemma accesses_are_call:
  "push_mt (ring_wo k) d sz m = push_alone (ring_wo k) ro mix sz g d m \<and>
   pop_mt (ring_ro k) sz m = pop_alone wo (ring_ro k) mix sz g m"
proof
  have four: "stages_from 4 wo ro mix sz g st m = stages_from (Suc (Suc (Suc (Suc 0)))) wo ro mix sz g st m" for wo ro st and m :: "'a mem_area"
    by (simp add: numeral_eq_Suc)
  show "push_mt (ring_wo k) d sz m = push_alone (ring_wo k) ro mix sz g d m"
    by (cases "OSA_spinlock_lock (in_lock m)"; cases "next_ind (wr_ind m) (number_chunks m)")
      (auto simp: push_mt_def push_alone_def four Let_def ASSERT_def store_twice bindE_assoc split: if_splits)
  show "pop_mt (ring_ro k) sz m = pop_alone wo (ring_ro k) mix sz g m"
    by (cases "OSA_spinlock_lock (out_lock m)"; cases "next_ind (rd_ind m) (number_chunks m)")
      (auto simp: pop_mt_def pop_alone_def four Let_def ASSERT_def bindE_assoc load_twice)
qed

text \<open>The accesses are the code's: for both classes, the accesses of one call, one after the other and with nobody else at the
  area, are the call - the same answer, the same area and the same fault, from every state of the area.\<close>

lemma stages_are_calls:
  "StaticMemArea_PushFIFO_MT d sz m = push_alone (ring_wo Static_ring) ro mix sz g d m \<and>
   StaticMemArea_PopFIFO_MT sz m = pop_alone wo (ring_ro Static_ring) mix sz g m \<and>
   CMemArea_PushFIFO_MT base d sz m = push_alone (ring_wo (CMem_ring base)) ro mix sz g d m \<and>
   CMemArea_PopFIFO_MT base sz m = pop_alone wo (ring_ro (CMem_ring base)) mix sz g m"
proof -
  have off: "(\<lambda>m. unat (StaticMemArea_GetWriteBufP m)) = ring_wo Static_ring" "(\<lambda>m. unat (StaticMemArea_GetReadBufP m)) = ring_ro Static_ring"
    "(\<lambda>m. unat (CMemArea_GetWriteBufP m - base)) = ring_wo (CMem_ring base)"
    "(\<lambda>m. unat (CMemArea_GetReadBufP m - base)) = ring_ro (CMem_ring base)"
    by (rule ext; simp)+
  show ?thesis
    unfolding StaticMemArea_PushFIFO_MT_def StaticMemArea_PopFIFO_MT_def CMemArea_PushFIFO_MT_def CMemArea_PopFIFO_MT_def off
    by (intro conjI accesses_are_call [THEN conjunct1] accesses_are_call [THEN conjunct2])
qed

end
