(* ===== verification/Fifo_Sharing.thy ===== *)
theory Fifo_Sharing
  imports Fifo_Threads
begin

section \<open>What the threads of a FIFO see\<close>

text \<open>
  The accesses of \<open>Fifo_Threads\<close> implement one queue that all threads share (each call takes effect at one moment between its
  call and its return), and every call returns. The invariant says what a thread in the middle of a call relies on, and what
  producers and consumers leave alone; the locale \<open>ring_class\<close> holds the proof for both classes of memory areas.
\<close>

subsection \<open>The invariant\<close>

definition unlocked :: "'a mem_area \<Rightarrow> 'a mem_area" where
  "unlocked m = m\<lparr>in_lock := False, out_lock := False\<rparr>"

lemma unlocked_simps [simp]:
  "chunk_buf (unlocked m) = chunk_buf m" "wr_ind (unlocked m) = wr_ind m" "rd_ind (unlocked m) = rd_ind m"
  "number_chunks (unlocked m) = number_chunks m" "single_chunk_size (unlocked m) = single_chunk_size m"
  "elem_size (unlocked m) = elem_size m" "fifo_contents (unlocked m) = fifo_contents m" "fifo_cap (unlocked m) = fifo_cap m"
  "area_frame (unlocked m) = area_frame m" "chunk_index off (unlocked m) = chunk_index off m"
  by (simp_all add: unlocked_def fifo_contents_def fifo_cap_def area_frame_def chunk_index_def Let_def)

lemma unlocked_lock [simp]: "unlocked (m\<lparr>in_lock := b\<rparr>) = unlocked m" "unlocked (m\<lparr>out_lock := b\<rparr>) = unlocked m"
  "unlocked (m\<lparr>chunk_buf := buf\<rparr>) = (unlocked m)\<lparr>chunk_buf := buf\<rparr>"
  "unlocked (m\<lparr>wr_ind := i\<rparr>) = (unlocked m)\<lparr>wr_ind := i\<rparr>" "unlocked (m\<lparr>rd_ind := i\<rparr>) = (unlocked m)\<lparr>rd_ind := i\<rparr>"
  by (simp_all add: unlocked_def)

lemma lock_frame [simp]:
  "fifo_contents (m\<lparr>in_lock := b\<rparr>) = fifo_contents m" "fifo_contents (m\<lparr>out_lock := b\<rparr>) = fifo_contents m"
  "fifo_cap (m\<lparr>in_lock := b\<rparr>) = fifo_cap m" "fifo_cap (m\<lparr>out_lock := b\<rparr>) = fifo_cap m"
  "area_frame (m\<lparr>in_lock := b\<rparr>) = area_frame m" "area_frame (m\<lparr>out_lock := b\<rparr>) = area_frame m"
  by (simp_all add: fifo_contents_def fifo_cap_def area_frame_def)

definition wr_next :: "'a mem_area \<Rightarrow> u32" where
  "wr_next m = of_nat ((unat (wr_ind m) + 1) mod length (chunk_buf m))"

definition rd_next :: "'a mem_area \<Rightarrow> u32" where
  "rd_next m = of_nat ((unat (rd_ind m) + 1) mod length (chunk_buf m))"

text \<open>What a thread in the middle of a call relies on.\<close>

fun stage_ok :: "'a mem_area \<Rightarrow> 'a stage \<Rightarrow> bool" where
  "stage_ok m (S_push_copy d tmp) = (tmp = wr_next m \<and> length (fifo_contents m) < fifo_cap m)"
| "stage_ok m (S_push_copied d tmp) = (tmp = wr_next m \<and> length (fifo_contents m) < fifo_cap m)"
| "stage_ok m (S_push_advance d tmp) =
     (tmp = wr_next m \<and> length (fifo_contents m) < fifo_cap m \<and> chunk_buf m ! unat (wr_ind m) = d)"
| "stage_ok m (S_pop_advance tmp) = (tmp = rd_next m \<and> fifo_contents m \<noteq> [])"
| "stage_ok m (S_pop_copied x) = (x = chunk_buf m ! unat (rd_ind m))"
| "stage_ok m st = True"

text \<open>A call that has taken effect and not returned: what it will answer. A call that has not taken effect.\<close>

fun owed :: "'a mem_area \<Rightarrow> 'a stage \<Rightarrow> 'a fifo_ans list" where
  "owed m (S_push_unlock r) = [Pushed r]"
| "owed m S_pop_copy = [Popped (Some (chunk_buf m ! unat (rd_ind m)))]"
| "owed m (S_pop_copied x) = [Popped (Some x)]"
| "owed m (S_pop_unlock x) = [Popped x]"
| "owed m st = []"

fun open_call :: "'a stage \<Rightarrow> 'a fifo_op list" where
  "open_call (S_push_spin d) = [Push d]"
| "open_call (S_push_test d) = [Push d]"
| "open_call (S_push_copy d tmp) = [Push d]"
| "open_call (S_push_copied d tmp) = [Push d]"
| "open_call (S_push_advance d tmp) = [Push d]"
| "open_call S_pop_spin = [Pop]"
| "open_call S_pop_test = [Pop]"
| "open_call (S_pop_advance tmp) = [Pop]"
| "open_call st = []"

text \<open>What a producer may do while a consumer is in the middle of a call, and the other way round.\<close>

definition push_changes :: "'a mem_area \<Rightarrow> 'a mem_area \<Rightarrow> bool" where
  "push_changes m m' \<longleftrightarrow> rd_ind m' = rd_ind m \<and> length (chunk_buf m') = length (chunk_buf m) \<and>
     chunk_buf m' ! unat (rd_ind m) = chunk_buf m ! unat (rd_ind m) \<and> (fifo_contents m \<noteq> [] \<longrightarrow> fifo_contents m' \<noteq> [])"

definition pop_changes :: "'a mem_area \<Rightarrow> 'a mem_area \<Rightarrow> bool" where
  "pop_changes m m' \<longleftrightarrow> wr_ind m' = wr_ind m \<and> chunk_buf m' = chunk_buf m \<and>
     length (fifo_contents m') \<le> length (fifo_contents m)"

lemma seen_by_others:
  "push_changes m m' \<Longrightarrow> \<not> pushing st \<Longrightarrow> stage_ok m st \<Longrightarrow> stage_ok m' st \<and> owed m' st = owed m st"
  "pop_changes m m' \<Longrightarrow> \<not> popping st \<Longrightarrow> stage_ok m st \<Longrightarrow> stage_ok m' st \<and> owed m' st = owed m st"
  by (cases st; auto simp: push_changes_def rd_next_def)
    (cases st; auto simp: pop_changes_def wr_next_def fifo_cap_def)

definition locks_ok :: "'a mem_area \<Rightarrow> (nat \<Rightarrow> 'a stage) \<Rightarrow> bool" where
  "locks_ok m f \<longleftrightarrow> in_lock m = (\<exists>t. pushing (f t)) \<and> out_lock m = (\<exists>t. popping (f t)) \<and>
     (\<forall>t u. pushing (f t) \<and> pushing (f u) \<longrightarrow> t = u) \<and> (\<forall>t u. popping (f t) \<and> popping (f u) \<longrightarrow> t = u)"

lemma pushing_not_popping: "pushing st \<Longrightarrow> \<not> popping st"
  by (cases st) simp_all

lemma locks_ok_keep:
  assumes "locks_ok m f" "in_lock m' = in_lock m" "out_lock m' = out_lock m" "pushing st = pushing (f t)" "popping st = popping (f t)"
  shows "locks_ok m' (f(t := st))"
proof -
  have "pushing ((f(t := st)) u) = pushing (f u)" "popping ((f(t := st)) u) = popping (f u)" for u using assms(4,5) by auto
  then show ?thesis using assms(1-3) unfolding locks_ok_def by simp
qed

lemma locks_ok_take:
  "locks_ok m f \<Longrightarrow> \<not> in_lock m \<Longrightarrow> \<not> pushing (f t) \<Longrightarrow> \<not> popping (f t) \<Longrightarrow> locks_ok (m\<lparr>in_lock := True\<rparr>) (f(t := S_push_test d))"
  "locks_ok m f \<Longrightarrow> \<not> out_lock m \<Longrightarrow> \<not> pushing (f t) \<Longrightarrow> \<not> popping (f t) \<Longrightarrow> locks_ok (m\<lparr>out_lock := True\<rparr>) (f(t := S_pop_test))"
  unfolding locks_ok_def by (auto split: if_splits)

lemma ex_upd: "\<not> P (f t) \<Longrightarrow> \<not> P x \<Longrightarrow> (\<exists>u. P ((f(t := x)) u)) = (\<exists>u. P (f u))"
  by (metis fun_upd_apply)

lemma locks_ok_release:
  "locks_ok m f \<Longrightarrow> pushing (f t) \<Longrightarrow> locks_ok (m\<lparr>in_lock := False\<rparr>) (f(t := S_idle))"
  "locks_ok m f \<Longrightarrow> popping (f t) \<Longrightarrow> locks_ok (m\<lparr>out_lock := False\<rparr>) (f(t := S_idle))"
proof -
  assume l: "locks_ok m f"
  let ?f = "f(t := S_idle)"
  have sub: "pushing (?f u) \<Longrightarrow> pushing (f u) \<and> u \<noteq> t" "popping (?f u) \<Longrightarrow> popping (f u) \<and> u \<noteq> t" for u
    by (simp_all split: if_splits)
  have uniq: "\<forall>u v. pushing (?f u) \<and> pushing (?f v) \<longrightarrow> u = v" "\<forall>u v. popping (?f u) \<and> popping (?f v) \<longrightarrow> u = v"
    using l sub unfolding locks_ok_def by blast+
  show "locks_ok (m\<lparr>in_lock := False\<rparr>) ?f" if t: "pushing (f t)"
  proof -
    have "(\<exists>u. popping (?f u)) = (\<exists>u. popping (f u))" using pushing_not_popping [OF t] by (intro ex_upd) simp_all
    moreover have "\<not> (\<exists>u. pushing (?f u))" using l t sub(1) unfolding locks_ok_def by blast
    ultimately show ?thesis using l uniq unfolding locks_ok_def by (simp del: fun_upd_apply)
  qed
  show "locks_ok (m\<lparr>out_lock := False\<rparr>) ?f" if t: "popping (f t)"
  proof -
    have "(\<exists>u. pushing (?f u)) = (\<exists>u. pushing (f u))" using pushing_not_popping [of "f t"] t by (intro ex_upd) auto
    moreover have "\<not> (\<exists>u. popping (?f u))" using l t sub(2) unfolding locks_ok_def by blast
    ultimately show ?thesis using l uniq unfolding locks_ok_def by (simp del: fun_upd_apply)
  qed
qed

text \<open>What the events say of one thread.\<close>

definition thread_inv :: "nat \<Rightarrow> 'a list \<Rightarrow> 'a event list \<Rightarrow> 'a mem_area \<Rightarrow> nat \<Rightarrow> 'a stage \<Rightarrow> bool" where
  "thread_inv cap q evs m t st \<longleftrightarrow> stage_ok m st \<and> answers cap q t evs = returned t evs @ owed m st \<and>
     called t evs = took_effect t evs @ open_call st"

definition ring_inv :: "('a mem_area \<Rightarrow> bool) \<Rightarrow> u32 \<Rightarrow> nat \<Rightarrow> 'a list \<Rightarrow> 'a event list \<Rightarrow> 'a ring \<Rightarrow> bool" where
  "ring_inv mapped_here sz cap q evs c \<longleftrightarrow> area_ready sz (unlocked (area c)) \<and> mapped_here (area c) \<and> fifo_cap (area c) = cap \<and>
     fifo_contents (area c) = queue_after cap q evs \<and> locks_ok (area c) (stages c) \<and>
     (\<forall>t. thread_inv cap q evs (area c) t (stages c t))"

text \<open>An access that goes as it should.\<close>

definition good_access :: "'a mem_area \<Rightarrow> 'a stage \<Rightarrow> 'a mem_area \<Rightarrow> 'a stage \<Rightarrow> 'a fifo_op option \<Rightarrow> bool" where
  "good_access m st m' st' eff \<longleftrightarrow> area_wf (unlocked m') \<and> area_frame m' = area_frame m \<and>
     in_lock m' = in_lock m \<and> out_lock m' = out_lock m \<and> stage_ok m' st' \<and>
     (case eff of
        None \<Rightarrow> fifo_contents m' = fifo_contents m \<and> owed m' st' = owed m st \<and> open_call st' = open_call st
      | Some op \<Rightarrow> open_call st = [op] \<and> open_call st' = [] \<and> owed m st = [] \<and>
          owed m' st' = [answer_one (fifo_cap m) op (fifo_contents m)] \<and>
          fifo_contents m' = snd (spec_ops (fifo_cap m) [op] (fifo_contents m)))"

lemma area_wf_buf: "area_wf m \<Longrightarrow> length buf = length (chunk_buf m) \<Longrightarrow> area_wf (m\<lparr>chunk_buf := buf\<rparr>)"
  by (simp add: area_wf_def pool_wf_buf)

text \<open>The chunk that is written next is not part of the queue.\<close>

lemma contents_hidden:
  assumes "area_wf m" "length (fifo_contents m) < fifo_cap m"
  shows "fifo_contents (m\<lparr>chunk_buf := (chunk_buf m)[unat (wr_ind m) := x]\<rparr>) = fifo_contents m"
proof -
  let ?m = "m\<lparr>chunk_buf := (chunk_buf m)[unat (wr_ind m) := x]\<rparr>"
  have room: "(unat (wr_ind m) + 1) mod length (chunk_buf m) \<noteq> unat (rd_ind m)"
    using full_iff [OF assms(1)] assms(2) by auto
  have "area_wf ?m" using assms(1) by (intro area_wf_buf) simp_all
  from contents_pushed [OF this, of x] room have "fifo_contents (pushed x ?m) = fifo_contents ?m @ [x]" by simp
  moreover have "pushed x ?m = pushed x m" by (simp add: pushed_def)
  ultimately show ?thesis using contents_pushed [OF assms(1) room, of x] by simp
qed

definition waits :: "'a ring \<Rightarrow> nat \<Rightarrow> bool" where
  "waits c t \<longleftrightarrow> (\<exists>d. stages c t = S_push_spin d) \<and> in_lock (area c) \<or> stages c t = S_pop_spin \<and> out_lock (area c)"

subsection \<open>Both classes\<close>

text \<open>What the proof needs of a class: its offsets are those of the two indices.\<close>

locale ring_class =
  fixes wo ro :: "'a mem_area \<Rightarrow> nat"
    and mapped_here :: "'a mem_area \<Rightarrow> bool"
  assumes wo_eq: "mapped_here m \<Longrightarrow> area_wf (unlocked m) \<Longrightarrow> wo m = unat (elem_size m) * unat (wr_ind m)"
    and ro_eq: "mapped_here m \<Longrightarrow> area_wf (unlocked m) \<Longrightarrow> ro m = unat (elem_size m) * unat (rd_ind m)"
    and mapped_frame: "mapped_here m \<Longrightarrow> area_frame m' = area_frame m \<Longrightarrow> mapped_here m'"
begin

lemma indices:
  assumes "area_wf (unlocked m)"
  shows "unat (wr_ind m) < length (chunk_buf m)" "unat (rd_ind m) < length (chunk_buf m)" "unat (wr_ind m) \<noteq> unat (rd_ind m)"
    "next_ind (wr_ind m) (number_chunks m) = Inr (wr_next m)" "next_ind (rd_ind m) (number_chunks m) = Inr (rd_next m)"
    "wr_next m = rd_ind m \<longleftrightarrow> length (fifo_contents m) = fifo_cap m" "rd_next m = wr_ind m \<longleftrightarrow> fifo_contents m = []"
    "single_chunk_size m = elem_size m" "length (fifo_contents m) \<le> fifo_cap m"
proof -
  note p = area_wf_pool [OF assms]
  show i: "unat (wr_ind m) < length (chunk_buf m)" "unat (rd_ind m) < length (chunk_buf m)" "single_chunk_size m = elem_size m"
    using p by (auto simp: pool_wf_def)
  show "unat (wr_ind m) \<noteq> unat (rd_ind m)" using area_wf_apart [OF assms] by simp
  show "next_ind (wr_ind m) (number_chunks m) = Inr (wr_next m)" "next_ind (rd_ind m) (number_chunks m) = Inr (rd_next m)"
    using next_ind_wf [OF p, of "wr_ind m"] next_ind_wf [OF p, of "rd_ind m"] i by (simp_all add: wr_next_def rd_next_def)
  have k: "(j + 1) mod length (chunk_buf m) < length (chunk_buf m)" for j
    using i(1) by (intro mod_less_divisor) linarith
  show "wr_next m = rd_ind m \<longleftrightarrow> length (fifo_contents m) = fifo_cap m"
    using full_iff [OF assms] of_nat_ind_eq_iff [OF p, of "(unat (wr_ind m) + 1) mod length (chunk_buf m)"] k
    unfolding wr_next_def unlocked_simps by simp
  show "rd_next m = wr_ind m \<longleftrightarrow> fifo_contents m = []"
    using empty_iff [OF assms] of_nat_ind_eq_iff [OF p, of "(unat (rd_ind m) + 1) mod length (chunk_buf m)"] k
    unfolding rd_next_def unlocked_simps by simp
  show "length (fifo_contents m) \<le> fifo_cap m" using contents_len_cap [OF assms] by simp
qed

lemma store_here:
  assumes "mapped_here m" "area_wf (unlocked m)"
  shows "chunk_store (wo m) x m = Inr (m\<lparr>chunk_buf := (chunk_buf m)[unat (wr_ind m) := x]\<rparr>)"
  using chunk_index_wf [OF area_wf_pool [OF assms(2)], of "unat (wr_ind m)"] indices(1) [OF assms(2)] wo_eq [OF assms]
  by (simp add: chunk_store_def)

lemma load_here:
  assumes "mapped_here m" "area_wf (unlocked m)"
  shows "chunk_load (ro m) m = Inr (chunk_buf m ! unat (rd_ind m))"
  using chunk_index_wf [OF area_wf_pool [OF assms(2)], of "unat (rd_ind m)"] indices(2) [OF assms(2)] ro_eq [OF assms]
  by (simp add: chunk_load_def)

lemma write_hidden:
  assumes "area_wf (unlocked m)" "length (fifo_contents m) < fifo_cap m"
  shows "area_wf (unlocked (m\<lparr>chunk_buf := (chunk_buf m)[unat (wr_ind m) := x]\<rparr>))"
    "fifo_contents (m\<lparr>chunk_buf := (chunk_buf m)[unat (wr_ind m) := x]\<rparr>) = fifo_contents m"
    "push_changes m (m\<lparr>chunk_buf := (chunk_buf m)[unat (wr_ind m) := x]\<rparr>)"
proof -
  show "area_wf (unlocked (m\<lparr>chunk_buf := (chunk_buf m)[unat (wr_ind m) := x]\<rparr>))"
    using area_wf_buf [OF assms(1)] by simp
  have "fifo_contents (unlocked (m\<lparr>chunk_buf := (chunk_buf m)[unat (wr_ind m) := x]\<rparr>)) = fifo_contents m"
    using contents_hidden [OF assms(1), of x] assms(2) by simp
  then show c: "fifo_contents (m\<lparr>chunk_buf := (chunk_buf m)[unat (wr_ind m) := x]\<rparr>) = fifo_contents m"
    by (simp only: unlocked_simps)
  show "push_changes m (m\<lparr>chunk_buf := (chunk_buf m)[unat (wr_ind m) := x]\<rparr>)"
    using indices(3) [OF assms(1)] c by (simp add: push_changes_def)
qed

lemma push_access:
  assumes m: "area_wf (unlocked m)" "sz \<le> elem_size m" "mapped_here m" and st: "stage_ok m st" "pushing st" "\<not> unlocking st"
  shows "\<exists>st' m' eff. fifo_stage wo ro mix sz g st m = Inr (st', m', eff) \<and> pushing st' \<and> \<not> popping st' \<and>
    good_access m st m' st' eff \<and> push_changes m m'"
proof (cases st)
  case (S_push_test d)
  show ?thesis
  proof (cases "wr_next m = rd_ind m")
    case True
    then have "length (fifo_contents m) = fifo_cap m" using indices(6) [OF m(1)] by simp
    then have "answer_one (fifo_cap m) (Push d) (fifo_contents m) = Pushed E_FAIL"
      "snd (spec_ops (fifo_cap m) [Push d] (fifo_contents m)) = fifo_contents m" by (simp_all add: answer_one_def apfst_def)
    then show ?thesis using True S_push_test m(1) indices(4) [OF m(1)] by (simp add: good_access_def push_changes_def)
  next
    case False
    then have "length (fifo_contents m) < fifo_cap m" using indices(6,9) [OF m(1)] by simp
    then show ?thesis using False S_push_test m(1,2) indices(4,8) [OF m(1)]
      by (simp add: good_access_def push_changes_def ASSERT_def)
  qed
next
  case (S_push_copy d tmp)
  then have ok: "tmp = wr_next m" "length (fifo_contents m) < fifo_cap m" using st by simp_all
  show ?thesis using S_push_copy ok store_here [OF m(3,1)] write_hidden [OF m(1) ok(2), of g]
    by (simp add: good_access_def wr_next_def fifo_cap_def area_frame_def)
next
  case (S_push_copied d tmp)
  then have ok: "tmp = wr_next m" "length (fifo_contents m) < fifo_cap m" using st by simp_all
  show ?thesis using S_push_copied ok store_here [OF m(3,1)] write_hidden [OF m(1) ok(2), of d] indices(1) [OF m(1)]
    by (simp add: good_access_def wr_next_def fifo_cap_def area_frame_def)
next
  case (S_push_advance d tmp)
  then have ok: "tmp = wr_next m" "length (fifo_contents m) < fifo_cap m" "chunk_buf m ! unat (wr_ind m) = d" using st by simp_all
  have room: "(unat (wr_ind (unlocked m)) + 1) mod length (chunk_buf (unlocked m)) \<noteq> unat (rd_ind (unlocked m))"
    using full_iff [OF m(1)] ok(2) by simp
  have eq: "unlocked (m\<lparr>wr_ind := tmp\<rparr>) = pushed d (unlocked m)"
  proof -
    have "(chunk_buf m)[unat (wr_ind m) := d] = chunk_buf m" using ok(3) list_update_id by metis
    then show ?thesis using ok(1) by (cases m) (simp add: pushed_def wr_next_def unlocked_def)
  qed
  have "fifo_contents (unlocked (m\<lparr>wr_ind := tmp\<rparr>)) = fifo_contents (unlocked m) @ [d]"
    unfolding eq using contents_pushed [OF m(1) room] .
  then have c: "fifo_contents (m\<lparr>wr_ind := tmp\<rparr>) = fifo_contents m @ [d]" by (simp only: unlocked_simps)
  have "area_wf (unlocked (m\<lparr>wr_ind := tmp\<rparr>))" unfolding eq using area_wf_pushed [OF m(1) room] .
  moreover have "answer_one (fifo_cap m) (Push d) (fifo_contents m) = Pushed E_OK"
    "snd (spec_ops (fifo_cap m) [Push d] (fifo_contents m)) = fifo_contents m @ [d]"
    using ok(2) by (simp_all add: answer_one_def apfst_def)
  ultimately show ?thesis using S_push_advance c by (simp add: good_access_def push_changes_def area_frame_def)
qed (use st in simp_all)

lemma pop_access:
  assumes m: "area_wf (unlocked m)" "sz \<le> elem_size m" "mapped_here m" and st: "stage_ok m st" "popping st" "\<not> unlocking st"
  shows "\<exists>st' m' eff. fifo_stage wo ro mix sz g st m = Inr (st', m', eff) \<and> popping st' \<and> \<not> pushing st' \<and>
    good_access m st m' st' eff \<and> pop_changes m m'"
proof (cases st)
  case S_pop_test
  then show ?thesis using m(1) indices(5,7) [OF m(1)]
    by (auto simp: good_access_def pop_changes_def answer_one_def apfst_def)
next
  case (S_pop_advance tmp)
  then have ok: "tmp = rd_next m" "fifo_contents m \<noteq> []" using st by simp_all
  have k: "(unat (rd_ind m) + 1) mod length (chunk_buf m) < length (chunk_buf m)"
    using indices(1) [OF m(1)] by (intro mod_less_divisor) linarith
  then have u: "unat tmp = (unat (rd_ind m) + 1) mod length (chunk_buf m)"
    using unat_of_nat_ind [OF area_wf_pool [OF m(1)]] ok(1) by (simp add: rd_next_def)
  have some: "(unat (rd_ind (unlocked m)) + 1) mod length (chunk_buf (unlocked m)) \<noteq> unat (wr_ind (unlocked m))"
    using empty_iff [OF m(1)] ok(2) by simp
  have eq: "unlocked (m\<lparr>rd_ind := tmp\<rparr>) = popped (unlocked m)"
    using ok(1) by (simp add: popped_def rd_next_def unlocked_def)
  have "fifo_contents (unlocked m) = chunk_buf m ! unat tmp # fifo_contents (unlocked (m\<lparr>rd_ind := tmp\<rparr>))"
    unfolding eq u using contents_popped [OF m(1) some] by (simp only: unlocked_simps)
  then have c: "fifo_contents m = chunk_buf m ! unat tmp # fifo_contents (m\<lparr>rd_ind := tmp\<rparr>)" by (simp only: unlocked_simps)
  have "area_wf (unlocked (m\<lparr>rd_ind := tmp\<rparr>))" unfolding eq using area_wf_popped [OF m(1) some] .
  moreover have "answer_one (fifo_cap m) Pop (fifo_contents m) = Popped (Some (chunk_buf m ! unat tmp))"
    "snd (spec_ops (fifo_cap m) [Pop] (fifo_contents m)) = fifo_contents (m\<lparr>rd_ind := tmp\<rparr>)"
    unfolding c by (simp_all add: answer_one_def apfst_def)
  moreover have "length (fifo_contents (m\<lparr>rd_ind := tmp\<rparr>)) \<le> length (fifo_contents m)" using arg_cong [OF c, of length] by simp
  ultimately show ?thesis using S_pop_advance by (simp add: good_access_def pop_changes_def area_frame_def)
next
  case S_pop_copy
  then show ?thesis using m(1,2) load_here [OF m(3,1)] indices(8) [OF m(1)]
    by (simp add: good_access_def pop_changes_def ASSERT_def)
next
  case (S_pop_copied x)
  then show ?thesis using m(1) st load_here [OF m(3,1)] by (simp add: good_access_def pop_changes_def)
qed (use st in simp_all)

lemma thread_inv_unlocked: "thread_inv cap q evs (unlocked m) t st = thread_inv cap q evs m t st"
  by (cases st; simp add: thread_inv_def wr_next_def rd_next_def)

lemma thread_inv_other:
  assumes "thread_inv cap q evs m u st" "effects ev = [] \<or> (\<exists>t op. ev = [Effect t op] \<and> t \<noteq> u)"
    "called u ev = []" "returned u ev = []" "stage_ok m' st \<and> owed m' st = owed m st"
  shows "thread_inv cap q (evs @ ev) m' u st"
  using assms by (auto simp: thread_inv_def took_effect_def no_effect one_effect)

lemma access_keeps:
  assumes c: "ring_inv mapped_here sz cap q evs c" and st: "inside (stages c t)"
    and r: "fifo_stage wo ro mix sz g (stages c t) (area c) = Inr (st', m', eff)"
  shows "ring_inv mapped_here sz cap q (evs @ (case eff of None \<Rightarrow> [] | Some op \<Rightarrow> [Effect t op])) (c\<lparr>area := m', stages := (stages c)(t := st')\<rparr>)"
proof -
  let ?m = "area c" and ?st = "stages c t" and ?ev = "case eff of None \<Rightarrow> [] | Some op \<Rightarrow> [Effect t op]"
  have inv: "area_wf (unlocked ?m)" "sz \<le> elem_size ?m" "mapped_here ?m" "fifo_cap ?m = cap" "fifo_contents ?m = queue_after cap q evs"
    "locks_ok ?m (stages c)" "\<And>u. thread_inv cap q evs ?m u (stages c u)"
    using c by (simp_all add: ring_inv_def area_ready_def)
  have ok: "stage_ok ?m ?st" using inv(7) [of t] by (simp add: thread_inv_def)
  have "good_access ?m ?st m' st' eff \<and> pushing st' = pushing ?st \<and> popping st' = popping ?st \<and>
      (\<forall>u. u \<noteq> t \<longrightarrow> stage_ok m' (stages c u) \<and> owed m' (stages c u) = owed ?m (stages c u))"
  proof (cases "pushing ?st")
    case True
    from push_access [OF inv(1-3) ok True, where mix = mix and g = g] st r have a: "pushing st'" "\<not> popping st'" "good_access ?m ?st m' st' eff" "push_changes ?m m'" by auto
    have "\<not> pushing (stages c u)" if "u \<noteq> t" for u using inv(6) True that by (auto simp: locks_ok_def)
    with seen_by_others(1) [OF a(4)] inv(7) show ?thesis using a(1-3) True pushing_not_popping [OF True] by (auto simp: thread_inv_def)
  next
    case False
    then have p: "popping ?st" using st by simp
    from pop_access [OF inv(1-3) ok p, where mix = mix and g = g] st r have a: "popping st'" "\<not> pushing st'" "good_access ?m ?st m' st' eff" "pop_changes ?m m'" by auto
    have "\<not> popping (stages c u)" if "u \<noteq> t" for u using inv(6) p that by (auto simp: locks_ok_def)
    with seen_by_others(2) [OF a(4)] inv(7) show ?thesis using a(1-3) p False by (auto simp: thread_inv_def)
  qed
  then have g: "good_access ?m ?st m' st' eff" "pushing st' = pushing ?st" "popping st' = popping ?st"
    "\<And>u. u \<noteq> t \<Longrightarrow> stage_ok m' (stages c u) \<and> owed m' (stages c u) = owed ?m (stages c u)" by blast+
  have fr: "area_frame m' = area_frame ?m" "area_wf (unlocked m')" "stage_ok m' st'" using g(1) by (simp_all add: good_access_def)
  have cap: "fifo_cap m' = cap" "elem_size m' = elem_size ?m" using fr(1) inv(4) by (simp_all add: area_frame_def fifo_cap_def)
  have locks: "locks_ok m' ((stages c)(t := st'))" using g(1) by (intro locks_ok_keep [OF inv(6) _ _ g(2,3)]) (simp_all add: good_access_def)
  have others: "thread_inv cap q (evs @ ?ev) m' u (stages c u)" if "u \<noteq> t" for u
    using that g(4) [OF that] by (intro thread_inv_other [OF inv(7)]) (auto split: option.splits)
  have own: "thread_inv cap q (evs @ ?ev) m' t st' \<and> fifo_contents m' = queue_after cap q (evs @ ?ev)"
  proof (cases eff)
    case None
    with g(1) inv(5) inv(7) [of t] show ?thesis by (simp add: good_access_def thread_inv_def)
  next
    case (Some op)
    with g(1) inv(4,5) inv(7) [of t] fr(3) show ?thesis
      by (simp add: good_access_def thread_inv_def one_effect took_effect_def)
  qed
  show ?thesis using fr(2) inv(2) cap locks others own mapped_frame [OF inv(3) fr(1)] by (simp add: ring_inv_def area_ready_def)
qed

lemma event_keeps:
  assumes c: "ring_inv mapped_here sz cap q evs c" and e: "effects ev = []"
    and others: "\<And>u. u \<noteq> t \<Longrightarrow> called u ev = [] \<and> returned u ev = []"
    and own: "stage_ok (area c) st'" "owed (area c) (stages c t) = returned t ev @ owed (area c) st'"
      "open_call (stages c t) @ called t ev = open_call st'"
    and m: "unlocked m' = unlocked (area c)"
    and locks: "locks_ok m' ((stages c)(t := st'))"
  shows "ring_inv mapped_here sz cap q (evs @ ev) (c\<lparr>area := m', stages := (stages c)(t := st')\<rparr>)"
proof -
  have inv: "area_ready sz (unlocked (area c))" "mapped_here (area c)" "fifo_cap (area c) = cap"
    "fifo_contents (area c) = queue_after cap q evs" "\<And>u. thread_inv cap q evs (area c) u (stages c u)"
    using c by (simp_all add: ring_inv_def)
  have u: "thread_inv cap q (evs @ ev) (area c) u (stages c u)" if "u \<noteq> t" for u
    using others [OF that] e inv(5) [of u] by (intro thread_inv_other [OF inv(5)]) (simp_all add: thread_inv_def)
  have t: "thread_inv cap q (evs @ ev) (area c) t st'"
    using inv(5) [of t] own by (simp add: thread_inv_def no_effect [OF e])
  have th: "thread_inv cap q (evs @ ev) m' u (((stages c)(t := st')) u)" for u
    using u [of u] t thread_inv_unlocked [of cap q "evs @ ev" m'] thread_inv_unlocked [of cap q "evs @ ev" "area c"]
    by (cases "u = t") (simp_all add: m)
  have fr: "fifo_contents m' = fifo_contents (area c)" "fifo_cap m' = fifo_cap (area c)" "area_frame m' = area_frame (area c)"
    using arg_cong [OF m, of fifo_contents] arg_cong [OF m, of fifo_cap] arg_cong [OF m, of area_frame] by simp_all
  show ?thesis using inv(1-4) m fr th locks mapped_frame [OF inv(2) fr(3)]
    by (simp add: ring_inv_def no_effect(1) [OF e])
qed

lemma step_keeps:
  assumes "ring_step wo ro mix sz c ev c'" "ring_inv mapped_here sz cap q evs c"
  shows "ring_inv mapped_here sz cap q (evs @ ev) c'"
proof -
  have locks: "locks_ok (area c) (stages c)" using assms(2) by (simp add: ring_inv_def)
  show ?thesis using assms(1)
  proof cases
    case (call_push t d)
    have "ring_inv mapped_here sz cap q (evs @ ev) (c\<lparr>area := area c, stages := (stages c)(t := S_push_spin d)\<rparr>)"
      using call_push(1,3) by (intro event_keeps [OF assms(2)] locks_ok_keep [OF locks]) simp_all
    then show ?thesis using call_push(2) by simp
  next
    case (call_pop t)
    have "ring_inv mapped_here sz cap q (evs @ ev) (c\<lparr>area := area c, stages := (stages c)(t := S_pop_spin)\<rparr>)"
      using call_pop(1,3) by (intro event_keeps [OF assms(2)] locks_ok_keep [OF locks]) simp_all
    then show ?thesis using call_pop(2) by simp
  next
    case (lock_push t d l)
    then have l: "\<not> in_lock (area c)" "l" by (simp_all add: OSA_spinlock_lock_def split: if_splits)
    then have "locks_ok ((area c)\<lparr>in_lock := l\<rparr>) ((stages c)(t := S_push_test d))"
      using locks_ok_take(1) [OF locks l(1), of t] lock_push(3) by simp
    then show ?thesis using lock_push(1,3) unfolding lock_push(2) by (intro event_keeps [OF assms(2)]) simp_all
  next
    case (lock_pop t l)
    then have l: "\<not> out_lock (area c)" "l" by (simp_all add: OSA_spinlock_lock_def split: if_splits)
    then have "locks_ok ((area c)\<lparr>out_lock := l\<rparr>) ((stages c)(t := S_pop_test))"
      using locks_ok_take(2) [OF locks l(1), of t] lock_pop(3) by simp
    then show ?thesis using lock_pop(1,3) unfolding lock_pop(2) by (intro event_keeps [OF assms(2)]) simp_all
  next
    case (access t g st m eff)
    then show ?thesis using access_keeps [OF assms(2)] by simp
  next
    case (return_push t r)
    have "locks_ok ((area c)\<lparr>in_lock := OSA_spinlock_unlock (in_lock (area c))\<rparr>) ((stages c)(t := S_idle))"
      using locks_ok_release(1) [OF locks, of t] return_push(3) by (simp add: OSA_spinlock_unlock_def)
    then show ?thesis using return_push(1,3) unfolding return_push(2) by (intro event_keeps [OF assms(2)]) simp_all
  next
    case (return_pop t x)
    have "locks_ok ((area c)\<lparr>out_lock := OSA_spinlock_unlock (out_lock (area c))\<rparr>) ((stages c)(t := S_idle))"
      using locks_ok_release(2) [OF locks, of t] return_pop(3) by (simp add: OSA_spinlock_unlock_def)
    then show ?thesis using return_pop(1,3) unfolding return_pop(2) by (intro event_keeps [OF assms(2)]) simp_all
  qed
qed

lemma run_keeps:
  assumes "ring_run wo ro mix sz c evs c'" "ring_inv mapped_here sz cap q [] c"
  shows "ring_inv mapped_here sz cap q evs c'"
  using assms by (induction rule: ring_run.induct) (auto dest: step_keeps)

lemma run_start:
  assumes "area_ready sz (area c)" "mapped_here (area c)" "\<forall>t. stages c t = S_idle"
  shows "ring_inv mapped_here sz (fifo_cap (area c)) (fifo_contents (area c)) [] c"
proof -
  have "\<not> in_lock (area c)" "\<not> out_lock (area c)" using assms(1) by (auto simp: area_ready_def area_wf_def pool_wf_def)
  moreover from this have "unlocked (area c) = area c" by (cases "area c") (simp add: unlocked_def)
  ultimately show ?thesis using assms
    by (simp add: ring_inv_def locks_ok_def thread_inv_def answers_def took_effect_def queue_after_def)
qed

lemma inv_no_fault:
  assumes "ring_inv mapped_here sz cap q evs c" "inside (stages c t)"
  shows "\<exists>r. fifo_stage wo ro mix sz g (stages c t) (area c) = Inr r"
proof -
  have inv: "area_wf (unlocked (area c))" "sz \<le> elem_size (area c)" "mapped_here (area c)" "stage_ok (area c) (stages c t)"
    using assms(1) by (simp_all add: ring_inv_def area_ready_def thread_inv_def)
  show ?thesis using push_access [OF inv, where mix = mix and g = g] pop_access [OF inv, where mix = mix and g = g] assms(2) by blast
qed

text \<open>A thread that cannot move waits for a lock, and then another thread holds it and can move.\<close>

lemma inv_next_none:
  assumes "ring_inv mapped_here sz cap q evs c" "ring_next wo ro mix sz g op t c = None"
  shows "waits c t"
proof (cases "inside (stages c t)")
  case True
  then show ?thesis using assms(2) inv_no_fault [OF assms(1) True, of mix g] by (auto simp: ring_next_inside)
next
  case False
  then show ?thesis using assms(2)
    by (cases "stages c t") (auto simp: ring_next_def Let_def waits_def OSA_spinlock_lock_def split: sum.splits if_splits)
qed

lemma inv_some_moves:
  assumes c: "ring_inv mapped_here sz cap q evs c" and t: "stages c t \<noteq> S_idle"
  shows "\<exists>u ev c1. stages c u \<noteq> S_idle \<and> ring_next wo ro mix sz g op u c = Some (ev, c1)"
proof (cases "waits c t")
  case True
  then obtain u where u: "pushing (stages c u) \<or> popping (stages c u)"
    using c by (auto simp: waits_def ring_inv_def locks_ok_def)
  then have "\<not> waits c u" "stages c u \<noteq> S_idle" by (auto simp: waits_def)
  with inv_next_none [OF c, of mix g op u] show ?thesis by fastforce
next
  case False
  with inv_next_none [OF c, of mix g op t] t show ?thesis by fastforce
qed

end

lemma inv_idle_ready:
  assumes "ring_inv h sz cap q evs c" "\<forall>t. stages c t = S_idle"
  shows "area_ready sz (area c)"
proof -
  have "\<not> in_lock (area c)" "\<not> out_lock (area c)" using assms by (auto simp: ring_inv_def locks_ok_def)
  then have "unlocked (area c) = area c" by (cases "area c") (simp add: unlocked_def)
  then show ?thesis using assms(1) by (simp add: ring_inv_def)
qed

interpretation rings: ring_class "ring_wo k" "ring_ro k" "ring_here k" for k
proof
  fix m m' :: "'a mem_area"
  assume h: "ring_here k m"
  show "ring_here k m'" if "area_frame m' = area_frame m" using h that by (cases k) (auto simp: area_at_def area_frame_def)
  assume wf: "area_wf (unlocked m)"
  note p = area_wf_pool [OF wf]
  have i: "unat (wr_ind m) < length (chunk_buf m)" "unat (rd_ind m) < length (chunk_buf m)" using p by (auto simp: pool_wf_def)
  have s: "unat (single_chunk_size m * wr_ind m) = unat (elem_size m) * unat (wr_ind m)"
    "unat (single_chunk_size m * rd_ind m) = unat (elem_size m) * unat (rd_ind m)"
    using stride_wf [OF p, of "wr_ind m"] stride_wf [OF p, of "rd_ind m"] i by simp_all
  show "ring_wo k m = unat (elem_size m) * unat (wr_ind m)" using h s(1)
    by (cases k) (simp_all add: StaticMemArea_GetWriteBufP_def CMemArea_GetWriteBufP_def area_at_def unat_ucast_u32_u64)
  show "ring_ro k m = unat (elem_size m) * unat (rd_ind m)" using h s(2)
    by (cases k) (simp_all add: StaticMemArea_GetReadBufP_def CMemArea_GetReadBufP_def area_at_def unat_ucast_u32_u64)
qed

subsection \<open>Every call returns\<close>

fun steps_left :: "'a stage \<Rightarrow> nat" where
  "steps_left S_idle = 0"
| "steps_left (S_push_spin d) = 6"
| "steps_left (S_push_test d) = 5"
| "steps_left (S_push_copy d tmp) = 4"
| "steps_left (S_push_copied d tmp) = 3"
| "steps_left (S_push_advance d tmp) = 2"
| "steps_left (S_push_unlock r) = 1"
| "steps_left S_pop_spin = 6"
| "steps_left S_pop_test = 5"
| "steps_left (S_pop_advance tmp) = 4"
| "steps_left S_pop_copy = 3"
| "steps_left (S_pop_copied x) = 2"
| "steps_left (S_pop_unlock x) = 1"

definition busy :: "'a ring \<Rightarrow> nat set" where
  "busy c = {t. stages c t \<noteq> S_idle}"

fun starts :: "'a event list \<Rightarrow> bool" where
  "starts [] = False"
| "starts (Call t op # evs) = True"
| "starts (_ # evs) = starts evs"

text \<open>Whichever threads move and however the copies go: as long as no new call is made, the calls in progress all return.\<close>

inductive settles ::
  "('a mem_area \<Rightarrow> nat) \<Rightarrow> ('a mem_area \<Rightarrow> nat) \<Rightarrow> ('a \<Rightarrow> 'a \<Rightarrow> 'a) \<Rightarrow> u32 \<Rightarrow> 'a ring \<Rightarrow> bool"
  for wo ro mix sz where
  settled: "busy c = {} \<Longrightarrow> settles wo ro mix sz c"
| settling: "ring_step wo ro mix sz c ev c1 \<Longrightarrow> \<not> starts ev \<Longrightarrow>
    (\<And>ev c1. ring_step wo ro mix sz c ev c1 \<Longrightarrow> \<not> starts ev \<Longrightarrow> settles wo ro mix sz c1) \<Longrightarrow> settles wo ro mix sz c"

lemma stage_steps_left:
  "inside st \<Longrightarrow> fifo_stage wo ro mix sz g st m = Inr (st', m', eff) \<Longrightarrow> steps_left st' < steps_left st"
  by (cases st) (auto simp: bindE_eq_Inr ASSERT_def split: if_splits)

lemma step_one_thread:
  assumes "ring_step wo ro mix sz c ev c1"
  shows "\<exists>t st. stages c1 = (stages c)(t := st) \<and> (starts ev \<or> t \<in> busy c \<and> steps_left st < steps_left (stages c t))"
  using assms
proof cases
  case (call_push t d)
  then show ?thesis by (intro exI [of _ t] exI [of _ "S_push_spin d"]) simp
next
  case (call_pop t)
  then show ?thesis by (intro exI [of _ t] exI [of _ S_pop_spin]) simp
next
  case (lock_push t d l)
  then show ?thesis by (intro exI [of _ t] exI [of _ "S_push_test d"]) (simp add: busy_def)
next
  case (lock_pop t l)
  then show ?thesis by (intro exI [of _ t] exI [of _ S_pop_test]) (simp add: busy_def)
next
  case (access t g st m eff)
  then have "steps_left st < steps_left (stages c t)" "t \<in> busy c"
    using stage_steps_left [OF access(3,4)] by (auto simp: busy_def)
  with access(2) show ?thesis by (intro exI [of _ t] exI [of _ st]) simp
next
  case (return_push t r)
  then show ?thesis by (intro exI [of _ t] exI [of _ S_idle]) (simp add: busy_def)
next
  case (return_pop t x)
  then show ?thesis by (intro exI [of _ t] exI [of _ S_idle]) (simp add: busy_def)
qed

lemma busy_finite: "ring_run wo ro mix sz c evs c1 \<Longrightarrow> finite (busy c) \<Longrightarrow> finite (busy c1)"
proof (induction rule: ring_run.induct)
  case (more c evs c1 ev c2)
  obtain t st where "stages c2 = (stages c1)(t := st)" using step_one_thread [OF more.hyps(2)] by blast
  then have "busy c2 \<subseteq> insert t (busy c1)" by (auto simp: busy_def)
  then show ?case using more by (simp add: finite_subset)
qed

definition work :: "'a ring \<Rightarrow> nat" where
  "work c = (\<Sum>t\<in>busy c. steps_left (stages c t))"

lemma work_over: "finite A \<Longrightarrow> busy c \<subseteq> A \<Longrightarrow> work c = (\<Sum>t\<in>A. steps_left (stages c t))"
  unfolding work_def by (intro sum.mono_neutral_left) (auto simp: busy_def)

lemma step_work:
  assumes "ring_step wo ro mix sz c ev c1" "\<not> starts ev" "finite (busy c)"
  shows "work c1 < work c \<and> finite (busy c1)"
proof -
  obtain t st where t: "stages c1 = (stages c)(t := st)" "t \<in> busy c" "steps_left st < steps_left (stages c t)"
    using step_one_thread [OF assms(1)] assms(2) by blast
  have sub: "busy c1 \<subseteq> busy c" using t(1,2) by (auto simp: busy_def)
  have "work c1 = (\<Sum>u\<in>busy c. steps_left (stages c1 u))" using work_over [OF assms(3) sub] .
  also have "\<dots> < work c" unfolding work_def using t assms(3) by (intro sum_strict_mono_ex1) auto
  finally show ?thesis using sub assms(3) finite_subset by blast
qed

lemma ring_next_quiet:
  "ring_next wo ro mix sz g op t c = Some (ev, c1) \<Longrightarrow> stages c t \<noteq> S_idle \<Longrightarrow> \<not> starts ev"
  by (cases "stages c t") (auto simp: ring_next_def Let_def split: sum.splits option.splits)

context ring_class
begin

lemma inv_settles:
  assumes "ring_inv mapped_here sz cap q evs c" "finite (busy c)"
  shows "settles wo ro mix sz c"
  using assms
proof (induction "work c" arbitrary: evs c rule: less_induct)
  case less
  show ?case
  proof (cases "busy c = {}")
    case True
    then show ?thesis by (rule settled)
  next
    case False
    then obtain t where "stages c t \<noteq> S_idle" by (auto simp: busy_def)
    then obtain u ev c1 where u: "stages c u \<noteq> S_idle" "ring_next wo ro mix sz undefined Pop u c = Some (ev, c1)"
      using inv_some_moves [OF less.prems(1)] by blast
    from ring_next_step [OF u(2)] ring_next_quiet [OF u(2,1)] show ?thesis
    proof (rule settling)
      fix ev' c2 assume s: "ring_step wo ro mix sz c ev' c2" "\<not> starts ev'"
      from step_work [OF s less.prems(2)] have "work c2 < work c" "finite (busy c2)" by simp_all
      with less.hyps step_keeps [OF s(1) less.prems(1)] show "settles wo ro mix sz c2" by blast
    qed
  qed
qed

end

subsection \<open>What the threads see\<close>

lemma same_number: "length (answers cap (q :: 'a list) t evs) = length (took_effect t evs)"
proof -
  have "length (filter (\<lambda>(u, a). u = t) (zip (map fst es) as)) = length (filter (\<lambda>(u, op). u = t) es)" if "length as = length es"
    for es :: "(nat \<times> 'a fifo_op) list" and as :: "'a fifo_ans list"
    using that by (induction as es rule: list_induct2) (auto split: if_splits)
  then show ?thesis by (simp add: answers_def took_effect_def)
qed

lemma owed_or_open: "length (owed m st) + length (open_call st) \<le> 1"
  by (cases st) simp_all


lemma inv_seen:
  assumes "ring_inv h sz cap q evs c"
  shows "prefix (returned t evs) (answers cap q t evs)" "prefix (took_effect t evs) (called t evs)"
    "length (returned t evs) \<le> length (took_effect t evs)" "length (called t evs) \<le> length (returned t evs) + 1"
proof -
  have i: "answers cap q t evs = returned t evs @ owed (area c) (stages c t)" "called t evs = took_effect t evs @ open_call (stages c t)"
    using assms by (simp_all add: ring_inv_def thread_inv_def)
  show "prefix (returned t evs) (answers cap q t evs)" "prefix (took_effect t evs) (called t evs)" using i by simp_all
  show "length (returned t evs) \<le> length (took_effect t evs)" using arg_cong [OF i(1), of length] by (simp add: same_number)
  show "length (called t evs) \<le> length (returned t evs) + 1"
    using arg_cong [OF i(1), of length] arg_cong [OF i(2), of length] owed_or_open [of "area c" "stages c t"]
    by (simp add: same_number)
qed

text \<open>C2: one queue for all threads. Any number of threads call \<open>PushFIFO_MT\<close> and \<open>PopFIFO_MT\<close> of one area, each
  access between those of the others, the copies torn. At every moment there is one order of the calls, the order of their effects, such
  that: every thread got what a queue of \<open>n - 2\<close> elements answers to the calls in that order; the effects of a thread are those
  of its calls, in its order, each after the call and before its return (a thread has no more returns than effects, no more effects than
  calls, and one call at most that has not returned); the area holds what the queue holds; when all calls have returned the area is
  ready for the next.\<close>

theorem threads_share_queue:
  assumes "ring_run (ring_wo k) (ring_ro k) mix sz c evs c'"
    and "area_ready sz (area c)" "ring_here k (area c)" "\<forall>t. stages c t = S_idle"
  shows "(\<forall>t. prefix (returned t evs) (answers (fifo_cap (area c)) (fifo_contents (area c)) t evs) \<and>
      prefix (took_effect t evs) (called t evs) \<and> length (returned t evs) \<le> length (took_effect t evs) \<and>
      length (called t evs) \<le> length (returned t evs) + 1) \<and>
    fifo_contents (area c') = queue_after (fifo_cap (area c)) (fifo_contents (area c)) evs \<and>
    ((\<forall>t. stages c' t = S_idle) \<longrightarrow> area_ready sz (area c') \<and> ring_here k (area c'))"
proof -
  have inv: "ring_inv (ring_here k) sz (fifo_cap (area c)) (fifo_contents (area c)) evs c'"
    using rings.run_keeps [OF assms(1) rings.run_start [OF assms(2-4)]] .
  then have "fifo_contents (area c') = queue_after (fifo_cap (area c)) (fifo_contents (area c)) evs" "ring_here k (area c')"
    by (simp_all add: ring_inv_def)
  then show ?thesis using inv_seen [OF inv] inv_idle_ready [OF inv] by blast
qed

text \<open>C8: at every moment of such a run no thread makes an access outside the area, a thread that cannot move waits for a
  lock, and the calls in progress return whatever the threads do (a thread that spins makes no access), as long as no new call is made.\<close>

theorem threads_return:
  assumes "ring_run (ring_wo k) (ring_ro k) mix sz c evs c'"
    and "area_ready sz (area c)" "ring_here k (area c)" "\<forall>t. stages c t = S_idle"
  shows "(\<forall>g op t. ring_next (ring_wo k) (ring_ro k) mix sz g op t c' = None \<longrightarrow> waits c' t) \<and>
    settles (ring_wo k) (ring_ro k) mix sz c'"
proof -
  have inv: "ring_inv (ring_here k) sz (fifo_cap (area c)) (fifo_contents (area c)) evs c'"
    using rings.run_keeps [OF assms(1) rings.run_start [OF assms(2-4)]] .
  have "finite (busy c')" using busy_finite [OF assms(1)] assms(4) by (simp add: busy_def)
  then show ?thesis using rings.inv_next_none [OF inv] rings.inv_settles [OF inv] by blast
qed


subsection \<open>A run\<close>

text \<open>Thread 0 pushes 7; thread 1 pops while the chunk is half written, finds nothing, and tries again.\<close>

definition demo_ring :: "nat ring" where
  "demo_ring = \<lparr>area = (raw_area 4)\<lparr>ptr_producer := 4096, ptr_consumer := 4096, number_chunks := 4,
     single_chunk_size := 64, wr_ind := 1\<rparr>, stages = (\<lambda>_. S_idle)\<rparr>"

definition demo_moves :: "(nat \<times> nat fifo_op) list" where
  "demo_moves = [(0, Push 7), (0, Pop), (0, Pop), (0, Pop), (1, Pop), (1, Pop), (1, Pop), (0, Pop), (1, Pop), (0, Pop), (1, Pop), (0, Pop)]"

definition demo_events :: "nat event list" where
  "demo_events = [Call 0 (Push 7), Call 1 Pop, Effect 1 Pop, Return 1 (Popped None), Effect 0 (Push 7), Call 1 Pop,
     Return 0 (Pushed E_OK)]"

lemma demo_run:
  "\<exists>c. ring_run (ring_wo (CMem_ring 4096)) (ring_ro (CMem_ring 4096)) max 64 demo_ring demo_events c \<and>
     stages c 1 = S_pop_spin \<and> stages c 0 = S_idle"
proof -
  have "map_option (\<lambda>(evs, c). (evs, stages c 0, stages c 1))
      (ring_play (ring_wo (CMem_ring 4096)) (ring_ro (CMem_ring 4096)) max 64 99 demo_moves demo_ring) =
    Some (demo_events, S_idle, S_pop_spin)" by code_simp
  then show ?thesis using ring_play_run by (fastforce simp: map_option_eq_Some)
qed

lemma demo_ready: "area_ready 64 (area demo_ring)" "ring_here (CMem_ring 4096) (area demo_ring)" "\<forall>t. stages demo_ring t = S_idle"
  "fifo_cap (area demo_ring) = 2" "fifo_contents (area demo_ring) = []"
proof -
  have "gap 4 0 1 = 1" by (rule gap_0_1) simp
  then show "area_ready 64 (area demo_ring)" "ring_here (CMem_ring 4096) (area demo_ring)" "\<forall>t. stages demo_ring t = S_idle"
    "fifo_cap (area demo_ring) = 2" "fifo_contents (area demo_ring) = []"
    by (simp_all add: demo_ring_def raw_area_def area_ready_def area_wf_def pool_wf_def area_at_def fifo_cap_def fifo_contents_def)
qed

theorem threads_share_queue_witness:
  "\<exists>c. ring_run (ring_wo (CMem_ring 4096)) (ring_ro (CMem_ring 4096)) max 64 demo_ring demo_events c \<and>
     fifo_contents (area c) = [7] \<and> answers 2 [] 1 demo_events = [Popped None] \<and> answers 2 [] 0 demo_events = [Pushed E_OK]"
proof -
  obtain c where c: "ring_run (ring_wo (CMem_ring 4096)) (ring_ro (CMem_ring 4096)) max 64 demo_ring demo_events c"
    using demo_run by blast
  from threads_share_queue [OF c demo_ready(1-3)] demo_ready(4,5)
  have "fifo_contents (area c) = queue_after 2 [] demo_events" by simp
  moreover have "queue_after 2 [] demo_events = [7]" "answers 2 [] 1 demo_events = [Popped None]"
    "answers 2 [] 0 demo_events = [Pushed E_OK]" by code_simp+
  ultimately show ?thesis using c by auto
qed

theorem threads_return_witness:
  "\<exists>c. ring_run (ring_wo (CMem_ring 4096)) (ring_ro (CMem_ring 4096)) max 64 demo_ring demo_events c \<and>
     stages c 1 = S_pop_spin \<and> settles (ring_wo (CMem_ring 4096)) (ring_ro (CMem_ring 4096)) max 64 c"
  using demo_run threads_return [OF _ demo_ready(1-3)] by blast

end
