(* ===== verification/Name_Table.thy ===== *)
theory Name_Table
  imports C_Strings "HOL-Library.Sublist"
begin

section \<open>The contract of a table of names\<close>

text \<open>
  The event counters, the trace formats, the profilers and the debug groups are all tables of
  named entries with one operation: return the index of the entry with this name, or append one.
  The locale \<open>name_table\<close> states what such an operation promises over the list of the names
  allocated so far; its lemmas are what a client relies on when it keeps the index: asking again
  gives the same index, later allocations do not move it, and different names get different
  indices. Each of the four components interprets the locale.
\<close>

text \<open>The abstract operation: the position of a name, which is added at the end when it is new.\<close>

definition enter :: "string \<Rightarrow> string list \<Rightarrow> nat \<times> string list" where
  "enter nm xs = (case first_pos nm xs of Some i \<Rightarrow> (i, xs) | None \<Rightarrow> (length xs, xs @ [nm]))"

lemma enter_hit: "nm \<in> set xs \<Longrightarrow> \<exists>i. first_pos nm xs = Some i \<and> enter nm xs = (i, xs)"
  using first_pos_None_iff [of nm xs] by (auto simp: enter_def)

lemma enter_in: "enter nm xs = (i, ys) \<Longrightarrow> nm \<in> set ys \<and> prefix xs ys \<and> enter nm ys = (i, ys)"
  by (auto simp: enter_def first_pos_append_miss first_pos_None_iff split: option.splits
      dest: first_pos_SomeD)

lemma enter_prefix:
  assumes "enter nm xs = (i, xs)" "prefix xs ys"
  shows "enter nm ys = (i, ys)"
proof -
  have "nm \<in> set xs" using enter_in [OF assms(1)] by simp
  with assms first_pos_append_hit [OF this] enter_hit [OF this] show ?thesis by (auto simp: prefix_def enter_def)
qed

lemma enter_less: "enter nm xs = (i, ys) \<Longrightarrow> i < length ys \<and> ys ! i = nm"
  by (auto simp: enter_def split: option.splits dest: first_pos_SomeD)

lemma enter_room: "enter nm xs = (i, ys) \<Longrightarrow> length ys \<le> n \<Longrightarrow> nm \<in> set xs \<or> length xs < n"
  by (auto simp: enter_def first_pos_None_iff split: option.splits dest: first_pos_SomeD)

fun alloc_all :: "(string \<Rightarrow> 's \<Rightarrow> fault + (u32 \<times> 's)) \<Rightarrow> string list \<Rightarrow> 's \<Rightarrow> fault + (u32 list \<times> 's)" where
  "alloc_all alloc [] s = Inr ([], s)"
| "alloc_all alloc (nm # nms) s =
     bindE (alloc nm s) (\<lambda>(i, s1). bindE (alloc_all alloc nms s1) (\<lambda>(is, s2). Inr (i # is, s2)))"

locale name_table =
  fixes alloc :: "string \<Rightarrow> 's \<Rightarrow> fault + (u32 \<times> 's)"
    and names :: "'s \<Rightarrow> string list"
    and limit :: nat
    and ok :: "string \<Rightarrow> bool"
    and invar :: "'s \<Rightarrow> bool"
  assumes names_distinct: "invar s \<Longrightarrow> distinct (names s)"
    and names_limit: "invar s \<Longrightarrow> length (names s) \<le> limit"
    and limit32: "limit < 2 ^ 32"
    and hit: "invar s \<Longrightarrow> ok nm \<Longrightarrow> first_pos nm (names s) = Some i \<Longrightarrow>
      alloc nm s = Inr (of_nat i, s)"
    and miss: "invar s \<Longrightarrow> ok nm \<Longrightarrow> nm \<notin> set (names s) \<Longrightarrow> length (names s) < limit \<Longrightarrow>
      \<exists>s'. alloc nm s = Inr (of_nat (length (names s)), s') \<and> names s' = names s @ [nm] \<and> invar s'"
    and full: "invar s \<Longrightarrow> ok nm \<Longrightarrow> nm \<notin> set (names s) \<Longrightarrow> length (names s) = limit \<Longrightarrow>
      \<exists>f. alloc nm s = Inl f"
begin

lemma alloc_cases:
  assumes "invar s" "ok nm" "alloc nm s = Inr (i, s')"
  shows "invar s' \<and> first_pos nm (names s') = Some (unat i) \<and>
    (names s' = names s \<and> s' = s \<or> nm \<notin> set (names s) \<and> names s' = names s @ [nm] \<and>
     i = of_nat (length (names s)))"
proof (cases "first_pos nm (names s)")
  case None
  then have new: "nm \<notin> set (names s)" by (simp add: first_pos_None_iff)
  have "length (names s) \<noteq> limit" using full [OF assms(1,2) new] assms(3) by auto
  with names_limit [OF assms(1)] have l: "length (names s) < limit" by simp
  from miss [OF assms(1,2) new l] assms(3) have
    "i = of_nat (length (names s))" "names s' = names s @ [nm]" "invar s'" by auto
  moreover have "unat (of_nat (length (names s)) :: u32) = length (names s)"
    using l limit32 by (intro unat_of_nat_u32) simp
  ultimately show ?thesis using new by (simp add: first_pos_append_miss)
next
  case (Some k)
  then have "k < limit" using first_pos_SomeD [OF Some] names_limit [OF assms(1)] by simp
  then have "unat (of_nat k :: u32) = k" using limit32 by (intro unat_of_nat_u32) simp
  with hit [OF assms(1,2) Some] assms Some show ?thesis by simp
qed

lemma alloc_invar: "invar s \<Longrightarrow> ok nm \<Longrightarrow> alloc nm s = Inr (i, s') \<Longrightarrow> invar s'"
  using alloc_cases by blast

lemma alloc_index:
  assumes "invar s" "ok nm" "alloc nm s = Inr (i, s')"
  shows "unat i < length (names s') \<and> names s' ! unat i = nm"
  using alloc_cases [OF assms] by (intro first_pos_SomeD) simp

lemma alloc_again:
  assumes "invar s" "ok nm" "alloc nm s = Inr (i, s')"
  shows "alloc nm s' = Inr (i, s')"
proof -
  from alloc_cases [OF assms] have "invar s'" "first_pos nm (names s') = Some (unat i)" by auto
  with hit [of s' nm "unat i"] assms(2) show ?thesis by simp
qed

lemma alloc_stable:
  assumes "invar s" "ok nm" "alloc nm s = Inr (i, s1)" "ok nm'" "alloc nm' s1 = Inr (j, s2)"
  shows "alloc nm s2 = Inr (i, s2)"
proof -
  from alloc_cases [OF assms(1-3)] have s1: "invar s1" "first_pos nm (names s1) = Some (unat i)"
    by auto
  from alloc_cases [OF s1(1) assms(4,5)] have "invar s2"
    and n: "names s2 = names s1 \<or> names s2 = names s1 @ [nm']" by auto
  have "nm \<in> set (names s1)" using s1(2) first_pos_SomeD nth_mem by metis
  with n s1(2) have "first_pos nm (names s2) = Some (unat i)"
    by (auto simp: first_pos_append_hit)
  with hit [of s2 nm "unat i"] \<open>invar s2\<close> assms(2) show ?thesis by simp
qed

text \<open>The index stays the answer whatever else was added behind it.\<close>

lemma alloc_later:
  assumes "invar s" "ok nm" "alloc nm s = Inr (i, s1)" "invar s2" "prefix (names s1) (names s2)"
  shows "alloc nm s2 = Inr (i, s2)"
proof -
  have f: "first_pos nm (names s1) = Some (unat i)" using alloc_cases [OF assms(1-3)] by simp
  then have "nm \<in> set (names s1)" using first_pos_SomeD nth_mem by metis
  then have "first_pos nm (names s2) = Some (unat i)"
    using assms(5) f by (auto simp: prefix_def first_pos_append_hit)
  with hit [of s2 nm "unat i"] assms(2,4) show ?thesis by simp
qed

lemma alloc_distinct:
  assumes "invar s" "ok nm" "alloc nm s = Inr (i, s1)" "ok nm'" "alloc nm' s1 = Inr (j, s2)"
    "nm \<noteq> nm'"
  shows "i \<noteq> j"
proof
  assume "i = j"
  have s1: "invar s1" using alloc_invar assms by blast
  have s2: "invar s2" using alloc_invar s1 assms by blast
  have a: "alloc nm s2 = Inr (i, s2)" using assms by (intro alloc_stable)
  from alloc_index [OF s2 assms(2) a] alloc_index [OF s1 assms(4,5)] \<open>i = j\<close> assms(6)
  show False by simp
qed

lemma alloc_all_fresh:
  assumes "invar s" "\<forall>nm \<in> set nms. ok nm" "distinct nms" "set nms \<inter> set (names s) = {}"
    "length (names s) + length nms \<le> limit"
  shows "\<exists>s'. alloc_all alloc nms s =
      Inr (map of_nat [length (names s)..<length (names s) + length nms], s') \<and>
    invar s' \<and> names s' = names s @ nms"
  using assms
proof (induction nms arbitrary: s)
  case (Cons nm nms)
  from miss [of s nm] Cons.prems obtain s1 where
    s1: "alloc nm s = Inr (of_nat (length (names s)), s1)" "names s1 = names s @ [nm]" "invar s1"
    by auto
  from Cons.IH [of s1] Cons.prems s1 obtain s2 where
    "alloc_all alloc nms s1 =
      Inr (map of_nat [Suc (length (names s))..<Suc (length (names s) + length nms)], s2)"
    "invar s2" "names s2 = names s1 @ nms" by auto
  with s1 show ?case by (simp add: upt_conv_Cons del: upt_Suc)
qed simp

text \<open>The table implements the abstract operation as long as the result is within its size.\<close>

lemma alloc_enter:
  assumes "invar s" "ok nm" "enter nm (names s) = (i, xs)" "length xs \<le> limit"
  shows "\<exists>s'. alloc nm s = Inr (of_nat i, s') \<and> names s' = xs \<and> invar s'"
proof (cases "nm \<in> set (names s)")
  case True
  then obtain k where "first_pos nm (names s) = Some k" "enter nm (names s) = (k, names s)"
    using enter_hit by blast
  with hit [OF assms(1,2)] assms show ?thesis by auto
next
  case False
  then have "enter nm (names s) = (length (names s), names s @ [nm])" by (simp add: enter_def)
  with miss [OF assms(1,2) False] assms(3,4) show ?thesis by auto
qed

end

subsection \<open>Arrays of named entries\<close>

text \<open>
  How the four tables store their names: an array \<open>xs\<close> of \<open>n\<close> entries, each with a name buffer of
  \<open>l\<close> characters, of which the first \<open>k\<close> are in use.
\<close>

definition array_names :: "('x \<Rightarrow> cbuf) \<Rightarrow> nat \<Rightarrow> 'x list \<Rightarrow> string list" where
  "array_names nm k xs = map (\<lambda>x. str_of (nm x)) (take k xs)"

definition name_array :: "('x \<Rightarrow> cbuf) \<Rightarrow> nat \<Rightarrow> nat \<Rightarrow> nat \<Rightarrow> 'x list \<Rightarrow> bool" where
  "name_array nm l n k xs \<longleftrightarrow>
     length xs = n \<and> k \<le> n \<and> (\<forall>x \<in> set xs. length (nm x) = l) \<and>
     (\<forall>x \<in> set (take k xs). terminated (nm x)) \<and> distinct (array_names nm k xs)"

lemma length_array_names: "name_array nm l n k xs \<Longrightarrow> length (array_names nm k xs) = k"
  by (simp add: name_array_def array_names_def)

lemma array_names_0 [simp]: "array_names nm 0 xs = []"
  by (simp add: array_names_def)

lemma name_array_empty:
  "length xs = n \<Longrightarrow> \<forall>x \<in> set xs. length (nm x) = l \<Longrightarrow> name_array nm l n 0 xs"
  by (simp add: name_array_def)

lemma name_array_scan:
  assumes "name_array nm l n k xs" "c_string s"
  shows "scan_names (map nm xs) s 0 k = Inr (first_pos s (array_names nm k xs))"
  using assms by (subst scan_names_0) (auto simp: name_array_def array_names_def take_map comp_def)

lemma name_array_buf:
  assumes "name_array nm l n k xs" "i < n" "fits l s"
  obtains b where "strcpy (nm (xs ! i)) s = Inr b" "length b = l" "terminated b" "str_of b = s"
  using assms strcpy_ok [of s "nm (xs ! i)"] by (auto simp: name_array_def fits_def)

lemma array_names_snoc:
  "k < length xs \<Longrightarrow> array_names nm (Suc k) (xs[k := x]) = array_names nm k xs @ [str_of (nm x)]"
  by (simp add: array_names_def take_Suc_list_update)

lemma name_array_snoc:
  assumes "name_array nm l n k xs" "k < n" "length (nm x) = l" "terminated (nm x)"
    "str_of (nm x) \<notin> set (array_names nm k xs)"
  shows "name_array nm l n (Suc k) (xs[k := x])"
proof -
  have k: "k < length xs" using assms(1,2) by (simp add: name_array_def)
  have "\<forall>y \<in> set (xs[k := x]). length (nm y) = l"
    using assms(1,3) set_update_subset_insert [of xs k x] by (auto simp: name_array_def)
  then show ?thesis
    using assms array_names_snoc [OF k, of nm x] take_Suc_list_update [OF k]
    by (auto simp: name_array_def)
qed

text \<open>Entries changed without touching their names.\<close>

lemma name_array_same_names:
  assumes "map nm ys = map nm xs"
  shows "name_array nm l n k ys = name_array nm l n k xs"
    "array_names nm k ys = array_names nm k xs"
proof -
  have t: "map nm (take k ys) = map nm (take k xs)" using assms by (simp add: take_map [symmetric])
  then have "map str_of (map nm (take k ys)) = map str_of (map nm (take k xs))" by simp
  then show a: "array_names nm k ys = array_names nm k xs"
    by (simp add: array_names_def comp_def)
  have "nm ` set ys = nm ` set xs" "nm ` set (take k ys) = nm ` set (take k xs)"
    using assms t by (metis list.set_map)+
  moreover have "length ys = length xs" using assms map_eq_imp_length_eq by blast
  moreover have "(\<forall>x \<in> set zs. length (nm x) = l) = (\<forall>b \<in> nm ` set zs. length b = l)"
    "(\<forall>x \<in> set zs. terminated (nm x)) = (\<forall>b \<in> nm ` set zs. terminated b)" for zs by simp_all
  ultimately show "name_array nm l n k ys = name_array nm l n k xs"
    by (simp only: name_array_def a)
qed

end
