(* ===== verification/C_Printf.thy ===== *)
theory C_Printf
  imports C_Strings
begin

section \<open>The part of \<open>printf\<close> that the library uses\<close>

text \<open>
  Formats with the conversions \<open>%d %u %x %X\<close>, each with any number of \<open>l\<close> modifiers, \<open>%s\<close> and
  \<open>%%\<close>: these are all that the library's own formats and the formats of \<open>traces.inc\<close> use. An
  integer argument is the 64-bit value in its argument slot; a conversion without \<open>l\<close> reads its
  low 32 bits, as on the x86-64 and AArch64 ABIs the library supports. A conversion with no
  argument left, one that does not fit its argument, and one outside this list is a
  \<open>FormatFault\<close>. \<open>sprintf\<close> faults when its result does not fit the destination.
\<close>

datatype parg = AInt u64 | AStr string

definition digit_char :: "bool \<Rightarrow> nat \<Rightarrow> char" where
  "digit_char upper d = (if upper then ''0123456789ABCDEF'' else ''0123456789abcdef'') ! d"

function to_base :: "bool \<Rightarrow> nat \<Rightarrow> nat \<Rightarrow> string" where
  "to_base upper b n =
     (if b < 2 \<or> n < b then [digit_char upper n]
      else to_base upper b (n div b) @ [digit_char upper (n mod b)])"
  by pat_completeness auto
termination
  by (relation "measure (\<lambda>(u, b, n). n)") (auto intro: div_less_dividend)

declare to_base.simps [simp del]

definition dec_nat :: "nat \<Rightarrow> string" where
  "dec_nat n = to_base False 10 n"

definition dec_int :: "int \<Rightarrow> string" where
  "dec_int i = (if i < 0 then CHR ''-'' # dec_nat (nat (- i)) else dec_nat (nat i))"

definition conv_int :: "bool \<Rightarrow> char \<Rightarrow> u64 \<Rightarrow> fault + string" where
  "conv_int long k w =
     (let u = (if long then unat w else unat (ucast w :: u32));
          s = (if long then sint w else sint (ucast w :: u32)) in
      if k = CHR ''d'' then Inr (dec_int s)
      else if k = CHR ''u'' then Inr (dec_nat u)
      else if k = CHR ''x'' then Inr (to_base False 16 u)
      else if k = CHR ''X'' then Inr (to_base True 16 u)
      else Inl FormatFault)"

fun conv :: "bool \<Rightarrow> char \<Rightarrow> parg \<Rightarrow> fault + string" where
  "conv long k (AInt w) = conv_int long k w"
| "conv long k (AStr s) = (if k = CHR ''s'' \<and> \<not> long then Inr s else Inl FormatFault)"

lemma dropWhile_shorter: "dropWhile P cs = k # rest \<Longrightarrow> length rest < Suc (length cs)"
  by (metis Suc_le_lessD le_SucI length_Cons length_dropWhile_le)

function c_format :: "string \<Rightarrow> parg list \<Rightarrow> fault + string" where
  "c_format [] args = Inr []"
| "c_format (c # cs) args =
     (if c \<noteq> CHR ''%'' then bindE (c_format cs args) (\<lambda>r. Inr (c # r))
      else
        (let long = (takeWhile (\<lambda>x. x = CHR ''l'') cs \<noteq> []) in
         case dropWhile (\<lambda>x. x = CHR ''l'') cs of
           [] \<Rightarrow> Inl FormatFault
         | k # rest \<Rightarrow>
             if k = CHR ''%'' \<and> \<not> long then bindE (c_format rest args) (\<lambda>r. Inr (CHR ''%'' # r))
             else (case args of
                     [] \<Rightarrow> Inl FormatFault
                   | a # args' \<Rightarrow>
                       bindE (conv long k a) (\<lambda>s.
                         bindE (c_format rest args') (\<lambda>r. Inr (s @ r))))))"
  by pat_completeness auto
termination
  by (relation "measure (\<lambda>(f, a). length f)") (auto dest: dropWhile_shorter)

definition sprintf :: "cbuf \<Rightarrow> string \<Rightarrow> parg list \<Rightarrow> fault + cbuf" where
  "sprintf dst fmt args = bindE (c_format fmt args) (\<lambda>s. strcpy dst s)"

text \<open>\<open>sprintf(dst + n, ...)\<close>\<close>

definition sprintf_at :: "cbuf \<Rightarrow> nat \<Rightarrow> string \<Rightarrow> parg list \<Rightarrow> fault + cbuf" where
  "sprintf_at dst n fmt args =
     bindE (sprintf (drop n dst) fmt args) (\<lambda>b. Inr (take n dst @ b))"

subsection \<open>The text holds no terminator\<close>

lemma digit_char_not_NUL:
  assumes "d < 16"
  shows "digit_char u d \<noteq> NUL"
proof -
  let ?t = "if u then ''0123456789ABCDEF'' else ''0123456789abcdef''"
  have "digit_char u d \<in> set ?t" unfolding digit_char_def using assms by (intro nth_mem) simp
  moreover have "NUL \<notin> set ?t" by simp
  ultimately show ?thesis by metis
qed

lemma c_string_append [simp]: "c_string (s @ t) \<longleftrightarrow> c_string s \<and> c_string t"
  by (auto simp: c_string_def)

lemma c_string_Cons [simp]: "c_string (c # s) \<longleftrightarrow> c \<noteq> NUL \<and> c_string s"
  by (auto simp: c_string_def)

lemma c_string_Nil [simp]: "c_string []"
  by (simp add: c_string_def)

lemma c_string_to_base: "b \<le> 16 \<Longrightarrow> 2 \<le> b \<Longrightarrow> c_string (to_base u b n)"
proof (induction u b n rule: to_base.induct)
  case (1 u b n)
  then have "n mod b < 16" by (meson mod_less_divisor less_le_trans zero_less_numeral)
  with 1 show ?case
    by (auto simp: to_base.simps [of u b n] digit_char_not_NUL)
qed

lemma conv_c_string:
  assumes "conv long k a = Inr s" "\<And>t. a = AStr t \<Longrightarrow> c_string t"
  shows "c_string s"
  using assms
  by (cases a) (auto simp: conv_int_def dec_int_def dec_nat_def c_string_to_base Let_def
      split: if_splits)

lemma c_format_c_string:
  assumes "c_format f args = Inr s" "c_string f" "\<And>t. AStr t \<in> set args \<Longrightarrow> c_string t"
  shows "c_string s"
  using assms
proof (induction f args arbitrary: s rule: c_format.induct)
  case (2 c cs args)
  let ?d = "dropWhile (\<lambda>x. x = CHR ''l'') cs"
  have d: "c_string ?d" using "2.prems"(2)
    by (auto simp: c_string_def dest: set_dropWhileD)
  show ?case
  proof (cases "c = CHR ''%''")
    case False
    with 2 show ?thesis by (auto simp: bindE_eq_Inr)
  next
    case True
    then obtain k rest where k: "?d = k # rest"
      using "2.prems"(1) by (cases ?d) (auto simp: Let_def)
    with d have r: "c_string rest" by simp
    show ?thesis
    proof (cases "k = CHR ''%'' \<and> takeWhile (\<lambda>x. x = CHR ''l'') cs = []")
      case pc: True
      with True k "2.prems"(1) obtain s' where "c_format rest args = Inr s'" "s = CHR ''%'' # s'"
        by (auto simp: bindE_eq_Inr Let_def)
      with "2.IH"(2) [OF _ refl k] True pc r "2.prems"(3) show ?thesis by auto
    next
      case npc: False
      with True k "2.prems"(1) obtain a args' where a: "args = a # args'"
        by (cases args) (auto simp: Let_def)
      with True k npc "2.prems"(1) obtain s1 s2 where
        s: "conv (takeWhile (\<lambda>x. x = CHR ''l'') cs \<noteq> []) k a = Inr s1"
           "c_format rest args' = Inr s2" "s = s1 @ s2"
        by (auto simp: bindE_eq_Inr Let_def)
      have "c_string s1" using conv_c_string [OF s(1)] "2.prems"(3) a by auto
      moreover have "c_string s2"
        using "2.IH"(3) [OF _ refl k _ a s(1) s(2)] True npc r "2.prems"(3) a by auto
      ultimately show ?thesis using s(3) by simp
    qed
  qed
qed simp

end
