(* ===== verification/Time_Spec.thy ===== *)
theory Time_Spec
  imports RT_Prelude
begin

section \<open>Time stamps and the search for the earliest entry\<close>

text \<open>
  \<open>struct timespec\<close>, its conversion to nanoseconds at \<open>uint64_t\<close> and
  \<open>DiffBetweenTimespec\<close> of \<open>rt_debug_types.h\<close>. The reader of a trace group, the merge of the
  traces of all groups and the merge of their logs each scan an array for the entry with the
  smallest time stamp below the current time; \<open>earliest\<close> is the shape of that scan, with its
  specification, and the components show that their loops are instances of it.
\<close>

text \<open>Both fields are 64-bit signed integers in C, here as words.\<close>

record timespec =
  tv_sec :: u64
  tv_nsec :: u64

definition timespec_to_ns :: "timespec \<Rightarrow> u64" where
  "timespec_to_ns t = tv_sec t * BILLION + tv_nsec t"

definition DiffBetweenTimespec :: "timespec \<Rightarrow> timespec \<Rightarrow> int" where
  "DiffBetweenTimespec t1 t2 =
     (let t64_1 = timespec_to_ns t1; t64_2 = timespec_to_ns t2 in sint (t64_1 - t64_2))"

definition zero_time :: timespec where "zero_time = \<lparr>tv_sec = 0, tv_nsec = 0\<rparr>"

text \<open>Time stamps of a monotonic clock: nonnegative, and below \<open>2^63\<close> nanoseconds (292 years).\<close>

definition ns_of :: "timespec \<Rightarrow> nat" where
  "ns_of t = unat (tv_sec t) * 1000000000 + unat (tv_nsec t)"

definition valid_time :: "timespec \<Rightarrow> bool" where
  "valid_time t \<longleftrightarrow> ns_of t < 2 ^ 63"

lemma unat_timespec_to_ns: "valid_time t \<Longrightarrow> unat (timespec_to_ns t) = ns_of t"
  by (simp add: timespec_to_ns_def valid_time_def ns_of_def BILLION_def unat_word_ariths)

lemma valid_zero_time [simp]: "valid_time zero_time"
  by (simp add: valid_time_def ns_of_def zero_time_def)

lemma ns_of_zero_time [simp]: "ns_of zero_time = 0"
  by (simp add: ns_of_def zero_time_def)

lemma sint_diff_u64:
  fixes a b :: u64
  assumes "unat a < 2 ^ 63" "unat b < 2 ^ 63"
  shows "sint (a - b) = int (unat a) - int (unat b)"
proof -
  have w: "sint w = int (unat w)" if "unat w < 2 ^ 63" for w :: u64
  proof -
    have "int (unat w) < int (2 ^ 63)" using that by (simp only: of_nat_less_iff)
    then have "signed_take_bit 63 (uint w) = uint w"
      by (intro signed_take_bit_int_eq_self) (simp_all add: order_trans [OF _ uint_ge_0])
    moreover have "uint w = int (unat w)" by (rule uint_nat)
    moreover have "sint w = signed_take_bit 63 (uint w)" by (simp add: sint_uint)
    ultimately show ?thesis by (simp only:)
  qed
  have "signed_take_bit 63 (int x - int y) = int x - int y"
    if "x < 2 ^ 63" "y < 2 ^ 63" for x y :: nat
    using that by (intro signed_take_bit_int_eq_self) simp_all
  moreover have "sint (a - b) = signed_take_bit 63 (sint a - sint b)"
    by (simp add: sint_word_ariths)
  ultimately show ?thesis using w assms by (simp only:)
qed

lemma Diff_valid:
  assumes "valid_time t1" "valid_time t2"
  shows "DiffBetweenTimespec t1 t2 = int (ns_of t1) - int (ns_of t2)"
  using assms unat_timespec_to_ns [OF assms(1)] unat_timespec_to_ns [OF assms(2)]
  by (simp add: DiffBetweenTimespec_def sint_diff_u64 valid_time_def)

subsection \<open>The scan for the earliest entry\<close>

text \<open>
  \<open>earliest i xs (t, r)\<close> scans the entries \<open>xs\<close>, numbered from \<open>i\<close>, with the smallest time so far
  \<open>t\<close> and its index \<open>r\<close>; \<open>None\<close> is an entry that is skipped.
\<close>

fun earliest :: "nat \<Rightarrow> timespec option list \<Rightarrow> timespec \<times> nat option \<Rightarrow> timespec \<times> nat option" where
  "earliest i [] acc = acc"
| "earliest i (None # xs) acc = earliest (Suc i) xs acc"
| "earliest i (Some u # xs) (t, r) =
     earliest (Suc i) xs (if 0 < DiffBetweenTimespec t u then (u, Some i) else (t, r))"

text \<open>
  The scan from the time \<open>t\<close> with no index: the result is an entry below \<open>t\<close> of least time, the
  first of them in the array; or nothing, when no entry is below \<open>t\<close>.
\<close>

definition least_at :: "timespec option list \<Rightarrow> nat \<Rightarrow> timespec \<Rightarrow> bool" where
  "least_at xs k u \<longleftrightarrow> k < length xs \<and> xs ! k = Some u \<and>
     (\<forall>j v. j < length xs \<longrightarrow> xs ! j = Some v \<longrightarrow>
        ns_of u \<le> ns_of v \<and> (j < k \<longrightarrow> ns_of u < ns_of v))"

lemma earliest_gen:
  assumes "\<And>u. Some u \<in> set xs \<Longrightarrow> valid_time u" "valid_time t"
  shows "case earliest i xs (t, r) of (t', r') \<Rightarrow>
      (t' = t \<and> r' = r \<and> (\<forall>u. Some u \<in> set xs \<longrightarrow> ns_of t \<le> ns_of u)) \<or>
      (\<exists>k. r' = Some (i + k) \<and> least_at xs k t' \<and> ns_of t' < ns_of t)"
  using assms
proof (induction xs arbitrary: i t r)
  case (Cons x xs)
  have IH: "case earliest (Suc i) xs (t, r) of (t', r') \<Rightarrow>
      (t' = t \<and> r' = r \<and> (\<forall>u. Some u \<in> set xs \<longrightarrow> ns_of t \<le> ns_of u)) \<or>
      (\<exists>k. r' = Some (Suc i + k) \<and> least_at xs k t' \<and> ns_of t' < ns_of t)"
    if "valid_time t" for t r
    using Cons.IH [of t r "Suc i"] Cons.prems(1) that by (meson list.set_intros(2))
  have shift: "least_at xs k t' \<Longrightarrow> (\<And>v. x = Some v \<Longrightarrow> ns_of t' < ns_of v) \<Longrightarrow>
      least_at (x # xs) (Suc k) t'" for k t'
    by (force simp: least_at_def nth_Cons split: nat.splits)
  show ?case
  proof (cases x)
    case None
    with IH [OF Cons.prems(2), of r] shift show ?thesis by fastforce
  next
    case (Some u)
    then have u: "valid_time u" using Cons.prems(1) by simp
    show ?thesis
    proof (cases "ns_of u < ns_of t")
      case True
      then have step: "earliest i (x # xs) (t, r) = earliest (Suc i) xs (u, Some i)"
        using Some u Cons.prems(2) by (simp add: Diff_valid)
      have here: "least_at (x # xs) 0 u" if "\<forall>v. Some v \<in> set xs \<longrightarrow> ns_of u \<le> ns_of v"
        using that Some by (auto simp: least_at_def nth_Cons split: nat.splits)
          (metis nth_mem)
      from IH [OF u, of "Some i"] show ?thesis
        unfolding step using here shift Some True by fastforce
    next
      case False
      then have step: "earliest i (x # xs) (t, r) = earliest (Suc i) xs (t, r)"
        using Some u Cons.prems(2) by (simp add: Diff_valid)
      from IH [OF Cons.prems(2), of r] show ?thesis
        unfolding step using shift Some False by fastforce
    qed
  qed
qed simp

lemma earliest_origin:
  "case earliest i xs (t, r) of (t', r') \<Rightarrow>
     (t' = t \<and> r' = r) \<or> (\<exists>k. r' = Some (i + k) \<and> k < length xs \<and> xs ! k = Some t')"
proof (induction xs arbitrary: i t r)
  case (Cons x xs)
  have shift: "case earliest (Suc i) xs (t, r) of (t', r') \<Rightarrow>
     (t' = t \<and> r' = r) \<or> (\<exists>k. r' = Some (i + k) \<and> k < length (x # xs) \<and> (x # xs) ! k = Some t')"
    for t r using Cons.IH [of t r "Suc i"] by fastforce
  show ?case
  proof (cases x)
    case None
    then show ?thesis using shift by simp
  next
    case (Some u)
    show ?thesis
    proof (cases "0 < DiffBetweenTimespec t u")
      case True
      then have eq: "earliest i (x # xs) (t, r) = earliest (Suc i) xs (u, Some i)"
        using Some by simp
      show ?thesis unfolding eq using Some shift [of u "Some i"]
        by (auto intro: exI [of _ "0 :: nat"])
    next
      case False
      then show ?thesis using Some shift [of t r] by simp
    qed
  qed
qed simp

lemma earliest_snoc: "earliest i (xs @ [x]) acc = earliest (i + length xs) [x] (earliest i xs acc)"
proof (induction xs arbitrary: i acc)
  case (Cons y xs)
  obtain t r where "acc = (t, r)" by fastforce
  with Cons show ?case by (cases y) auto
qed simp

lemma earliest_index:
  assumes "earliest 0 xs (t, None) = (t', Some k)"
  shows "k < length xs \<and> xs ! k = Some t'"
  using earliest_origin [where i = 0 and xs = xs and t = t and r = None] assms by auto

lemma earliest_None:
  assumes "\<And>u. Some u \<in> set xs \<Longrightarrow> valid_time u" "valid_time t"
    "earliest 0 xs (t, None) = (t', None)"
  shows "\<forall>u. Some u \<in> set xs \<longrightarrow> ns_of t \<le> ns_of u"
  using earliest_gen [of xs t None 0] assms by auto

lemma earliest_Some:
  assumes "\<And>u. Some u \<in> set xs \<Longrightarrow> valid_time u" "valid_time t"
    "earliest 0 xs (t, None) = (t', Some k)"
  shows "least_at xs k t' \<and> ns_of t' < ns_of t"
  using earliest_gen [of xs t None 0] assms by auto

text \<open>The code keeps the index in a \<open>uint32_t\<close>, with \<open>-1\<close> for no entry.\<close>

definition index32 :: "nat option \<Rightarrow> u32" where
  "index32 r = (case r of None \<Rightarrow> - 1 | Some k \<Rightarrow> of_nat k)"

lemma index32_None_iff: "(\<forall>k. r = Some k \<longrightarrow> k < 2 ^ 32 - 1) \<Longrightarrow> index32 r = - 1 \<longleftrightarrow> r = None"
proof (cases r)
  case (Some k)
  assume "\<forall>k. r = Some k \<longrightarrow> k < 2 ^ 32 - 1"
  with Some have k: "k < 2 ^ 32 - 1" by simp
  then have "unat (of_nat k :: u32) = k" by (intro unat_of_nat_u32) simp
  moreover have "unat (- 1 :: u32) = 2 ^ 32 - 1" by (simp add: unsigned_minus_1_eq_mask mask_eq_exp_minus_1)
  ultimately have "(of_nat k :: u32) \<noteq> - 1" using k by (metis less_irrefl)
  with Some show ?thesis by (simp add: index32_def)
qed (simp add: index32_def)

end
