(* ===== verification/Trace_Group.thy ===== *)
theory Trace_Group
  imports Area_Fifo Name_Table C_Printf Time_Spec
begin

section \<open>Traces of one group: \<open>CTraceGroup\<close>\<close>

text \<open>
  The trace formats and the trace buffer of a group (\<open>rt_debug_types.h\<close>, \<open>rt_debug_types.cc\<close>).
  The buffer is used as a pool: \<open>AddTrace\<close> takes the next chunk round the ring whatever it
  holds, and the reader does not use the ring indices at all but scans every entry for the
  earliest one that is marked as holding data. Calls to the clock and to \<open>pthread_self\<close> are
  arguments (\<open>now\<close>, \<open>self\<close>), and so is the value of the one member that \<open>AddTrace\<close> leaves
  uninitialised (\<open>junk\<close>).
\<close>

record Trace_entry =
  linux_time :: timespec
  trace_id :: u16
  thread_id :: u16
  line_num :: u32
  te_status :: u32
  future_use :: u32
  vals :: "u64 list"

text \<open>\<open>const uint16_t NO_DATA_IND = -1\<close>, stored in and compared with a \<open>uint32_t\<close>.\<close>

definition NO_DATA_IND :: u32 where "NO_DATA_IND = ucast (- 1 :: u16)"
definition DATA_IND :: u32 where "DATA_IND = 0"
definition TRACE_EMPTY_DATA :: u32 where "TRACE_EMPTY_DATA = 1"
definition sizeof_Trace_entry :: u32 where "sizeof_Trace_entry = 64"

record CTraceGroup =
  trace_formats :: "cbuf list"
  trace_fifo :: "Trace_entry mem_area"
  num_alloc_formats :: u32
  tg_group_name :: cbuf

definition trace_SetGroupName :: "string \<Rightarrow> CTraceGroup \<Rightarrow> fault + CTraceGroup" where
  "trace_SetGroupName nm g = bindE (strcpy (tg_group_name g) nm) (\<lambda>b. Inr (g\<lparr>tg_group_name := b\<rparr>))"

definition AddTraceFormat :: "string \<Rightarrow> CTraceGroup \<Rightarrow> fault + (u32 \<times> CTraceGroup)" where
  "AddTraceFormat fmt g =
     ASSERT (length fmt < TRACE_STRING_SIZE)
      (bindE (scan_names (trace_formats g) fmt 0 (unat (num_alloc_formats g))) (\<lambda>r.
        case r of
          Some i \<Rightarrow> Inr (of_nat i, g)
        | None \<Rightarrow>
            (let i = num_alloc_formats g in
             ASSERT (num_alloc_formats g < of_nat MAX_TRACE_FORMATS)
              (bindE (arr_mod (trace_formats g) (unat i) (\<lambda>b. strcpy b fmt)) (\<lambda>fs.
                 Inr (i, g\<lparr>trace_formats := fs, num_alloc_formats := num_alloc_formats g + 1\<rparr>))))))"

definition def_format :: string where
  "def_format = ''val0= %llu, val1=%llu, val2= %llu, val3= %llu''"

text \<open>\<open>base\<close> is the address of \<open>trace_fifo_.buf_\<close> in the calling process.\<close>

definition trace_Reset :: "bool \<Rightarrow> u64 \<Rightarrow> CTraceGroup \<Rightarrow> fault + CTraceGroup" where
  "trace_Reset attach base g =
     bindE
      (if \<not> attach then
         (let g = g\<lparr>tg_group_name := clear_str (tg_group_name g), num_alloc_formats := 0,
                    trace_formats := map clear_str (trace_formats g)\<rparr> in
          bindE (AddTraceFormat def_format g) (\<lambda>(_, g).
          bindE (foldE (\<lambda>i. GetEntry_assign (of_nat i) (\<lambda>e. e\<lparr>te_status := NO_DATA_IND\<rparr>))
                   [0..<TRACE_ENTRIES_NUM] (trace_fifo g)) (\<lambda>m.
          bindE (StaticMemArea_Setup (of_nat TRACE_ENTRIES_NUM) sizeof_Trace_entry
                   ''Trace data'' E_READ 0 m) (\<lambda>m. Inr (g\<lparr>trace_fifo := m\<rparr>)))))
       else Inr g)
      (\<lambda>g. bindE (StaticMemArea_MemAlloc base (trace_fifo g)) (\<lambda>m. Inr (g\<lparr>trace_fifo := m\<rparr>)))"

definition new_entry ::
  "timespec \<Rightarrow> u64 \<Rightarrow> u32 \<Rightarrow> u32 \<Rightarrow> u32 \<Rightarrow> u64 \<Rightarrow> u64 \<Rightarrow> u64 \<Rightarrow> u64 \<Rightarrow> Trace_entry" where
  "new_entry now self junk tid line var0 var1 var2 var3 =
     \<lparr>linux_time = now, trace_id = ucast tid, thread_id = ucast self, line_num = line,
      te_status = DATA_IND, future_use = junk, vals = [var0, var1, var2, var3]\<rparr>"

definition AddTrace ::
  "timespec \<Rightarrow> u64 \<Rightarrow> u32 \<Rightarrow> u32 \<Rightarrow> u32 \<Rightarrow> u64 \<Rightarrow> u64 \<Rightarrow> u64 \<Rightarrow> u64 \<Rightarrow> CTraceGroup \<Rightarrow>
   fault + CTraceGroup" where
  "AddTrace now self junk tid line var0 var1 var2 var3 g =
     bindE (StaticMemArea_AllocPoolChunk (trace_fifo g)) (\<lambda>(p, m).
       ASSERT (tid < num_alloc_formats g)
        (let tmp_entry = new_entry now self junk tid line var0 var1 var2 var3 in
         bindE (chunk_store (unat p) tmp_entry m) (\<lambda>m. Inr (g\<lparr>trace_fifo := m\<rparr>))))"

definition trace_scan_step ::
  "Trace_entry mem_area \<Rightarrow> nat \<Rightarrow> timespec \<times> u32 \<Rightarrow> fault + (timespec \<times> u32)" where
  "trace_scan_step m i acc =
     (let (min_time, min_index) = acc in
      bindE (GetEntry (of_nat i) m) (\<lambda>e.
        if te_status e = NO_DATA_IND then Inr (min_time, min_index)
        else if 0 < DiffBetweenTimespec min_time (linux_time e) then Inr (linux_time e, of_nat i)
        else Inr (min_time, min_index)))"

definition trace_line ::
  "CTraceGroup \<Rightarrow> Trace_entry \<Rightarrow> cbuf \<Rightarrow> fault + cbuf" where
  "trace_line g e dst =
     bindE (arr_get (trace_formats g) (unat (trace_id e))) (\<lambda>fb.
     bindE (c_str (tg_group_name g)) (\<lambda>gname.
     bindE (c_format ''%lu, %s, %d, %d, ''
              [AInt (timespec_to_ns (linux_time e)), AStr gname, AInt (ucast (thread_id e)),
               AInt (ucast (line_num e))]) (\<lambda>hdr.
     bindE (strcpy (clear_str dst) hdr) (\<lambda>dst.
     bindE (c_str fb) (\<lambda>format.
       sprintf_at dst (length hdr) format (map AInt (vals e)))))))"

text \<open>\<open>None\<close> is the result \<open>false\<close>; \<open>Some\<close> gives the two output arguments.\<close>

definition trace_GetTraceEntry ::
  "timespec \<Rightarrow> cbuf \<Rightarrow> CTraceGroup \<Rightarrow> fault + ((cbuf \<times> timespec) option \<times> CTraceGroup)" where
  "trace_GetTraceEntry now trace_entry_str g =
     bindE (foldE (trace_scan_step (trace_fifo g)) [0..<TRACE_ENTRIES_NUM] (now, - 1))
       (\<lambda>(min_time, min_index).
         if min_index = - 1 then Inr (None, g)
         else
           bindE (GetEntry min_index (trace_fifo g)) (\<lambda>e.
             ASSERT (ucast (trace_id e) < num_alloc_formats g)
              (bindE (trace_line g e trace_entry_str) (\<lambda>str.
               bindE (GetEntry_assign min_index (\<lambda>e. e\<lparr>te_status := NO_DATA_IND\<rparr>) (trace_fifo g))
                 (\<lambda>m. Inr (Some (str, linux_time e), g\<lparr>trace_fifo := m\<rparr>))))))"

subsection \<open>Invariant\<close>

definition trace_names :: "CTraceGroup \<Rightarrow> string list" where
  "trace_names g = array_names (\<lambda>b. b) (unat (num_alloc_formats g)) (trace_formats g)"

definition has_data :: "Trace_entry \<Rightarrow> bool" where
  "has_data e \<longleftrightarrow> te_status e \<noteq> NO_DATA_IND"

definition trace_arrays_wf :: "CTraceGroup \<Rightarrow> bool" where
  "trace_arrays_wf g \<longleftrightarrow>
     name_array (\<lambda>b. b) TRACE_STRING_SIZE MAX_TRACE_FORMATS (unat (num_alloc_formats g))
       (trace_formats g) \<and>
     length (tg_group_name g) = TRACE_STRING_SIZE \<and>
     length (chunk_buf (trace_fifo g)) = TRACE_ENTRIES_NUM \<and>
     elem_size (trace_fifo g) = sizeof_Trace_entry"

definition trace_wf :: "CTraceGroup \<Rightarrow> bool" where
  "trace_wf g \<longleftrightarrow> trace_arrays_wf g \<and> pool_wf (trace_fifo g) \<and>
     (\<forall>e \<in> set (chunk_buf (trace_fifo g)).
        has_data e \<longrightarrow> unat (trace_id e) < unat (num_alloc_formats g))"

lemma trace_scan:
  assumes "trace_arrays_wf g" "c_string nm"
  shows "scan_names (trace_formats g) nm 0 (unat (num_alloc_formats g)) =
    Inr (first_pos nm (trace_names g))"
  using assms name_array_scan [of "\<lambda>b. b"] unfolding trace_arrays_wf_def trace_names_def
  by (metis list.map_ident)

lemma length_trace_names: "trace_arrays_wf g \<Longrightarrow> length (trace_names g) = unat (num_alloc_formats g)"
  unfolding trace_arrays_wf_def trace_names_def by (blast intro: length_array_names)

lemma AddTraceFormat_new:
  assumes wf: "trace_arrays_wf g" and nm: "fits TRACE_STRING_SIZE fmt" "fmt \<notin> set (trace_names g)"
    and room: "unat (num_alloc_formats g) < MAX_TRACE_FORMATS"
  shows "\<exists>fs. AddTraceFormat fmt g = Inr (num_alloc_formats g,
      g\<lparr>trace_formats := fs, num_alloc_formats := num_alloc_formats g + 1\<rparr>) \<and>
    trace_names (g\<lparr>trace_formats := fs, num_alloc_formats := num_alloc_formats g + 1\<rparr>) =
      trace_names g @ [fmt] \<and>
    trace_arrays_wf (g\<lparr>trace_formats := fs, num_alloc_formats := num_alloc_formats g + 1\<rparr>) \<and>
    unat (num_alloc_formats g + 1) = Suc (unat (num_alloc_formats g))"
proof -
  let ?i = "unat (num_alloc_formats g)"
  have arr: "name_array (\<lambda>b. b) TRACE_STRING_SIZE MAX_TRACE_FORMATS ?i (trace_formats g)"
    using wf by (simp add: trace_arrays_wf_def)
  then have i: "?i < length (trace_formats g)" using room by (simp add: name_array_def)
  obtain b where b: "strcpy (trace_formats g ! ?i) fmt = Inr b"
    "length b = TRACE_STRING_SIZE" "terminated b" "str_of b = fmt"
    using name_array_buf [OF arr room nm(1)] .
  have n: "unat (num_alloc_formats g + 1) = Suc ?i"
    using room by (simp add: MAX_TRACE_FORMATS_def unat_word_ariths)
  have "num_alloc_formats g < of_nat MAX_TRACE_FORMATS"
    using room by (simp add: word_less_nat_alt MAX_TRACE_FORMATS_def)
  then have "AddTraceFormat fmt g = Inr (num_alloc_formats g,
      g\<lparr>trace_formats := (trace_formats g)[?i := b],
        num_alloc_formats := num_alloc_formats g + 1\<rparr>)"
    using b i nm trace_scan [OF wf] by (simp add: AddTraceFormat_def fits_def Let_def arr_mod_in)
  moreover have "array_names (\<lambda>b. b) (Suc ?i) ((trace_formats g)[?i := b]) = trace_names g @ [fmt]"
    using array_names_snoc [OF i, of "\<lambda>b. b" b] b(4) by (simp add: trace_names_def)
  moreover have "name_array (\<lambda>b. b) TRACE_STRING_SIZE MAX_TRACE_FORMATS (Suc ?i)
      ((trace_formats g)[?i := b])"
    using name_array_snoc [OF arr room, of b] b nm(2) by (simp add: trace_names_def)
  ultimately show ?thesis
    using n wf by (auto simp: trace_names_def trace_arrays_wf_def)
qed

interpretation formats: name_table AddTraceFormat trace_names MAX_TRACE_FORMATS
  "fits TRACE_STRING_SIZE" trace_wf
proof
  fix g fmt assume wf: "trace_wf g"
  then have arr: "trace_arrays_wf g" by (simp add: trace_wf_def)
  show "distinct (trace_names g)"
    using arr by (simp add: trace_arrays_wf_def trace_names_def name_array_def)
  show "length (trace_names g) \<le> MAX_TRACE_FORMATS"
    using arr length_trace_names [OF arr] by (simp add: trace_arrays_wf_def name_array_def)
  assume ok: "fits TRACE_STRING_SIZE fmt"
  then have cs: "c_string fmt" "length fmt < TRACE_STRING_SIZE" by (simp_all add: fits_def)
  show "AddTraceFormat fmt g = Inr (of_nat i, g)" if "first_pos fmt (trace_names g) = Some i" for i
    using that trace_scan [OF arr cs(1)] cs(2) by (simp add: AddTraceFormat_def)
  assume new: "fmt \<notin> set (trace_names g)"
  show "\<exists>g'. AddTraceFormat fmt g = Inr (of_nat (length (trace_names g)), g') \<and>
      trace_names g' = trace_names g @ [fmt] \<and> trace_wf g'"
    if "length (trace_names g) < MAX_TRACE_FORMATS"
    using AddTraceFormat_new [OF arr ok new] that wf length_trace_names [OF arr]
    by (fastforce simp: trace_wf_def)
  show "\<exists>f. AddTraceFormat fmt g = Inl f" if "length (trace_names g) = MAX_TRACE_FORMATS"
  proof -
    have "\<not> num_alloc_formats g < of_nat MAX_TRACE_FORMATS"
      using that length_trace_names [OF arr] by (simp add: word_less_nat_alt MAX_TRACE_FORMATS_def)
    with new trace_scan [OF arr cs(1)] cs(2) show ?thesis by (simp add: AddTraceFormat_def Let_def)
  qed
qed (simp add: MAX_TRACE_FORMATS_def)

subsection \<open>Reset\<close>

text \<open>
  \<open>Reset(false)\<close> on memory of the right shape, whatever it holds, gives a group with the default
  format at index 0 and no data.
\<close>

definition trace_shape :: "CTraceGroup \<Rightarrow> bool" where
  "trace_shape g \<longleftrightarrow>
     length (trace_formats g) = MAX_TRACE_FORMATS \<and>
     (\<forall>b \<in> set (trace_formats g). length b = TRACE_STRING_SIZE) \<and>
     length (tg_group_name g) = TRACE_STRING_SIZE \<and>
     length (chunk_buf (trace_fifo g)) = TRACE_ENTRIES_NUM \<and>
     elem_size (trace_fifo g) = sizeof_Trace_entry \<and>
     length (area_name (trace_fifo g)) = MDO_NAME_SIZE"

lemma trace_area_Setup:
  assumes "length (chunk_buf m) = TRACE_ENTRIES_NUM" "elem_size m = sizeof_Trace_entry"
    "length (area_name m) = MDO_NAME_SIZE" "base \<noteq> 0" "ALIGN_64BIT base = base"
  shows "\<exists>m1 m2. StaticMemArea_Setup sz inc ''Trace data'' E_READ 0 m = Inr m1 \<and>
    StaticMemArea_MemAlloc base m1 = Inr m2 \<and> area_wf m2 \<and> chunk_buf m2 = chunk_buf m \<and>
    elem_size m2 = elem_size m \<and> area_at base m2 \<and> wr_ind m2 = 1 \<and>
    length (area_name m2) = MDO_NAME_SIZE"
proof -
  have "\<exists>m1. StaticMemArea_Setup sz inc ''Trace data'' E_READ 0 m = Inr m1 \<and> area_wf m1 \<and>
      fifo_contents m1 = [] \<and> chunk_buf m1 = chunk_buf m \<and> elem_size m1 = elem_size m \<and>
      attrib m1 = 0 \<and> length (area_name m1) = length (area_name m) \<and>
      terminated (area_name m1) \<and> str_of (area_name m1) = ''Trace data'' \<and>
      rd_ind m1 = 0 \<and> wr_ind m1 = 1 \<and> ptr_producer m1 = ptr_producer m \<and>
      ptr_consumer m1 = ptr_consumer m"
    using assms(1-3) by (intro Setup_ready)
      (auto simp: const_defs sizeof_Trace_entry_def ALIGN_SIZE_def c_string_def)
  then obtain m1 where m1: "StaticMemArea_Setup sz inc ''Trace data'' E_READ 0 m = Inr m1"
    "area_wf m1" "chunk_buf m1 = chunk_buf m" "elem_size m1 = elem_size m" "attrib m1 = 0"
    "wr_ind m1 = 1" "length (area_name m1) = length (area_name m)" by blast
  have "StaticMemArea_MemAlloc base m1 = Inr (m1\<lparr>ptr_producer := base, ptr_consumer := base\<rparr>)"
    using m1 assms by (intro StaticMemArea_MemAlloc_ok)
      (auto simp: area_wf_def const_defs sizeof_Trace_entry_def)
  then show ?thesis using m1 assms(3) by (auto simp: area_wf_def pool_wf_def area_at_def)
qed

lemma trace_Reset_ok:
  assumes shape: "trace_shape g" and base: "base \<noteq> 0" "ALIGN_64BIT base = base"
  shows "\<exists>g'. trace_Reset False base g = Inr g' \<and> trace_wf g' \<and> trace_shape g' \<and>
    trace_names g' = [def_format] \<and> filter has_data (chunk_buf (trace_fifo g')) = [] \<and>
    unat (wr_ind (trace_fifo g')) = 1 \<and> num_alloc_formats g' = 1 \<and>
    tg_group_name g' = clear_str (tg_group_name g)"
proof -
  let ?g0 = "g\<lparr>tg_group_name := clear_str (tg_group_name g), num_alloc_formats := 0,
               trace_formats := map clear_str (trace_formats g)\<rparr>"
  have 0: "trace_arrays_wf ?g0" "trace_names ?g0 = []"
    using shape by (auto simp: trace_arrays_wf_def trace_shape_def trace_names_def
        intro!: name_array_empty)
  have "fits TRACE_STRING_SIZE def_format"
    by (simp add: fits_def def_format_def c_string_def TRACE_STRING_SIZE_def)
  from AddTraceFormat_new [OF 0(1) this] obtain fs where
    1: "AddTraceFormat def_format ?g0 =
        Inr (0, ?g0\<lparr>trace_formats := fs, num_alloc_formats := 1\<rparr>)"
      "trace_names (?g0\<lparr>trace_formats := fs, num_alloc_formats := 1\<rparr>) = [def_format]"
      "trace_arrays_wf (?g0\<lparr>trace_formats := fs, num_alloc_formats := 1\<rparr>)"
    using 0 by (auto simp: MAX_TRACE_FORMATS_def)
  let ?f = "\<lambda>e. e\<lparr>te_status := NO_DATA_IND\<rparr>"
  let ?m = "(trace_fifo g)\<lparr>chunk_buf := map ?f (chunk_buf (trace_fifo g))\<rparr>"
  have 2: "foldE (\<lambda>i. GetEntry_assign (of_nat i) ?f) [0..<TRACE_ENTRIES_NUM] (trace_fifo g) = Inr ?m"
    using foldE_GetEntry_assign [of TRACE_ENTRIES_NUM "trace_fifo g" ?f] shape
    by (simp add: trace_shape_def TRACE_ENTRIES_NUM_def)
  obtain m1 m2 where 3: "StaticMemArea_Setup (of_nat TRACE_ENTRIES_NUM) sizeof_Trace_entry
      ''Trace data'' E_READ 0 ?m = Inr m1" "StaticMemArea_MemAlloc base m1 = Inr m2" "area_wf m2"
      "chunk_buf m2 = chunk_buf ?m" "elem_size m2 = elem_size (trace_fifo g)" "wr_ind m2 = 1"
      "length (area_name m2) = MDO_NAME_SIZE"
    using trace_area_Setup [of ?m base "of_nat TRACE_ENTRIES_NUM" sizeof_Trace_entry] shape base
    by (auto simp: trace_shape_def)
  let ?g' = "?g0\<lparr>trace_formats := fs, num_alloc_formats := 1, trace_fifo := m2\<rparr>"
  have "trace_Reset False base g = Inr ?g'"
    using 1(1) 2 3(1,2) by (simp add: trace_Reset_def Let_def)
  moreover have "trace_wf ?g' \<and> trace_shape ?g'"
    using 1(3) 3 shape
    by (auto simp: trace_wf_def trace_arrays_wf_def trace_shape_def area_wf_def has_data_def
        name_array_def)
  moreover have "trace_names ?g' = [def_format]" using 1(2) by (simp add: trace_names_def)
  moreover have "filter has_data (chunk_buf (trace_fifo ?g')) = []"
    using 3(4) by (simp add: filter_empty_conv has_data_def)
  ultimately show ?thesis using 3(6) by (intro exI [of _ ?g']) simp
qed

text \<open>A group in memory that the system has just zeroed.\<close>

definition trace_zero :: CTraceGroup where
  "trace_zero =
     \<lparr>trace_formats = replicate MAX_TRACE_FORMATS (replicate TRACE_STRING_SIZE NUL),
      trace_fifo =
        \<lparr>allocated_ptr = 0, ptr_producer = 0, ptr_consumer = 0, number_chunks = 0,
         single_chunk_size = 0, wr_ind = 0, rd_ind = 0, access_mode = E_READ, attrib = 0,
         in_lock = False, out_lock = False, area_name = replicate MDO_NAME_SIZE NUL,
         chunk_buf = replicate TRACE_ENTRIES_NUM
           \<lparr>linux_time = zero_time, trace_id = 0, thread_id = 0, line_num = 0, te_status = 0,
            future_use = 0, vals = [0, 0, 0, 0]\<rparr>,
         elem_size = sizeof_Trace_entry\<rparr>,
      num_alloc_formats = 0, tg_group_name = replicate TRACE_STRING_SIZE NUL\<rparr>"

lemma trace_zero_shape: "trace_shape trace_zero"
  by (simp add: trace_shape_def trace_zero_def)

subsection \<open>Adding a trace\<close>

lemma AddTrace_eq:
  assumes wf: "trace_wf g" and tid: "tid < num_alloc_formats g"
  shows "AddTrace now self junk tid line v0 v1 v2 v3 g =
    (let m = trace_fifo g; k = pool_next m in
     Inr (g\<lparr>trace_fifo := m\<lparr>wr_ind := of_nat k,
       chunk_buf := (chunk_buf m)[k := new_entry now self junk tid line v0 v1 v2 v3]\<rparr>\<rparr>))"
proof -
  let ?m = "trace_fifo g"
  have pool: "pool_wf ?m" using wf by (simp add: trace_wf_def)
  obtain p where "StaticMemArea_AllocPoolChunk ?m = Inr (p, ?m\<lparr>wr_ind := of_nat (pool_next ?m)\<rparr>)"
    "unat p = unat (elem_size ?m) * pool_next ?m"
    using AllocPoolChunk_wf [OF pool] by blast
  moreover have "chunk_index (unat (elem_size ?m) * pool_next ?m) (?m\<lparr>wr_ind := i\<rparr>) = Inr (pool_next ?m)"
    for i using chunk_index_wf [OF pool pool_next_less [OF pool]] by (simp add: chunk_index_def)
  ultimately show ?thesis using tid by (simp add: AddTrace_def chunk_store_def Let_def)
qed

lemma AddTrace_wf:
  assumes wf: "trace_wf g" and tid: "tid < num_alloc_formats g"
    and "AddTrace now self junk tid line v0 v1 v2 v3 g = Inr g'"
  shows "trace_wf g'"
proof -
  let ?m = "trace_fifo g" and ?e = "new_entry now self junk tid line v0 v1 v2 v3"
  let ?k = "pool_next ?m"
  have pool: "pool_wf ?m" using wf by (simp add: trace_wf_def)
  have g': "g' = g\<lparr>trace_fifo := ?m\<lparr>wr_ind := of_nat ?k, chunk_buf := (chunk_buf ?m)[?k := ?e]\<rparr>\<rparr>"
    using AddTrace_eq [OF wf tid] assms(3) by (simp add: Let_def)
  have n: "unat tid < unat (num_alloc_formats g)" using tid by (simp add: word_less_nat_alt)
  then have "unat tid < MAX_TRACE_FORMATS"
    using wf by (simp add: trace_wf_def trace_arrays_wf_def name_array_def)
  then have "unat (ucast tid :: u16) = unat tid"
    by (simp add: unsigned_ucast_eq take_bit_nat_eq_self MAX_TRACE_FORMATS_def)
  then have "unat (trace_id ?e) < unat (num_alloc_formats g)" using n by (simp add: new_entry_def)
  then have "\<forall>e \<in> set ((chunk_buf ?m)[?k := ?e]). has_data e \<longrightarrow>
      unat (trace_id e) < unat (num_alloc_formats g)"
    using wf set_update_subset_insert [of "chunk_buf ?m" ?k ?e] by (auto simp: trace_wf_def)
  moreover have "pool_wf (trace_fifo g')"
    unfolding g' using pool_wf_write [OF pool pool_next_less [OF pool]] by simp
  ultimately show ?thesis using wf unfolding g' by (simp add: trace_wf_def trace_arrays_wf_def)
qed

subsection \<open>Reading the earliest trace\<close>

definition entry_time :: "Trace_entry \<Rightarrow> timespec option" where
  "entry_time e = (if has_data e then Some (linux_time e) else None)"

definition trace_times :: "CTraceGroup \<Rightarrow> timespec option list" where
  "trace_times g = map entry_time (chunk_buf (trace_fifo g))"

definition clear_entry :: "nat \<Rightarrow> CTraceGroup \<Rightarrow> CTraceGroup" where
  "clear_entry k g = g\<lparr>trace_fifo := (trace_fifo g)\<lparr>chunk_buf :=
     (chunk_buf (trace_fifo g))[k := (chunk_buf (trace_fifo g) ! k)\<lparr>te_status := NO_DATA_IND\<rparr>]\<rparr>\<rparr>"

lemma trace_scan_earliest:
  assumes "length (chunk_buf m) < 2 ^ 32"
  shows "foldE (trace_scan_step m) [i..<length (chunk_buf m)] (t, index32 r) =
    Inr (map_prod id index32 (earliest i (map entry_time (drop i (chunk_buf m))) (t, r)))"
proof (induction "length (chunk_buf m) - i" arbitrary: i t r)
  case 0
  then show ?case by simp
next
  case (Suc k)
  then have i: "i < length (chunk_buf m)" "k = length (chunk_buf m) - Suc i" by auto
  let ?e = "chunk_buf m ! i"
  have "GetEntry (of_nat i) m = Inr ?e" using i assms by (intro GetEntry_in) auto
  moreover have "drop i (chunk_buf m) = ?e # drop (Suc i) (chunk_buf m)"
    using i(1) by (simp add: Cons_nth_drop_Suc)
  moreover have "[i..<length (chunk_buf m)] = i # [Suc i..<length (chunk_buf m)]"
    using i(1) by (simp add: upt_conv_Cons)
  moreover have "(of_nat i :: u32) = index32 (Some i)" by (simp add: index32_def)
  ultimately show ?case
    using Suc.hyps(1) [OF i(2)]
    by (simp add: trace_scan_step_def entry_time_def has_data_def)
qed

lemma trace_GetTraceEntry_eq:
  assumes wf: "trace_wf g"
  shows "trace_GetTraceEntry now dst g =
    (case earliest 0 (trace_times g) (now, None) of
       (t, None) \<Rightarrow> Inr (None, g)
     | (t, Some k) \<Rightarrow>
         bindE (trace_line g (chunk_buf (trace_fifo g) ! k) dst)
           (\<lambda>str. Inr (Some (str, linux_time (chunk_buf (trace_fifo g) ! k)), clear_entry k g)))"
proof -
  let ?m = "trace_fifo g"
  obtain t r where tr: "earliest 0 (trace_times g) (now, None) = (t, r)" by fastforce
  have len: "length (chunk_buf ?m) = TRACE_ENTRIES_NUM"
    using wf by (simp add: trace_wf_def trace_arrays_wf_def)
  have scan: "foldE (trace_scan_step ?m) [0..<TRACE_ENTRIES_NUM] (now, - 1) = Inr (t, index32 r)"
    using trace_scan_earliest [of ?m 0 now None] tr len
    by (simp add: index32_def trace_times_def TRACE_ENTRIES_NUM_def)
  have idx: "k < TRACE_ENTRIES_NUM \<and> has_data (chunk_buf ?m ! k)" if "r = Some k" for k
    using earliest_index [of "trace_times g" now t k] tr that len
    by (auto simp: trace_times_def entry_time_def split: if_splits)
  show ?thesis
  proof (cases r)
    case None
    then show ?thesis using scan tr by (simp add: trace_GetTraceEntry_def index32_def)
  next
    case (Some k)
    then have k: "k < length (chunk_buf ?m)" "k < 2 ^ 32" and d: "has_data (chunk_buf ?m ! k)"
      using idx len by (auto simp: TRACE_ENTRIES_NUM_def)
    have "index32 r \<noteq> - 1"
      using index32_None_iff [of r] Some idx by (auto simp: TRACE_ENTRIES_NUM_def)
    moreover have "index32 r = of_nat k" using Some by (simp add: index32_def)
    moreover have "unat (trace_id (chunk_buf ?m ! k)) < unat (num_alloc_formats g)"
      using wf k(1) d by (simp add: trace_wf_def)
    then have "(ucast (trace_id (chunk_buf ?m ! k)) :: u32) < num_alloc_formats g"
      by (simp add: word_less_nat_alt unsigned_ucast_eq take_bit_nat_eq_self order_less_trans
          [OF unsigned_less])
    ultimately show ?thesis
      using scan tr Some GetEntry_in [OF k] GetEntry_assign_in [OF k]
      by (simp add: trace_GetTraceEntry_def clear_entry_def)
  qed
qed

lemma clear_entry_wf:
  assumes "trace_wf g" "k < length (chunk_buf (trace_fifo g))"
  shows "trace_wf (clear_entry k g)"
proof -
  let ?e = "(chunk_buf (trace_fifo g) ! k)\<lparr>te_status := NO_DATA_IND\<rparr>"
  have "\<forall>e \<in> set ((chunk_buf (trace_fifo g))[k := ?e]). has_data e \<longrightarrow>
      unat (trace_id e) < unat (num_alloc_formats g)"
    using assms(1) set_update_subset_insert [of "chunk_buf (trace_fifo g)" k ?e]
    by (auto simp: trace_wf_def has_data_def)
  moreover have "pool_wf (trace_fifo (clear_entry k g))"
    using assms(1) by (auto simp: trace_wf_def clear_entry_def intro: pool_wf_buf)
  ultimately show ?thesis using assms(1)
    by (simp add: trace_wf_def trace_arrays_wf_def clear_entry_def)
qed

lemma trace_times_clear: "trace_times (clear_entry k g) = (trace_times g)[k := None]"
proof (cases "k < length (chunk_buf (trace_fifo g))")
  case True
  then show ?thesis
    by (simp add: trace_times_def clear_entry_def map_update entry_time_def has_data_def)
next
  case False
  then show ?thesis by (simp add: trace_times_def clear_entry_def list_update_beyond)
qed

end
