(* ===== verification/Trace_History.thy ===== *)
theory Trace_History
  imports Trace_Group "HOL-Library.Multiset"
begin

section \<open>What the traces of a group retain and in which order they are read\<close>

text \<open>
  The view of a trace buffer as the history of the last \<open>TRACE_ENTRIES_NUM\<close> traces, oldest
  first; what a run of \<open>AddTrace\<close> leaves in it; the order in which the reader returns its
  entries; and a complete drain of a group.
\<close>

subsection \<open>Runs of \<open>AddTrace\<close>\<close>

text \<open>The arguments of one \<open>AddTrace\<close>, with what its calls to the clock and to \<open>pthread_self\<close> give.\<close>

record trace_call =
  tc_now :: timespec
  tc_self :: u64
  tc_junk :: u32
  tc_id :: u32
  tc_line :: u32
  tc_v0 :: u64
  tc_v1 :: u64
  tc_v2 :: u64
  tc_v3 :: u64

definition call_entry :: "trace_call \<Rightarrow> Trace_entry" where
  "call_entry c = new_entry (tc_now c) (tc_self c) (tc_junk c) (tc_id c) (tc_line c)
     (tc_v0 c) (tc_v1 c) (tc_v2 c) (tc_v3 c)"

definition add_call :: "trace_call \<Rightarrow> CTraceGroup \<Rightarrow> fault + CTraceGroup" where
  "add_call c = AddTrace (tc_now c) (tc_self c) (tc_junk c) (tc_id c) (tc_line c)
     (tc_v0 c) (tc_v1 c) (tc_v2 c) (tc_v3 c)"

definition trace_history :: "CTraceGroup \<Rightarrow> Trace_entry list" where
  "trace_history g =
     ring_window (chunk_buf (trace_fifo g)) (unat (wr_ind (trace_fifo g))) TRACE_ENTRIES_NUM"

lemma ring_window_full:
  assumes "r < length buf"
  shows "ring_window (buf[(r + 1) mod length buf := d]) ((r + 1) mod length buf) (length buf) =
    tl (ring_window buf r (length buf)) @ [d]"
proof -
  let ?n = "length buf" and ?r = "(r + 1) mod length buf"
  have n: "0 < ?n" using assms by linarith
  then obtain k where k: "?n = Suc k" by (cases ?n) auto
  have r: "?r < ?n" using n by (rule mod_less_divisor)
  have "(?r + 1 + i) mod ?n \<noteq> ?r" if "i < k" for i
    using add_mod_eq_iff [OF r, of "1 + i" 0] that k r by (simp add: add.assoc)
  then have "buf[?r := d] ! ((?r + 1 + i) mod ?n) = buf ! ((?r + 1 + i) mod ?n)" if "i < k" for i
    using that by (metis nth_list_update_neq)
  moreover have "?r + 1 + k = ?r + ?n" using k by simp
  then have "(?r + 1 + k) mod ?n = ?r" using r by (simp only: mod_add_self2 mod_less)
  then have "buf[?r := d] ! ((?r + 1 + k) mod ?n) = d" using r by simp
  ultimately have "ring_window (buf[?r := d]) ?r (Suc k) = ring_window buf ?r k @ [d]"
    by (simp add: ring_window_def)
  then show ?thesis unfolding k by (simp add: ring_window_Cons k)
qed

lemma mset_ring_window:
  assumes "r < length buf"
  shows "mset (ring_window buf r (length buf)) = mset buf"
proof -
  let ?n = "length buf" and ?f = "\<lambda>i. (r + 1 + i) mod length buf"
  have r: "(r + 1) mod ?n < ?n" using assms by (intro mod_less_divisor) linarith
  have "inj_on ?f {0..<?n}"
  proof (rule inj_onI)
    fix i j assume "i \<in> {0..<?n}" "j \<in> {0..<?n}" "?f i = ?f j"
    then show "i = j"
      using add_mod_eq_iff [OF r, of i j] by (simp add: mod_add_left_eq)
  qed
  moreover have "?f ` {0..<?n} \<subseteq> {0..<?n}" using assms
    by (auto intro!: mod_less_divisor)
  ultimately have "?f ` {0..<?n} = {0..<?n}"
    by (simp add: endo_inj_surj)
  then have "image_mset ?f (mset_set {0..<?n}) = mset_set {0..<?n}"
    using \<open>inj_on ?f {0..<?n}\<close> by (simp add: image_mset_mset_set)
  then have "image_mset (\<lambda>i. buf ! i) (image_mset ?f (mset_set {0..<?n})) =
      image_mset (\<lambda>i. buf ! i) (mset_set {0..<?n})" by simp
  then have "mset (map (\<lambda>i. buf ! ?f i) [0..<?n]) = mset (map (\<lambda>i. buf ! i) [0..<?n])"
    by (simp add: multiset.map_comp comp_def)
  then show ?thesis by (simp add: ring_window_def map_nth)
qed

lemma trace_fifo_wf:
  assumes "trace_wf g"
  shows "length (chunk_buf (trace_fifo g)) = TRACE_ENTRIES_NUM"
    "unat (wr_ind (trace_fifo g)) < TRACE_ENTRIES_NUM" "pool_wf (trace_fifo g)"
  using assms by (auto simp: trace_wf_def trace_arrays_wf_def pool_wf_def)

lemma mset_trace_history:
  "trace_wf g \<Longrightarrow> mset (trace_history g) = mset (chunk_buf (trace_fifo g))"
  using trace_fifo_wf [of g] mset_ring_window [of _ "chunk_buf (trace_fifo g)"]
  by (simp add: trace_history_def)

lemma AddTrace_history:
  assumes "trace_wf g" "tc_id c < num_alloc_formats g"
  shows "\<exists>g'. add_call c g = Inr g' \<and> trace_wf g' \<and>
    trace_history g' = tl (trace_history g) @ [call_entry c] \<and>
    num_alloc_formats g' = num_alloc_formats g \<and> trace_formats g' = trace_formats g \<and>
    tg_group_name g' = tg_group_name g"
proof -
  let ?m = "trace_fifo g" and ?k = "pool_next (trace_fifo g)"
  let ?g = "g\<lparr>trace_fifo := ?m\<lparr>wr_ind := of_nat ?k,
    chunk_buf := (chunk_buf ?m)[?k := call_entry c]\<rparr>\<rparr>"
  note m = trace_fifo_wf [OF assms(1)]
  have eq: "add_call c g = Inr ?g"
    using AddTrace_eq [OF assms] by (simp add: add_call_def call_entry_def Let_def)
  have "unat (of_nat ?k :: u32) = ?k"
    using unat_of_nat_ind [OF m(3) pool_next_less [OF m(3)]] .
  then have "trace_history ?g = tl (trace_history g) @ [call_entry c]"
    using ring_window_full [of "unat (wr_ind ?m)" "chunk_buf ?m" "call_entry c"] m(1,2)
    by (simp add: trace_history_def pool_next_def)
  with eq AddTrace_wf [OF assms eq [unfolded add_call_def]] show ?thesis by simp
qed

lemma length_trace_history [simp]: "length (trace_history g) = TRACE_ENTRIES_NUM"
  by (simp add: trace_history_def)

lemma AddTrace_run_history:
  assumes "trace_wf g" "\<forall>c \<in> set cs. tc_id c < num_alloc_formats g"
  shows "\<exists>g'. foldE add_call cs g = Inr g' \<and> trace_wf g' \<and>
    trace_history g' = keep_last TRACE_ENTRIES_NUM (trace_history g @ map call_entry cs) \<and>
    trace_formats g' = trace_formats g \<and> num_alloc_formats g' = num_alloc_formats g \<and>
    tg_group_name g' = tg_group_name g"
  using assms
proof (induction cs arbitrary: g)
  case Nil
  then show ?case by simp
next
  case (Cons c cs)
  obtain g1 where g1: "add_call c g = Inr g1" "trace_wf g1"
    "trace_history g1 = tl (trace_history g) @ [call_entry c]"
    "num_alloc_formats g1 = num_alloc_formats g" "trace_formats g1 = trace_formats g"
    "tg_group_name g1 = tg_group_name g"
    using AddTrace_history [of g c] Cons.prems by auto
  have "trace_history g1 = keep_last TRACE_ENTRIES_NUM (trace_history g @ [call_entry c])"
    using g1(3) keep_last_snoc [of TRACE_ENTRIES_NUM "trace_history g" "call_entry c"]
    by (simp add: TRACE_ENTRIES_NUM_def)
  then have "keep_last TRACE_ENTRIES_NUM (trace_history g1 @ map call_entry cs) =
      keep_last TRACE_ENTRIES_NUM (trace_history g @ map call_entry (c # cs))"
    by (simp add: keep_last_append)
  with Cons.IH [OF g1(2)] Cons.prems(2) g1 show ?case by auto
qed

subsection \<open>The text of an entry\<close>

definition trace_header :: "CTraceGroup \<Rightarrow> Trace_entry \<Rightarrow> fault + string" where
  "trace_header g e =
     bindE (c_str (tg_group_name g)) (\<lambda>gname.
       c_format ''%lu, %s, %d, %d, ''
         [AInt (timespec_to_ns (linux_time e)), AStr gname, AInt (ucast (thread_id e)),
          AInt (ucast (line_num e))])"

definition trace_body :: "CTraceGroup \<Rightarrow> Trace_entry \<Rightarrow> fault + string" where
  "trace_body g e =
     bindE (arr_get (trace_formats g) (unat (trace_id e))) (\<lambda>fb.
       bindE (c_str fb) (\<lambda>format. c_format format (map AInt (vals e))))"

text \<open>The entry has a text, and the text fits a buffer of \<open>l\<close> characters.\<close>

definition printable :: "CTraceGroup \<Rightarrow> nat \<Rightarrow> Trace_entry \<Rightarrow> bool" where
  "printable g l e \<longleftrightarrow>
     (case (trace_header g e, trace_body g e) of
        (Inr h, Inr b) \<Rightarrow> length h + length b < l
      | _ \<Rightarrow> False)"

definition text_of :: "CTraceGroup \<Rightarrow> Trace_entry \<Rightarrow> string" where
  "text_of g e =
     (case (trace_header g e, trace_body g e) of (Inr h, Inr b) \<Rightarrow> h @ b | _ \<Rightarrow> [])"

lemma c_strD: "c_str b = Inr s \<Longrightarrow> c_string s"
  by (auto simp: c_str_def split: if_splits)

lemma trace_line_printable:
  assumes "printable g (length dst) e"
  shows "\<exists>s. trace_line g e dst = Inr s \<and> length s = length dst \<and> str_of s = text_of g e"
proof -
  from assms obtain h b where hb: "trace_header g e = Inr h" "trace_body g e = Inr b"
    "length h + length b < length dst"
    by (auto simp: printable_def split: sum.splits)
  from hb(1) obtain gn where gn: "c_str (tg_group_name g) = Inr gn" and h:
    "c_format ''%lu, %s, %d, %d, '' [AInt (timespec_to_ns (linux_time e)), AStr gn,
       AInt (ucast (thread_id e)), AInt (ucast (line_num e))] = Inr h"
    by (auto simp: trace_header_def bindE_eq_Inr)
  from hb(2) obtain fb f where f: "arr_get (trace_formats g) (unat (trace_id e)) = Inr fb"
    "c_str fb = Inr f" "c_format f (map AInt (vals e)) = Inr b"
    by (auto simp: trace_body_def bindE_eq_Inr)
  have ch: "c_string h" using c_format_c_string [OF h] c_strD [OF gn] by auto
  have cb: "c_string b" using c_format_c_string [OF f(3) c_strD [OF f(2)]] by auto
  obtain d1 where d1: "strcpy (clear_str dst) h = Inr d1" "length d1 = length dst"
    "take (length h) d1 = h"
    using hb(3) by (simp add: strcpy_def)
  obtain d2 where d2: "strcpy (drop (length h) d1) b = Inr d2" "length d2 = length dst - length h"
    "d2 = b @ NUL # drop (Suc (length b)) (drop (length h) d1)"
    using hb(3) d1 by (simp add: strcpy_def)
  have "trace_line g e dst = Inr (h @ d2)"
    using gn h f d1 d2(1) unfolding trace_line_def sprintf_at_def sprintf_def by simp
  moreover have "str_of (h @ d2) = text_of g e"
    using str_of_append_NUL [of "h @ b"] ch cb hb(1,2) unfolding d2(3) text_of_def by simp
  ultimately show ?thesis using d2(2) hb(3) by simp
qed

subsection \<open>Draining a group\<close>

text \<open>
  The loop of a reader that takes the traces of one group until there is none left. \<open>clock n\<close> is
  the reading of the clock in the \<open>n\<close>th call.
\<close>

partial_function (option) trace_drain ::
  "(nat \<Rightarrow> timespec) \<Rightarrow> nat \<Rightarrow> cbuf \<Rightarrow> (string \<times> timespec) list \<Rightarrow> CTraceGroup \<Rightarrow>
   (fault + ((string \<times> timespec) list \<times> CTraceGroup)) option" where
  "trace_drain clock n dst out g =
     (case trace_GetTraceEntry (clock n) dst g of
        Inl f \<Rightarrow> Some (Inl f)
      | Inr (None, g) \<Rightarrow> Some (Inr (out, g))
      | Inr (Some (s, t), g) \<Rightarrow> trace_drain clock (Suc n) s (out @ [(str_of s, t)]) g)"

definition pending :: "CTraceGroup \<Rightarrow> Trace_entry multiset" where
  "pending g = filter_mset has_data (mset (chunk_buf (trace_fifo g)))"

lemma pending_iff: "e \<in># pending g \<longleftrightarrow> e \<in> set (chunk_buf (trace_fifo g)) \<and> has_data e"
  by (simp add: pending_def)

lemma pending_clear:
  assumes "k < length (chunk_buf (trace_fifo g))" "has_data (chunk_buf (trace_fifo g) ! k)"
  shows "pending g = add_mset (chunk_buf (trace_fifo g) ! k) (pending (clear_entry k g))"
proof -
  let ?b = "chunk_buf (trace_fifo g)"
  have "mset ?b = add_mset (?b ! k) (mset ?b - {#?b ! k#})"
    using assms(1) by (simp add: nth_mem)
  then have "filter_mset has_data (mset ?b) =
      add_mset (?b ! k) (filter_mset has_data (mset ?b - {#?b ! k#}))"
    using assms(2) by (metis filter_mset_add_mset)
  then show ?thesis
    using assms(1) by (simp add: pending_def clear_entry_def mset_update has_data_def)
qed

lemma text_clear [simp]: "text_of (clear_entry k g) = text_of g"
  "printable (clear_entry k g) = printable g"
  by (auto simp: text_of_def printable_def trace_header_def trace_body_def clear_entry_def
      intro!: ext)

text \<open>What one read does, when every pending entry is older than the clock reading.\<close>

definition readable :: "timespec \<Rightarrow> nat \<Rightarrow> CTraceGroup \<Rightarrow> bool" where
  "readable now l g \<longleftrightarrow> valid_time now \<and>
     (\<forall>e \<in># pending g. valid_time (linux_time e) \<and> ns_of (linux_time e) < ns_of now \<and>
        printable g l e)"

lemma trace_times_nth:
  "trace_times g ! k = Some t \<Longrightarrow> k < length (trace_times g) \<Longrightarrow>
    has_data (chunk_buf (trace_fifo g) ! k) \<and> linux_time (chunk_buf (trace_fifo g) ! k) = t"
  by (auto simp: trace_times_def entry_time_def split: if_splits)

lemma trace_times_pending:
  "Some u \<in> set (trace_times g) \<longleftrightarrow> (\<exists>e. e \<in># pending g \<and> linux_time e = u)"
  by (auto simp: trace_times_def entry_time_def pending_iff split: if_splits)

lemma trace_read_none:
  assumes "trace_wf g" "pending g = {#}"
  shows "trace_GetTraceEntry now dst g = Inr (None, g)"
proof -
  obtain t r where tr: "earliest 0 (trace_times g) (now, None) = (t, r)" by fastforce
  have "r = None"
  proof (rule ccontr)
    assume "r \<noteq> None"
    then obtain k where "r = Some k" by blast
    with tr earliest_index [of "trace_times g" now t k] have "Some t \<in> set (trace_times g)"
      by (metis nth_mem)
    with assms(2) show False by (simp add: trace_times_pending)
  qed
  with tr show ?thesis by (simp add: trace_GetTraceEntry_eq [OF assms(1)])
qed

lemma trace_read_some:
  assumes wf: "trace_wf g" and rd: "readable now (length dst) g" and ne: "pending g \<noteq> {#}"
  shows "\<exists>k e s. trace_GetTraceEntry now dst g = Inr (Some (s, linux_time e), clear_entry k g) \<and>
    trace_wf (clear_entry k g) \<and> length s = length dst \<and> str_of s = text_of g e \<and>
    pending g = add_mset e (pending (clear_entry k g)) \<and>
    (\<forall>e' \<in># pending g. ns_of (linux_time e) \<le> ns_of (linux_time e'))"
proof -
  obtain t r where tr: "earliest 0 (trace_times g) (now, None) = (t, r)" by fastforce
  have v: "valid_time u" if "Some u \<in> set (trace_times g)" for u
    using that rd by (auto simp: trace_times_pending readable_def)
  have vn: "valid_time now" using rd by (simp add: readable_def)
  obtain e0 where e0: "e0 \<in># pending g" using ne by (meson multiset_nonemptyE)
  have "r \<noteq> None"
  proof
    assume "r = None"
    with earliest_None [OF v vn] tr have "ns_of now \<le> ns_of (linux_time e0)"
      using e0 trace_times_pending by blast
    with e0 rd show False by (auto simp: readable_def)
  qed
  then obtain k where k: "r = Some k" by blast
  with earliest_Some [OF v vn] tr have least: "least_at (trace_times g) k t" by blast
  let ?e = "chunk_buf (trace_fifo g) ! k"
  have lk: "k < length (chunk_buf (trace_fifo g))" and e: "has_data ?e" "linux_time ?e = t"
    using least trace_times_nth [of g k t] by (auto simp: least_at_def trace_times_def)
  then have "?e \<in># pending g" by (simp add: pending_iff)
  then obtain s where s: "trace_line g ?e dst = Inr s" "length s = length dst"
    "str_of s = text_of g ?e"
    using rd trace_line_printable [of g dst ?e] by (auto simp: readable_def)
  have min: "ns_of t \<le> ns_of (linux_time e')" if "e' \<in># pending g" for e'
    using that least trace_times_pending [of "linux_time e'" g]
    by (metis in_set_conv_nth least_at_def)
  show ?thesis
    using tr k s e clear_entry_wf [OF wf lk] pending_clear [OF lk e(1)] min
    by (intro exI [of _ k] exI [of _ ?e] exI [of _ s])
      (simp add: trace_GetTraceEntry_eq [OF wf])
qed

lemma trace_drain_spec:
  assumes "trace_wf g" "\<And>n. readable (clock n) (length dst) g"
  shows "\<exists>res g'. trace_drain clock n dst out g = Some (Inr (out @ res, g')) \<and>
    sorted (map (\<lambda>x. ns_of (snd x)) res) \<and>
    mset res = image_mset (\<lambda>e. (text_of g e, linux_time e)) (pending g) \<and>
    pending g' = {#} \<and> trace_wf g'"
  using assms
proof (induction "size (pending g)" arbitrary: g n dst out)
  case 0
  then show ?case using trace_read_none [of g] by (simp add: trace_drain.simps [of clock n dst out])
next
  case (Suc j)
  then have "pending g \<noteq> {#}" by auto
  from trace_read_some [OF Suc.prems(1) Suc.prems(2) this] obtain k e s where
    r: "trace_GetTraceEntry (clock n) dst g = Inr (Some (s, linux_time e), clear_entry k g)"
      "trace_wf (clear_entry k g)" "length s = length dst" "str_of s = text_of g e"
      "pending g = add_mset e (pending (clear_entry k g))"
      "\<forall>e' \<in># pending g. ns_of (linux_time e) \<le> ns_of (linux_time e')" by metis
  have "readable (clock i) (length s) (clear_entry k g)" for i
    using Suc.prems(2) [of i] r(3,5) by (simp add: readable_def)
  with Suc.hyps(1) [of "clear_entry k g" s "Suc n" "out @ [(str_of s, linux_time e)]"]
    Suc.hyps(2) r obtain res g' where
    IH: "trace_drain clock (Suc n) s (out @ [(str_of s, linux_time e)]) (clear_entry k g) =
        Some (Inr ((out @ [(str_of s, linux_time e)]) @ res, g'))"
      "sorted (map (\<lambda>x. ns_of (snd x)) res)"
      "mset res = image_mset (\<lambda>e. (text_of g e, linux_time e)) (pending (clear_entry k g))"
      "pending g' = {#}" "trace_wf g'" by auto
  have "set res = (\<lambda>e. (text_of g e, linux_time e)) ` set_mset (pending (clear_entry k g))"
    using arg_cong [OF IH(3), of set_mset] by simp
  then have "\<forall>x \<in> set res. ns_of (linux_time e) \<le> ns_of (snd x)" using r(5,6) by auto
  then show ?case
    using r IH by (intro exI [of _ "(text_of g e, linux_time e) # res"] exI [of _ g'])
      (simp add: trace_drain.simps [of clock n dst out])
qed

subsection \<open>Properties\<close>

text \<open>C4: the trace buffer is a ring. A run of \<open>AddTrace\<close> with format numbers that are
  registered never faults, keeps the invariant of the group, and leaves in the buffer exactly the
  last 1000 entries of its old history followed by the new ones, oldest first, each with the
  arguments of its call; formats and names are untouched.\<close>

theorem trace_ring_keeps_last:
  assumes "trace_wf g" "\<forall>c \<in> set cs. tc_id c < num_alloc_formats g"
  shows "\<exists>g'. foldE add_call cs g = Inr g' \<and> trace_wf g' \<and>
    trace_history g' = keep_last TRACE_ENTRIES_NUM (trace_history g @ map call_entry cs) \<and>
    trace_formats g' = trace_formats g \<and> num_alloc_formats g' = num_alloc_formats g \<and>
    tg_group_name g' = tg_group_name g"
  using AddTrace_run_history [OF assms] .

text \<open>Whatever the clock says, a read of a group never changes which entries it holds except
  for the one it returns, returns an entry that is older than the clock reading and no younger
  than any other entry of the group, and answers that there is none only when no entry is older
  than the clock reading.\<close>

theorem trace_read_earliest:
  assumes wf: "trace_wf g" and v: "valid_time now" "\<forall>e \<in># pending g. valid_time (linux_time e)"
    and read: "trace_GetTraceEntry now dst g = Inr (r, g')"
  shows "trace_wf g' \<and>
    (case r of
       None \<Rightarrow> g' = g \<and> (\<forall>e \<in># pending g. ns_of now \<le> ns_of (linux_time e))
     | Some (s, t) \<Rightarrow> ns_of t < ns_of now \<and>
         (\<exists>e. linux_time e = t \<and> pending g = add_mset e (pending g')) \<and>
         (\<forall>e \<in># pending g. ns_of t \<le> ns_of (linux_time e)))"
proof -
  obtain t r0 where tr: "earliest 0 (trace_times g) (now, None) = (t, r0)" by fastforce
  have vt: "valid_time u" if "Some u \<in> set (trace_times g)" for u
    using that v(2) by (auto simp: trace_times_pending)
  show ?thesis
  proof (cases r0)
    case None
    with tr read have "r = None" "g' = g" by (auto simp: trace_GetTraceEntry_eq [OF wf])
    moreover have "ns_of now \<le> ns_of (linux_time e)" if "e \<in># pending g" for e
      using earliest_None [OF vt v(1)] tr None that trace_times_pending by blast
    ultimately show ?thesis using wf by simp
  next
    case (Some k)
    with earliest_Some [OF vt v(1)] tr have least: "least_at (trace_times g) k t" "ns_of t < ns_of now"
      by blast+
    let ?e = "chunk_buf (trace_fifo g) ! k"
    have k: "k < length (chunk_buf (trace_fifo g))" "has_data ?e" "linux_time ?e = t"
      using least trace_times_nth [of g k t] by (auto simp: least_at_def trace_times_def)
    have "ns_of t \<le> ns_of (linux_time e')" if "e' \<in># pending g" for e'
      using that least(1) trace_times_pending [of "linux_time e'" g]
      by (metis in_set_conv_nth least_at_def)
    with tr Some read k least(2) clear_entry_wf [OF wf k(1)] pending_clear [OF k(1,2)]
    show ?thesis by (auto simp: trace_GetTraceEntry_eq [OF wf] bindE_eq_Inr)
  qed
qed

lemma keep_last_drop: "keep_last (length xs) (xs @ ys) = drop (length ys) xs @ keep_last (length xs) ys"
  by (simp add: keep_last_def)

lemma data_ind_apart: "DATA_IND \<noteq> NO_DATA_IND"
  by (simp add: DATA_IND_def NO_DATA_IND_def word_unat_eq_iff unsigned_ucast_eq
      unsigned_minus_1_eq_mask mask_eq_exp_minus_1 take_bit_nat_eq_self)

lemma has_data_call [simp]: "has_data (call_entry c)"
  by (simp add: has_data_def call_entry_def new_entry_def data_ind_apart)

lemma linux_time_call [simp]: "linux_time (call_entry c) = tc_now c"
  by (simp add: call_entry_def new_entry_def)

lemma pending_history: "trace_wf g \<Longrightarrow> pending g = filter_mset has_data (mset (trace_history g))"
  by (simp add: pending_def mset_trace_history)

lemma pending_after_adds:
  assumes "trace_wf g" "pending g = {#}" "trace_wf g'"
    "trace_history g' = keep_last TRACE_ENTRIES_NUM (trace_history g @ map call_entry cs)"
  shows "pending g' = image_mset call_entry (mset (keep_last TRACE_ENTRIES_NUM cs))"
proof -
  have "filter has_data (trace_history g) = []"
    using assms(1,2) pending_history [of g] by (metis mset_filter mset_zero_iff)
  then have "filter has_data (drop (length cs) (trace_history g)) = []"
    by (auto simp: filter_empty_conv dest: in_set_dropD)
  moreover have "trace_history g' = drop (length cs) (trace_history g) @
      map call_entry (keep_last TRACE_ENTRIES_NUM cs)"
    using assms(4) keep_last_drop [of "trace_history g" "map call_entry cs"]
    by (simp add: keep_last_map)
  moreover have "filter has_data (map call_entry xs) = map call_entry xs" for xs
    by (induction xs) auto
  ultimately have "filter has_data (trace_history g') =
      map call_entry (keep_last TRACE_ENTRIES_NUM cs)" by simp
  then show ?thesis
    using pending_history [OF assms(3)] by (metis mset_filter mset_map)
qed

text \<open>C24: end to end. On a group that holds no trace, add any number of traces whose format is
  registered, whose text fits the reader's buffer and whose stamps are earlier than the reader's clock, then read until the reader answers that
  there is none: the loop ends, and it returns the last 1000 of the traces that were added, each
  once with its own text, in the order of their time stamps, and the group is empty again.\<close>

theorem trace_add_then_drain:
  assumes wf: "trace_wf g" and empty: "pending g = {#}"
    and cs: "\<forall>c \<in> set cs. tc_id c < num_alloc_formats g \<and> valid_time (tc_now c) \<and>
      (\<forall>n. ns_of (tc_now c) < ns_of (clock n)) \<and> printable g (length dst) (call_entry c)"
    and clock: "\<forall>n. valid_time (clock n)"
  shows "\<exists>g1 res g2. foldE add_call cs g = Inr g1 \<and>
    trace_drain clock 0 dst [] g1 = Some (Inr (res, g2)) \<and>
    sorted (map (\<lambda>x. ns_of (snd x)) res) \<and>
    mset res = image_mset (\<lambda>c. (text_of g (call_entry c), tc_now c))
      (mset (keep_last TRACE_ENTRIES_NUM cs)) \<and>
    pending g2 = {#} \<and> trace_wf g2"
proof -
  obtain g1 where g1: "foldE add_call cs g = Inr g1" "trace_wf g1"
    "trace_history g1 = keep_last TRACE_ENTRIES_NUM (trace_history g @ map call_entry cs)"
    "trace_formats g1 = trace_formats g" "tg_group_name g1 = tg_group_name g"
    using AddTrace_run_history [OF wf, of cs] cs by blast
  have p: "pending g1 = image_mset call_entry (mset (keep_last TRACE_ENTRIES_NUM cs))"
    using pending_after_adds [OF wf empty g1(2,3)] .
  have t: "text_of g1 = text_of g" "printable g1 = printable g"
    using g1(4,5) by (auto simp: text_of_def printable_def trace_header_def trace_body_def intro!: ext)
  have "readable (clock n) (length dst) g1" for n
    using cs clock set_keep_last [of TRACE_ENTRIES_NUM cs] p t(2)
    by (auto simp: readable_def)
  from trace_drain_spec [where clock = clock and n = 0 and dst = dst and out = "[]", OF g1(2) this]
  show ?thesis using g1(1) p t(1) by (auto simp: multiset.map_comp comp_def)
qed

subsection \<open>The properties at work\<close>

definition demo_call :: "u64 \<Rightarrow> trace_call" where
  "demo_call s = \<lparr>tc_now = \<lparr>tv_sec = s, tv_nsec = 0\<rparr>, tc_self = 7, tc_junk = 0, tc_id = 0,
     tc_line = 12, tc_v0 = 1, tc_v1 = 2, tc_v2 = 3, tc_v3 = 255\<rparr>"

lemmas print_simps = Let_def unsigned_minus_1_eq_mask mask_eq_exp_minus_1 to_base.simps
  conv_int_def dec_int_def dec_nat_def digit_char_def

lemma demo_printable:
  assumes "trace_wf g" "trace_names g = [def_format]" "num_alloc_formats g = 1"
    "terminated (tg_group_name g)" "length (str_of (tg_group_name g)) < 100"
  shows "printable g 256 (call_entry (demo_call 1))" "printable g 256 (call_entry (demo_call 2))"
proof -
  have "name_array (\<lambda>b. b) TRACE_STRING_SIZE MAX_TRACE_FORMATS 1 (trace_formats g)"
    using assms(1,3) by (simp add: trace_wf_def trace_arrays_wf_def)
  moreover have "array_names (\<lambda>b. b) 1 (trace_formats g) = [def_format]"
    using assms(2,3) by (simp add: trace_names_def)
  ultimately have f: "arr_get (trace_formats g) 0 = Inr (trace_formats g ! 0)"
    "c_str (trace_formats g ! 0) = Inr def_format"
    by (cases "trace_formats g"; auto simp: name_array_def array_names_def MAX_TRACE_FORMATS_def)+
  show "printable g 256 (call_entry (demo_call 1))"
    using assms(4,5) f by (simp add: printable_def trace_header_def trace_body_def call_entry_def
        new_entry_def demo_call_def def_format_def timespec_to_ns_def BILLION_def print_simps)
  show "printable g 256 (call_entry (demo_call 2))"
    using assms(4,5) f by (simp add: printable_def trace_header_def trace_body_def call_entry_def
        new_entry_def demo_call_def def_format_def timespec_to_ns_def BILLION_def print_simps)
qed

lemma demo_group:
  "\<exists>g. trace_Reset False 64 trace_zero = Inr g \<and> trace_wf g \<and> pending g = {#} \<and>
     num_alloc_formats g = 1 \<and>
     (\<forall>s \<in> {1, 2}. printable g 256 (call_entry (demo_call s)))"
proof -
  obtain g where g: "trace_Reset False 64 trace_zero = Inr g" "trace_wf g"
    "trace_names g = [def_format]" "filter has_data (chunk_buf (trace_fifo g)) = []"
    "num_alloc_formats g = 1" "tg_group_name g = clear_str (tg_group_name trace_zero)"
    using trace_Reset_ok [OF trace_zero_shape, of 64] by (auto simp: ALIGN_64BIT_def)
  have "terminated (tg_group_name g)" "length (str_of (tg_group_name g)) < 100"
    using g(6) by (simp_all add: trace_zero_def TRACE_STRING_SIZE_def)
  note demo_printable [OF g(2,3,5) this]
  moreover have "pending g = {#}" using g(4) by (simp add: pending_def mset_filter [symmetric])
  ultimately show ?thesis using g by blast
qed

lemma demo_times: "valid_time \<lparr>tv_sec = 1, tv_nsec = 0\<rparr>" "valid_time \<lparr>tv_sec = 2, tv_nsec = 0\<rparr>"
  "valid_time \<lparr>tv_sec = 3, tv_nsec = 0\<rparr>"
  by (simp_all add: valid_time_def ns_of_def)

theorem trace_ring_keeps_last_witness:
  "\<exists>g g'. trace_wf g \<and> foldE add_call [demo_call 2, demo_call 1] g = Inr g' \<and>
     last (trace_history g') = call_entry (demo_call 1)"
proof -
  obtain g where g: "trace_wf g" "num_alloc_formats g = 1" using demo_group by blast
  have "\<forall>c \<in> set [demo_call 2, demo_call 1]. tc_id c < num_alloc_formats g"
    using g(2) by (simp add: demo_call_def)
  from trace_ring_keeps_last [OF g(1) this] obtain g' where
    "foldE add_call [demo_call 2, demo_call 1] g = Inr g'"
    "trace_history g' = keep_last TRACE_ENTRIES_NUM
       (trace_history g @ map call_entry [demo_call 2, demo_call 1])" by blast
  moreover have "last (keep_last TRACE_ENTRIES_NUM (xs @ [x, y])) = y" for xs :: "'a list" and x y
    using keep_last_append [of TRACE_ENTRIES_NUM] unfolding keep_last_def
    by (simp add: TRACE_ENTRIES_NUM_def last_drop del: drop_append)
  ultimately show ?thesis using g(1) by (intro exI [of _ g] exI [of _ g']) simp
qed

theorem trace_add_then_drain_witness:
  "\<exists>g g1 res g2. trace_Reset False 64 trace_zero = Inr g \<and>
     foldE add_call [demo_call 2, demo_call 1] g = Inr g1 \<and>
     trace_drain (\<lambda>n. \<lparr>tv_sec = 3, tv_nsec = 0\<rparr>) 0 (replicate 256 NUL) [] g1 = Some (Inr (res, g2)) \<and>
     length res = 2 \<and> sorted (map (\<lambda>x. ns_of (snd x)) res)"
proof -
  obtain g where g: "trace_Reset False 64 trace_zero = Inr g" "trace_wf g" "pending g = {#}"
    "num_alloc_formats g = 1" "\<forall>s \<in> {1, 2}. printable g 256 (call_entry (demo_call s))"
    using demo_group by blast
  have "\<forall>c \<in> set [demo_call 2, demo_call 1]. tc_id c < num_alloc_formats g \<and> valid_time (tc_now c) \<and>
      (\<forall>n :: nat. ns_of (tc_now c) < ns_of \<lparr>tv_sec = 3, tv_nsec = 0\<rparr>) \<and>
      printable g (length (replicate 256 NUL)) (call_entry c)"
    using g(4,5) demo_times by (simp add: demo_call_def ns_of_def)
  from trace_add_then_drain [OF g(2,3) this] demo_times(3) obtain g1 res g2 where
    r: "foldE add_call [demo_call 2, demo_call 1] g = Inr g1"
    "trace_drain (\<lambda>n. \<lparr>tv_sec = 3, tv_nsec = 0\<rparr>) 0 (replicate 256 NUL) [] g1 = Some (Inr (res, g2))"
    "sorted (map (\<lambda>x. ns_of (snd x)) res)"
    "mset res = image_mset (\<lambda>c. (text_of g (call_entry c), tc_now c))
      (mset (keep_last TRACE_ENTRIES_NUM [demo_call 2, demo_call 1]))" by blast
  have "size (mset res) = 2" unfolding r(4) by (simp add: TRACE_ENTRIES_NUM_def)
  with g(1) r(1-3) show ?thesis by (intro exI [of _ g] exI [of _ g1] exI [of _ res] exI [of _ g2]) auto
qed

theorem trace_read_earliest_witness:
  "\<exists>g s t g'. trace_wf g \<and> size (pending g) = 2 \<and>
     trace_GetTraceEntry \<lparr>tv_sec = 3, tv_nsec = 0\<rparr> (replicate 256 NUL) g = Inr (Some (s, t), g') \<and>
     ns_of t = 1000000000 \<and> size (pending g') = 1"
proof -
  let ?now = "\<lparr>tv_sec = 3, tv_nsec = 0\<rparr> :: timespec"
  obtain g0 where g0: "trace_wf g0" "pending g0 = {#}" "num_alloc_formats g0 = 1"
    "\<forall>s \<in> {1, 2}. printable g0 256 (call_entry (demo_call s))"
    using demo_group by blast
  have "\<forall>c \<in> set [demo_call 2, demo_call 1]. tc_id c < num_alloc_formats g0"
    using g0(3) by (simp add: demo_call_def)
  from AddTrace_run_history [OF g0(1) this] obtain g where g: "trace_wf g"
    "trace_history g = keep_last TRACE_ENTRIES_NUM
       (trace_history g0 @ map call_entry [demo_call 2, demo_call 1])"
    "trace_formats g = trace_formats g0" "tg_group_name g = tg_group_name g0" by blast
  have p: "pending g = {#call_entry (demo_call 2), call_entry (demo_call 1)#}"
    using pending_after_adds [OF g0(1,2) g(1,2)] by (simp add: TRACE_ENTRIES_NUM_def)
  have "printable g = printable g0"
    using g(3,4) by (auto simp: printable_def trace_header_def trace_body_def intro!: ext)
  then have rd: "readable ?now (length (replicate 256 NUL)) g"
    using g0(4) demo_times p by (simp add: readable_def demo_call_def ns_of_def)
  obtain s t g' where r: "trace_GetTraceEntry ?now (replicate 256 NUL) g = Inr (Some (s, t), g')"
    using trace_read_some [OF g(1) rd] p by auto
  have v: "\<forall>e \<in># pending g. valid_time (linux_time e)" using rd by (simp add: readable_def)
  have times: "ns_of (tc_now (demo_call s)) = unat s * 1000000000" for s
    by (simp add: demo_call_def ns_of_def)
  from trace_read_earliest [OF g(1) demo_times(3) v r] obtain e where e: "linux_time e = t"
    "pending g = add_mset e (pending g')" "\<forall>e' \<in># pending g. ns_of t \<le> ns_of (linux_time e')"
    by auto
  have "e \<in># pending g" using e(2) by simp
  then have "ns_of t = 1000000000" using e(1,3) p times [of 1] times [of 2] by auto
  moreover have "size (pending g) = 2" using p by simp
  ultimately show ?thesis using g(1) r e(2) by (intro exI [of _ g]) auto
qed

subsection \<open>Trace formats\<close>

text \<open>Trace formats are found again, and the traces recorded under a format keep it: adding a
  format gives the index at which it is stored, adding it again after another one gives the same
  index and changes nothing, the other has another index, and the recorded traces are untouched.\<close>

theorem format_index_stable:
  assumes g: "trace_wf g" and f: "fits TRACE_STRING_SIZE fmt" "fits TRACE_STRING_SIZE fmt'" "fmt \<noteq> fmt'"
    and one: "AddTraceFormat fmt g = Inr (i, g1)" and two: "AddTraceFormat fmt' g1 = Inr (j, g2)"
  shows "trace_names g2 ! unat i = fmt \<and> i \<noteq> j \<and> AddTraceFormat fmt g2 = Inr (i, g2) \<and>
    trace_wf g2 \<and> trace_fifo g2 = trace_fifo g"
proof -
  have fifo: "trace_fifo g' = trace_fifo g" if "AddTraceFormat fmt g = Inr (i, g')" for fmt g i g'
    using that by (auto simp: AddTraceFormat_def ASSERT_eq_Inr bindE_eq_Inr Let_def split: option.splits)
  note wf1 = formats.alloc_invar [OF g f(1) one]
  note wf2 = formats.alloc_invar [OF wf1 f(2) two]
  note again = formats.alloc_stable [OF g f(1) one f(2) two]
  show ?thesis
    using formats.alloc_index [OF wf2 f(1) again] formats.alloc_distinct [OF g f(1) one f(2) two f(3)]
      again wf2 fifo [OF one] fifo [OF two] by simp
qed

theorem format_index_stable_witness:
  "\<exists>g i g1 j g2. trace_wf g \<and> AddTraceFormat ''a %d'' g = Inr (i, g1) \<and>
     AddTraceFormat ''b %x'' g1 = Inr (j, g2) \<and> i \<noteq> j \<and> AddTraceFormat ''a %d'' g2 = Inr (i, g2)"
proof -
  obtain g where g: "trace_wf g" "trace_names g = [def_format]"
    using trace_Reset_ok [OF trace_zero_shape, of 64] by (auto simp: ALIGN_64BIT_def)
  have f: "fits TRACE_STRING_SIZE ''a %d''" "fits TRACE_STRING_SIZE ''b %x''" "''a %d'' \<noteq> ''b %x''"
    by (simp_all add: fits_def c_string_def TRACE_STRING_SIZE_def)
  obtain i g1 where g1: "AddTraceFormat ''a %d'' g = Inr (i, g1)" "trace_wf g1"
    "trace_names g1 = [def_format, ''a %d'']"
    using formats.miss [OF g(1) f(1)] g(2) by (auto simp: MAX_TRACE_FORMATS_def def_format_def)
  obtain j g2 where g2: "AddTraceFormat ''b %x'' g1 = Inr (j, g2)"
    using formats.miss [OF g1(2) f(2)] g1(3) by (auto simp: MAX_TRACE_FORMATS_def def_format_def)
  from format_index_stable [OF g(1) f g1(1) g2] g(1) g1(1) g2 show ?thesis by blast
qed

end
