(* ===== verification/Trace_Threads.thy ===== *)
theory Trace_Threads
  imports Trace_History "HOL-Library.Sublist"
begin

section \<open>Traces from many threads\<close>

text \<open>
  \<open>CTraceGroup::AddTrace\<close> at the grain of its memory accesses, called by any number of threads at the same time. A thread
  takes the next entry of the ring under the lock (\<open>AllocPoolChunk\<close>) and fills it outside of it. The \<open>memcpy\<close> moves the eight 8-byte words
  of the entry, in two accesses: first some of them (any set of words), then the others; between the two the entry is a mixture
  of the new one and of what was in memory.
\<close>

subsection \<open>The accesses of a call\<close>

datatype wr_stage =
    W_idle
  | W_spin trace_call
  | W_load trace_call
  | W_store trace_call u32
  | W_ptr trace_call
  | W_unlock trace_call u32
  | W_assert trace_call u32
  | W_copy trace_call u32
  | W_copied trace_call u32 "nat set"

text \<open>The words of \<open>struct Trace_entry\<close>, in the order of its members: seconds, nanoseconds, numbers and line, status and
  reserve, and the four values. \<open>copied W new old\<close>: the words of \<open>W\<close> are those of the new entry.\<close>

definition copied :: "nat set \<Rightarrow> Trace_entry \<Rightarrow> Trace_entry \<Rightarrow> Trace_entry" where
  "copied W new old =
     \<lparr>linux_time = \<lparr>tv_sec = tv_sec (linux_time (if 0 \<in> W then new else old)), tv_nsec = tv_nsec (linux_time (if 1 \<in> W then new else old))\<rparr>,
      trace_id = trace_id (if 2 \<in> W then new else old), thread_id = thread_id (if 2 \<in> W then new else old),
      line_num = line_num (if 2 \<in> W then new else old), te_status = te_status (if 3 \<in> W then new else old),
      future_use = future_use (if 3 \<in> W then new else old),
      vals = map (\<lambda>i. vals (if 4 + i \<in> W then new else old) ! i) [0..<4]\<rparr>"

definition store_words :: "nat set \<Rightarrow> Trace_entry \<Rightarrow> u32 \<Rightarrow> Trace_entry mem_area \<Rightarrow> fault + Trace_entry mem_area" where
  "store_words W e p m = bindE (chunk_load (unat p) m) (\<lambda>old. chunk_store (unat p) (copied W e old) m)"

fun trace_access :: "nat set \<Rightarrow> wr_stage \<Rightarrow> CTraceGroup \<Rightarrow> fault + (wr_stage \<times> CTraceGroup)" where
  "trace_access W (W_spin c) g =
     bindE (OSA_spinlock_lock (out_lock (trace_fifo g))) (\<lambda>l.
       Inr (W_load c, g\<lparr>trace_fifo := (trace_fifo g)\<lparr>out_lock := l\<rparr>\<rparr>))"
| "trace_access W (W_load c) g =
     bindE (next_ind (wr_ind (trace_fifo g)) (number_chunks (trace_fifo g))) (\<lambda>w. Inr (W_store c w, g))"
| "trace_access W (W_store c w) g = Inr (W_ptr c, g\<lparr>trace_fifo := (trace_fifo g)\<lparr>wr_ind := w\<rparr>\<rparr>)"
| "trace_access W (W_ptr c) g = Inr (W_unlock c (StaticMemArea_GetWriteBufP (trace_fifo g)), g)"
| "trace_access W (W_unlock c p) g =
     Inr (W_assert c p, g\<lparr>trace_fifo := (trace_fifo g)\<lparr>out_lock := OSA_spinlock_unlock (out_lock (trace_fifo g))\<rparr>\<rparr>)"
| "trace_access W (W_assert c p) g = ASSERT (tc_id c < num_alloc_formats g) (Inr (W_copy c p, g))"
| "trace_access W (W_copy c p) g =
     bindE (store_words W (call_entry c) p (trace_fifo g)) (\<lambda>m. Inr (W_copied c p W, g\<lparr>trace_fifo := m\<rparr>))"
| "trace_access W (W_copied c p D) g =
     bindE (store_words (- D) (call_entry c) p (trace_fifo g)) (\<lambda>m. Inr (W_idle, g\<lparr>trace_fifo := m\<rparr>))"
| "trace_access W W_idle g = Inr (W_idle, g)"

fun writer_alone :: "nat \<Rightarrow> nat set \<Rightarrow> wr_stage \<Rightarrow> CTraceGroup \<Rightarrow> fault + (wr_stage \<times> CTraceGroup)" where
  "writer_alone 0 W st g = Inr (st, g)"
| "writer_alone (Suc n) W st g = bindE (trace_access W st g) (\<lambda>(st, g). writer_alone n W st g)"

text \<open>One thread alone: the eight accesses are \<open>AddTrace\<close>, with the same fault or the same group.\<close>

lemma copied_rest:
  assumes "length (vals new) = 4"
  shows "copied (- W) new (copied W new old) = new"
proof (rule Trace_entry.equality)
  have "map (\<lambda>i. vals (if 4 + i \<in> - W then new else copied W new old) ! i) [0..<4] = map ((!) (vals new)) [0..<length (vals new)]"
    unfolding assms by (intro map_cong) (auto simp: copied_def)
  then show "vals (copied (- W) new (copied W new old)) = vals new" by (simp add: copied_def [of "- W"] map_nth)
qed (auto simp: copied_def)

lemma length_vals_call [simp]: "length (vals (call_entry c)) = 4"
  by (simp add: call_entry_def new_entry_def)

lemma store_words_eq:
  "chunk_index (unat p) m = Inr k \<Longrightarrow> store_words W e p m = Inr (m\<lparr>chunk_buf := (chunk_buf m)[k := copied W e (chunk_buf m ! k)]\<rparr>)"
  by (simp add: store_words_def chunk_load_def chunk_store_def)

lemma chunk_index_buf: "chunk_index off m = Inr k \<Longrightarrow> chunk_index off (m\<lparr>chunk_buf := (chunk_buf m)[j := x]\<rparr>) = Inr k"
  by (simp add: chunk_index_def Let_def split: if_splits)

lemma chunk_index_less: "chunk_index off m = Inr k \<Longrightarrow> k < length (chunk_buf m)"
  by (auto simp: chunk_index_def Let_def split: if_splits)

text \<open>The two parts together are the copy.\<close>

lemma store_words_all:
  "bindE (store_words W (call_entry c) p m) (\<lambda>m. bindE (store_words (- W) (call_entry c) p m) h) = bindE (chunk_store (unat p) (call_entry c) m) h"
proof (cases "chunk_index (unat p) m")
  case (Inl f)
  then show ?thesis by (simp add: store_words_def chunk_load_def chunk_store_def)
next
  case (Inr k)
  then show ?thesis using chunk_index_less [OF Inr]
    by (simp add: store_words_eq chunk_index_buf copied_rest) (simp add: chunk_store_def)
qed

lemma writer_alone_is_AddTrace:
  "writer_alone 8 W (W_spin c) g = bindE (add_call c g) (\<lambda>g. Inr (W_idle, g))"
proof -
  have "writer_alone 8 W (W_spin c) g = writer_alone (Suc (Suc (Suc (Suc (Suc (Suc (Suc (Suc 0)))))))) W (W_spin c) g"
    by (simp add: numeral_eq_Suc)
  then show ?thesis
    by (cases "OSA_spinlock_lock (out_lock (trace_fifo g))"; cases "next_ind (wr_ind (trace_fifo g)) (number_chunks (trace_fifo g))")
      (auto simp: add_call_def AddTrace_def call_entry_def StaticMemArea_AllocPoolChunk_def Let_def ASSERT_def
        bindE_assoc store_words_all [unfolded call_entry_def] StaticMemArea_GetWriteBufP_def)
qed

subsection \<open>Threads\<close>

record tracing =
  tgroup :: CTraceGroup
  writers :: "nat \<Rightarrow> wr_stage"

datatype trace_event = Begin nat trace_call | Alloc nat | Saved nat nat trace_call

fun shown :: "nat \<Rightarrow> wr_stage \<Rightarrow> trace_event list" where
  "shown t (W_store c w) = [Alloc t]"
| "shown t (W_copied c p D) = [Saved t (unat p div unat sizeof_Trace_entry) c]"
| "shown t st = []"

inductive trace_step :: "tracing \<Rightarrow> trace_event list \<Rightarrow> tracing \<Rightarrow> bool" where
  begin_trace: "writers s t = W_idle \<Longrightarrow> trace_step s [Begin t c] (s\<lparr>writers := (writers s)(t := W_spin c)\<rparr>)"
| one_access: "writers s t \<noteq> W_idle \<Longrightarrow> trace_access W (writers s t) (tgroup s) = Inr (st, g) \<Longrightarrow>
    trace_step s (shown t (writers s t)) (s\<lparr>tgroup := g, writers := (writers s)(t := st)\<rparr>)"

inductive trace_run :: "tracing \<Rightarrow> trace_event list \<Rightarrow> tracing \<Rightarrow> bool" where
  no_step: "trace_run s [] s"
| next_step: "trace_run s evs s1 \<Longrightarrow> trace_step s1 ev s2 \<Longrightarrow> trace_run s (evs @ ev) s2"

fun begun :: "trace_event list \<Rightarrow> (nat \<times> trace_call) list" where
  "begun [] = []"
| "begun (Begin t c # evs) = (t, c) # begun evs"
| "begun (_ # evs) = begun evs"

fun allocs :: "trace_event list \<Rightarrow> nat" where
  "allocs [] = 0"
| "allocs (Alloc t # evs) = Suc (allocs evs)"
| "allocs (_ # evs) = allocs evs"

fun saved :: "trace_event list \<Rightarrow> (nat \<times> nat \<times> trace_call) list" where
  "saved [] = []"
| "saved (Saved t i c # evs) = (t, i, c) # saved evs"
| "saved (_ # evs) = saved evs"

definition calls_of :: "nat \<Rightarrow> trace_event list \<Rightarrow> trace_call list" where
  "calls_of t evs = map snd (filter (\<lambda>(u, c). u = t) (begun evs))"

definition saved_of :: "nat \<Rightarrow> trace_event list \<Rightarrow> trace_call list" where
  "saved_of t evs = map (snd \<circ> snd) (filter (\<lambda>(u, i, c). u = t) (saved evs))"

lemma begun_append [simp]: "begun (xs @ ys) = begun xs @ begun ys"
  by (induction xs rule: begun.induct) auto

lemma allocs_append [simp]: "allocs (xs @ ys) = allocs xs + allocs ys"
  by (induction xs rule: allocs.induct) auto

lemma saved_append [simp]: "saved (xs @ ys) = saved xs @ saved ys"
  by (induction xs rule: saved.induct) auto

lemma of_append [simp]: "calls_of t (xs @ ys) = calls_of t xs @ calls_of t ys" "saved_of t (xs @ ys) = saved_of t xs @ saved_of t ys"
  by (simp_all add: calls_of_def saved_of_def)

subsection \<open>The invariant\<close>

text \<open>The entry that a thread has taken; who holds the lock; who has not taken an entry yet; the call in progress.\<close>

fun entry_slot :: "Trace_entry mem_area \<Rightarrow> wr_stage \<Rightarrow> nat option" where
  "entry_slot m (W_ptr c) = Some (unat (wr_ind m))"
| "entry_slot m (W_unlock c p) = Some (unat p div unat sizeof_Trace_entry)"
| "entry_slot m (W_assert c p) = Some (unat p div unat sizeof_Trace_entry)"
| "entry_slot m (W_copy c p) = Some (unat p div unat sizeof_Trace_entry)"
| "entry_slot m (W_copied c p D) = Some (unat p div unat sizeof_Trace_entry)"
| "entry_slot m st = None"

fun holding :: "wr_stage \<Rightarrow> bool" where
  "holding (W_load c) = True"
| "holding (W_store c w) = True"
| "holding (W_ptr c) = True"
| "holding (W_unlock c p) = True"
| "holding st = False"

fun before_entry :: "wr_stage \<Rightarrow> bool" where
  "before_entry (W_spin c) = True"
| "before_entry (W_load c) = True"
| "before_entry (W_store c w) = True"
| "before_entry st = False"

fun wr_open :: "wr_stage \<Rightarrow> trace_call list" where
  "wr_open W_idle = []"
| "wr_open (W_spin c) = [c]"
| "wr_open (W_load c) = [c]"
| "wr_open (W_store c w) = [c]"
| "wr_open (W_ptr c) = [c]"
| "wr_open (W_unlock c p) = [c]"
| "wr_open (W_assert c p) = [c]"
| "wr_open (W_copy c p) = [c]"
| "wr_open (W_copied c p D) = [c]"

definition entry_ptr :: "u32 \<Rightarrow> bool" where
  "entry_ptr p \<longleftrightarrow> (\<exists>i < TRACE_ENTRIES_NUM. unat p = unat sizeof_Trace_entry * i)"

fun wr_ok :: "CTraceGroup \<Rightarrow> wr_stage \<Rightarrow> bool" where
  "wr_ok g (W_store c w) = (w = of_nat (pool_next (trace_fifo g)))"
| "wr_ok g (W_unlock c p) = entry_ptr p"
| "wr_ok g (W_assert c p) = entry_ptr p"
| "wr_ok g (W_copy c p) = (entry_ptr p \<and> tc_id c < num_alloc_formats g)"
| "wr_ok g (W_copied c p D) = (entry_ptr p \<and> tc_id c < num_alloc_formats g)"
| "wr_ok g st = True"

definition group_ok :: "CTraceGroup \<Rightarrow> CTraceGroup \<Rightarrow> bool" where
  "group_ok g0 g \<longleftrightarrow> trace_arrays_wf g \<and> pool_wf ((trace_fifo g)\<lparr>out_lock := False\<rparr>) \<and>
     num_alloc_formats g = num_alloc_formats g0"

definition lock_ok :: "Trace_entry mem_area \<Rightarrow> (nat \<Rightarrow> wr_stage) \<Rightarrow> bool" where
  "lock_ok m f \<longleftrightarrow> out_lock m = (\<exists>t. holding (f t)) \<and> (\<forall>t u. holding (f t) \<and> holding (f u) \<longrightarrow> t = u)"

definition count_ok :: "trace_event list \<Rightarrow> (nat \<Rightarrow> wr_stage) \<Rightarrow> bool" where
  "count_ok evs f \<longleftrightarrow> finite {t. before_entry (f t)} \<and> allocs evs + card {t. before_entry (f t)} = length (begun evs)"

text \<open>The entries that were taken, from the one after \<open>w0\<close> on.\<close>

definition taken :: "nat \<Rightarrow> nat \<Rightarrow> nat set" where
  "taken w0 k = (\<lambda>j. (w0 + j) mod TRACE_ENTRIES_NUM) ` {1..k}"

definition slots_ok :: "nat set \<Rightarrow> nat list \<Rightarrow> (nat \<Rightarrow> nat option) \<Rightarrow> bool" where
  "slots_ok T sl h \<longleftrightarrow> distinct sl \<and> (\<forall>i. i \<in> T \<longleftrightarrow> i \<in> set sl \<or> (\<exists>t. h t = Some i)) \<and>
     (\<forall>t i. h t = Some i \<longrightarrow> i \<notin> set sl) \<and> (\<forall>t u i. h t = Some i \<and> h u = Some i \<longrightarrow> t = u)"

definition buffer_ok :: "nat set \<Rightarrow> (nat \<times> nat \<times> trace_call) list \<Rightarrow> Trace_entry list \<Rightarrow> Trace_entry list \<Rightarrow> bool" where
  "buffer_ok T sv buf0 buf \<longleftrightarrow> (\<forall>i < TRACE_ENTRIES_NUM. i \<notin> T \<longrightarrow> buf ! i = buf0 ! i) \<and>
     (\<forall>(t, i, c) \<in> set sv. i < TRACE_ENTRIES_NUM \<and> buf ! i = call_entry c)"

definition saved_slots :: "trace_event list \<Rightarrow> nat list" where
  "saved_slots evs = map (fst \<circ> snd) (saved evs)"

definition trace_inv :: "CTraceGroup \<Rightarrow> trace_event list \<Rightarrow> tracing \<Rightarrow> bool" where
  "trace_inv g0 evs s \<longleftrightarrow>
     (let g = tgroup s; m = trace_fifo g; f = writers s; w0 = unat (wr_ind (trace_fifo g0)); T = taken w0 (allocs evs) in
      group_ok g0 g \<and> unat (wr_ind m) = (w0 + allocs evs) mod TRACE_ENTRIES_NUM \<and> lock_ok m f \<and> count_ok evs f \<and>
      slots_ok T (saved_slots evs) (\<lambda>t. entry_slot m (f t)) \<and>
      buffer_ok T (saved evs) (chunk_buf (trace_fifo g0)) (chunk_buf m) \<and>
      (\<forall>t. wr_ok g (f t) \<and> calls_of t evs = saved_of t evs @ wr_open (f t)) \<and>
      (\<forall>(t, i, c) \<in> set (saved evs). tc_id c < num_alloc_formats g))"

text \<open>A copy in progress: with the words that are left, the entry is that of the call.\<close>

definition copies_ok :: "tracing \<Rightarrow> bool" where
  "copies_ok s \<longleftrightarrow> (\<forall>t c p D. writers s t = W_copied c p D \<longrightarrow>
     copied (- D) (call_entry c) (chunk_buf (trace_fifo (tgroup s)) ! (unat p div unat sizeof_Trace_entry)) = call_entry c)"

subsection \<open>How the parts of the invariant change\<close>

lemma lock_keep:
  assumes "lock_ok m f" "out_lock m' = out_lock m" "holding st = holding (f t)"
  shows "lock_ok m' (f(t := st))"
proof -
  have "holding ((f(t := st)) u) = holding (f u)" for u using assms(3) by simp
  then show ?thesis using assms(1,2) unfolding lock_ok_def by (simp del: fun_upd_apply)
qed

lemma lock_take: "lock_ok m f \<Longrightarrow> \<not> out_lock m \<Longrightarrow> out_lock m' \<Longrightarrow> holding st \<Longrightarrow> lock_ok m' (f(t := st))"
  unfolding lock_ok_def by (auto split: if_splits)

lemma lock_release: "lock_ok m f \<Longrightarrow> holding (f t) \<Longrightarrow> \<not> out_lock m' \<Longrightarrow> \<not> holding st \<Longrightarrow> lock_ok m' (f(t := st))"
  unfolding lock_ok_def by (auto split: if_splits)

lemma count_keep:
  assumes "count_ok evs f" "begun ev = []" "allocs ev = 0" "before_entry st = before_entry (f t)"
  shows "count_ok (evs @ ev) (f(t := st))"
proof -
  have "{u. before_entry ((f(t := st)) u)} = {u. before_entry (f u)}" using assms(4) by auto
  then show ?thesis using assms(1-3) unfolding count_ok_def by (simp del: fun_upd_apply)
qed

lemma count_begin:
  assumes "count_ok evs f" "\<not> before_entry (f t)" "before_entry st"
  shows "count_ok (evs @ [Begin t c]) (f(t := st))"
proof -
  have "{u. before_entry ((f(t := st)) u)} = insert t {u. before_entry (f u)}" using assms(3) by auto
  then show ?thesis using assms(1,2) unfolding count_ok_def by (simp del: fun_upd_apply)
qed

lemma count_alloc:
  assumes "count_ok evs f" "before_entry (f t)" "\<not> before_entry st"
  shows "count_ok (evs @ [Alloc t]) (f(t := st))" "allocs evs < length (begun evs)"
proof -
  let ?B = "{u. before_entry (f u)}"
  have B: "{u. before_entry ((f(t := st)) u)} = ?B - {t}" using assms(3) by auto
  have fin: "finite ?B" "allocs evs + card ?B = length (begun evs)" using assms(1) by (simp_all add: count_ok_def)
  have "t \<in> ?B" using assms(2) by simp
  then have "card ?B = Suc (card (?B - {t}))" using fin(1) by (simp only: card.remove)
  then show "count_ok (evs @ [Alloc t]) (f(t := st))" "allocs evs < length (begun evs)"
    using fin unfolding count_ok_def B by simp_all
qed

lemma taken_next:
  assumes "w0 < TRACE_ENTRIES_NUM" "k < TRACE_ENTRIES_NUM"
  shows "taken w0 (Suc k) = insert ((w0 + Suc k) mod TRACE_ENTRIES_NUM) (taken w0 k)" "(w0 + Suc k) mod TRACE_ENTRIES_NUM \<notin> taken w0 k"
proof -
  show "taken w0 (Suc k) = insert ((w0 + Suc k) mod TRACE_ENTRIES_NUM) (taken w0 k)"
    by (auto simp: taken_def atLeastAtMostSuc_conv)
  show "(w0 + Suc k) mod TRACE_ENTRIES_NUM \<notin> taken w0 k"
  proof
    assume "(w0 + Suc k) mod TRACE_ENTRIES_NUM \<in> taken w0 k"
    then obtain j where "1 \<le> j" "j \<le> k" "(w0 + Suc k) mod TRACE_ENTRIES_NUM = (w0 + j) mod TRACE_ENTRIES_NUM"
      by (auto simp: taken_def)
    moreover from this obtain j' where "j = Suc j'" by (cases j) auto
    ultimately have j: "j' < k" "(w0 + 1 + k) mod TRACE_ENTRIES_NUM = (w0 + 1 + j') mod TRACE_ENTRIES_NUM" by simp_all
    have w: "(w0 + 1) mod TRACE_ENTRIES_NUM < TRACE_ENTRIES_NUM" by (simp add: TRACE_ENTRIES_NUM_def)
    have "((w0 + 1) mod TRACE_ENTRIES_NUM + k) mod TRACE_ENTRIES_NUM = ((w0 + 1) mod TRACE_ENTRIES_NUM + j') mod TRACE_ENTRIES_NUM"
      using j(2) unfolding mod_add_left_eq .
    then show False using add_mod_eq_iff [OF w assms(2), of j'] j(1) assms(2) by simp
  qed
qed

lemma slots_alloc:
  assumes "slots_ok T sl h" "i \<notin> T" "h t = None"
  shows "slots_ok (insert i T) sl (h(t := Some i))"
proof -
  have new: "(h(t := Some i)) u = Some x \<longleftrightarrow> u = t \<and> x = i \<or> h u = Some x" for u x using assms(3) by auto
  have "i \<notin> set sl" "h u \<noteq> Some i" for u using assms(1,2) unfolding slots_ok_def by blast+
  then show ?thesis using assms(1) unfolding slots_ok_def new by blast
qed

lemma slots_done:
  assumes "slots_ok T sl h" "h t = Some i"
  shows "slots_ok T (sl @ [i]) (h(t := None))"
proof -
  have gone: "(h(t := None)) u = Some x \<longleftrightarrow> u \<noteq> t \<and> h u = Some x" for u x by simp
  have i: "i \<notin> set sl" "h u = Some i \<longleftrightarrow> u = t" for u using assms unfolding slots_ok_def by blast+
  have "distinct (sl @ [i])" using assms(1) i(1) by (simp add: slots_ok_def)
  moreover have "x \<in> T \<longleftrightarrow> x \<in> set (sl @ [i]) \<or> (\<exists>u. u \<noteq> t \<and> h u = Some x)" for x
  proof -
    have "x \<in> T \<longleftrightarrow> x \<in> set sl \<or> (\<exists>u. h u = Some x)" using assms(1) by (simp add: slots_ok_def)
    moreover have "(\<exists>u. h u = Some x) \<longleftrightarrow> x = i \<or> (\<exists>u. u \<noteq> t \<and> h u = Some x)" using assms(2) by (metis option.inject)
    ultimately show ?thesis by auto
  qed
  moreover have "x \<notin> set (sl @ [i])" if "u \<noteq> t" "h u = Some x" for u x
    using assms(1) i(2) [of u] that by (auto simp: slots_ok_def)
  moreover have "u = v" if "h u = Some x" "h v = Some x" for u v x using assms(1) that by (auto simp: slots_ok_def)
  ultimately show ?thesis unfolding slots_ok_def gone by blast
qed

lemma buffer_alloc: "buffer_ok T sv buf0 buf \<Longrightarrow> buffer_ok (insert i T) sv buf0 buf"
  by (auto simp: buffer_ok_def)

lemma buffer_write:
  assumes "buffer_ok T sv buf0 buf" "slots_ok T (map (fst \<circ> snd) sv) h" "h t = Some i"
  shows "buffer_ok T sv buf0 (buf[i := x])"
proof -
  have i: "i \<in> T" "i \<notin> set (map (fst \<circ> snd) sv)" using assms(2,3) unfolding slots_ok_def by blast+
  have ne: "i \<noteq> j" if "(u, j, c) \<in> set sv" for u j c
  proof
    assume "i = j"
    with that have "i \<in> (fst \<circ> snd) ` set sv" by (intro image_eqI [of _ _ "(u, j, c)"]) simp_all
    with i(2) show False by simp
  qed
  have sv: "buf[i := x] ! j = buf ! j" if "(u, j, c) \<in> set sv" for u j c by (rule nth_list_update_neq [OF ne [OF that]])
  have out: "buf[i := x] ! j = buf ! j" if "j \<notin> T" for j by (rule nth_list_update_neq) (use that i(1) in blast)
  show ?thesis unfolding buffer_ok_def
  proof (intro conjI allI impI)
    fix j assume "j < TRACE_ENTRIES_NUM" "j \<notin> T"
    then show "buf[i := x] ! j = buf0 ! j" using out [of j] assms(1) by (simp add: buffer_ok_def)
  next
    show "\<forall>(t, j, c) \<in> set sv. j < TRACE_ENTRIES_NUM \<and> buf[i := x] ! j = call_entry c"
    proof clarify
      fix u j c assume m: "(u, j, c) \<in> set sv"
      then have "j < TRACE_ENTRIES_NUM \<and> buf ! j = call_entry c" using assms(1) unfolding buffer_ok_def by blast
      then show "j < TRACE_ENTRIES_NUM \<and> buf[i := x] ! j = call_entry c" using sv [OF m] by simp
    qed
  qed
qed

lemma buffer_save:
  assumes "buffer_ok T sv buf0 buf" "slots_ok T (map (fst \<circ> snd) sv) h" "h t = Some i" "i < length buf" "length buf = TRACE_ENTRIES_NUM"
  shows "buffer_ok T (sv @ [(t, i, c)]) buf0 (buf[i := call_entry c])"
  using buffer_write [OF assms(1-3), of "call_entry c"] assms(4,5) by (auto simp: buffer_ok_def)

subsection \<open>Every access keeps the invariant\<close>

lemma group_facts:
  assumes "group_ok g0 g"
  shows "length (chunk_buf (trace_fifo g)) = TRACE_ENTRIES_NUM" "elem_size (trace_fifo g) = sizeof_Trace_entry"
    "unat (wr_ind (trace_fifo g)) < TRACE_ENTRIES_NUM" "pool_next (trace_fifo g) < TRACE_ENTRIES_NUM"
    "unat (of_nat (pool_next (trace_fifo g)) :: u32) = pool_next (trace_fifo g)"
    "next_ind (wr_ind (trace_fifo g)) (number_chunks (trace_fifo g)) = Inr (of_nat (pool_next (trace_fifo g)))"
    "unat (StaticMemArea_GetWriteBufP (trace_fifo g)) = unat sizeof_Trace_entry * unat (wr_ind (trace_fifo g))"
proof -
  let ?m = "(trace_fifo g)\<lparr>out_lock := False\<rparr>"
  have p: "pool_wf ?m" using assms by (simp add: group_ok_def)
  show l: "length (chunk_buf (trace_fifo g)) = TRACE_ENTRIES_NUM" and e: "elem_size (trace_fifo g) = sizeof_Trace_entry"
    using assms by (simp_all add: group_ok_def trace_arrays_wf_def)
  show w: "unat (wr_ind (trace_fifo g)) < TRACE_ENTRIES_NUM" using p l by (simp add: pool_wf_def)
  have n: "pool_next ?m = pool_next (trace_fifo g)" by (simp add: pool_next_def)
  show k: "pool_next (trace_fifo g) < TRACE_ENTRIES_NUM" using pool_next_less [OF p] l n by simp
  show "unat (of_nat (pool_next (trace_fifo g)) :: u32) = pool_next (trace_fifo g)"
    using unat_of_nat_ind [OF p, of "pool_next (trace_fifo g)"] k l by simp
  show "next_ind (wr_ind (trace_fifo g)) (number_chunks (trace_fifo g)) = Inr (of_nat (pool_next (trace_fifo g)))"
    using next_ind_wf [OF p, of "wr_ind (trace_fifo g)"] w l by (simp add: pool_next_def)
  show "unat (StaticMemArea_GetWriteBufP (trace_fifo g)) = unat sizeof_Trace_entry * unat (wr_ind (trace_fifo g))"
    using stride_wf [OF p, of "wr_ind (trace_fifo g)"] w l e by (simp add: StaticMemArea_GetWriteBufP_def)
qed

lemma entry_ptr_div:
  "entry_ptr p \<Longrightarrow> unat p = unat sizeof_Trace_entry * (unat p div unat sizeof_Trace_entry) \<and>
     unat p div unat sizeof_Trace_entry < TRACE_ENTRIES_NUM"
  by (auto simp: entry_ptr_def sizeof_Trace_entry_def)

lemma entry_index:
  assumes "group_ok g0 g" "entry_ptr p"
  shows "chunk_index (unat p) (trace_fifo g) = Inr (unat p div unat sizeof_Trace_entry)"
proof -
  let ?m = "(trace_fifo g)\<lparr>out_lock := False\<rparr>" and ?i = "unat p div unat sizeof_Trace_entry"
  have p: "pool_wf ?m" using assms(1) by (simp add: group_ok_def)
  have "chunk_index (unat (elem_size ?m) * ?i) ?m = Inr ?i"
    using chunk_index_wf [OF p, of ?i] entry_ptr_div [OF assms(2)] group_facts(1) [OF assms(1)] by simp
  moreover have "unat (elem_size ?m) * ?i = unat p" using entry_ptr_div [OF assms(2)] group_facts(2) [OF assms(1)] by simp
  moreover have "chunk_index off ?m = chunk_index off (trace_fifo g)" for off by (simp add: chunk_index_def Let_def)
  ultimately show ?thesis by simp
qed

lemma store_words_entry:
  assumes "group_ok g0 g" "entry_ptr p"
  shows "store_words W e p (trace_fifo g) = Inr ((trace_fifo g)\<lparr>chunk_buf := (chunk_buf (trace_fifo g))
    [unat p div unat sizeof_Trace_entry := copied W e (chunk_buf (trace_fifo g) ! (unat p div unat sizeof_Trace_entry))]\<rparr>)"
  by (rule store_words_eq [OF entry_index [OF assms]])

lemma group_ok_area:
  assumes "group_ok g0 g" "length (chunk_buf m) = TRACE_ENTRIES_NUM" "elem_size m = sizeof_Trace_entry" "pool_wf (m\<lparr>out_lock := False\<rparr>)"
  shows "group_ok g0 (g\<lparr>trace_fifo := m\<rparr>)"
proof -
  have "trace_arrays_wf g" "num_alloc_formats g = num_alloc_formats g0" using assms(1) by (simp_all add: group_ok_def)
  moreover from this(1) have "trace_arrays_wf (g\<lparr>trace_fifo := m\<rparr>)" using assms(2,3) by (simp add: trace_arrays_wf_def)
  ultimately show ?thesis using assms(4) by (simp add: group_ok_def)
qed

lemma lock_apart:
  "m\<lparr>chunk_buf := buf, out_lock := b\<rparr> = m\<lparr>out_lock := b, chunk_buf := buf\<rparr>"
  "m\<lparr>wr_ind := w, out_lock := b\<rparr> = m\<lparr>out_lock := b, wr_ind := w\<rparr>"
  by (cases m; simp)+

lemma pool_wf_wr: "pool_wf m \<Longrightarrow> unat w < length (chunk_buf m) \<Longrightarrow> pool_wf (m\<lparr>wr_ind := w\<rparr>)"
  by (simp add: pool_wf_def)

lemma group_ok_buf:
  assumes "group_ok g0 g" "length buf = TRACE_ENTRIES_NUM"
  shows "group_ok g0 (g\<lparr>trace_fifo := (trace_fifo g)\<lparr>chunk_buf := buf\<rparr>\<rparr>)"
  using assms group_facts(1,2) [OF assms(1)]
  by (intro group_ok_area [OF assms(1)]) (simp_all add: lock_apart pool_wf_buf group_ok_def)

lemma group_ok_lock: "group_ok g0 g \<Longrightarrow> group_ok g0 (g\<lparr>trace_fifo := (trace_fifo g)\<lparr>out_lock := b\<rparr>\<rparr>)"
  using group_facts(1,2) [of g0 g] by (intro group_ok_area) (simp_all add: group_ok_def)

lemma group_ok_wr:
  assumes "group_ok g0 g" "unat w < TRACE_ENTRIES_NUM"
  shows "group_ok g0 (g\<lparr>trace_fifo := (trace_fifo g)\<lparr>wr_ind := w\<rparr>\<rparr>)"
  using assms group_facts(1,2) [OF assms(1)]
  by (intro group_ok_area [OF assms(1)]) (simp_all add: lock_apart pool_wf_wr group_ok_def)

lemma same_wr_slot: "wr_ind m' = wr_ind m \<Longrightarrow> entry_slot m' st = entry_slot m st"
  by (cases st) simp_all

lemma same_wr_ok:
  assumes "group_ok g0 g" "group_ok g0 g'" "wr_ind (trace_fifo g') = wr_ind (trace_fifo g)"
  shows "wr_ok g' st = wr_ok g st"
proof -
  have "num_alloc_formats g' = num_alloc_formats g" using assms(1,2) by (simp add: group_ok_def)
  moreover have "pool_next (trace_fifo g') = pool_next (trace_fifo g)"
    using assms(3) group_facts(1) [OF assms(1)] group_facts(1) [OF assms(2)] by (simp add: pool_next_def)
  ultimately show ?thesis by (cases st) simp_all
qed

lemma slot_update:
  "(\<lambda>u. entry_slot m ((f(t := st)) u)) = (\<lambda>u. entry_slot m (f u))(t := entry_slot m st)"
  by (rule ext) simp

text \<open>An access that takes no entry and finishes none.\<close>

lemma calm_access:
  assumes inv: "trace_inv g0 evs s" and g: "group_ok g0 g'" "wr_ind (trace_fifo g') = wr_ind (trace_fifo (tgroup s))"
    and lock: "lock_ok (trace_fifo g') ((writers s)(t := st'))"
    and st: "before_entry st' = before_entry (writers s t)"
      "entry_slot (trace_fifo g') st' = entry_slot (trace_fifo (tgroup s)) (writers s t)" "wr_open st' = wr_open (writers s t)" "wr_ok g' st'"
    and buf: "buffer_ok (taken (unat (wr_ind (trace_fifo g0))) (allocs evs)) (saved evs) (chunk_buf (trace_fifo g0)) (chunk_buf (trace_fifo g'))"
  shows "trace_inv g0 evs (s\<lparr>tgroup := g', writers := (writers s)(t := st')\<rparr>)"
proof -
  have i: "group_ok g0 (tgroup s)" "count_ok evs (writers s)" "num_alloc_formats g' = num_alloc_formats (tgroup s)"
    using inv g(1) by (simp_all add: trace_inv_def Let_def group_ok_def)
  have "(\<lambda>u. entry_slot (trace_fifo g') (((writers s)(t := st')) u)) = (\<lambda>u. entry_slot (trace_fifo (tgroup s)) (writers s u))"
    using st(2) same_wr_slot [OF g(2)] by (auto simp: fun_eq_iff)
  moreover have "wr_ok g' (((writers s)(t := st')) u) \<and> calls_of u evs = saved_of u evs @ wr_open (((writers s)(t := st')) u)" for u
    using inv st(3,4) same_wr_ok [OF i(1) g] by (simp add: trace_inv_def Let_def)
  moreover have "count_ok evs ((writers s)(t := st'))" using count_keep [OF i(2), of "[]" st' t] st(1) by simp
  ultimately show ?thesis using inv g lock buf i(3) by (simp add: trace_inv_def Let_def del: fun_upd_apply)
qed

lemma calm_same:
  assumes inv: "trace_inv g0 evs s" and st: "holding st' = holding (writers s t)" "before_entry st' = before_entry (writers s t)"
      "entry_slot (trace_fifo (tgroup s)) st' = entry_slot (trace_fifo (tgroup s)) (writers s t)" "wr_open st' = wr_open (writers s t)" "wr_ok (tgroup s) st'"
  shows "trace_inv g0 evs (s\<lparr>writers := (writers s)(t := st')\<rparr>)"
proof -
  have i: "group_ok g0 (tgroup s)" "lock_ok (trace_fifo (tgroup s)) (writers s)"
    "buffer_ok (taken (unat (wr_ind (trace_fifo g0))) (allocs evs)) (saved evs) (chunk_buf (trace_fifo g0)) (chunk_buf (trace_fifo (tgroup s)))"
    using inv by (simp_all add: trace_inv_def Let_def)
  have "lock_ok (trace_fifo (tgroup s)) ((writers s)(t := st'))" by (rule lock_keep [OF i(2) refl st(1)])
  from calm_access [OF inv i(1) refl this st(2-5) i(3)] show ?thesis by (cases s) simp
qed

text \<open>The access that takes the next entry.\<close>

lemma alloc_access:
  assumes inv: "trace_inv g0 evs s" and st: "writers s t = W_store c w" and g0: "group_ok g0 g0" and b: "length (begun evs) \<le> TRACE_ENTRIES_NUM"
  shows "trace_inv g0 (evs @ [Alloc t])
    (s\<lparr>tgroup := (tgroup s)\<lparr>trace_fifo := (trace_fifo (tgroup s))\<lparr>wr_ind := w\<rparr>\<rparr>, writers := (writers s)(t := W_ptr c)\<rparr>)"
proof -
  let ?g = "tgroup s" and ?f = "writers s" and ?w0 = "unat (wr_ind (trace_fifo g0))" and ?k = "allocs evs"
  let ?m = "trace_fifo ?g" let ?g' = "?g\<lparr>trace_fifo := ?m\<lparr>wr_ind := w\<rparr>\<rparr>" and ?n = "(?w0 + Suc ?k) mod TRACE_ENTRIES_NUM"
  have i: "group_ok g0 ?g" "unat (wr_ind ?m) = (?w0 + ?k) mod TRACE_ENTRIES_NUM" "lock_ok ?m ?f" "count_ok evs ?f"
    "slots_ok (taken ?w0 ?k) (saved_slots evs) (\<lambda>t. entry_slot ?m (?f t))"
    "buffer_ok (taken ?w0 ?k) (saved evs) (chunk_buf (trace_fifo g0)) (chunk_buf ?m)"
    "\<And>t. wr_ok ?g (?f t)" "\<And>t. calls_of t evs = saved_of t evs @ wr_open (?f t)"
    using inv by (simp_all add: trace_inv_def Let_def)
  have w: "w = of_nat (pool_next ?m)" using i(7) [of t] st by simp
  have n: "unat w = ?n" using group_facts(1,5) [OF i(1)] i(2) unfolding w by (simp add: pool_next_def mod_simps)
  have k: "?k < TRACE_ENTRIES_NUM" "?w0 < TRACE_ENTRIES_NUM"
    using count_alloc(2) [OF i(4), of t "W_ptr c"] st b group_facts(3) [OF g0] by simp_all
  note T = taken_next [OF k(2,1)]
  have alone: "u = t" if "\<exists>c. ?f u = W_ptr c \<or> (\<exists>w. ?f u = W_store c w)" for u
  proof -
    have "holding (?f u)" "holding (?f t)" using that st by auto
    then show ?thesis using i(3) unfolding lock_ok_def by blast
  qed
  have other: "entry_slot (?m\<lparr>wr_ind := w\<rparr>) (?f u) = entry_slot ?m (?f u)" "wr_ok ?g' (?f u)" if "u \<noteq> t" for u
    using alone [of u] that i(7) [of u] by (cases "?f u"; auto)+
  have h: "(\<lambda>u. entry_slot (?m\<lparr>wr_ind := w\<rparr>) ((?f(t := W_ptr c)) u)) = (\<lambda>u. entry_slot ?m (?f u))(t := Some ?n)"
    using other(1) n by (auto simp: fun_eq_iff)
  have "slots_ok (taken ?w0 (Suc ?k)) (saved_slots evs) (\<lambda>u. entry_slot (?m\<lparr>wr_ind := w\<rparr>) ((?f(t := W_ptr c)) u))"
    unfolding h T(1) using slots_alloc [OF i(5) T(2), of t] st by simp
  moreover have "group_ok g0 ?g'" using group_ok_wr [OF i(1), of w] n by (simp add: TRACE_ENTRIES_NUM_def)
  moreover have "lock_ok (?m\<lparr>wr_ind := w\<rparr>) (?f(t := W_ptr c))" using lock_keep [OF i(3), of "?m\<lparr>wr_ind := w\<rparr>" "W_ptr c" t] st by simp
  moreover have "count_ok (evs @ [Alloc t]) (?f(t := W_ptr c))" using count_alloc(1) [OF i(4), of t "W_ptr c"] st by simp
  moreover have "buffer_ok (taken ?w0 (Suc ?k)) (saved evs) (chunk_buf (trace_fifo g0)) (chunk_buf ?m)"
    unfolding T(1) using buffer_alloc [OF i(6)] .
  moreover have "wr_ok ?g' ((?f(t := W_ptr c)) u)" for u using other(2) [of u] by simp
  moreover have "calls_of u (evs @ [Alloc t]) = saved_of u (evs @ [Alloc t]) @ wr_open ((?f(t := W_ptr c)) u)" for u
    using i(8) [of u] st by (simp add: calls_of_def saved_of_def)
  moreover have "\<forall>(t, i, c) \<in> set (saved evs). tc_id c < num_alloc_formats ?g" using inv by (simp add: trace_inv_def Let_def)
  moreover have "saved_slots (evs @ [Alloc t]) = saved_slots evs" by (simp add: saved_slots_def)
  ultimately show ?thesis using n by (simp add: trace_inv_def Let_def del: fun_upd_apply)
qed

text \<open>The access that finishes a trace.\<close>

lemma save_access:
  assumes inv: "trace_inv g0 evs s" and copies: "copies_ok s" and st: "writers s t = W_copied c p D"
  shows "\<exists>m. store_words (- D) (call_entry c) p (trace_fifo (tgroup s)) = Inr m \<and>
    trace_inv g0 (evs @ [Saved t (unat p div unat sizeof_Trace_entry) c])
      (s\<lparr>tgroup := (tgroup s)\<lparr>trace_fifo := m\<rparr>, writers := (writers s)(t := W_idle)\<rparr>)"
proof -
  let ?g = "tgroup s" and ?f = "writers s" and ?w0 = "unat (wr_ind (trace_fifo g0))" and ?k = "allocs evs"
  let ?m = "trace_fifo ?g" and ?i = "unat p div unat sizeof_Trace_entry" and ?ev = "[Saved t (unat p div unat sizeof_Trace_entry) c]"
  let ?m' = "?m\<lparr>chunk_buf := (chunk_buf ?m)[?i := call_entry c]\<rparr>" let ?g' = "?g\<lparr>trace_fifo := ?m'\<rparr>"
  have i: "group_ok g0 ?g" "lock_ok ?m ?f" "count_ok evs ?f"
    "slots_ok (taken ?w0 ?k) (saved_slots evs) (\<lambda>t. entry_slot ?m (?f t))"
    "buffer_ok (taken ?w0 ?k) (saved evs) (chunk_buf (trace_fifo g0)) (chunk_buf ?m)"
    "\<And>t. wr_ok ?g (?f t)" "\<And>t. calls_of t evs = saved_of t evs @ wr_open (?f t)"
    using inv by (simp_all add: trace_inv_def Let_def)
  have p: "entry_ptr p" "tc_id c < num_alloc_formats ?g" using i(6) [of t] st by simp_all
  have g': "group_ok g0 ?g'" using group_ok_buf [OF i(1)] group_facts(1) [OF i(1)] by simp
  have slot: "entry_slot ?m (?f t) = Some ?i" using st by simp
  have h: "(\<lambda>u. entry_slot ?m' ((?f(t := W_idle)) u)) = (\<lambda>u. entry_slot ?m (?f u))(t := None)"
    using same_wr_slot [of ?m' ?m] by (auto simp: fun_eq_iff)
  have "slots_ok (taken ?w0 ?k) (saved_slots (evs @ ?ev)) (\<lambda>u. entry_slot ?m' ((?f(t := W_idle)) u))"
    unfolding h using slots_done [OF i(4), of t] slot by (simp add: saved_slots_def)
  moreover have "buffer_ok (taken ?w0 ?k) (saved (evs @ ?ev)) (chunk_buf (trace_fifo g0)) (chunk_buf ?m')"
    using buffer_save [OF i(5) i(4) [unfolded saved_slots_def], of t ?i c] slot entry_ptr_div [OF p(1)] group_facts(1) [OF i(1)] by simp
  moreover have "lock_ok ?m' (?f(t := W_idle))" using lock_keep [OF i(2), of ?m' W_idle t] st by simp
  moreover have "count_ok (evs @ ?ev) (?f(t := W_idle))" using count_keep [OF i(3), of ?ev W_idle t] st by simp
  moreover have "wr_ok ?g' ((?f(t := W_idle)) u)" for u using same_wr_ok [OF i(1) g'] i(6) [of u] by simp
  moreover have "calls_of u (evs @ ?ev) = saved_of u (evs @ ?ev) @ wr_open ((?f(t := W_idle)) u)" for u
    using i(7) [of u] st by (auto simp: calls_of_def saved_of_def)
  moreover have "\<forall>(t, i, c) \<in> set (saved (evs @ ?ev)). tc_id c < num_alloc_formats ?g" "unat (wr_ind ?m) = (?w0 + ?k) mod TRACE_ENTRIES_NUM"
    using inv p(2) by (simp_all add: trace_inv_def Let_def)
  ultimately have "trace_inv g0 (evs @ ?ev) (s\<lparr>tgroup := ?g', writers := ?f(t := W_idle)\<rparr>)"
    using g' by (simp add: trace_inv_def Let_def del: fun_upd_apply)
  moreover have "store_words (- D) (call_entry c) p ?m = Inr ?m'" using store_words_entry [OF i(1) p(1)] copies st by (simp add: copies_ok_def)
  ultimately show ?thesis by blast
qed

text \<open>The other threads write to entries of their own.\<close>

lemma copies_access:
  assumes inv: "trace_inv g0 evs s" and copies: "copies_ok s" and acc: "trace_access W (writers s t) (tgroup s) = Inr (st', g')"
  shows "copies_ok (s\<lparr>tgroup := g', writers := (writers s)(t := st')\<rparr>)"
proof -
  let ?g = "tgroup s" and ?f = "writers s" let ?m = "trace_fifo ?g" and ?i = "\<lambda>p. unat p div unat sizeof_Trace_entry"
  have i: "group_ok g0 ?g" "slots_ok (taken (unat (wr_ind (trace_fifo g0))) (allocs evs)) (saved_slots evs) (\<lambda>t. entry_slot ?m (?f t))" "wr_ok ?g (?f t)"
    using inv by (simp_all add: trace_inv_def Let_def)
  have same: ?thesis if "chunk_buf (trace_fifo g') = chunk_buf ?m" "\<And>c p D. st' \<noteq> W_copied c p D"
    using copies that by (simp add: copies_ok_def)
  have wrote: ?thesis if p: "entry_slot ?m (?f t) = Some (?i p)" "chunk_buf (trace_fifo g') = (chunk_buf ?m)[?i p := x]"
    and x: "\<And>c q D. st' = W_copied c q D \<Longrightarrow> q = p \<and> copied (- D) (call_entry c) ((chunk_buf ?m)[?i p := x] ! ?i p) = call_entry c" for p x
  proof -
    have "copied (- D) (call_entry c) (chunk_buf (trace_fifo g') ! ?i q) = call_entry c" if u: "?f u = W_copied c q D" "u \<noteq> t" for u c q D
    proof -
      have "entry_slot ?m (?f u) = Some (?i q)" using u(1) by simp
      then have "?i p \<noteq> ?i q" using i(2) p(1) u(2) unfolding slots_ok_def by metis
      then show ?thesis using p(2) copies u(1) by (simp add: copies_ok_def)
    qed
    then show ?thesis using x p(2) by (auto simp: copies_ok_def)
  qed
  show ?thesis
  proof (cases "?f t")
    case (W_copy c p)
    then have p: "entry_ptr p" using i(3) by simp
    have "?i p < length (chunk_buf ?m)" using entry_ptr_div [OF p] group_facts(1) [OF i(1)] by simp
    then show ?thesis using acc W_copy store_words_entry [OF i(1) p]
      by (intro wrote [of p "copied W (call_entry c) (chunk_buf ?m ! ?i p)"]) (auto simp: copied_rest)
  next
    case (W_copied c p D)
    then have p: "entry_ptr p" using i(3) by simp
    show ?thesis using acc W_copied store_words_entry [OF i(1) p]
      by (intro wrote [of p "copied (- D) (call_entry c) (chunk_buf ?m ! ?i p)"]) auto
  qed ((rule same; use acc in \<open>auto simp: bindE_eq_Inr ASSERT_def split: if_splits\<close>)+)
qed

lemma copies_begin: "copies_ok s \<Longrightarrow> copies_ok (s\<lparr>writers := (writers s)(t := W_spin c)\<rparr>)"
  by (simp add: copies_ok_def)

lemma trace_access_keeps:
  assumes inv: "trace_inv g0 evs s" and g0: "group_ok g0 g0" and b: "length (begun evs) \<le> TRACE_ENTRIES_NUM"
    and copies: "copies_ok s" and st: "writers s t \<noteq> W_idle" and acc: "trace_access W (writers s t) (tgroup s) = Inr (st', g')"
  shows "trace_inv g0 (evs @ shown t (writers s t)) (s\<lparr>tgroup := g', writers := (writers s)(t := st')\<rparr>)"
proof -
  let ?g = "tgroup s" and ?f = "writers s" let ?m = "trace_fifo ?g"
  have i: "group_ok g0 ?g" "lock_ok ?m ?f"
    "slots_ok (taken (unat (wr_ind (trace_fifo g0))) (allocs evs)) (saved_slots evs) (\<lambda>t. entry_slot ?m (?f t))"
    "buffer_ok (taken (unat (wr_ind (trace_fifo g0))) (allocs evs)) (saved evs) (chunk_buf (trace_fifo g0)) (chunk_buf ?m)" "wr_ok ?g (?f t)"
    using inv by (simp_all add: trace_inv_def Let_def)
  show ?thesis
  proof (cases "?f t")
    case (W_spin c)
    then have l: "\<not> out_lock ?m" "st' = W_load c" "g' = ?g\<lparr>trace_fifo := ?m\<lparr>out_lock := True\<rparr>\<rparr>"
      using acc by (auto simp: OSA_spinlock_lock_def split: if_splits)
    have "lock_ok (?m\<lparr>out_lock := True\<rparr>) (?f(t := W_load c))" by (rule lock_take [OF i(2) l(1)]) simp_all
    with W_spin l i show ?thesis using group_ok_lock [OF i(1), of True] by (simp add: calm_access [OF inv])
  next
    case (W_load c)
    then have "st' = W_store c (of_nat (pool_next ?m))" "g' = ?g" using acc group_facts(6) [OF i(1)] by auto
    with W_load show ?thesis by (simp add: calm_same [OF inv])
  next
    case (W_store c w)
    with acc alloc_access [OF inv W_store g0 b] show ?thesis by auto
  next
    case (W_ptr c)
    then have st': "st' = W_unlock c (StaticMemArea_GetWriteBufP ?m)" "g' = ?g" using acc by auto
    have "unat sizeof_Trace_entry = 64" by (simp add: sizeof_Trace_entry_def)
    then have "unat (StaticMemArea_GetWriteBufP ?m) div unat sizeof_Trace_entry = unat (wr_ind ?m)" "entry_ptr (StaticMemArea_GetWriteBufP ?m)"
      using group_facts(3,7) [OF i(1)] by (auto simp: entry_ptr_def)
    with W_ptr st' show ?thesis by (simp add: calm_same [OF inv])
  next
    case (W_unlock c p)
    then have st': "st' = W_assert c p" "g' = ?g\<lparr>trace_fifo := ?m\<lparr>out_lock := False\<rparr>\<rparr>" using acc by (auto simp: OSA_spinlock_unlock_def)
    have "lock_ok (?m\<lparr>out_lock := False\<rparr>) (?f(t := W_assert c p))" by (rule lock_release [OF i(2), of t]) (simp_all add: W_unlock)
    with W_unlock st' i show ?thesis using group_ok_lock [OF i(1), of False] by (simp add: calm_access [OF inv])
  next
    case (W_assert c p)
    then have "tc_id c < num_alloc_formats ?g" "st' = W_copy c p" "g' = ?g" using acc by (auto simp: ASSERT_def split: if_splits)
    with W_assert i show ?thesis by (simp add: calm_same [OF inv])
  next
    case (W_copy c p)
    then have p: "entry_ptr p" using i(5) by simp
    let ?i = "unat p div unat sizeof_Trace_entry" let ?b = "(chunk_buf ?m)[?i := copied W (call_entry c) (chunk_buf ?m ! ?i)]"
    have st': "st' = W_copied c p W" "g' = ?g\<lparr>trace_fifo := ?m\<lparr>chunk_buf := ?b\<rparr>\<rparr>"
      using acc W_copy store_words_entry [OF i(1) p] by auto
    have "group_ok g0 (?g\<lparr>trace_fifo := ?m\<lparr>chunk_buf := ?b\<rparr>\<rparr>)" using group_ok_buf [OF i(1), of ?b] group_facts(1) [OF i(1)] by simp
    moreover have "buffer_ok (taken (unat (wr_ind (trace_fifo g0))) (allocs evs)) (saved evs) (chunk_buf (trace_fifo g0)) ?b"
      using buffer_write [OF i(4) i(3) [unfolded saved_slots_def], of t] W_copy by simp
    ultimately show ?thesis using W_copy st' i by (simp add: calm_access [OF inv] lock_keep)
  next
    case (W_copied c p D)
    with acc save_access [OF inv copies W_copied] show ?thesis by auto
  qed (use st in simp)
qed

lemma begin_keeps:
  assumes inv: "trace_inv g0 evs s" and st: "writers s t = W_idle"
  shows "trace_inv g0 (evs @ [Begin t c]) (s\<lparr>writers := (writers s)(t := W_spin c)\<rparr>)"
proof -
  let ?f = "writers s" and ?m = "trace_fifo (tgroup s)"
  have i: "lock_ok ?m ?f" "count_ok evs ?f" "\<And>u. wr_ok (tgroup s) (?f u) \<and> calls_of u evs = saved_of u evs @ wr_open (?f u)"
    using inv by (simp_all add: trace_inv_def Let_def)
  have "(\<lambda>u. entry_slot ?m ((?f(t := W_spin c)) u)) = (\<lambda>u. entry_slot ?m (?f u))" using st by (auto simp: fun_eq_iff)
  moreover have "lock_ok ?m (?f(t := W_spin c))" "count_ok (evs @ [Begin t c]) (?f(t := W_spin c))"
    using lock_keep [OF i(1), of ?m "W_spin c" t] count_begin [OF i(2), of t "W_spin c" c] st by simp_all
  moreover have "wr_ok (tgroup s) ((?f(t := W_spin c)) u) \<and>
      calls_of u (evs @ [Begin t c]) = saved_of u (evs @ [Begin t c]) @ wr_open ((?f(t := W_spin c)) u)" for u
    using i(3) [of u] st by (auto simp: calls_of_def saved_of_def)
  ultimately show ?thesis using inv by (simp add: trace_inv_def Let_def saved_slots_def del: fun_upd_apply)
qed

lemma trace_run_keeps:
  assumes "trace_run s evs s'" "trace_inv g0 [] s" "copies_ok s" "group_ok g0 g0" "length (begun evs) \<le> TRACE_ENTRIES_NUM"
  shows "trace_inv g0 evs s' \<and> copies_ok s'"
  using assms
proof (induction rule: trace_run.induct)
  case (next_step s evs s1 ev s2)
  then have inv: "trace_inv g0 evs s1" "copies_ok s1" and b: "length (begun evs) \<le> TRACE_ENTRIES_NUM" by simp_all
  from next_step.hyps(2) show ?case
  proof cases
    case (begin_trace t c)
    then show ?thesis using begin_keeps [OF inv(1)] copies_begin [OF inv(2)] by simp
  next
    case (one_access t W st g)
    then show ?thesis
      using trace_access_keeps [OF inv(1) next_step.prems(3) b inv(2) one_access(3,4)] copies_access [OF inv one_access(4)] by simp
  qed
qed simp

lemma trace_start:
  assumes "trace_wf (tgroup s)" "\<forall>t. writers s t = W_idle"
  shows "trace_inv (tgroup s) [] s" "group_ok (tgroup s) (tgroup s)" "copies_ok s"
proof -
  have p: "pool_wf (trace_fifo (tgroup s))" "trace_arrays_wf (tgroup s)" using assms(1) by (simp_all add: trace_wf_def)
  have l: "\<not> out_lock (trace_fifo (tgroup s))" using p(1) by (simp add: pool_wf_def)
  then have "(trace_fifo (tgroup s))\<lparr>out_lock := False\<rparr> = trace_fifo (tgroup s)" by (cases "trace_fifo (tgroup s)") simp
  with p show g: "group_ok (tgroup s) (tgroup s)" by (simp add: group_ok_def)
  show "copies_ok s" using assms(2) by (simp add: copies_ok_def)
  show "trace_inv (tgroup s) [] s" using assms(2) l g group_facts(3) [OF g]
    by (simp add: trace_inv_def Let_def lock_ok_def count_ok_def slots_ok_def buffer_ok_def taken_def saved_slots_def calls_of_def saved_of_def)
qed

subsection \<open>What the buffer holds\<close>

lemma pending_slots:
  assumes "length (chunk_buf (trace_fifo g)) = n"
  shows "pending g = image_mset (\<lambda>i. chunk_buf (trace_fifo g) ! i) (mset_set {i. i < n \<and> has_data (chunk_buf (trace_fifo g) ! i)})"
proof -
  let ?b = "chunk_buf (trace_fifo g)"
  have "mset ?b = image_mset (\<lambda>i. ?b ! i) (mset_set {0..<n})"
    using assms by (metis map_nth mset_map mset_upt)
  then show ?thesis by (simp add: pending_def filter_mset_image_mset filter_mset_mset_set)
qed

lemma saved_entries:
  assumes "buffer_ok T sv buf0 buf" "distinct (map (fst \<circ> snd) sv)"
  shows "mset (map (call_entry \<circ> snd \<circ> snd) sv) = image_mset (\<lambda>i. buf ! i) (mset_set (set (map (fst \<circ> snd) sv)))"
proof -
  have "map (call_entry \<circ> snd \<circ> snd) sv = map (\<lambda>i. buf ! i) (map (fst \<circ> snd) sv)"
    using assms(1) by (auto simp: buffer_ok_def)
  from arg_cong [OF this, of mset]
  have "mset (map (call_entry \<circ> snd \<circ> snd) sv) = image_mset (\<lambda>i. buf ! i) (mset (map (fst \<circ> snd) sv))" by (simp only: mset_map)
  also have "mset (map (fst \<circ> snd) sv) = mset_set (set (map (fst \<circ> snd) sv))" using assms(2) by (simp only: mset_set_set)
  finally show ?thesis .
qed

lemma call_entry_id: "unat (trace_id (call_entry c)) \<le> unat (tc_id c)"
  by (simp add: call_entry_def new_entry_def unsigned_ucast_eq take_bit_nat_less_eq_self)

lemma inv_data:
  assumes inv: "trace_inv g0 evs s"
  shows "set (saved_slots evs) \<subseteq> {i. i < TRACE_ENTRIES_NUM \<and> has_data (chunk_buf (trace_fifo (tgroup s)) ! i)}"
proof -
  let ?b = "chunk_buf (trace_fifo (tgroup s))"
  have "i < TRACE_ENTRIES_NUM \<and> ?b ! i = call_entry c" if "(t, i, c) \<in> set (saved evs)" for t i c
    using inv that by (auto simp: trace_inv_def Let_def buffer_ok_def)
  then show ?thesis using has_data_call by (fastforce simp: saved_slots_def)
qed

lemma inv_pending:
  assumes inv: "trace_inv g0 evs s"
  shows "mset (map (call_entry \<circ> snd \<circ> snd) (saved evs)) \<subseteq># pending (tgroup s)"
proof -
  let ?b = "chunk_buf (trace_fifo (tgroup s))"
  have i: "group_ok g0 (tgroup s)" "distinct (saved_slots evs)"
    "buffer_ok (taken (unat (wr_ind (trace_fifo g0))) (allocs evs)) (saved evs) (chunk_buf (trace_fifo g0)) ?b"
    using inv by (simp_all add: trace_inv_def Let_def slots_ok_def)
  show ?thesis
    unfolding pending_slots [OF group_facts(1) [OF i(1)]] saved_entries [OF i(3) i(2) [unfolded saved_slots_def]]
    using inv_data [OF inv] unfolding saved_slots_def
    by (intro image_mset_subseteq_mono subset_imp_msubset_mset_set) simp_all
qed

lemma inv_idle:
  assumes inv: "trace_inv g0 evs s" and idle: "\<forall>t. writers s t = W_idle" and none: "pending g0 = {#}" "trace_wf g0"
  shows "pending (tgroup s) = mset (map (call_entry \<circ> snd \<circ> snd) (saved evs))" "trace_wf (tgroup s)"
proof -
  let ?b = "chunk_buf (trace_fifo (tgroup s))" and ?T = "taken (unat (wr_ind (trace_fifo g0))) (allocs evs)"
  have i: "group_ok g0 (tgroup s)" "slots_ok ?T (saved_slots evs) (\<lambda>t. None)" "lock_ok (trace_fifo (tgroup s)) (writers s)"
    "buffer_ok ?T (saved evs) (chunk_buf (trace_fifo g0)) ?b" "\<forall>(t, i, c) \<in> set (saved evs). tc_id c < num_alloc_formats (tgroup s)"
    using inv idle by (simp_all add: trace_inv_def Let_def)
  have T: "i \<in> ?T \<longleftrightarrow> i \<in> set (saved_slots evs)" "distinct (saved_slots evs)" for i using i(2) by (simp_all add: slots_ok_def)
  have "\<not> has_data (chunk_buf (trace_fifo g0) ! i)" if "i < TRACE_ENTRIES_NUM" for i
  proof
    assume "has_data (chunk_buf (trace_fifo g0) ! i)"
    then have "chunk_buf (trace_fifo g0) ! i \<in># pending g0" using that trace_fifo_wf(1) [OF none(2)] by (simp add: pending_iff)
    then show False using none(1) by simp
  qed
  then have "\<not> has_data (?b ! i)" if "i < TRACE_ENTRIES_NUM" "i \<notin> set (saved_slots evs)" for i
    using that i(4) T(1) [of i] by (simp add: buffer_ok_def)
  then have "{i. i < TRACE_ENTRIES_NUM \<and> has_data (?b ! i)} = set (saved_slots evs)" using inv_data [OF inv] by blast
  then show p: "pending (tgroup s) = mset (map (call_entry \<circ> snd \<circ> snd) (saved evs))"
    using pending_slots [OF group_facts(1) [OF i(1)]] saved_entries [OF i(4) T(2) [unfolded saved_slots_def]] by (simp add: saved_slots_def)
  have "unat (trace_id e) < unat (num_alloc_formats (tgroup s))" if "e \<in> set ?b" "has_data e" for e
  proof -
    have "e \<in># pending (tgroup s)" using that by (simp add: pending_iff)
    then obtain t i c where "(t, i, c) \<in> set (saved evs)" "e = call_entry c" unfolding p by auto
    with i(5) call_entry_id [of c] show ?thesis by (auto simp: word_less_nat_alt)
  qed
  moreover have "pool_wf (trace_fifo (tgroup s))"
  proof -
    have "\<not> out_lock (trace_fifo (tgroup s))" using i(3) idle by (simp add: lock_ok_def)
    then have "(trace_fifo (tgroup s))\<lparr>out_lock := False\<rparr> = trace_fifo (tgroup s)" by (cases "trace_fifo (tgroup s)") simp
    then show ?thesis using i(1) by (simp add: group_ok_def)
  qed
  ultimately show "trace_wf (tgroup s)" using i(1) by (simp add: trace_wf_def group_ok_def)
qed

lemma inv_faults:
  assumes inv: "trace_inv g0 evs s" and f: "trace_access W (writers s t) (tgroup s) = Inl f"
  shows "(\<exists>c. writers s t = W_spin c) \<and> out_lock (trace_fifo (tgroup s)) \<and> (\<exists>u. holding (writers s u)) \<or>
    (\<exists>c p. writers s t = W_assert c p \<and> num_alloc_formats (tgroup s) \<le> tc_id c)"
proof -
  have i: "group_ok g0 (tgroup s)" "lock_ok (trace_fifo (tgroup s)) (writers s)" "wr_ok (tgroup s) (writers s t)"
    using inv by (simp_all add: trace_inv_def Let_def)
  show ?thesis using f i(2,3) group_facts(6) [OF i(1)] store_words_entry [OF i(1)]
    by (cases "writers s t") (auto simp: OSA_spinlock_lock_def ASSERT_def lock_ok_def split: if_splits)
qed

text \<open>C5: traces from many threads. Any number of threads add traces to one group, each access between those of
  the others and the copies torn; the buffer is empty at first and not more than a thousand traces are added. At every moment the buffer holds
  every trace whose call has returned, whole; each thread's traces are those of its calls, in its order. When all
  calls have returned, the traces in the buffer are exactly those of the calls, each once, and the group is well formed, so
  that what is proved of the readers applies. No access goes wrong: a thread that cannot move waits for the lock, which
  another holds, or was called with a format that is not registered.\<close>

theorem traces_from_threads:
  assumes "trace_run s evs s'" "trace_wf (tgroup s)" "\<forall>t. writers s t = W_idle" "pending (tgroup s) = {#}"
    and "length (begun evs) \<le> TRACE_ENTRIES_NUM"
  shows "mset (map (call_entry \<circ> snd \<circ> snd) (saved evs)) \<subseteq># pending (tgroup s') \<and>
    (\<forall>t. prefix (saved_of t evs) (calls_of t evs) \<and> length (calls_of t evs) \<le> length (saved_of t evs) + 1) \<and>
    ((\<forall>t. writers s' t = W_idle) \<longrightarrow> pending (tgroup s') = mset (map (call_entry \<circ> snd \<circ> snd) (saved evs)) \<and>
       (\<forall>t. saved_of t evs = calls_of t evs) \<and> trace_wf (tgroup s')) \<and>
    (\<forall>W t f. trace_access W (writers s' t) (tgroup s') = Inl f \<longrightarrow>
       (\<exists>c. writers s' t = W_spin c) \<and> (\<exists>u. holding (writers s' u)) \<or>
       (\<exists>c p. writers s' t = W_assert c p \<and> num_alloc_formats (tgroup s') \<le> tc_id c))"
proof -
  have inv: "trace_inv (tgroup s) evs s'"
    using trace_run_keeps [OF assms(1) trace_start(1,3,2) [OF assms(2,3)] assms(5)] by blast
  then have c: "calls_of t evs = saved_of t evs @ wr_open (writers s' t)" for t by (simp add: trace_inv_def Let_def)
  have "length (wr_open st) \<le> 1" for st by (cases st) simp_all
  then show ?thesis using inv_pending [OF inv] inv_idle [OF inv _ assms(4,2)] inv_faults [OF inv] c by simp blast
qed

subsection \<open>A run\<close>

text \<open>A schedule: which thread moves, and the trace it adds when it is idle.\<close>

fun trace_play :: "nat set \<Rightarrow> (nat \<times> trace_call) list \<Rightarrow> tracing \<Rightarrow> fault + (trace_event list \<times> tracing)" where
  "trace_play W [] s = Inr ([], s)"
| "trace_play W ((t, c) # moves) s =
     bindE (if writers s t = W_idle then Inr ([Begin t c], s\<lparr>writers := (writers s)(t := W_spin c)\<rparr>)
            else bindE (trace_access W (writers s t) (tgroup s)) (\<lambda>(st, g).
                   Inr (shown t (writers s t), s\<lparr>tgroup := g, writers := (writers s)(t := st)\<rparr>))) (\<lambda>(ev, s).
     bindE (trace_play W moves s) (\<lambda>(evs, s). Inr (ev @ evs, s)))"

lemma trace_run_from:
  assumes "trace_run s1 evs s2" "trace_step s ev s1"
  shows "trace_run s (ev @ evs) s2"
  using assms
proof (induction rule: trace_run.induct)
  case (no_step s1)
  show ?case using trace_run.next_step [OF trace_run.no_step no_step] by simp
next
  case (next_step s1 evs s2 ev' s3)
  from trace_run.next_step [OF next_step.IH [OF next_step.prems] next_step.hyps(2)] show ?case by simp
qed

lemma trace_play_run: "trace_play W moves s = Inr (evs, s') \<Longrightarrow> trace_run s evs s'"
proof (induction W moves s arbitrary: evs s' rule: trace_play.induct)
  case (1 W s)
  then show ?case by (simp add: no_step)
next
  case (2 W t c moves s)
  let ?first = "if writers s t = W_idle then Inr ([Begin t c], s\<lparr>writers := (writers s)(t := W_spin c)\<rparr>)
    else bindE (trace_access W (writers s t) (tgroup s)) (\<lambda>(st, g).
      Inr (shown t (writers s t), s\<lparr>tgroup := g, writers := (writers s)(t := st)\<rparr>))"
  from 2(2) obtain ev s1 evs' where p: "?first = Inr (ev, s1)" "trace_play W moves s1 = Inr (evs', s')" "evs = ev @ evs'"
    by (auto simp: bindE_eq_Inr)
  have "trace_run s1 evs' s'" by (rule 2(1) [OF p(1) refl p(2)])
  moreover have "trace_step s ev s1" using p(1) by (auto simp: bindE_eq_Inr begin_trace one_access split: if_splits)
  ultimately show ?case using trace_run_from p(3) by simp
qed

definition demo_torn :: Trace_entry where
  "demo_torn = \<lparr>linux_time = zero_time, trace_id = 7, thread_id = 7, line_num = 7, te_status = DATA_IND, future_use = 7, vals = [7, 2, 3, 255]\<rparr>"

definition demo_buf :: "Trace_entry list" where
  "demo_buf = replicate TRACE_ENTRIES_NUM (demo_torn\<lparr>te_status := NO_DATA_IND\<rparr>)"

definition demo_tracing :: tracing where
  "demo_tracing =
     \<lparr>tgroup = trace_zero\<lparr>num_alloc_formats := 1, trace_fifo := (trace_fifo trace_zero)\<lparr>number_chunks := of_nat TRACE_ENTRIES_NUM,
        single_chunk_size := sizeof_Trace_entry, wr_ind := 1, chunk_buf := demo_buf\<rparr>\<rparr>, writers = (\<lambda>_. W_idle)\<rparr>"

text \<open>Thread 0 is in the middle of its copy while thread 1 adds its trace.\<close>

definition demo_schedule :: "(nat \<times> trace_call) list" where
  "demo_schedule = map (\<lambda>t. if t = 0 then (0, demo_call 1) else (1, demo_call 2))
     [0, 0, 0, 0, 0, 0, 0, 0, 1, 1, 1, 1, 1, 1, 1, 1, 1, 0 :: nat]"

lemma demo_buf_length [simp]: "length demo_buf = 1000"
  by (simp add: demo_buf_def TRACE_ENTRIES_NUM_def)

lemma demo_played:
  "\<exists>s. trace_play {..<4} demo_schedule demo_tracing =
     Inr ([Begin 0 (demo_call 1), Alloc 0, Begin 1 (demo_call 2), Alloc 1, Saved 1 3 (demo_call 2), Saved 0 2 (demo_call 1)], s) \<and>
     writers s = (\<lambda>_. W_idle)"
  by (simp add: demo_schedule_def demo_tracing_def trace_zero_def OSA_spinlock_lock_def OSA_spinlock_unlock_def next_ind_def
      StaticMemArea_GetWriteBufP_def store_words_def chunk_load_def chunk_store_def chunk_index_def Let_def ASSERT_def sizeof_Trace_entry_def TRACE_ENTRIES_NUM_def
      demo_call_def fun_eq_iff)

lemma demo_tracing_ok: "trace_wf (tgroup demo_tracing)" "pending (tgroup demo_tracing) = {#}" "\<forall>t. writers demo_tracing t = W_idle"
proof -
  have none: "\<not> has_data e" if "e \<in> set demo_buf" for e using that by (auto simp: demo_buf_def has_data_def)
  then show "pending (tgroup demo_tracing) = {#}" by (simp add: pending_def demo_tracing_def filter_mset_eq_mempty_iff)
  have "trace_arrays_wf (tgroup demo_tracing)"
    by (simp add: trace_arrays_wf_def demo_tracing_def trace_zero_def name_array_def array_names_def TRACE_ENTRIES_NUM_def
        MAX_TRACE_FORMATS_def TRACE_STRING_SIZE_def terminated_def)
  moreover have "pool_wf (trace_fifo (tgroup demo_tracing))"
    by (simp add: pool_wf_def demo_tracing_def trace_zero_def sizeof_Trace_entry_def TRACE_ENTRIES_NUM_def)
  ultimately show "trace_wf (tgroup demo_tracing)" using none by (simp add: trace_wf_def demo_tracing_def)
  show "\<forall>t. writers demo_tracing t = W_idle" by (simp add: demo_tracing_def)
qed

theorem traces_from_threads_witness:
  "\<exists>s. trace_play {..<4} demo_schedule demo_tracing =
     Inr ([Begin 0 (demo_call 1), Alloc 0, Begin 1 (demo_call 2), Alloc 1, Saved 1 3 (demo_call 2), Saved 0 2 (demo_call 1)], s) \<and>
     pending (tgroup s) = {#call_entry (demo_call 2), call_entry (demo_call 1)#} \<and> trace_wf (tgroup s)"
proof -
  obtain s where s: "trace_play {..<4} demo_schedule demo_tracing =
     Inr ([Begin 0 (demo_call 1), Alloc 0, Begin 1 (demo_call 2), Alloc 1, Saved 1 3 (demo_call 2), Saved 0 2 (demo_call 1)], s)"
    "writers s = (\<lambda>_. W_idle)" using demo_played by blast
  from traces_from_threads [OF trace_play_run [OF s(1)] demo_tracing_ok(1,3,2)] s(2)
  have "pending (tgroup s) = {#call_entry (demo_call 2), call_entry (demo_call 1)#} \<and> trace_wf (tgroup s)"
    by (simp add: TRACE_ENTRIES_NUM_def)
  with s(1) show ?thesis by blast
qed

end
