(* ===== verification/Trace_Torn.thy ===== *)
theory Trace_Torn
  imports Trace_Threads
begin

section \<open>Reading while a trace is being written\<close>

text \<open>
  \<open>GetTraceEntry\<close> takes no lock and recognises an entry by its \<open>status\<close>. The status stands before the values in the entry, and
  \<open>AddTrace\<close> fills the entry with one \<open>memcpy\<close>: when the words are moved in their order, a reader that comes when the status is
  there and some value is not takes an entry with a value of an older one.
\<close>

text \<open>The entry when the words before the values are moved, the status with them, and \<open>n\<close> of the values.\<close>

definition torn_entry :: "nat \<Rightarrow> Trace_entry \<Rightarrow> Trace_entry \<Rightarrow> Trace_entry" where
  "torn_entry n new old = new\<lparr>vals := take n (vals new) @ map ((!) (vals old)) [n..<4]\<rparr>"

lemma copied_torn:
  assumes "length (vals new) = 4"
  shows "copied {..<4 + n} new old = torn_entry n new old"
proof (rule Trace_entry.equality)
  have "take n (vals new) @ map ((!) (vals old)) [n..<4] = map (\<lambda>i. vals (if i < n then new else old) ! i) [0..<4]"
    using assms by (intro nth_equalityI) (auto simp: nth_append min_def)
  then show "vals (copied {..<4 + n} new old) = vals (torn_entry n new old)" by (simp add: copied_def torn_entry_def)
qed (auto simp: copied_def torn_entry_def)

lemma torn_call:
  "\<exists>c'. torn_entry n (call_entry c) old = call_entry c' \<and> tc_id c' = tc_id c \<and> tc_now c' = tc_now c"
proof -
  let ?v = "take n (vals (call_entry c)) @ map ((!) (vals old)) [n..<4]"
  have four: "\<exists>v0 v1 v2 v3. v = [v0, v1, v2, v3]" if "length v = 4" for v :: "u64 list"
    using that by (auto simp: length_Suc_conv numeral_eq_Suc)
  have "length ?v = 4" by (simp add: min_def)
  then obtain v0 v1 v2 v3 where v: "?v = [v0, v1, v2, v3]" using four by blast
  show ?thesis
    by (rule exI [of _ "c\<lparr>tc_v0 := v0, tc_v1 := v1, tc_v2 := v2, tc_v3 := v3\<rparr>"])
      (simp add: torn_entry_def v, simp add: call_entry_def new_entry_def)
qed

lemma play_to_copy:
  assumes wf: "trace_wf g" and c: "tc_id c < num_alloc_formats g"
  shows "\<exists>p. entry_ptr p \<and> unat p div unat sizeof_Trace_entry = pool_next (trace_fifo g) \<and>
    trace_play W (replicate 8 (t, c)) \<lparr>tgroup = g, writers = (\<lambda>_. W_idle)\<rparr> =
      Inr ([Begin t c, Alloc t],
        \<lparr>tgroup = g\<lparr>trace_fifo := (trace_fifo g)\<lparr>wr_ind := of_nat (pool_next (trace_fifo g)),
           chunk_buf := (chunk_buf (trace_fifo g))[pool_next (trace_fifo g) := copied W (call_entry c) (chunk_buf (trace_fifo g) ! pool_next (trace_fifo g))]\<rparr>\<rparr>, writers = (\<lambda>_. W_idle)(t := W_copied c p W)\<rparr>)"
proof -
  let ?m = "trace_fifo g" and ?k = "pool_next (trace_fifo g)"
  let ?g1 = "g\<lparr>trace_fifo := ?m\<lparr>wr_ind := of_nat ?k\<rparr>\<rparr>" and ?p = "StaticMemArea_GetWriteBufP (?m\<lparr>wr_ind := of_nat ?k\<rparr>)"
  have ok: "group_ok g g" using trace_start(2) [of "\<lparr>tgroup = g, writers = (\<lambda>_. W_idle)\<rparr>"] wf by simp
  note f = group_facts [OF ok]
  have ok1: "group_ok g ?g1" using group_ok_wr [OF ok, of "of_nat ?k"] f(4,5) by simp
  have "unat sizeof_Trace_entry = 64" by (simp add: sizeof_Trace_entry_def)
  then have p: "unat ?p div unat sizeof_Trace_entry = ?k" "entry_ptr ?p"
    using group_facts(7) [OF ok1] f(4,5) by (auto simp: entry_ptr_def)
  have l: "\<not> out_lock ?m" using wf by (simp add: trace_wf_def pool_wf_def)
  have un: "?m\<lparr>out_lock := True, wr_ind := w, out_lock := False\<rparr> = ?m\<lparr>wr_ind := w\<rparr>" for w using l by (cases ?m) simp
  have ptr: "StaticMemArea_GetWriteBufP (?m\<lparr>out_lock := b, wr_ind := w\<rparr>) = StaticMemArea_GetWriteBufP (?m\<lparr>wr_ind := w\<rparr>)" for b w
    by (simp add: StaticMemArea_GetWriteBufP_def)
  have "trace_play W [(t, c), (t, c), (t, c), (t, c), (t, c), (t, c), (t, c), (t, c)] \<lparr>tgroup = g, writers = (\<lambda>_. W_idle)\<rparr> =
      Inr ([Begin t c, Alloc t], \<lparr>tgroup = g\<lparr>trace_fifo := ?m\<lparr>wr_ind := of_nat ?k, chunk_buf := (chunk_buf ?m)[?k := copied W (call_entry c) (chunk_buf ?m ! ?k)]\<rparr>\<rparr>,
        writers = (\<lambda>_. W_idle)(t := W_copied c ?p W)\<rparr>)"
    using l c f(6) store_words_entry [OF ok1 p(2), of W "call_entry c"] p(1)
    by (simp add: OSA_spinlock_lock_def OSA_spinlock_unlock_def ptr un)
  moreover have "replicate 8 (t, c) = [(t, c), (t, c), (t, c), (t, c), (t, c), (t, c), (t, c), (t, c)]" by (simp add: numeral_eq_Suc)
  ultimately show ?thesis using p by auto
qed

text \<open>The rest of the copy stores values only.\<close>

lemma no_data_after_rest:
  assumes "pending g = {#}" "k < length (chunk_buf (trace_fifo g))"
  shows "\<forall>e \<in> set ((chunk_buf (trace_fifo g))[k := copied (- {..<4 + n}) new (chunk_buf (trace_fifo g) ! k)]). \<not> has_data e"
proof -
  have none: "\<not> has_data e" if "e \<in> set (chunk_buf (trace_fifo g))" for e using assms(1) that pending_iff [of e g] by auto
  have "\<not> has_data (copied (- {..<4 + n}) new (chunk_buf (trace_fifo g) ! k))"
    using none [OF nth_mem [OF assms(2)]] by (simp add: has_data_def copied_def)
  then show ?thesis using none set_update_subset_insert [of "chunk_buf (trace_fifo g)" k] by blast
qed

lemma rest_of_copy:
  assumes wf: "trace_wf g" "pending g = {#}" and p: "entry_ptr p"
  shows "\<exists>g'. trace_access W (W_copied c p {..<4 + n}) g = Inr (W_idle, g') \<and> trace_wf g' \<and> pending g' = {#}"
proof -
  let ?i = "unat p div unat sizeof_Trace_entry" and ?b = "chunk_buf (trace_fifo g)"
  let ?b' = "?b[?i := copied (- {..<4 + n}) (call_entry c) (?b ! ?i)]"
  let ?g = "g\<lparr>trace_fifo := (trace_fifo g)\<lparr>chunk_buf := ?b'\<rparr>\<rparr>"
  have ok: "group_ok g g" using trace_start(2) [of "\<lparr>tgroup = g, writers = (\<lambda>_. W_idle)\<rparr>"] wf(1) by simp
  have none: "\<forall>e \<in> set ?b'. \<not> has_data e"
    using no_data_after_rest [OF wf(2), of ?i n "call_entry c"] entry_ptr_div [OF p] group_facts(1) [OF ok] by simp
  then have "pending ?g = {#}" by (simp add: pending_def filter_mset_eq_mempty_iff)
  moreover have "trace_wf ?g" using wf(1) none by (simp add: trace_wf_def trace_arrays_wf_def pool_wf_buf)
  ultimately show ?thesis using store_words_entry [OF ok p, of "- {..<4 + n}" "call_entry c"] by simp
qed

text \<open>C30: a trace that is read while it is written. A thread adds a trace to a well-formed group with nothing to read, with a format that
  is registered, and \<open>memcpy\<close> moves the words of the entry in their order. When the status and \<open>n\<close> of the four values are moved, a reader comes
  (its clock is later than the time stamp, its buffer has room for the text): it delivers the trace with the time stamp of the call and a
  text made of the first \<open>n\<close> values of the call and of the other values of the entry that was in memory before, and marks
  the entry as read. Then the thread moves the other values; the status is not among them, so a reader that comes now finds nothing:
  the values of the call are never delivered.\<close>

theorem trace_read_torn:
  assumes wf: "trace_wf g" "pending g = {#}" "tc_id c < num_alloc_formats g"
    and old: "old = chunk_buf (trace_fifo g) ! pool_next (trace_fifo g)"
    and time: "valid_time now" "valid_time (tc_now c)" "ns_of (tc_now c) < ns_of now"
    and fits: "printable g (length dst) (torn_entry n (call_entry c) old)"
  shows "\<exists>s p str g2 g3. trace_play {..<4 + n} (replicate 8 (t, c)) \<lparr>tgroup = g, writers = (\<lambda>_. W_idle)\<rparr> = Inr ([Begin t c, Alloc t], s) \<and>
    writers s t = W_copied c p {..<4 + n} \<and>
    trace_GetTraceEntry now dst (tgroup s) = Inr (Some (str, tc_now c), g2) \<and> str_of str = text_of g (torn_entry n (call_entry c) old) \<and>
    trace_access W (writers s t) g2 = Inr (W_idle, g3) \<and> trace_GetTraceEntry now' dst' g3 = Inr (None, g3)"
proof -
  let ?m = "trace_fifo g" and ?k = "pool_next (trace_fifo g)" and ?D = "{..<4 + n}"
  obtain c' where c': "torn_entry n (call_entry c) old = call_entry c'" "tc_id c' = tc_id c" "tc_now c' = tc_now c"
    using torn_call [of n c old] by blast
  let ?g1 = "g\<lparr>trace_fifo := ?m\<lparr>wr_ind := of_nat ?k, chunk_buf := (chunk_buf ?m)[?k := call_entry c']\<rparr>\<rparr>"
  obtain p where p: "entry_ptr p" "unat p div unat sizeof_Trace_entry = ?k"
    "trace_play ?D (replicate 8 (t, c)) \<lparr>tgroup = g, writers = (\<lambda>_. W_idle)\<rparr> =
      Inr ([Begin t c, Alloc t], \<lparr>tgroup = ?g1, writers = (\<lambda>_. W_idle)(t := W_copied c p ?D)\<rparr>)"
    using play_to_copy [OF wf(1,3), where W = ?D and t = t] by (auto simp: copied_torn old c'(1) [symmetric])
  have add: "add_call c' g = Inr ?g1" using AddTrace_eq [OF wf(1), of "tc_id c'"] wf(3) c' by (simp add: add_call_def call_entry_def Let_def)
  then have "foldE add_call [c'] g = Inr ?g1" by simp
  then obtain g1: "trace_wf ?g1" "trace_history ?g1 = keep_last TRACE_ENTRIES_NUM (trace_history g @ map call_entry [c'])"
    using AddTrace_run_history [OF wf(1), of "[c']"] wf(3) c'(2) by auto
  have pend: "pending ?g1 = {#call_entry c'#}"
    using pending_after_adds [OF wf(1,2) g1] by (simp add: keep_last_def TRACE_ENTRIES_NUM_def)
  have same: "text_of ?g1 = text_of g" "printable ?g1 = printable g"
    by (auto simp: text_of_def printable_def trace_header_def trace_body_def intro!: ext)
  have "readable now (length dst) ?g1" using time fits c'(1,3) by (simp add: readable_def pend same)
  from trace_read_some [OF g1(1) this] obtain k e str where r: "trace_GetTraceEntry now dst ?g1 = Inr (Some (str, linux_time e), clear_entry k ?g1)"
    "trace_wf (clear_entry k ?g1)" "str_of str = text_of ?g1 e" "pending ?g1 = add_mset e (pending (clear_entry k ?g1))"
    by (auto simp: pend)
  let ?g2 = "clear_entry k ?g1"
  have e: "e = call_entry c'" "pending ?g2 = {#}" using r(4) by (simp_all add: pend)
  have l: "?k < length (chunk_buf (trace_fifo ?g2))" using r(2) entry_ptr_div [OF p(1)] p(2) by (simp add: trace_wf_def trace_arrays_wf_def)
  obtain g3 where g3: "trace_access W (W_copied c p ?D) ?g2 = Inr (W_idle, g3)" "trace_wf g3" "pending g3 = {#}"
    using rest_of_copy [OF r(2) e(2) p(1), of W c n] by blast
  have "linux_time e = tc_now c" "str_of str = text_of g (torn_entry n (call_entry c) old)" using e(1) c'(1,3) r(3) same(1) by simp_all
  then show ?thesis using p(3) r(1) g3(1) trace_read_none [OF g3(2,3)] by (intro exI conjI) (assumption | simp)+
qed

text \<open>The group of the run above: the entry that is written next holds the values 7, 2, 3, 255 and is marked as read.\<close>

lemma demo_old:
  "\<exists>g. trace_wf g \<and> pending g = {#} \<and> num_alloc_formats g = 1 \<and> printable g 256 (call_entry (demo_call 1)) \<and>
     vals (chunk_buf (trace_fifo g) ! pool_next (trace_fifo g)) = [7, 2, 3, 255]"
proof -
  obtain g where g: "trace_wf g" "num_alloc_formats g = 1" "printable g 256 (call_entry (demo_call 1))"
    using demo_group by auto
  let ?g = "g\<lparr>trace_fifo := (trace_fifo g)\<lparr>chunk_buf := demo_buf\<rparr>\<rparr>"
  have none: "\<not> has_data e" if "e \<in> set demo_buf" for e using that by (auto simp: demo_buf_def has_data_def)
  have len: "length (chunk_buf (trace_fifo g)) = length demo_buf" using g(1) by (simp add: trace_wf_def trace_arrays_wf_def TRACE_ENTRIES_NUM_def)
  then have "trace_wf ?g" using g(1) none by (simp add: trace_wf_def trace_arrays_wf_def pool_wf_buf)
  moreover have "pending ?g = {#}" using none by (simp add: pending_def filter_mset_eq_mempty_iff)
  moreover have "printable ?g = printable g" by (auto simp: printable_def trace_header_def trace_body_def intro!: ext)
  moreover have "pool_next (trace_fifo ?g) < 1000" by (simp add: pool_next_def)
  then have "vals (chunk_buf (trace_fifo ?g) ! pool_next (trace_fifo ?g)) = [7, 2, 3, 255]"
    by (simp add: demo_buf_def demo_torn_def TRACE_ENTRIES_NUM_def)
  ultimately show ?thesis using g(2,3) by (intro exI [of _ ?g]) simp
qed

text \<open>The call has the values 1, 9, 9, 9; what is delivered are the values 1, 2, 3, 255.\<close>

theorem trace_read_torn_witness:
  "\<exists>g s p str g2 g3. trace_play {..<5} (replicate 8 (0, (demo_call 1)\<lparr>tc_v1 := 9, tc_v2 := 9, tc_v3 := 9\<rparr>)) \<lparr>tgroup = g, writers = (\<lambda>_. W_idle)\<rparr> =
       Inr ([Begin 0 ((demo_call 1)\<lparr>tc_v1 := 9, tc_v2 := 9, tc_v3 := 9\<rparr>), Alloc 0], s) \<and>
     writers s 0 = W_copied ((demo_call 1)\<lparr>tc_v1 := 9, tc_v2 := 9, tc_v3 := 9\<rparr>) p {..<5} \<and>
     trace_GetTraceEntry \<lparr>tv_sec = 3, tv_nsec = 0\<rparr> (replicate 256 NUL) (tgroup s) = Inr (Some (str, \<lparr>tv_sec = 1, tv_nsec = 0\<rparr>), g2) \<and>
     str_of str = text_of g (call_entry (demo_call 1)) \<and>
     trace_access {} (writers s 0) g2 = Inr (W_idle, g3) \<and>
     trace_GetTraceEntry \<lparr>tv_sec = 3, tv_nsec = 0\<rparr> (replicate 256 NUL) g3 = Inr (None, g3)"
proof -
  let ?c = "(demo_call 1)\<lparr>tc_v1 := 9, tc_v2 := 9, tc_v3 := 9\<rparr>" and ?now = "\<lparr>tv_sec = 3, tv_nsec = 0\<rparr> :: timespec"
  obtain g where g: "trace_wf g" "pending g = {#}" "num_alloc_formats g = 1" "printable g 256 (call_entry (demo_call 1))"
    "vals (chunk_buf (trace_fifo g) ! pool_next (trace_fifo g)) = [7, 2, 3, 255]"
    using demo_old by blast
  have torn: "torn_entry 1 (call_entry ?c) (chunk_buf (trace_fifo g) ! pool_next (trace_fifo g)) = call_entry (demo_call 1)"
    using g(5) by (simp add: torn_entry_def call_entry_def new_entry_def demo_call_def upt_rec)
  have h: "tc_id ?c < num_alloc_formats g" "valid_time ?now" "valid_time (tc_now ?c)" "ns_of (tc_now ?c) < ns_of ?now"
    "printable g (length (replicate 256 NUL)) (torn_entry 1 (call_entry ?c) (chunk_buf (trace_fifo g) ! pool_next (trace_fifo g)))"
    and now: "tc_now ?c = \<lparr>tv_sec = 1, tv_nsec = 0\<rparr>"
    using g(3,4) demo_times torn by (simp_all add: demo_call_def ns_of_def)
  have five: "{..<4 + 1} = {..<5 :: nat}" by simp
  from trace_read_torn [OF g(1,2) h(1) refl h(2-5), where t = 0 and W = "{}" and now' = ?now and dst' = "replicate 256 NUL"]
  show ?thesis unfolding now torn five by blast
qed

end
