(* ===== verification/Log_Group.thy ===== *)
theory Log_Group
  imports Area_Fifo C_Printf Time_Spec
begin

section \<open>Logs of one group: \<open>CLog_group\<close>\<close>

text \<open>
  The log buffer of a group (\<open>rt_debug_types.h\<close>): a FIFO of the last messages, each with its time
  stamp. \<open>AddLog\<close> drops the oldest message when the buffer is full; \<open>GetLogEntry\<close> removes the
  oldest one and prints it into a buffer of the caller. The clock reading is an argument.
\<close>

definition LOG_STRING_SIZE :: nat where [const_defs]: "LOG_STRING_SIZE = TRACE_STRING_SIZE - 16"
definition sizeof_LogEntry :: u32 where [const_defs]: "sizeof_LogEntry = 128"

record LogEntry =
  le_time :: timespec
  log_str :: cbuf

record CLog_group =
  logs_fifo :: "LogEntry mem_area"
  lg_group_name :: cbuf

definition log_SetGroupName :: "string \<Rightarrow> CLog_group \<Rightarrow> fault + CLog_group" where
  "log_SetGroupName nm g = bindE (strcpy (lg_group_name g) nm) (\<lambda>b. Inr (g\<lparr>lg_group_name := b\<rparr>))"

definition log_Reset :: "bool \<Rightarrow> CLog_group \<Rightarrow> fault + CLog_group" where
  "log_Reset attach g =
     (if \<not> attach then
        bindE (StaticMemArea_Setup (of_nat LOG_GROUP_BUFSIZE) sizeof_LogEntry ''Log_data'' E_READ 0
                 (logs_fifo g)) (\<lambda>m. Inr (g\<lparr>logs_fifo := m\<rparr>))
      else Inr g)"

text \<open>\<open>strncpy\<close> overwrites the whole of the local \<open>tmp_entry.log_str\<close>, whatever it held.\<close>

definition AddLog :: "timespec \<Rightarrow> string \<Rightarrow> CLog_group \<Rightarrow> (fault + CLog_group) option" where
  "AddLog now str g =
     bindD (Some (strncpy (replicate LOG_STRING_SIZE NUL) str LOG_STRING_SIZE)) (\<lambda>b.
     bindD (push_evict (\<lambda>d. StaticMemArea_PushFIFO_MT d sizeof_LogEntry)
              (StaticMemArea_PopFIFO_MT sizeof_LogEntry)
              \<lparr>le_time = now, log_str = b\<rparr> (logs_fifo g)) (\<lambda>m.
       Some (Inr (g\<lparr>logs_fifo := m\<rparr>))))"

text \<open>\<open>None\<close> is the result \<open>false\<close>; \<open>Some\<close> gives the two output arguments.\<close>

definition GetLogEntry ::
  "cbuf \<Rightarrow> CLog_group \<Rightarrow> fault + ((cbuf \<times> timespec) option \<times> CLog_group)" where
  "GetLogEntry log_entry g =
     bindE (StaticMemArea_PopFIFO_MT sizeof_LogEntry (logs_fifo g)) (\<lambda>(r, m).
       let g = g\<lparr>logs_fifo := m\<rparr> in
       case r of
         None \<Rightarrow> Inr (None, g)
       | Some tmp_entry \<Rightarrow>
           bindE (c_str (lg_group_name g)) (\<lambda>gname.
           bindE (c_str (log_str tmp_entry)) (\<lambda>s.
           bindE (sprintf log_entry ''%lu, %s,  %s''
                    [AInt (timespec_to_ns (le_time tmp_entry)), AStr gname, AStr s]) (\<lambda>b.
             Inr (Some (b, le_time tmp_entry), g)))))"

subsection \<open>Invariant\<close>

text \<open>The messages in the buffer, as their time and text.\<close>

definition messages :: "CLog_group \<Rightarrow> (timespec \<times> string) list" where
  "messages g = map (\<lambda>e. (le_time e, str_of (log_str e))) (fifo_contents (logs_fifo g))"

definition log_wf :: "CLog_group \<Rightarrow> bool" where
  "log_wf g \<longleftrightarrow> area_ready sizeof_LogEntry (logs_fifo g) \<and>
     length (chunk_buf (logs_fifo g)) = LOG_GROUP_BUFSIZE \<and>
     length (lg_group_name g) = TRACE_STRING_SIZE \<and> terminated (lg_group_name g) \<and>
     (\<forall>e \<in> set (fifo_contents (logs_fifo g)). terminated (log_str e))"

abbreviation log_cap :: nat where "log_cap \<equiv> LOG_GROUP_BUFSIZE - 2"

lemma log_fifo_cap: "log_wf g \<Longrightarrow> fifo_cap (logs_fifo g) = log_cap"
  by (simp add: log_wf_def fifo_cap_def)

definition log_shape :: "CLog_group \<Rightarrow> bool" where
  "log_shape g \<longleftrightarrow> length (chunk_buf (logs_fifo g)) = LOG_GROUP_BUFSIZE \<and>
     elem_size (logs_fifo g) = sizeof_LogEntry \<and> length (area_name (logs_fifo g)) = MDO_NAME_SIZE \<and>
     length (lg_group_name g) = TRACE_STRING_SIZE"

lemma log_Reset_ok:
  assumes "log_shape g"
  shows "\<exists>g'. log_Reset False g = Inr g' \<and> log_shape g' \<and> messages g' = [] \<and>
    area_ready sizeof_LogEntry (logs_fifo g') \<and> lg_group_name g' = lg_group_name g"
proof -
  let ?m = "logs_fifo g"
  have "\<exists>m'. StaticMemArea_Setup (of_nat LOG_GROUP_BUFSIZE) sizeof_LogEntry ''Log_data'' E_READ 0 ?m
      = Inr m' \<and> area_wf m' \<and> fifo_contents m' = [] \<and> chunk_buf m' = chunk_buf ?m \<and>
      elem_size m' = elem_size ?m \<and> attrib m' = 0 \<and> length (area_name m') = length (area_name ?m) \<and>
      terminated (area_name m') \<and> str_of (area_name m') = ''Log_data'' \<and>
      rd_ind m' = 0 \<and> wr_ind m' = 1 \<and> ptr_producer m' = ptr_producer ?m \<and>
      ptr_consumer m' = ptr_consumer ?m"
    using assms by (intro Setup_ready)
      (auto simp: log_shape_def const_defs ALIGN_SIZE_def c_string_def)
  then obtain m' where "StaticMemArea_Setup (of_nat LOG_GROUP_BUFSIZE) sizeof_LogEntry ''Log_data''
      E_READ 0 ?m = Inr m'" "area_wf m'" "fifo_contents m' = []" "chunk_buf m' = chunk_buf ?m"
      "elem_size m' = elem_size ?m" "length (area_name m') = length (area_name ?m)" by blast
  then show ?thesis
    using assms by (intro exI [of _ "g\<lparr>logs_fifo := m'\<rparr>"])
      (simp add: log_Reset_def log_shape_def messages_def area_ready_def)
qed

lemma log_SetGroupName_ok:
  assumes "log_shape g" "messages g = []" "area_ready sizeof_LogEntry (logs_fifo g)"
    "fits TRACE_STRING_SIZE nm"
  shows "\<exists>g'. log_SetGroupName nm g = Inr g' \<and> log_wf g' \<and> messages g' = [] \<and> log_shape g' \<and>
    str_of (lg_group_name g') = nm"
proof -
  obtain b where "strcpy (lg_group_name g) nm = Inr b" "length b = TRACE_STRING_SIZE"
    "terminated b" "str_of b = nm"
    using assms strcpy_ok [of nm "lg_group_name g"] by (auto simp: log_shape_def fits_def)
  with assms show ?thesis
    by (intro exI [of _ "g\<lparr>lg_group_name := b\<rparr>"])
      (auto simp: log_SetGroupName_def log_shape_def log_wf_def messages_def)
qed

subsection \<open>Adding a message\<close>

text \<open>A message that the buffer can hold with its terminator.\<close>

abbreviation loggable :: "string \<Rightarrow> bool" where "loggable \<equiv> fits LOG_STRING_SIZE"

lemma AddLog_ok:
  assumes wf: "log_wf g" and s: "loggable s"
  shows "\<exists>g'. AddLog now s g = Some (Inr g') \<and> log_wf g' \<and>
    messages g' = keep_last log_cap (messages g @ [(now, s)]) \<and>
    lg_group_name g' = lg_group_name g \<and> area_frame (logs_fifo g') = area_frame (logs_fifo g)"
proof -
  obtain b where b: "strncpy (replicate LOG_STRING_SIZE NUL) s LOG_STRING_SIZE = Inr b"
    "terminated b" "str_of b = s"
    using strncpy_ok [of s LOG_STRING_SIZE "replicate LOG_STRING_SIZE NUL"] s
    by (auto simp: fits_def)
  let ?e = "\<lparr>le_time = now, log_str = b\<rparr>" and ?m = "logs_fifo g"
  have cap: "fifo_cap ?m = log_cap" using log_fifo_cap [OF wf] .
  have "area_ready sizeof_LogEntry ?m" "0 < fifo_cap ?m"
    using wf cap by (auto simp: log_wf_def LOG_GROUP_BUFSIZE_def)
  from sq.evict_spec [OF this, of ?e] obtain m' where m':
    "push_evict (\<lambda>d. StaticMemArea_PushFIFO_MT d sizeof_LogEntry)
       (StaticMemArea_PopFIFO_MT sizeof_LogEntry) ?e ?m = Some (Inr m')"
    "area_ready sizeof_LogEntry m'" "fifo_contents m' = keep_last log_cap (fifo_contents ?m @ [?e])"
    "area_frame m' = area_frame ?m" unfolding cap by blast
  let ?g' = "g\<lparr>logs_fifo := m'\<rparr>"
  have "AddLog now s g = Some (Inr ?g')" using b(1) m'(1) by (simp add: AddLog_def)
  moreover have "\<forall>e \<in> set (fifo_contents m'). terminated (log_str e)"
    using set_keep_last [of log_cap "fifo_contents ?m @ [?e]"] wf b(2)
    unfolding m'(3) by (auto simp: log_wf_def)
  then have "log_wf ?g'"
    using wf m'(2,4) by (simp add: log_wf_def area_frame_def)
  moreover have "messages ?g' = keep_last log_cap (messages g @ [(now, s)])"
    using m'(3) b(3) by (simp add: messages_def keep_last_map [symmetric])
  ultimately show ?thesis using m'(4) by (intro exI [of _ ?g']) simp
qed

text \<open>The loop of a client that adds messages.\<close>

fun add_logs :: "(timespec \<times> string) list \<Rightarrow> CLog_group \<Rightarrow> (fault + CLog_group) option" where
  "add_logs [] g = Some (Inr g)"
| "add_logs ((t, s) # ls) g = bindD (AddLog t s g) (add_logs ls)"

lemma add_logs_ok:
  assumes "log_wf g" "\<forall>(t, s) \<in> set ls. loggable s"
  shows "\<exists>g'. add_logs ls g = Some (Inr g') \<and> log_wf g' \<and>
    messages g' = keep_last log_cap (messages g @ ls) \<and> lg_group_name g' = lg_group_name g"
  using assms
proof (induction ls arbitrary: g)
  case Nil
  have "length (messages g) \<le> log_cap"
    using Nil.prems(1) contents_len_cap [of "logs_fifo g"] log_fifo_cap [of g]
    by (simp add: messages_def log_wf_def area_ready_def)
  with Nil show ?case by simp
next
  case (Cons l ls)
  obtain t s where l: "l = (t, s)" by fastforce
  with Cons.prems have "loggable s" by simp
  from AddLog_ok [OF Cons.prems(1) this] obtain g1 where g1: "AddLog t s g = Some (Inr g1)"
    "log_wf g1" "messages g1 = keep_last log_cap (messages g @ [(t, s)])"
    "lg_group_name g1 = lg_group_name g" by blast
  from Cons.IH [OF g1(2)] Cons.prems(2) obtain g2 where "add_logs ls g1 = Some (Inr g2)" "log_wf g2"
    "messages g2 = keep_last log_cap (messages g1 @ ls)" "lg_group_name g2 = lg_group_name g1"
    by auto
  with g1 l show ?case by (simp add: keep_last_append)
qed

subsection \<open>Reading the oldest message\<close>

definition log_line :: "string \<Rightarrow> timespec \<times> string \<Rightarrow> string" where
  "log_line gname = (\<lambda>(t, s).
     dec_nat (unat (timespec_to_ns t)) @ '', '' @ gname @ '',  '' @ s)"

lemma log_format:
  "c_format ''%lu, %s,  %s'' [AInt w, AStr gname, AStr s] =
    Inr (dec_nat (unat w) @ '', '' @ gname @ '',  '' @ s)"
  by (simp add: conv_int_def)

lemma GetLogEntry_eq:
  assumes wf: "log_wf g"
  shows "messages g = [] \<Longrightarrow> GetLogEntry dst g = Inr (None, g)"
    "messages g = (t, s) # ms \<Longrightarrow>
      \<exists>g'. log_wf g' \<and> messages g' = ms \<and> lg_group_name g' = lg_group_name g \<and>
        area_frame (logs_fifo g') = area_frame (logs_fifo g) \<and> GetLogEntry dst g = bindE (strcpy dst (log_line (str_of (lg_group_name g)) (t, s)))
          (\<lambda>b. Inr (Some (b, t), g'))"
proof -
  let ?m = "logs_fifo g"
  have rdy: "area_ready sizeof_LogEntry ?m" using wf by (simp add: log_wf_def)
  show "GetLogEntry dst g = Inr (None, g)" if "messages g = []"
    using that sq.pop_empty [OF rdy] by (simp add: messages_def GetLogEntry_def)
  show "\<exists>g'. log_wf g' \<and> messages g' = ms \<and> lg_group_name g' = lg_group_name g \<and>
        area_frame (logs_fifo g') = area_frame (logs_fifo g) \<and> GetLogEntry dst g = bindE (strcpy dst (log_line (str_of (lg_group_name g)) (t, s)))
          (\<lambda>b. Inr (Some (b, t), g'))" if ne: "messages g = (t, s) # ms"
  proof -
    from ne obtain e q where q: "fifo_contents ?m = e # q" "le_time e = t" "str_of (log_str e) = s"
      "ms = map (\<lambda>e. (le_time e, str_of (log_str e))) q" by (auto simp: messages_def)
    from sq.pop_item [OF rdy q(1)] obtain m' where m':
      "StaticMemArea_PopFIFO_MT sizeof_LogEntry ?m = Inr (Some e, m')"
      "area_ready sizeof_LogEntry m'" "fifo_contents m' = q" "area_frame m' = area_frame ?m" by blast
    let ?g' = "g\<lparr>logs_fifo := m'\<rparr>"
    have "terminated (log_str e)" "terminated (lg_group_name g)"
      using wf q(1) by (auto simp: log_wf_def)
    then have "GetLogEntry dst g = bindE (strcpy dst (log_line (str_of (lg_group_name g)) (t, s)))
          (\<lambda>b. Inr (Some (b, t), ?g'))"
      using m'(1) q(2,3)
      by (simp add: GetLogEntry_def sprintf_def log_format log_line_def Let_def del: c_format.simps)
    moreover have "log_wf ?g'" using wf m' q(1) by (simp add: log_wf_def area_frame_def)
    ultimately show ?thesis using m'(3,4) q(4) by (intro exI [of _ ?g']) (simp add: messages_def)
  qed
qed

subsection \<open>Draining a group\<close>

text \<open>The loop of a reader that takes the messages of a group until there is none left.\<close>

partial_function (option) log_drain ::
  "cbuf \<Rightarrow> (string \<times> timespec) list \<Rightarrow> CLog_group \<Rightarrow>
   (fault + ((string \<times> timespec) list \<times> CLog_group)) option" where
  "log_drain dst out g =
     (case GetLogEntry dst g of
        Inl f \<Rightarrow> Some (Inl f)
      | Inr (None, g) \<Rightarrow> Some (Inr (out, g))
      | Inr (Some (b, t), g) \<Rightarrow> log_drain b (out @ [(str_of b, t)]) g)"

lemma c_string_log_line: "c_string g \<Longrightarrow> c_string s \<Longrightarrow> c_string (log_line g (t, s))"
  by (simp add: log_line_def dec_nat_def c_string_to_base)

lemma messages_c_string: "(t, s) \<in> set (messages g) \<Longrightarrow> c_string s"
  by (auto simp: messages_def)

lemma log_read:
  assumes wf: "log_wf g" and ms: "messages g = (t, s) # ms"
    and room: "length (log_line (str_of (lg_group_name g)) (t, s)) < length dst"
  shows "\<exists>b g'. GetLogEntry dst g = Inr (Some (b, t), g') \<and>
    str_of b = log_line (str_of (lg_group_name g)) (t, s) \<and> length b = length dst \<and>
    terminated b \<and> log_wf g' \<and> messages g' = ms \<and> lg_group_name g' = lg_group_name g"
proof -
  have "c_string (log_line (str_of (lg_group_name g)) (t, s))"
    using messages_c_string [of t s g] ms by (intro c_string_log_line) auto
  with strcpy_ok [OF room] obtain b where
    "strcpy dst (log_line (str_of (lg_group_name g)) (t, s)) = Inr b" "length b = length dst"
    "terminated b" "str_of b = log_line (str_of (lg_group_name g)) (t, s)" by blast
  with GetLogEntry_eq(2) [OF wf ms, of dst] show ?thesis by auto
qed

lemma log_drain_spec:
  assumes "log_wf g"
    "\<forall>m \<in> set (messages g). length (log_line (str_of (lg_group_name g)) m) < length dst"
  shows "\<exists>g'. log_drain dst out g =
      Some (Inr (out @ map (\<lambda>m. (log_line (str_of (lg_group_name g)) m, fst m)) (messages g), g')) \<and>
    messages g' = [] \<and> log_wf g'"
  using assms
proof (induction "messages g" arbitrary: g dst out)
  case Nil
  then show ?case using GetLogEntry_eq(1) [of g dst] by (simp add: log_drain.simps [of dst out g])
next
  case (Cons m ms)
  obtain t s where m: "m = (t, s)" by fastforce
  have "length (log_line (str_of (lg_group_name g)) (t, s)) < length dst"
    using Cons.hyps(2) [symmetric] Cons.prems(2) m by simp
  from log_read [OF Cons.prems(1) Cons.hyps(2) [symmetric, unfolded m] this] obtain b g1 where
    b: "GetLogEntry dst g = Inr (Some (b, t), g1)" "length b = length dst" "log_wf g1"
      "str_of b = log_line (str_of (lg_group_name g)) (t, s)" "messages g1 = ms"
      "lg_group_name g1 = lg_group_name g" by blast
  from Cons.hyps(1) [OF b(5) [symmetric] b(3), of b "out @ [(str_of b, t)]"] Cons.prems(2)
    Cons.hyps(2) [symmetric] b show ?case
    by (simp add: log_drain.simps [of dst out g] m)
qed

subsection \<open>Properties\<close>

text \<open>The logger keeps the newest messages. Any run of \<open>AddLog\<close> of messages that fit an
  entry ends (the eviction loop terminates) without a fault, and leaves exactly the last 126 of
  the old and new messages, in order, each with its time: two of the 128 entries are never used.\<close>

theorem log_ring_keeps_last:
  assumes "log_wf g" "\<forall>(t, s) \<in> set ls. loggable s"
  shows "\<exists>g'. add_logs ls g = Some (Inr g') \<and> log_wf g' \<and>
    messages g' = keep_last 126 (messages g @ ls)"
  using add_logs_ok [OF assms] by (auto simp: LOG_GROUP_BUFSIZE_def)

text \<open>C23: end to end. Messages of less than 112 characters added to an empty group whose printed lines fit the reader's
  buffer come back, when the reader calls \<open>GetLogEntry\<close> until it answers that there is none, as the
  last 126 of them in the order in which they were added, each as its line of time, group name
  and text; the reader's loop ends and the group is empty.\<close>

theorem log_add_then_drain:
  assumes "log_wf g" "messages g = []" "\<forall>(t, s) \<in> set ls. loggable s"
    "\<forall>m \<in> set ls. length (log_line (str_of (lg_group_name g)) m) < length dst"
  shows "\<exists>g1 g2. add_logs ls g = Some (Inr g1) \<and>
    log_drain dst [] g1 =
      Some (Inr (map (\<lambda>m. (log_line (str_of (lg_group_name g)) m, fst m)) (keep_last 126 ls), g2)) \<and>
    messages g2 = []"
proof -
  obtain g1 where g1: "add_logs ls g = Some (Inr g1)" "log_wf g1"
    "messages g1 = keep_last 126 ls" "lg_group_name g1 = lg_group_name g"
    using add_logs_ok [OF assms(1,3)] assms(2) by (auto simp: LOG_GROUP_BUFSIZE_def)
  moreover have "\<forall>m \<in> set (messages g1). length (log_line (str_of (lg_group_name g1)) m) < length dst"
    using assms(4) set_keep_last [of 126 ls] g1(3,4) by auto
  ultimately show ?thesis using log_drain_spec [OF g1(2), of dst "[]"] by auto
qed

text \<open>C32: what the buffers cannot hold. A message of 112 characters or more is stored without its
  terminator, so reading it runs out of the entry; and a message whose line (time, group name and
  text) does not fit the reader's buffer overflows it, since \<open>sprintf\<close> is given no bound.\<close>

theorem log_text_overflow:
  assumes wf: "log_wf g" and e: "messages g = []" and s: "c_string s"
  shows "(LOG_STRING_SIZE \<le> length s \<longrightarrow>
      (\<exists>g1. AddLog now s g = Some (Inr g1) \<and> GetLogEntry dst g1 = Inl MemFault)) \<and>
    (length s < LOG_STRING_SIZE \<and> length dst \<le> length (log_line (str_of (lg_group_name g)) (now, s)) \<longrightarrow>
      (\<exists>g1. AddLog now s g = Some (Inr g1) \<and> GetLogEntry dst g1 = Inl MemFault))"
proof (intro conjI impI)
  assume long: "LOG_STRING_SIZE \<le> length s"
  let ?b = "take LOG_STRING_SIZE s" and ?m = "logs_fifo g"
  let ?e = "\<lparr>le_time = now, log_str = ?b\<rparr>"
  have b: "strncpy (replicate LOG_STRING_SIZE NUL) s LOG_STRING_SIZE = Inr ?b"
    using strncpy_truncates [OF long] by simp
  have rdy: "area_ready sizeof_LogEntry ?m" "0 < fifo_cap ?m" and c: "fifo_contents ?m = []"
    using wf e log_fifo_cap [OF wf] by (auto simp: log_wf_def LOG_GROUP_BUFSIZE_def messages_def)
  from sq.evict_spec [OF rdy, of ?e] c obtain m' where m':
    "push_evict (\<lambda>d. StaticMemArea_PushFIFO_MT d sizeof_LogEntry)
       (StaticMemArea_PopFIFO_MT sizeof_LogEntry) ?e ?m = Some (Inr m')"
    "area_ready sizeof_LogEntry m'" "fifo_contents m' = [?e]"
    using log_fifo_cap [OF wf] by (auto simp: LOG_GROUP_BUFSIZE_def)
  from sq.pop_item [OF m'(2,3)] obtain m2 where
    "StaticMemArea_PopFIFO_MT sizeof_LogEntry m' = Inr (Some ?e, m2)" by blast
  moreover have "c_str ?b = Inl MemFault"
    using s by (auto simp: c_str_def terminated_def c_string_def dest: in_set_takeD)
  moreover have "terminated (lg_group_name g)" using wf by (simp add: log_wf_def)
  ultimately show "\<exists>g1. AddLog now s g = Some (Inr g1) \<and> GetLogEntry dst g1 = Inl MemFault"
    using b m'(1) by (intro exI [of _ "g\<lparr>logs_fifo := m'\<rparr>"])
      (simp add: AddLog_def GetLogEntry_def Let_def)
next
  assume *: "length s < LOG_STRING_SIZE \<and> length dst \<le> length (log_line (str_of (lg_group_name g)) (now, s))"
  with s have "loggable s" by (simp add: fits_def)
  from AddLog_ok [OF wf this, of now] e obtain g1 where g1: "AddLog now s g = Some (Inr g1)"
    "log_wf g1" "messages g1 = [(now, s)]" "lg_group_name g1 = lg_group_name g"
    by (auto simp: LOG_GROUP_BUFSIZE_def)
  with GetLogEntry_eq(2) [OF g1(2,3), of dst] * show
    "\<exists>g1. AddLog now s g = Some (Inr g1) \<and> GetLogEntry dst g1 = Inl MemFault"
    by (auto simp: strcpy_overflow)
qed

subsection \<open>The properties at work\<close>

definition log_zero :: CLog_group where
  "log_zero =
     \<lparr>logs_fifo =
        \<lparr>allocated_ptr = 0, ptr_producer = 0, ptr_consumer = 0, number_chunks = 0,
         single_chunk_size = 0, wr_ind = 0, rd_ind = 0, access_mode = E_READ, attrib = 0,
         in_lock = False, out_lock = False, area_name = replicate MDO_NAME_SIZE NUL,
         chunk_buf = replicate LOG_GROUP_BUFSIZE
           \<lparr>le_time = zero_time, log_str = replicate LOG_STRING_SIZE NUL\<rparr>,
         elem_size = sizeof_LogEntry\<rparr>,
      lg_group_name = replicate TRACE_STRING_SIZE NUL\<rparr>"

lemma log_zero_shape: "log_shape log_zero"
  by (simp add: log_shape_def log_zero_def)

lemma demo_log: "\<exists>g. log_wf g \<and> messages g = [] \<and> str_of (lg_group_name g) = ''GEN''"
proof -
  obtain g1 where g1: "log_shape g1" "messages g1 = []" "area_ready sizeof_LogEntry (logs_fifo g1)"
    using log_Reset_ok [OF log_zero_shape] by blast
  have "fits TRACE_STRING_SIZE ''GEN''" by (simp add: fits_def c_string_def TRACE_STRING_SIZE_def)
  from log_SetGroupName_ok [OF g1 this] show ?thesis by blast
qed

definition demo_logs :: "(timespec \<times> string) list" where
  "demo_logs = [(\<lparr>tv_sec = 1, tv_nsec = 5\<rparr>, ''start''), (\<lparr>tv_sec = 2, tv_nsec = 0\<rparr>, ''stop'')]"

lemma demo_logs_ok: "\<forall>(t, s) \<in> set demo_logs. loggable s"
  by (simp add: demo_logs_def fits_def c_string_def const_defs)

lemmas log_print_simps = log_line_def timespec_to_ns_def BILLION_def dec_nat_def to_base.simps
  digit_char_def

lemma demo_log_lines: "map (log_line ''GEN'') demo_logs =
    [''1000000005, GEN,  start'', ''2000000000, GEN,  stop'']"
  by (simp add: demo_logs_def log_print_simps)

theorem log_ring_keeps_last_witness:
  "\<exists>g g'. log_wf g \<and> add_logs demo_logs g = Some (Inr g') \<and> messages g' = demo_logs"
proof -
  obtain g where g: "log_wf g" "messages g = []" using demo_log by blast
  from log_ring_keeps_last [OF g(1) demo_logs_ok] g show ?thesis
    by (auto simp: demo_logs_def)
qed

theorem log_add_then_drain_witness:
  "\<exists>g g1 g2. log_wf g \<and> add_logs demo_logs g = Some (Inr g1) \<and>
     (\<exists>res. log_drain (replicate 112 NUL) [] g1 = Some (Inr (res, g2)) \<and>
       map fst res = [''1000000005, GEN,  start'', ''2000000000, GEN,  stop''])"
proof -
  obtain g where g: "log_wf g" "messages g = []" "str_of (lg_group_name g) = ''GEN''"
    using demo_log by blast
  have "length (log_line ''GEN'' m) \<in> set (map length (map (log_line ''GEN'') demo_logs))"
    if "m \<in> set demo_logs" for m using that by auto
  then have "\<forall>m \<in> set demo_logs. length (log_line (str_of (lg_group_name g)) m) <
      length (replicate 112 NUL)"
    unfolding demo_log_lines g(3) by fastforce
  from log_add_then_drain [OF g(1,2) demo_logs_ok this] obtain g1 g2 where
    r: "add_logs demo_logs g = Some (Inr g1)" "log_drain (replicate 112 NUL) [] g1 =
      Some (Inr (map (\<lambda>m. (log_line ''GEN'' m, fst m)) (keep_last 126 demo_logs), g2))"
    using g(3) by auto
  have eq: "map fst (map (\<lambda>m. (log_line ''GEN'' m, fst m)) (keep_last 126 demo_logs)) =
      [''1000000005, GEN,  start'', ''2000000000, GEN,  stop'']"
    unfolding demo_log_lines [symmetric] by (simp add: demo_logs_def)
  show ?thesis by (intro exI conjI) (rule g(1) r eq)+
qed

theorem log_text_overflow_witness:
  "\<exists>g g1. log_wf g \<and> AddLog zero_time (replicate 112 (CHR ''x'')) g = Some (Inr g1) \<and>
     GetLogEntry (replicate 1000 NUL) g1 = Inl MemFault"
proof -
  obtain g where g: "log_wf g" "messages g = []" using demo_log by blast
  have "c_string (replicate 112 (CHR ''x''))" by (auto simp: c_string_def)
  from log_text_overflow [OF g this, of zero_time "replicate 1000 NUL"] g(1) show ?thesis
    by (auto simp: const_defs)
qed

end
