(* ===== verification/Profile_Point.thy ===== *)
theory Profile_Point
  imports Area_Fifo Time_Spec
begin

section \<open>Profiling points: \<open>CProfileCnt\<close>\<close>

text \<open>
  A profiling point belongs to the client process; the data it collects go to a FIFO in the
  shared memory, which it reaches through a \<open>CMemArea *\<close>, so with the absolute addresses stored
  there. The operations of \<open>rt_debug_types.h\<close> take the clock readings as arguments (\<open>now\<close> for
  \<open>clock_gettime\<close>, \<open>cyc\<close> for the cycle counter); those that push take the FIFO and its address
  \<open>base\<close> in the calling process.
\<close>

datatype EProfileEval_type = TIME_EVAL | CYCLE_EVAL

record ProfileData =
  max_cnt :: u64
  max_cnt_time :: u64
  last_cnt :: u64
  average_cnt :: u64
  meas_num :: u64

definition sizeof_ProfileData :: u32 where [const_defs]: "sizeof_ProfileData = 64"

definition ProfileData_Reset :: ProfileData where
  "ProfileData_Reset = \<lparr>max_cnt = 0, max_cnt_time = 0, last_cnt = 0, average_cnt = 0, meas_num = 0\<rparr>"

text \<open>\<open>mem_ptr\<close> names the FIFO by its group and its number in the group; \<open>None\<close> is \<open>NULL\<close>.\<close>

record ProfilePoint =
  prof_data :: ProfileData
  acc_cnt :: u64
  cnt_id :: u32
  max_calls :: u32
  start_val :: u64
  delta :: u64
  prof_id :: u32
  evalType :: EProfileEval_type
  mem_ptr :: "(nat \<times> nat) option"

subsection \<open>The cycle counter\<close>

definition tsc_x86_64 :: "u32 \<Rightarrow> u32 \<Rightarrow> u64" where
  "tsc_x86_64 hi lo = push_bit 32 (ucast hi) OR ucast lo"

text \<open>The 64-bit virtual timer is cut to 32 bits.\<close>

definition tsc_aarch64 :: "u64 \<Rightarrow> u64" where
  "tsc_aarch64 virtual_timer_value = ucast (ucast virtual_timer_value :: u32)"

subsection \<open>Initialisation\<close>

definition ResetProfData :: "ProfilePoint \<Rightarrow> ProfilePoint" where
  "ResetProfData p = p\<lparr>prof_data := ProfileData_Reset\<rparr>"

definition ResetInit :: "ProfilePoint \<Rightarrow> ProfilePoint" where
  "ResetInit p = (ResetProfData p)\<lparr>cnt_id := 0, max_calls := 500, acc_cnt := 0, start_val := 0,
     delta := 0, evalType := TIME_EVAL, prof_id := - 1, mem_ptr := None\<rparr>"

definition SetMaxCalls :: "u32 \<Rightarrow> ProfilePoint \<Rightarrow> ProfilePoint" where
  "SetMaxCalls v p = p\<lparr>max_calls := v\<rparr>"

text \<open>
  \<open>clk i\<close> is the reading of the clock in its \<open>i\<close>th call, \<open>cyc i\<close> of the cycle counter. The
  argument \<open>max_count\<close> is not used by the body.
\<close>

definition prof_Init ::
  "(nat \<Rightarrow> timespec) \<Rightarrow> (nat \<Rightarrow> u64) \<Rightarrow> nat \<times> nat \<Rightarrow> u32 \<Rightarrow> ProfilePoint \<Rightarrow> ProfilePoint" where
  "prof_Init clk cyc mem max_count p =
     (let p = (ResetInit p)\<lparr>mem_ptr := Some mem\<rparr> in
      if evalType p = TIME_EVAL then
        (let p = p\<lparr>delta := 0\<rparr>;
             p = fold (\<lambda>i p. p\<lparr>delta := delta p +
                   (timespec_to_ns (clk (2 * i + 1)) - timespec_to_ns (clk (2 * i)))\<rparr>) [0..<10] p
         in p\<lparr>delta := delta p div 10\<rparr>)
      else
        (let p = p\<lparr>delta := cyc 0\<rparr>; p = p\<lparr>start_val := cyc 1\<rparr>; p = p\<lparr>delta := cyc 2\<rparr>;
             p = p\<lparr>start_val := cyc 3\<rparr>; p = p\<lparr>delta := start_val p - delta p\<rparr>
         in p\<lparr>start_val := 0\<rparr>))"

subsection \<open>Sending the collected data\<close>

text \<open>
  The loop of \<open>Update\<close>: when the FIFO is full it pops into \<open>prof_data_\<close>, the very object it is
  pushing.
\<close>

partial_function (option) push_reusing ::
  "('a \<Rightarrow> 's \<Rightarrow> fault + (EResultT \<times> 's)) \<Rightarrow> ('s \<Rightarrow> fault + ('a option \<times> 's)) \<Rightarrow>
   'a \<Rightarrow> 's \<Rightarrow> (fault + 's) option" where
  "push_reusing push pop d s =
     (case push d s of
        Inl f \<Rightarrow> Some (Inl f)
      | Inr (res, s1) \<Rightarrow>
          if res = E_OK then Some (Inr s1)
          else (case pop s1 of
                  Inl f \<Rightarrow> Some (Inl f)
                | Inr (x, s2) \<Rightarrow> push_reusing push pop (case x of Some d' \<Rightarrow> d' | None \<Rightarrow> d) s2))"

type_synonym prof_fifo = "ProfileData mem_area"

definition prof_Update ::
  "u64 \<Rightarrow> ProfilePoint \<Rightarrow> prof_fifo \<Rightarrow> (fault + (ProfilePoint \<times> prof_fifo)) option" where
  "prof_Update base p m =
     (if meas_num (prof_data p) = 0 then Some (Inr (p, m))
      else
        let p = p\<lparr>prof_data := (prof_data p)\<lparr>average_cnt :=
                    average_cnt (prof_data p) div meas_num (prof_data p)\<rparr>\<rparr> in
        if mem_ptr p = None then Some (Inl NullDeref)
        else bindD (push_reusing (\<lambda>d. CMemArea_PushFIFO_MT base d sizeof_ProfileData)
                      (CMemArea_PopFIFO_MT base sizeof_ProfileData) (prof_data p) m)
               (\<lambda>m. Some (Inr (ResetProfData p, m))))"

subsection \<open>Measuring\<close>

definition prof_Start :: "timespec \<Rightarrow> u64 \<Rightarrow> ProfilePoint \<Rightarrow> fault + ProfilePoint" where
  "prof_Start now cyc p =
     ASSERT (start_val p = 0)
      (let p = p\<lparr>prof_data := (prof_data p)\<lparr>last_cnt := 1\<rparr>\<rparr> in
       Inr (p\<lparr>start_val := (if evalType p = TIME_EVAL then timespec_to_ns now else cyc)\<rparr>))"

definition prof_StopContinue :: "timespec \<Rightarrow> u64 \<Rightarrow> ProfilePoint \<Rightarrow> ProfilePoint" where
  "prof_StopContinue now cyc p =
     (let t64 = (if evalType p = TIME_EVAL then timespec_to_ns now else cyc) in
      p\<lparr>acc_cnt := acc_cnt p + (t64 - start_val p), start_val := 0\<rparr>)"

text \<open>The value of a measurement; \<open>prof_valp\<close> is the argument, \<open>None\<close> for \<open>NULL\<close>.\<close>

definition stop_value :: "timespec \<Rightarrow> u64 \<Rightarrow> u64 option \<Rightarrow> ProfilePoint \<Rightarrow> u64" where
  "stop_value now cyc prof_valp p =
     (case prof_valp of
        None \<Rightarrow>
          (let t64 = (if evalType p = TIME_EVAL then timespec_to_ns now else cyc);
               tmp_val = t64 - start_val p + acc_cnt p - delta p in
           if sint tmp_val < 0 then 20 else tmp_val)
      | Some v \<Rightarrow> v)"

text \<open>\<open>Stop\<close> up to the test whether the batch is full, that test, and the whole.\<close>

definition stop_collect :: "timespec \<Rightarrow> u64 \<Rightarrow> u64 option \<Rightarrow> ProfilePoint \<Rightarrow> ProfilePoint" where
  "stop_collect now cyc prof_valp p =
     (let p = p\<lparr>prof_data := (prof_data p)\<lparr>last_cnt := stop_value now cyc prof_valp p\<rparr>\<rparr>;
          p = p\<lparr>acc_cnt := 0\<rparr>;
          p = (if max_cnt (prof_data p) < last_cnt (prof_data p) then
                 p\<lparr>prof_data := (prof_data p)\<lparr>max_cnt := last_cnt (prof_data p),
                                              max_cnt_time := start_val p\<rparr>\<rparr>
               else p);
          p = p\<lparr>prof_data := (prof_data p)\<lparr>average_cnt :=
                  average_cnt (prof_data p) + last_cnt (prof_data p)\<rparr>\<rparr>;
          p = p\<lparr>start_val := 0\<rparr>
      in p\<lparr>prof_data := (prof_data p)\<lparr>meas_num := meas_num (prof_data p) + 1\<rparr>\<rparr>)"

definition full_batch :: "ProfilePoint \<Rightarrow> bool" where
  "full_batch p \<longleftrightarrow> max_calls p \<noteq> 0 \<and> ucast (max_calls p) \<le> meas_num (prof_data p)"

definition prof_Stop ::
  "u64 \<Rightarrow> timespec \<Rightarrow> u64 \<Rightarrow> u64 option \<Rightarrow> ProfilePoint \<Rightarrow> prof_fifo \<Rightarrow>
   (fault + (ProfilePoint \<times> prof_fifo)) option" where
  "prof_Stop base now cyc prof_valp p m =
     (let p = stop_collect now cyc prof_valp p in
      if full_batch p then prof_Update base p m else Some (Inr (p, m)))"

definition prof_Reset :: "ProfilePoint \<Rightarrow> ProfilePoint" where
  "prof_Reset p = (ResetProfData p)\<lparr>start_val := 0, acc_cnt := 0\<rparr>"

definition prof_ForceStop ::
  "u64 \<Rightarrow> ProfilePoint \<Rightarrow> prof_fifo \<Rightarrow> (fault + (ProfilePoint \<times> prof_fifo)) option" where
  "prof_ForceStop base p m =
     bindD (prof_Update base p m) (\<lambda>(p, m). Some (Inr (prof_Reset p, m)))"

subsection \<open>What the loop of \<open>Update\<close> does to a bounded queue\<close>

context bounded_fifo
begin

lemma reusing_room:
  assumes "invar s" "length (contents s) < cap s"
  shows "\<exists>s'. push_reusing push pop d s = Some (Inr s') \<and> invar s' \<and>
    contents s' = contents s @ [d] \<and> cap s' = cap s \<and> frame s' = frame s"
  using push_room [OF assms, of d] by (auto simp: push_reusing.simps [of push pop d s])

text \<open>A full queue: the new element is lost and the oldest one becomes the newest.\<close>

lemma reusing_full:
  assumes "invar s" "length (contents s) = cap s" "0 < cap s"
  shows "\<exists>s'. push_reusing push pop d s = Some (Inr s') \<and> invar s' \<and>
    contents s' = rotate1 (contents s) \<and> cap s' = cap s \<and> frame s' = frame s"
proof -
  from assms obtain x q where q: "contents s = x # q" by (cases "contents s") auto
  obtain s1 where s1: "pop s = Inr (Some x, s1)" "invar s1" "contents s1 = q"
      "cap s1 = cap s" "frame s1 = frame s"
    using pop_item [OF assms(1) q] by blast
  then have "length (contents s1) < cap s1" using assms(2) q by simp
  from reusing_room [OF s1(2) this, of x] obtain s2 where "push_reusing push pop x s1 = Some (Inr s2)"
    "invar s2" "contents s2 = q @ [x]" "cap s2 = cap s" "frame s2 = frame s"
    using s1 by auto
  with s1(1) q push_full [OF assms(1,2)] show ?thesis
    by (simp add: push_reusing.simps [of push pop d s])
qed

end

text \<open>The FIFO of a profiler, in a process in which its addresses are valid.\<close>

definition prof_fifo_ok :: "u64 \<Rightarrow> prof_fifo \<Rightarrow> bool" where
  "prof_fifo_ok base m \<longleftrightarrow> area_ready sizeof_ProfileData m \<and> area_at base m \<and>
     length (chunk_buf m) = PROF_FIFO_SIZE"

abbreviation prof_cap :: nat where "prof_cap \<equiv> PROF_FIFO_SIZE - 2"

lemma prof_fifo_cap: "prof_fifo_ok base m \<Longrightarrow> fifo_cap m = prof_cap"
  by (simp add: prof_fifo_ok_def fifo_cap_def)

definition sent :: "ProfileData \<Rightarrow> ProfileData" where
  "sent d = d\<lparr>average_cnt := average_cnt d div meas_num d\<rparr>"

lemma prof_Update_room:
  assumes "prof_fifo_ok base m" "length (fifo_contents m) < prof_cap"
    "meas_num (prof_data p) \<noteq> 0" "mem_ptr p \<noteq> None"
  shows "\<exists>m'. prof_Update base p m = Some (Inr (ResetProfData p, m')) \<and> prof_fifo_ok base m' \<and>
    fifo_contents m' = fifo_contents m @ [sent (prof_data p)] \<and> area_frame m' = area_frame m"
proof -
  have "area_ready sizeof_ProfileData m \<and> area_at base m" "length (fifo_contents m) < fifo_cap m"
    using assms(1,2) prof_fifo_cap [OF assms(1)] by (auto simp: prof_fifo_ok_def)
  from cq.reusing_room [OF this, of "sent (prof_data p)"] assms show ?thesis
    by (auto simp: prof_Update_def Let_def sent_def prof_fifo_ok_def area_frame_def ResetProfData_def)
qed

lemma prof_Update_full:
  assumes "prof_fifo_ok base m" "length (fifo_contents m) = prof_cap"
    "meas_num (prof_data p) \<noteq> 0" "mem_ptr p \<noteq> None"
  shows "\<exists>m'. prof_Update base p m = Some (Inr (ResetProfData p, m')) \<and> prof_fifo_ok base m' \<and>
    fifo_contents m' = rotate1 (fifo_contents m) \<and> area_frame m' = area_frame m"
proof -
  have "area_ready sizeof_ProfileData m \<and> area_at base m" "length (fifo_contents m) = fifo_cap m"
    "0 < fifo_cap m"
    using assms(1,2) prof_fifo_cap [OF assms(1)] by (auto simp: prof_fifo_ok_def PROF_FIFO_SIZE_def)
  from cq.reusing_full [OF this, of "sent (prof_data p)"] assms show ?thesis
    by (auto simp: prof_Update_def Let_def sent_def prof_fifo_ok_def area_frame_def ResetProfData_def)
qed

end
