(* ===== verification/Profile_Batches.thy ===== *)
theory Profile_Batches
  imports Profile_Point
begin

section \<open>Measurements, batches and what reaches the FIFO of a profiler\<close>

text \<open>
  What a point computes from a series of measurements (the count, the maximum and when it
  started, the sum, the last value), when it sends a batch, what a batch holds, measurements that
  are paused, and the two ways in which a batch is not delivered: a full FIFO and a process in which
  the addresses stored in the FIFO are not valid.
\<close>

subsection \<open>One measurement\<close>

text \<open>A measurement with the clock, from its start to its stop, or of a given value.\<close>

datatype measurement = Timed timespec timespec | Given u64

definition do_meas ::
  "u64 \<Rightarrow> measurement \<Rightarrow> ProfilePoint \<Rightarrow> prof_fifo \<Rightarrow> (fault + (ProfilePoint \<times> prof_fifo)) option" where
  "do_meas base x p m =
     (case x of
        Timed a b \<Rightarrow> bindD (Some (prof_Start a 0 p)) (\<lambda>p. prof_Stop base b 0 None p m)
      | Given v \<Rightarrow> prof_Stop base zero_time 0 (Some v) p m)"

fun run_meas ::
  "u64 \<Rightarrow> measurement list \<Rightarrow> ProfilePoint \<Rightarrow> prof_fifo \<Rightarrow> (fault + (ProfilePoint \<times> prof_fifo)) option" where
  "run_meas base [] p m = Some (Inr (p, m))"
| "run_meas base (x # xs) p m = bindD (do_meas base x p m) (\<lambda>(p, m). run_meas base xs p m)"

definition clip :: "u64 \<Rightarrow> u64" where
  "clip w = (if sint w < 0 then 20 else w)"

fun meas_value :: "u64 \<Rightarrow> measurement \<Rightarrow> u64" where
  "meas_value dl (Timed a b) = clip (timespec_to_ns b - timespec_to_ns a - dl)"
| "meas_value dl (Given v) = v"

fun meas_start :: "measurement \<Rightarrow> u64" where
  "meas_start (Timed a b) = timespec_to_ns a"
| "meas_start (Given v) = 0"

text \<open>A point between two measurements.\<close>

definition idle :: "ProfilePoint \<Rightarrow> bool" where
  "idle p \<longleftrightarrow> start_val p = 0 \<and> acc_cnt p = 0 \<and> evalType p = TIME_EVAL \<and> mem_ptr p \<noteq> None"

definition add_value :: "u64 \<Rightarrow> u64 \<Rightarrow> ProfileData \<Rightarrow> ProfileData" where
  "add_value v st d =
     \<lparr>max_cnt = max (max_cnt d) v, max_cnt_time = (if max_cnt d < v then st else max_cnt_time d),
      last_cnt = v, average_cnt = average_cnt d + v, meas_num = meas_num d + 1\<rparr>"

lemma Stop_eq:
  assumes "evalType p = TIME_EVAL"
  shows "prof_Stop base now cyc v p m =
    (let p' = p\<lparr>prof_data := add_value (stop_value now cyc v p) (start_val p) (prof_data p),
                acc_cnt := 0, start_val := 0\<rparr> in
     if full_batch p' then prof_Update base p' m else Some (Inr (p', m)))"
proof -
  let ?v = "stop_value now cyc v p"
  have "(if max_cnt (prof_data p) < ?v
         then p\<lparr>prof_data := (prof_data p)\<lparr>last_cnt := ?v\<rparr>, acc_cnt := 0,
                prof_data := (prof_data p)\<lparr>last_cnt := ?v, max_cnt := ?v, max_cnt_time := start_val p\<rparr>\<rparr>
         else p\<lparr>prof_data := (prof_data p)\<lparr>last_cnt := ?v\<rparr>, acc_cnt := 0\<rparr>)
    = p\<lparr>prof_data := (prof_data p)\<lparr>last_cnt := ?v, max_cnt := max (max_cnt (prof_data p)) ?v,
          max_cnt_time := (if max_cnt (prof_data p) < ?v then start_val p
                           else max_cnt_time (prof_data p))\<rparr>, acc_cnt := 0\<rparr>"
    by (cases p, cases "prof_data p") (auto simp: max_def not_less)
  then show ?thesis
    by (cases p, cases "prof_data p")
      (auto simp: prof_Stop_def stop_collect_def Let_def add_value_def full_batch_def max_def)
qed

lemma Start_idle:
  assumes "start_val p = 0" "evalType p = TIME_EVAL"
  shows "prof_Start now cyc p = Inr (p\<lparr>prof_data := (prof_data p)\<lparr>last_cnt := 1\<rparr>,
    start_val := timespec_to_ns now\<rparr>)"
  using assms by (simp add: prof_Start_def Let_def)

lemma do_meas_eq:
  assumes "idle p"
  shows "do_meas base x p m =
    (let p' = p\<lparr>prof_data := add_value (meas_value (delta p) x) (meas_start x) (prof_data p)\<rparr> in
     if full_batch p' then prof_Update base p' m else Some (Inr (p', m)))"
proof (cases x)
  case (Timed a b)
  let ?p = "p\<lparr>prof_data := (prof_data p)\<lparr>last_cnt := 1\<rparr>, start_val := timespec_to_ns a\<rparr>"
  have i: "start_val p = 0" "acc_cnt p = 0" "evalType p = TIME_EVAL" using assms by (auto simp: idle_def)
  have "stop_value b 0 None ?p = meas_value (delta p) x"
    using i Timed by (simp add: stop_value_def clip_def Let_def)
  moreover have "?p\<lparr>prof_data := d, acc_cnt := 0, start_val := 0\<rparr> = p\<lparr>prof_data := d\<rparr>" for d
    using i by (cases p) simp
  ultimately show ?thesis
    using Start_idle [OF i(1,3), of a 0] Stop_eq [of ?p base b 0 None m] i(3) Timed
    by (simp add: do_meas_def add_value_def Let_def)
next
  case (Given v)
  have i: "start_val p = 0" "acc_cnt p = 0" "evalType p = TIME_EVAL" using assms by (auto simp: idle_def)
  have upd: "p\<lparr>prof_data := d, acc_cnt := 0, start_val := 0\<rparr> = p\<lparr>prof_data := d\<rparr>" for d
    using i by (cases p) simp
  have "stop_value zero_time 0 (Some v) p = v" by (simp add: stop_value_def)
  then have "prof_Stop base zero_time 0 (Some v) p m =
    (let p' = p\<lparr>prof_data := add_value v 0 (prof_data p)\<rparr> in
     if full_batch p' then prof_Update base p' m else Some (Inr (p', m)))"
    unfolding Stop_eq [OF i(3)] upd by (simp add: i(1))
  then show ?thesis using Given by (simp add: do_meas_def)
qed

subsection \<open>A series of measurements\<close>

definition collected :: "u64 \<Rightarrow> measurement list \<Rightarrow> ProfileData \<Rightarrow> ProfileData" where
  "collected dl xs = fold (\<lambda>x. add_value (meas_value dl x) (meas_start x)) xs"

lemma collected_fields:
  "meas_num (collected dl xs d) = meas_num d + of_nat (length xs)"
  "average_cnt (collected dl xs d) = average_cnt d + sum_list (map (meas_value dl) xs)"
  "max_cnt (collected dl xs d) = fold max (map (meas_value dl) xs) (max_cnt d)"
  "xs \<noteq> [] \<Longrightarrow> last_cnt (collected dl xs d) = meas_value dl (last xs)"
  by (induction xs arbitrary: d)
    (auto simp: collected_def add_value_def algebra_simps max.commute split: if_splits)

lemma collected_max_time:
  "(max_cnt (collected dl xs d) = max_cnt d \<and> max_cnt_time (collected dl xs d) = max_cnt_time d) \<or>
   (\<exists>x \<in> set xs. max_cnt (collected dl xs d) = meas_value dl x \<and>
      max_cnt_time (collected dl xs d) = meas_start x)"
proof (induction xs arbitrary: d)
  case (Cons x xs)
  have "collected dl (x # xs) d = collected dl xs (add_value (meas_value dl x) (meas_start x) d)"
    by (simp add: collected_def)
  with Cons [of "add_value (meas_value dl x) (meas_start x) d"] show ?case
    by (auto simp: add_value_def max_def split: if_splits)
qed (simp add: collected_def)

lemma fold_max_Max: "xs \<noteq> [] \<Longrightarrow> fold max xs (0 :: u64) = Max (set xs)"
proof -
  assume ne: "xs \<noteq> []"
  have "fold max xs (0 :: u64) = Max (set (0 # xs))"
    using Max.set_eq_fold [of "0 :: u64" xs] by simp
  also have "\<dots> = max 0 (Max (set xs))" using ne by (simp add: Max_insert)
  finally show ?thesis by (simp add: max_def word_zero_le)
qed

text \<open>Until the batch is full the point only collects.\<close>

lemma run_meas_collect:
  assumes "idle p" "unat (meas_num (prof_data p)) + length xs < unat (max_calls p) \<or> max_calls p = 0"
  shows "run_meas base xs p m = Some (Inr (p\<lparr>prof_data := collected (delta p) xs (prof_data p)\<rparr>, m))"
  using assms
proof (induction xs arbitrary: p)
  case Nil
  then show ?case by (simp add: collected_def)
next
  case (Cons x xs)
  let ?d = "add_value (meas_value (delta p) x) (meas_start x) (prof_data p)"
  let ?p = "p\<lparr>prof_data := ?d\<rparr>"
  have small: "unat (meas_num ?d) = unat (meas_num (prof_data p)) + 1" if "max_calls p \<noteq> 0"
  proof -
    have "unat (max_calls p) < 2 ^ 32" using unsigned_less [of "max_calls p"] by simp
    then have "unat (meas_num (prof_data p)) + 1 < 2 ^ 64" using Cons.prems(2) that by simp
    then show ?thesis by (simp add: add_value_def unat_word_ariths)
  qed
  have "\<not> full_batch ?p"
  proof (cases "max_calls p = 0")
    case False
    then have "unat (meas_num ?d) < unat (max_calls p)" using small Cons.prems(2) by simp
    then show ?thesis by (simp add: full_batch_def word_le_nat_alt unat_ucast_u32_u64)
  qed (simp add: full_batch_def)
  then have "do_meas base x p m = Some (Inr (?p, m))"
    by (simp add: do_meas_eq [OF Cons.prems(1)])
  moreover have "idle ?p" using Cons.prems(1) by (simp add: idle_def)
  moreover have "unat (meas_num (prof_data ?p)) + length xs < unat (max_calls ?p) \<or> max_calls ?p = 0"
    using small Cons.prems(2) by auto
  ultimately show ?case using Cons.IH [of ?p] by (simp add: collected_def)
qed

lemma run_meas_append:
  "run_meas base (xs @ ys) p m = bindD (run_meas base xs p m) (\<lambda>(p, m). run_meas base ys p m)"
proof (induction xs arbitrary: p m)
  case (Cons x xs)
  show ?case
  proof (cases "do_meas base x p m")
    case (Some r)
    then show ?thesis using Cons by (cases r) auto
  qed simp
qed simp

lemma run_meas_done: "bindD r (\<lambda>(p, m). run_meas base [] p m) = r"
proof (cases r)
  case (Some q)
  then show ?thesis by (cases q) auto
qed simp

lemma run_meas_batch:
  assumes p: "idle p" "prof_data p = ProfileData_Reset"
    and n: "length xs = unat (max_calls p)" "max_calls p \<noteq> 0"
  shows "run_meas base xs p m =
    prof_Update base (p\<lparr>prof_data := collected (delta p) xs ProfileData_Reset\<rparr>) m"
proof -
  have "xs \<noteq> []" using n by (auto simp: unat_eq_zero)
  then obtain ys y where xs: "xs = ys @ [y]" by (cases xs rule: rev_cases) auto
  let ?q = "p\<lparr>prof_data := collected (delta p) ys ProfileData_Reset\<rparr>"
  let ?q' = "p\<lparr>prof_data := collected (delta p) xs ProfileData_Reset\<rparr>"
  have "run_meas base ys p m = Some (Inr (?q, m))"
    using run_meas_collect [OF p(1), of ys base m] p(2) n(1) xs by (simp add: ProfileData_Reset_def)
  moreover have "idle ?q" using p(1) by (simp add: idle_def)
  moreover have "unat (meas_num (collected (delta p) xs ProfileData_Reset)) = unat (max_calls p)"
  proof -
    have "unat (max_calls p) < 2 ^ 32" using unsigned_less [of "max_calls p"] by simp
    then have "unat (max_calls p) < 2 ^ 64" by simp
    then have "unat (of_nat (length xs) :: u64) = unat (max_calls p)"
      unfolding n(1) by (rule unat_of_nat_u64)
    then show ?thesis by (simp add: collected_fields ProfileData_Reset_def)
  qed
  then have "full_batch ?q'"
    using n(2) by (simp add: full_batch_def word_le_nat_alt unat_ucast_u32_u64)
  ultimately show ?thesis
    by (simp add: run_meas_append xs do_meas_eq collected_def run_meas_done del: run_meas.simps(1))
qed

text \<open>What a record says of the series of measurements it was made from.\<close>

definition summarises :: "u64 \<Rightarrow> measurement list \<Rightarrow> ProfileData \<Rightarrow> bool" where
  "summarises dl xs d \<longleftrightarrow>
     meas_num d = of_nat (length xs) \<and>
     max_cnt d = Max (set (map (meas_value dl) xs)) \<and>
     (max_cnt d \<noteq> 0 \<longrightarrow> (\<exists>x \<in> set xs. meas_value dl x = max_cnt d \<and> meas_start x = max_cnt_time d)) \<and>
     last_cnt d = meas_value dl (last xs) \<and>
     average_cnt d = sum_list (map (meas_value dl) xs) div of_nat (length xs)"

lemma summarises_sent:
  assumes "xs \<noteq> []"
  shows "summarises dl xs (sent (collected dl xs ProfileData_Reset))"
proof -
  let ?c = "collected dl xs ProfileData_Reset"
  have "max_cnt ?c = Max (set (map (meas_value dl) xs))"
    using assms fold_max_Max [of "map (meas_value dl) xs"]
    by (simp add: collected_fields ProfileData_Reset_def)
  moreover have "max_cnt ?c \<noteq> 0 \<Longrightarrow> \<exists>x \<in> set xs. meas_value dl x = max_cnt ?c \<and> meas_start x = max_cnt_time ?c"
    using collected_max_time [of dl xs ProfileData_Reset] by (auto simp: ProfileData_Reset_def)
  ultimately show ?thesis
    using assms by (simp add: summarises_def sent_def collected_fields) (simp add: ProfileData_Reset_def)
qed

lemma ResetProfData_id: "prof_data p = ProfileData_Reset \<Longrightarrow> ResetProfData (p\<lparr>prof_data := d\<rparr>) = p"
  by (cases p) (simp add: ResetProfData_def)

lemma meas_num_collected:
  assumes "xs \<noteq> []" "length xs < 2 ^ 64"
  shows "meas_num (collected dl xs ProfileData_Reset) \<noteq> 0"
proof -
  have "unat (of_nat (length xs) :: u64) = length xs" using assms(2) by (rule unat_of_nat_u64)
  then have "(of_nat (length xs) :: u64) \<noteq> 0" using assms(1) by (metis length_0_conv unat_0)
  then show ?thesis by (simp add: collected_fields ProfileData_Reset_def)
qed

lemma unat_u32_less: "unat (w :: u32) < 2 ^ 64"
proof -
  have "unat w < 2 ^ 32" using unsigned_less [of w] by simp
  then show ?thesis by simp
qed

lemma batch_sent:
  assumes p: "idle p" "prof_data p = ProfileData_Reset"
    and n: "length xs = unat (max_calls p)" "max_calls p \<noteq> 0"
    and m: "prof_fifo_ok base m" "length (fifo_contents m) < 8"
  shows "\<exists>m' d. run_meas base xs p m = Some (Inr (p, m')) \<and> prof_fifo_ok base m' \<and>
    fifo_contents m' = fifo_contents m @ [d] \<and> summarises (delta p) xs d \<and>
    area_frame m' = area_frame m"
proof -
  have ne: "xs \<noteq> []" using n by (auto simp: unat_eq_zero)
  have "length xs < 2 ^ 64" unfolding n(1) by (rule unat_u32_less)
  from meas_num_collected [OF ne this] prof_Update_room [OF m(1), of
      "p\<lparr>prof_data := collected (delta p) xs ProfileData_Reset\<rparr>"] m(2) p
  show ?thesis
    using run_meas_batch [OF p n, of base m] summarises_sent [OF ne, of "delta p"]
      ResetProfData_id [OF p(2)]
    by (auto simp: idle_def PROF_FIFO_SIZE_def)
qed

subsection \<open>Properties\<close>

text \<open>C25: a batch. From an idle point that has collected nothing, the measurement that reaches
  the maximal number of calls sends one record to a FIFO with room, and the record summarises
  the batch: the number of measurements, the largest with the time at which it started, the last,
  and the average. The point is left as it was, ready for the next batch.\<close>

theorem prof_batch_sent:
  assumes "idle p" "prof_data p = ProfileData_Reset"
    and "length xs = unat (max_calls p)" "max_calls p \<noteq> 0"
    and "prof_fifo_ok base m" "length (fifo_contents m) < 8"
  shows "\<exists>m' d. run_meas base xs p m = Some (Inr (p, m')) \<and> prof_fifo_ok base m' \<and>
    fifo_contents m' = fifo_contents m @ [d] \<and> summarises (delta p) xs d"
  using batch_sent [OF assms] by blast

text \<open>Flushing. A series that is shorter than a batch sends nothing; flushing it then sends
  one record that summarises it.\<close>

theorem prof_flush_partial:
  assumes p: "idle p" "prof_data p = ProfileData_Reset"
    and n: "xs \<noteq> []" "length xs < unat (max_calls p)"
    and m: "prof_fifo_ok base m" "length (fifo_contents m) < 8"
  shows "\<exists>p1 m' d. run_meas base xs p m = Some (Inr (p1, m)) \<and>
    prof_Update base p1 m = Some (Inr (p, m')) \<and>
    fifo_contents m' = fifo_contents m @ [d] \<and> summarises (delta p) xs d"
proof -
  let ?p = "p\<lparr>prof_data := collected (delta p) xs ProfileData_Reset\<rparr>"
  have "unat (meas_num (prof_data p)) + length xs < unat (max_calls p)"
    using p(2) n(2) by (simp add: ProfileData_Reset_def)
  then have "run_meas base xs p m = Some (Inr (?p, m))"
    using run_meas_collect [OF p(1)] p(2) by simp
  moreover have "length xs < 2 ^ 64" using n(2) unat_u32_less [of "max_calls p"] by linarith
  from meas_num_collected [OF n(1) this] prof_Update_room [OF m(1), of ?p] m(2) p
  have "\<exists>m'. prof_Update base ?p m = Some (Inr (p, m')) \<and>
      fifo_contents m' = fifo_contents m @ [sent (collected (delta p) xs ProfileData_Reset)]"
    using ResetProfData_id [OF p(2)] by (auto simp: idle_def PROF_FIFO_SIZE_def)
  ultimately show ?thesis using summarises_sent [OF n(1), of "delta p"] by blast
qed

text \<open>C33: a full FIFO loses the new record and not the oldest one. \<open>Update\<close> pops into the very
  object it pushes, so on a full FIFO it puts the oldest record back at the end and drops the
  measurements it was to send; the records that remain are the old ones, rotated.\<close>

theorem prof_full_fifo_loses_new:
  assumes "prof_fifo_ok base m" "length (fifo_contents m) = 8"
    "meas_num (prof_data p) \<noteq> 0" "mem_ptr p \<noteq> None"
  shows "\<exists>m'. prof_Update base p m = Some (Inr (ResetProfData p, m')) \<and>
    fifo_contents m' = rotate1 (fifo_contents m) \<and> set (fifo_contents m') = set (fifo_contents m)"
  using prof_Update_full [OF assms(1) _ assms(3,4)] assms(2) by (auto simp: PROF_FIFO_SIZE_def)

subsection \<open>A process in which the stored addresses are not valid\<close>

text \<open>Two places at which \<open>s\<close> bytes do not overlap, round the address space.\<close>

definition apart :: "nat \<Rightarrow> u64 \<Rightarrow> u64 \<Rightarrow> bool" where
  "apart s pb base \<longleftrightarrow> s \<le> unat (pb - base) \<and> unat (pb - base) + s \<le> 2 ^ 64"

lemma far_offset:
  assumes "apart s pb base" "k < s"
  shows "s \<le> unat (pb + of_nat k - base)"
proof -
  let ?d = "unat (pb - base)"
  have "?d + k < 2 ^ 64" using assms by (simp add: apart_def)
  then have "unat (of_nat k :: u64) = k" by (intro unat_of_nat_u64) simp
  then have "unat ((pb - base) + of_nat k) = ?d + k"
    using \<open>?d + k < 2 ^ 64\<close> unat_word_ariths(1) [of "pb - base" "of_nat k"] by simp
  moreover have "pb + of_nat k - base = (pb - base) + of_nat k" by simp
  ultimately have "unat (pb + of_nat k - base) = ?d + k" by (simp only:)
  with assms(1) show ?thesis by (simp add: apart_def)
qed

text \<open>An area whose absolute pointers are those of another process.\<close>

definition area_elsewhere :: "u64 \<Rightarrow> 'a mem_area \<Rightarrow> bool" where
  "area_elsewhere base m \<longleftrightarrow>
     apart (unat (elem_size m) * length (chunk_buf m)) (ptr_producer m) base \<and>
     apart (unat (elem_size m) * length (chunk_buf m)) (ptr_consumer m) base"

lemma stale_offset:
  assumes wf: "pool_wf m" and i: "unat i < length (chunk_buf m)"
    and pb: "apart (unat (elem_size m) * length (chunk_buf m)) pb base"
  shows "chunk_index (unat (pb + ucast (single_chunk_size m * i) - base)) m = Inl MemFault"
proof -
  let ?s = "unat (elem_size m) * length (chunk_buf m)" and ?k = "unat (elem_size m) * unat i"
  have k: "?k < ?s" using i pool_wf_bounds(3) [OF wf] by simp
  have "unat (ucast (single_chunk_size m * i) :: u64) = ?k"
    using stride_wf [OF wf i] by (simp add: unat_ucast_u32_u64)
  then have "(ucast (single_chunk_size m * i) :: u64) = of_nat ?k"
    by (metis of_nat_unat ucast_id)
  then have "?s \<le> unat (pb + ucast (single_chunk_size m * i) - base)"
    using far_offset [OF pb k] by simp
  then have "length (chunk_buf m) \<le> unat (pb + ucast (single_chunk_size m * i) - base) div unat (elem_size m)"
    using pool_wf_bounds(3) [OF wf] by (simp add: less_eq_div_iff_mult_less_eq mult.commute)
  then show ?thesis by (simp add: chunk_index_def Let_def)
qed

lemma stale_push:
  assumes wf: "area_wf m" and at: "area_elsewhere base m" and ds: "ds \<le> elem_size m"
  shows "CMemArea_PushFIFO_MT base d ds m =
    (if length (fifo_contents m) = fifo_cap m then Inr (E_FAIL, m) else Inl MemFault)"
proof -
  note pool = area_wf_pool [OF wf]
  let ?n = "length (chunk_buf m)" and ?w = "unat (wr_ind m)"
  have w: "?w < ?n" "2 \<le> ?n" "\<not> in_lock m" "ds \<le> single_chunk_size m"
    using wf ds by (auto simp: area_wf_def pool_wf_def)
  then have k: "(?w + 1) mod ?n < ?n" by (intro mod_less_divisor) linarith
  have "(of_nat ((?w + 1) mod ?n) = rd_ind m) = (length (fifo_contents m) = fifo_cap m)"
    using of_nat_ind_eq_iff [OF pool k] full_iff [OF wf] by blast
  moreover have "chunk_index (unat (ptr_producer m + ucast (single_chunk_size m * wr_ind m) - base))
      (m\<lparr>in_lock := True\<rparr>) = Inl MemFault"
    using stale_offset [OF pool w(1), of "ptr_producer m" base] at
    by (simp add: area_elsewhere_def chunk_index_def)
  ultimately show ?thesis
    using w next_ind_wf [OF pool w(1)]
    by (simp add: CMemArea_PushFIFO_MT_def push_mt_def OSA_spinlock_lock_def OSA_spinlock_unlock_def
        chunk_store_def CMemArea_GetWriteBufP_def release_in_lock)
qed

lemma stale_pop:
  assumes wf: "area_wf m" and at: "area_elsewhere base m" and ds: "ds \<le> elem_size m"
    and ne: "fifo_contents m \<noteq> []"
  shows "CMemArea_PopFIFO_MT base ds m = Inl MemFault"
proof -
  note pool = area_wf_pool [OF wf]
  let ?n = "length (chunk_buf m)" and ?k = "(unat (rd_ind m) + 1) mod length (chunk_buf m)"
  have r: "unat (rd_ind m) < ?n" "2 \<le> ?n" "\<not> out_lock m" "ds \<le> single_chunk_size m"
    using wf ds by (auto simp: area_wf_def pool_wf_def)
  then have k: "?k < ?n" by (intro mod_less_divisor) linarith
  then have u: "unat (of_nat ?k :: u32) = ?k" using unat_of_nat_ind [OF pool k] by simp
  have "of_nat ?k \<noteq> wr_ind m"
    using of_nat_ind_eq_iff [OF pool k] empty_iff [OF wf] ne by blast
  moreover have "chunk_index (unat (ptr_consumer m + ucast (single_chunk_size m * of_nat ?k) - base))
      (m\<lparr>out_lock := True, rd_ind := of_nat ?k\<rparr>) = Inl MemFault"
    using stale_offset [OF pool, of "of_nat ?k" "ptr_consumer m" base] at u k
    by (simp add: area_elsewhere_def chunk_index_def)
  ultimately show ?thesis
    using r next_ind_wf [OF pool r(1)]
    by (simp add: CMemArea_PopFIFO_MT_def pop_mt_def OSA_spinlock_lock_def OSA_spinlock_unlock_def
        chunk_load_def CMemArea_GetReadBufP_def Let_def)
qed

text \<open>Only the process that registered a profiler can feed it. The FIFO holds the absolute
  addresses of the process that set it up; in a process that maps the shared memory elsewhere,
  sending measurements, with room or with a full FIFO, always accesses memory outside the FIFO.\<close>

theorem prof_Update_other_process:
  assumes "area_ready sizeof_ProfileData m" "area_elsewhere base m" "2 < length (chunk_buf m)"
    "meas_num (prof_data p) \<noteq> 0" "mem_ptr p \<noteq> None"
  shows "prof_Update base p m = Some (Inl MemFault)"
proof -
  have wf: "area_wf m" "sizeof_ProfileData \<le> elem_size m" using assms(1) by (auto simp: area_ready_def)
  let ?push = "\<lambda>d. CMemArea_PushFIFO_MT base d sizeof_ProfileData"
  have "push_reusing ?push (CMemArea_PopFIFO_MT base sizeof_ProfileData) d m = Some (Inl MemFault)" for d
  proof (cases "length (fifo_contents m) = fifo_cap m")
    case True
    then have "fifo_contents m \<noteq> []" using assms(3) by (auto simp: fifo_cap_def)
    with True stale_push [OF wf(1) assms(2) wf(2)] stale_pop [OF wf(1) assms(2) wf(2)]
    show ?thesis by (subst push_reusing.simps) simp
  next
    case False
    with stale_push [OF wf(1) assms(2) wf(2)] show ?thesis by (subst push_reusing.simps) simp
  qed
  with assms(4,5) show ?thesis by (auto simp: prof_Update_def Let_def)
qed

subsection \<open>Pausing a measurement\<close>

text \<open>\<open>Start\<close> and \<open>StopContinue\<close> in alternation, each pair with its two clock readings.\<close>

fun run_segments :: "(timespec \<times> timespec) list \<Rightarrow> ProfilePoint \<Rightarrow> fault + ProfilePoint" where
  "run_segments [] p = Inr p"
| "run_segments ((a, b) # segs) p =
     bindE (prof_Start a 0 p) (\<lambda>p. run_segments segs (prof_StopContinue b 0 p))"

definition elapsed :: "(timespec \<times> timespec) list \<Rightarrow> u64" where
  "elapsed segs = sum_list (map (\<lambda>(a, b). timespec_to_ns b - timespec_to_ns a) segs)"

lemma run_segments_eq:
  assumes "start_val p = 0" "evalType p = TIME_EVAL"
  shows "\<exists>l. run_segments segs p =
    Inr (p\<lparr>prof_data := (prof_data p)\<lparr>last_cnt := l\<rparr>, acc_cnt := acc_cnt p + elapsed segs\<rparr>)"
  using assms
proof (induction segs arbitrary: p)
  case Nil
  then show ?case by (intro exI [of _ "last_cnt (prof_data p)"]) (simp add: elapsed_def)
next
  case (Cons s segs)
  obtain a b where s: "s = (a, b)" by fastforce
  let ?p = "p\<lparr>prof_data := (prof_data p)\<lparr>last_cnt := 1\<rparr>,
    acc_cnt := acc_cnt p + (timespec_to_ns b - timespec_to_ns a)\<rparr>"
  have "prof_StopContinue b 0 (p\<lparr>prof_data := (prof_data p)\<lparr>last_cnt := 1\<rparr>,
      start_val := timespec_to_ns a\<rparr>) = ?p"
    using Cons.prems by (cases p) (simp add: prof_StopContinue_def Let_def)
  then have "run_segments (s # segs) p = run_segments segs ?p"
    using Start_idle [OF Cons.prems, of a 0] s by simp
  with Cons.IH [of ?p] Cons.prems s show ?case by (auto simp: elapsed_def add.assoc)
qed

text \<open>A measurement may be paused any number of times: what counts is the sum of the stretches
  during which it ran, less the calibrated cost of reading the clock once, with 20 in the place of
  a negative result; the next measurement starts from zero again.\<close>

theorem prof_pauses_add_up:
  assumes p: "idle p" "max_calls p = 0"
  shows "\<exists>p1 p2. run_segments segs p = Inr p1 \<and> prof_Start a 0 p1 = Inr p2 \<and>
    prof_Stop base b 0 None p2 m =
      Some (Inr (p\<lparr>prof_data := add_value (clip (elapsed (segs @ [(a, b)]) - delta p))
                     (timespec_to_ns a) (prof_data p)\<rparr>, m))"
proof -
  have i: "start_val p = 0" "acc_cnt p = 0" "evalType p = TIME_EVAL" using p(1) by (auto simp: idle_def)
  obtain l where l: "run_segments segs p =
      Inr (p\<lparr>prof_data := (prof_data p)\<lparr>last_cnt := l\<rparr>, acc_cnt := elapsed segs\<rparr>)"
    using run_segments_eq [OF i(1,3)] i(2) by auto
  let ?p1 = "p\<lparr>prof_data := (prof_data p)\<lparr>last_cnt := l\<rparr>, acc_cnt := elapsed segs\<rparr>"
  let ?p2 = "p\<lparr>prof_data := (prof_data p)\<lparr>last_cnt := 1\<rparr>, acc_cnt := elapsed segs,
    start_val := timespec_to_ns a\<rparr>"
  have s: "prof_Start a 0 ?p1 = Inr ?p2" using Start_idle [of ?p1 a 0] i by simp
  have v: "stop_value b 0 None ?p2 = clip (elapsed (segs @ [(a, b)]) - delta p)"
    using i by (simp add: stop_value_def clip_def elapsed_def Let_def algebra_simps)
  have "?p2\<lparr>prof_data := d, acc_cnt := 0, start_val := 0\<rparr> = p\<lparr>prof_data := d\<rparr>" for d
    using i by (cases p) simp
  moreover have "evalType ?p2 = TIME_EVAL" using i by simp
  ultimately have "prof_Stop base b 0 None ?p2 m =
      Some (Inr (p\<lparr>prof_data := add_value (clip (elapsed (segs @ [(a, b)]) - delta p))
                     (timespec_to_ns a) (prof_data p)\<rparr>, m))"
    using Stop_eq [of ?p2 base b 0 None m] p(2) unfolding v
    by (simp add: full_batch_def add_value_def)
  with l s show ?thesis by blast
qed

text \<open>Initialisation leaves every point in the same idle state, calibrated and attached to its
  FIFO, and sends after 500 measurements whatever count the caller asked for.\<close>

theorem prof_Init_ignores_count:
  "idle (prof_Init clk cyc mem n p) \<and> prof_data (prof_Init clk cyc mem n p) = ProfileData_Reset \<and>
   max_calls (prof_Init clk cyc mem n p) = 500 \<and> mem_ptr (prof_Init clk cyc mem n p) = Some mem \<and>
   prof_Init clk cyc mem n p = prof_Init clk cyc mem n' p'"
proof -
  have f: "fold (\<lambda>i p. p\<lparr>delta := delta p + h i\<rparr>) is q =
      q\<lparr>delta := delta q + sum_list (map h is)\<rparr>" for h "is" and q :: ProfilePoint
    by (induction "is" arbitrary: q) (auto simp: algebra_simps)
  have r: "ResetInit p = ResetInit p'" by (cases p; cases p') (simp add: ResetInit_def ResetProfData_def)
  show ?thesis
    unfolding prof_Init_def Let_def f r
    by (simp add: idle_def ResetInit_def ResetProfData_def)
qed

text \<open>Starting a running measurement aborts. After a \<open>Start\<close> whose clock reading is not zero,
  another \<open>Start\<close> without a stop in between fails the assertion.\<close>

theorem prof_Start_twice:
  assumes "prof_Start now cyc p = Inr p1" "evalType p = TIME_EVAL" "timespec_to_ns now \<noteq> 0"
  shows "prof_Start now' cyc' p1 = Inl AssertFail"
proof -
  have "start_val p1 = timespec_to_ns now"
    using assms(1,2) by (auto simp: prof_Start_def ASSERT_eq_Inr Let_def)
  with assms(3) show ?thesis by (simp add: prof_Start_def)
qed

subsection \<open>The properties at work\<close>

definition demo_fifo :: "u64 \<Rightarrow> u32 \<Rightarrow> prof_fifo" where
  "demo_fifo base w =
     \<lparr>allocated_ptr = 0, ptr_producer = base, ptr_consumer = base, number_chunks = 10,
      single_chunk_size = 64, wr_ind = w, rd_ind = 0, access_mode = E_READ, attrib = 0,
      in_lock = False, out_lock = False, area_name = replicate MDO_NAME_SIZE NUL,
      chunk_buf = replicate 10 ProfileData_Reset, elem_size = 64\<rparr>"

lemma demo_fifo_ok:
  assumes "w = 1 \<or> w = 9"
  shows "prof_fifo_ok base (demo_fifo base w)"
    "length (fifo_contents (demo_fifo base w)) = unat w - 1"
proof -
  show "prof_fifo_ok base (demo_fifo base w)"
    using assms by (auto simp: demo_fifo_def prof_fifo_ok_def area_ready_def area_wf_def pool_wf_def
        area_at_def sizeof_ProfileData_def PROF_FIFO_SIZE_def)
  show "length (fifo_contents (demo_fifo base w)) = unat w - 1"
    using assms by (auto simp: demo_fifo_def length_fifo_contents gap_def)
qed

definition demo_point :: "u32 \<Rightarrow> ProfilePoint" where
  "demo_point n =
     \<lparr>prof_data = ProfileData_Reset, acc_cnt = 0, cnt_id = 0, max_calls = n, start_val = 0,
      delta = 10, prof_id = 0, evalType = TIME_EVAL, mem_ptr = Some (0, 0)\<rparr>"

lemma demo_point_ok: "idle (demo_point n)" "prof_data (demo_point n) = ProfileData_Reset"
  "max_calls (demo_point n) = n" "delta (demo_point n) = 10"
  by (simp_all add: demo_point_def idle_def)

definition demo_meas :: "measurement list" where
  "demo_meas = [Timed \<lparr>tv_sec = 1, tv_nsec = 0\<rparr> \<lparr>tv_sec = 1, tv_nsec = 60\<rparr>, Given 30]"

theorem prof_batch_sent_witness:
  "\<exists>m' d. run_meas 4096 demo_meas (demo_point 2) (demo_fifo 4096 1) = Some (Inr (demo_point 2, m')) \<and>
     fifo_contents m' = fifo_contents (demo_fifo 4096 1) @ [d] \<and>
     meas_num d = 2 \<and> last_cnt d = 30"
proof -
  have "length demo_meas = unat (max_calls (demo_point 2))" "max_calls (demo_point 2) \<noteq> 0"
    by (simp_all add: demo_meas_def demo_point_ok)
  from prof_batch_sent [OF demo_point_ok(1,2) this demo_fifo_ok(1) [of 1 4096]]
    demo_fifo_ok(2) [of 1 4096]
  show ?thesis by (auto simp: summarises_def demo_meas_def demo_point_ok)
qed

theorem prof_flush_partial_witness:
  "\<exists>p1 m' d. run_meas 4096 demo_meas (demo_point 500) (demo_fifo 4096 1) =
       Some (Inr (p1, demo_fifo 4096 1)) \<and>
     prof_Update 4096 p1 (demo_fifo 4096 1) = Some (Inr (demo_point 500, m')) \<and> meas_num d = 2 \<and>
     fifo_contents m' = fifo_contents (demo_fifo 4096 1) @ [d]"
proof -
  have "demo_meas \<noteq> []" "length demo_meas < unat (max_calls (demo_point 500))"
    by (simp_all add: demo_meas_def demo_point_ok)
  from prof_flush_partial [OF demo_point_ok(1,2) this demo_fifo_ok(1) [of 1 4096]]
    demo_fifo_ok(2) [of 1 4096]
  obtain p1 m' d where "run_meas 4096 demo_meas (demo_point 500) (demo_fifo 4096 1) =
       Some (Inr (p1, demo_fifo 4096 1))"
    "prof_Update 4096 p1 (demo_fifo 4096 1) = Some (Inr (demo_point 500, m'))"
    "fifo_contents m' = fifo_contents (demo_fifo 4096 1) @ [d]"
    "summarises (delta (demo_point 500)) demo_meas d" by auto
  moreover from this(4) have "meas_num d = 2" by (simp add: summarises_def demo_meas_def)
  ultimately show ?thesis by blast
qed

theorem prof_full_fifo_loses_new_witness:
  "\<exists>p m'. meas_num (prof_data p) = 1 \<and>
     prof_Update 4096 p (demo_fifo 4096 9) = Some (Inr (demo_point 2, m')) \<and>
     fifo_contents m' = rotate1 (fifo_contents (demo_fifo 4096 9))"
proof -
  let ?p = "(demo_point 2)\<lparr>prof_data := ProfileData_Reset\<lparr>meas_num := 1\<rparr>\<rparr>"
  have "length (fifo_contents (demo_fifo 4096 9)) = 8" "meas_num (prof_data ?p) \<noteq> 0" "mem_ptr ?p \<noteq> None"
    using demo_fifo_ok(2) [of 9 4096] by (simp_all add: demo_point_def)
  from prof_full_fifo_loses_new [OF demo_fifo_ok(1) [of 9 4096] this]
  have "\<exists>m'. prof_Update 4096 ?p (demo_fifo 4096 9) = Some (Inr (demo_point 2, m')) \<and>
     fifo_contents m' = rotate1 (fifo_contents (demo_fifo 4096 9))"
    using ResetProfData_id [OF demo_point_ok(2)] by auto
  then show ?thesis by (intro exI [of _ ?p]) simp
qed

theorem prof_Update_other_process_witness:
  "prof_Update 4096 ((demo_point 2)\<lparr>prof_data := ProfileData_Reset\<lparr>meas_num := 1\<rparr>\<rparr>) (demo_fifo 8192 1) =
     Some (Inl MemFault)"
proof (rule prof_Update_other_process)
  show "area_ready sizeof_ProfileData (demo_fifo 8192 1)"
    using demo_fifo_ok(1) [of 1 8192] by (simp add: prof_fifo_ok_def)
  show "area_elsewhere 4096 (demo_fifo 8192 1)"
    by (simp add: area_elsewhere_def apart_def demo_fifo_def)
qed (simp_all add: demo_fifo_def demo_point_def)

theorem prof_pauses_add_up_witness:
  "\<exists>p1 p2 d. run_segments [(\<lparr>tv_sec = 1, tv_nsec = 0\<rparr>, \<lparr>tv_sec = 1, tv_nsec = 60\<rparr>)] (demo_point 0) =
       Inr p1 \<and>
     prof_Start \<lparr>tv_sec = 2, tv_nsec = 0\<rparr> 0 p1 = Inr p2 \<and>
     prof_Stop 4096 \<lparr>tv_sec = 2, tv_nsec = 40\<rparr> 0 None p2 (demo_fifo 4096 1) =
       Some (Inr ((demo_point 0)\<lparr>prof_data := d\<rparr>, demo_fifo 4096 1)) \<and>
     last_cnt d = 90 \<and> meas_num d = 1"
proof -
  let ?d = "add_value (clip (elapsed ([(\<lparr>tv_sec = 1, tv_nsec = 0\<rparr>, \<lparr>tv_sec = 1, tv_nsec = 60\<rparr>)] @
       [(\<lparr>tv_sec = 2, tv_nsec = 0\<rparr>, \<lparr>tv_sec = 2, tv_nsec = 40\<rparr>)]) - delta (demo_point 0)))
     (timespec_to_ns \<lparr>tv_sec = 2, tv_nsec = 0\<rparr>) (prof_data (demo_point 0))"
  have "last_cnt ?d = 90" "meas_num ?d = 1"
    by (simp_all add: add_value_def clip_def elapsed_def timespec_to_ns_def BILLION_def demo_point_def
        ProfileData_Reset_def)
  with prof_pauses_add_up [OF demo_point_ok(1) [of 0] demo_point_ok(3)] show ?thesis by blast
qed

theorem prof_Start_twice_witness:
  "\<exists>p1. prof_Start \<lparr>tv_sec = 1, tv_nsec = 0\<rparr> 0 (demo_point 2) = Inr p1 \<and>
     prof_Start \<lparr>tv_sec = 2, tv_nsec = 0\<rparr> 0 p1 = Inl AssertFail"
proof -
  obtain p1 where p1: "prof_Start \<lparr>tv_sec = 1, tv_nsec = 0\<rparr> 0 (demo_point 2) = Inr p1"
    using Start_idle [of "demo_point 2"] by (simp add: demo_point_def)
  have "evalType (demo_point 2) = TIME_EVAL" "timespec_to_ns \<lparr>tv_sec = 1, tv_nsec = 0\<rparr> \<noteq> 0"
    by (simp_all add: demo_point_def timespec_to_ns_def BILLION_def)
  from prof_Start_twice [OF p1 this] p1 show ?thesis by blast
qed

end
