(* ===== verification/Profiler_Group.thy ===== *)
theory Profiler_Group
  imports Profile_Batches Name_Table
begin

section \<open>The profilers of one group: \<open>CProfilerGroup\<close>\<close>

text \<open>
  The array of profiler FIFOs of a group (\<open>rt_debug_types.h\<close>): registration by name, the read
  that drains the FIFO of a profiler into one aggregate record, and the FIFO a point is attached
  to. \<open>bases i\<close> is the address of \<open>prof_fifo_[i].buf_\<close> in the calling process.
\<close>

record CProfilerGroup =
  prof_fifos :: "prof_fifo list"
  num_alloc_prof :: u32
  pg_group_name :: cbuf

definition profiler_Reset :: "bool \<Rightarrow> CProfilerGroup \<Rightarrow> CProfilerGroup" where
  "profiler_Reset attach g =
     (if \<not> attach then g\<lparr>num_alloc_prof := 0, pg_group_name := clear_str (pg_group_name g)\<rparr> else g)"

definition profiler_SetGroupName :: "string \<Rightarrow> CProfilerGroup \<Rightarrow> fault + CProfilerGroup" where
  "profiler_SetGroupName nm g =
     bindE (strcpy (pg_group_name g) nm) (\<lambda>b. Inr (g\<lparr>pg_group_name := b\<rparr>))"

definition RegistryProfileEntry ::
  "(nat \<Rightarrow> u64) \<Rightarrow> string \<Rightarrow> CProfilerGroup \<Rightarrow> fault + (u32 \<times> CProfilerGroup)" where
  "RegistryProfileEntry bases prof_name g =
     ASSERT (num_alloc_prof g \<le> of_nat PROF_GROUP_MAX)
      (bindE (scan_names (map area_name (prof_fifos g)) prof_name 0 (unat (num_alloc_prof g))) (\<lambda>r.
        case r of
          Some i \<Rightarrow> Inr (of_nat i, g)
        | None \<Rightarrow>
            (let i = num_alloc_prof g; g = g\<lparr>num_alloc_prof := num_alloc_prof g + 1\<rparr> in
             bindE (arr_mod (prof_fifos g) (unat i) (\<lambda>m.
               bindE (StaticMemArea_Setup (of_nat PROF_FIFO_SIZE) sizeof_ProfileData prof_name E_READ 0 m)
                 (\<lambda>m. StaticMemArea_MemAlloc (bases (unat i)) m)))
               (\<lambda>fs. Inr (i, g\<lparr>prof_fifos := fs\<rparr>)))))"

text \<open>\<open>grp\<close> is the number of this group: the point keeps a pointer to the FIFO.\<close>

definition AddProfileEntry ::
  "(nat \<Rightarrow> timespec) \<Rightarrow> (nat \<Rightarrow> u64) \<Rightarrow> nat \<Rightarrow> u32 \<Rightarrow> ProfilePoint \<Rightarrow> u32 \<times> ProfilePoint" where
  "AddProfileEntry clk cyc grp prof_entry_num p =
     (0, prof_Init clk cyc (grp, unat prof_entry_num) 500 p)"

definition GetGrpProfNum :: "CProfilerGroup \<Rightarrow> u32" where
  "GetGrpProfNum g = num_alloc_prof g"

definition prof_aggregate :: "ProfileData \<Rightarrow> bool \<times> ProfileData \<Rightarrow> bool \<times> ProfileData" where
  "prof_aggregate tmp_cnt acc =
     (if meas_num tmp_cnt = 0 then acc
      else
        (let cnt_val = (snd acc)\<lparr>last_cnt := last_cnt tmp_cnt\<rparr>;
             cnt_val = (if max_cnt cnt_val < max_cnt tmp_cnt
                        then cnt_val\<lparr>max_cnt := max_cnt tmp_cnt, max_cnt_time := max_cnt_time tmp_cnt\<rparr>
                        else cnt_val) in
         (True, cnt_val\<lparr>average_cnt := average_cnt cnt_val + average_cnt tmp_cnt * meas_num tmp_cnt,
                        meas_num := meas_num cnt_val + meas_num tmp_cnt\<rparr>)))"

text \<open>\<open>None\<close> in the result is \<open>false\<close>; \<open>Some\<close> gives the two output arguments.\<close>

definition prof_GetProfInfo ::
  "u32 \<Rightarrow> cbuf \<Rightarrow> CProfilerGroup \<Rightarrow>
   (fault + ((ProfileData \<times> cbuf) option \<times> CProfilerGroup)) option" where
  "prof_GetProfInfo i prof_name g =
     bindD (Some (ASSERT (i < num_alloc_prof g) (arr_get (prof_fifos g) (unat i)))) (\<lambda>m.
     bindD (pop_all (StaticMemArea_PopFIFO_MT sizeof_ProfileData) prof_aggregate
              (False, ProfileData_Reset) m) (\<lambda>((res, cnt_val), m).
       let g = g\<lparr>prof_fifos := (prof_fifos g)[unat i := m]\<rparr> in
       if res then
         (if meas_num cnt_val = 0 then Some (Inl DivByZero)
          else
            (let cnt_val = cnt_val\<lparr>average_cnt := average_cnt cnt_val div meas_num cnt_val\<rparr> in
             bindD (Some (c_str (area_name m))) (\<lambda>nm.
             bindD (Some (strcpy prof_name nm)) (\<lambda>b.
               Some (Inr (Some (cnt_val, b), g))))))
       else Some (Inr (None, g))))"

definition AddProfData :: "u32 \<Rightarrow> ProfileData \<Rightarrow> CProfilerGroup \<Rightarrow> (fault + CProfilerGroup) option" where
  "AddProfData i d g =
     bindD (Some (ASSERT (i < num_alloc_prof g) (arr_get (prof_fifos g) (unat i)))) (\<lambda>m.
     bindD (push_evict (\<lambda>d. StaticMemArea_PushFIFO_MT d sizeof_ProfileData)
              (StaticMemArea_PopFIFO_MT sizeof_ProfileData) d m) (\<lambda>m.
       Some (Inr (g\<lparr>prof_fifos := (prof_fifos g)[unat i := m]\<rparr>))))"

subsection \<open>Invariant\<close>

definition prof_shape :: "prof_fifo \<Rightarrow> bool" where
  "prof_shape m \<longleftrightarrow> length (chunk_buf m) = PROF_FIFO_SIZE \<and> elem_size m = sizeof_ProfileData"

definition profiler_names :: "CProfilerGroup \<Rightarrow> string list" where
  "profiler_names g = array_names area_name (unat (num_alloc_prof g)) (prof_fifos g)"

definition profiler_wf :: "CProfilerGroup \<Rightarrow> bool" where
  "profiler_wf g \<longleftrightarrow>
     name_array area_name MDO_NAME_SIZE PROF_GROUP_MAX (unat (num_alloc_prof g)) (prof_fifos g) \<and>
     (\<forall>m \<in> set (prof_fifos g). prof_shape m) \<and>
     (\<forall>m \<in> set (take (unat (num_alloc_prof g)) (prof_fifos g)). area_ready sizeof_ProfileData m) \<and>
     length (pg_group_name g) = TRACE_STRING_SIZE"

definition bases_ok :: "(nat \<Rightarrow> u64) \<Rightarrow> bool" where
  "bases_ok bases \<longleftrightarrow> (\<forall>i < PROF_GROUP_MAX. bases i \<noteq> 0 \<and> ALIGN_64BIT (bases i) = bases i)"

definition profiler_shape :: "CProfilerGroup \<Rightarrow> bool" where
  "profiler_shape g \<longleftrightarrow> length (prof_fifos g) = PROF_GROUP_MAX \<and>
     (\<forall>m \<in> set (prof_fifos g). prof_shape m \<and> length (area_name m) = MDO_NAME_SIZE) \<and>
     length (pg_group_name g) = TRACE_STRING_SIZE"

lemma profiler_Reset_wf:
  "profiler_shape g \<Longrightarrow> profiler_wf (profiler_Reset False g) \<and> profiler_shape (profiler_Reset False g) \<and>
    profiler_names (profiler_Reset False g) = []"
  by (auto simp: profiler_shape_def profiler_wf_def profiler_Reset_def profiler_names_def
      intro!: name_array_empty)

lemma length_profiler_names: "profiler_wf g \<Longrightarrow> length (profiler_names g) = unat (num_alloc_prof g)"
  unfolding profiler_wf_def profiler_names_def by (blast intro: length_array_names)

lemma profiler_scan:
  assumes "profiler_wf g" "c_string nm"
  shows "scan_names (map area_name (prof_fifos g)) nm 0 (unat (num_alloc_prof g)) =
    Inr (first_pos nm (profiler_names g))"
  using assms name_array_scan unfolding profiler_wf_def profiler_names_def by blast

lemma profiler_num:
  assumes "profiler_wf g"
  shows "unat (num_alloc_prof g) \<le> PROF_GROUP_MAX" "num_alloc_prof g \<le> of_nat PROF_GROUP_MAX"
  using assms by (auto simp: profiler_wf_def name_array_def word_le_nat_alt PROF_GROUP_MAX_def)

lemma profiler_area:
  assumes "prof_shape m" "length (area_name m) = MDO_NAME_SIZE" "fits MDO_NAME_SIZE nm"
    "base \<noteq> 0" "ALIGN_64BIT base = base"
  shows "\<exists>m1 m2. StaticMemArea_Setup sz inc nm E_READ 0 m = Inr m1 \<and>
    StaticMemArea_MemAlloc base m1 = Inr m2 \<and> area_ready sizeof_ProfileData m2 \<and> prof_shape m2 \<and>
    fifo_contents m2 = [] \<and> area_at base m2 \<and> length (area_name m2) = MDO_NAME_SIZE \<and>
    terminated (area_name m2) \<and> str_of (area_name m2) = nm"
proof -
  have "\<exists>m1. StaticMemArea_Setup sz inc nm E_READ 0 m = Inr m1 \<and> area_wf m1 \<and>
      fifo_contents m1 = [] \<and> chunk_buf m1 = chunk_buf m \<and> elem_size m1 = elem_size m \<and>
      attrib m1 = 0 \<and> length (area_name m1) = length (area_name m) \<and>
      terminated (area_name m1) \<and> str_of (area_name m1) = nm \<and>
      rd_ind m1 = 0 \<and> wr_ind m1 = 1 \<and> ptr_producer m1 = ptr_producer m \<and>
      ptr_consumer m1 = ptr_consumer m"
    using assms(1-3) by (intro Setup_ready) (auto simp: prof_shape_def const_defs ALIGN_SIZE_def fits_def)
  then obtain m1 where m1: "StaticMemArea_Setup sz inc nm E_READ 0 m = Inr m1" "area_wf m1"
    "fifo_contents m1 = []" "chunk_buf m1 = chunk_buf m" "elem_size m1 = elem_size m" "attrib m1 = 0"
    "length (area_name m1) = length (area_name m)" "terminated (area_name m1)"
    "str_of (area_name m1) = nm" by blast
  have "StaticMemArea_MemAlloc base m1 = Inr (m1\<lparr>ptr_producer := base, ptr_consumer := base\<rparr>)"
    using m1 assms by (intro StaticMemArea_MemAlloc_ok) (auto simp: area_wf_def prof_shape_def const_defs)
  then show ?thesis
    using m1 assms(1,2)
    by (auto simp: area_ready_def area_wf_def pool_wf_def area_at_def prof_shape_def fifo_contents_def)
qed

lemma RegistryProfileEntry_new:
  assumes wf: "profiler_wf g" and nm: "fits MDO_NAME_SIZE nm" "nm \<notin> set (profiler_names g)"
    and room: "unat (num_alloc_prof g) < PROF_GROUP_MAX" and bs: "bases_ok bases"
  shows "\<exists>m. prof_fifo_ok (bases (unat (num_alloc_prof g))) m \<and> fifo_contents m = [] \<and>
    RegistryProfileEntry bases nm g = Inr (num_alloc_prof g,
      g\<lparr>num_alloc_prof := num_alloc_prof g + 1,
        prof_fifos := (prof_fifos g)[unat (num_alloc_prof g) := m]\<rparr>) \<and>
    profiler_names (g\<lparr>num_alloc_prof := num_alloc_prof g + 1,
        prof_fifos := (prof_fifos g)[unat (num_alloc_prof g) := m]\<rparr>) = profiler_names g @ [nm] \<and>
    profiler_wf (g\<lparr>num_alloc_prof := num_alloc_prof g + 1,
        prof_fifos := (prof_fifos g)[unat (num_alloc_prof g) := m]\<rparr>)"
proof -
  let ?i = "unat (num_alloc_prof g)"
  have arr: "name_array area_name MDO_NAME_SIZE PROF_GROUP_MAX ?i (prof_fifos g)"
    and i: "?i < length (prof_fifos g)"
    using wf room by (auto simp: profiler_wf_def name_array_def)
  have s: "prof_shape (prof_fifos g ! ?i)" "length (area_name (prof_fifos g ! ?i)) = MDO_NAME_SIZE"
    using wf i nth_mem by (auto simp: profiler_wf_def name_array_def)
  have b: "bases ?i \<noteq> 0" "ALIGN_64BIT (bases ?i) = bases ?i"
    using bs room by (auto simp: bases_ok_def)
  obtain m1 m where
    m: "StaticMemArea_Setup (of_nat PROF_FIFO_SIZE) sizeof_ProfileData nm E_READ 0 (prof_fifos g ! ?i)
        = Inr m1" "StaticMemArea_MemAlloc (bases ?i) m1 = Inr m" "area_ready sizeof_ProfileData m"
      "prof_shape m" "fifo_contents m = []" "area_at (bases ?i) m" "length (area_name m) = MDO_NAME_SIZE"
      "terminated (area_name m)" "str_of (area_name m) = nm"
    using profiler_area [OF s nm(1) b, of "of_nat PROF_FIFO_SIZE" sizeof_ProfileData]
    by (elim exE conjE) rule
  let ?g = "g\<lparr>num_alloc_prof := num_alloc_prof g + 1, prof_fifos := (prof_fifos g)[?i := m]\<rparr>"
  have n: "unat (num_alloc_prof g + 1) = Suc ?i"
    using room by (simp add: PROF_GROUP_MAX_def unat_word_ariths)
  have "RegistryProfileEntry bases nm g = Inr (num_alloc_prof g, ?g)"
    using profiler_num [OF wf] profiler_scan [OF wf] nm m(1,2) i
    by (simp add: RegistryProfileEntry_def fits_def Let_def arr_mod_in)
  moreover have "profiler_names ?g = profiler_names g @ [nm]"
    using array_names_snoc [OF i, of area_name m] m(9) n by (simp add: profiler_names_def)
  moreover have "profiler_wf ?g"
  proof -
    have "name_array area_name MDO_NAME_SIZE PROF_GROUP_MAX (Suc ?i) ((prof_fifos g)[?i := m])"
      using name_array_snoc [OF arr room, of m] m(7-9) nm(2) by (simp add: profiler_names_def)
    moreover have "\<forall>m' \<in> set ((prof_fifos g)[?i := m]). prof_shape m'"
      using set_update_subset_insert [of "prof_fifos g" ?i m] wf m(4) by (auto simp: profiler_wf_def)
    moreover have "\<forall>m' \<in> set (take (Suc ?i) ((prof_fifos g)[?i := m])). area_ready sizeof_ProfileData m'"
      unfolding take_Suc_list_update [OF i] using wf m(3) by (simp add: profiler_wf_def ball_Un)
    ultimately show ?thesis using wf n by (simp add: profiler_wf_def)
  qed
  moreover have "prof_fifo_ok (bases ?i) m"
    using m(3,4,6) by (simp add: prof_fifo_ok_def prof_shape_def)
  ultimately show ?thesis using m(5) by (intro exI [of _ m] conjI)
qed

interpretation profilers: name_table "RegistryProfileEntry bases" profiler_names PROF_GROUP_MAX
  "fits MDO_NAME_SIZE" "\<lambda>g. profiler_wf g \<and> bases_ok bases" for bases
proof
  fix g nm assume I: "profiler_wf g \<and> bases_ok bases"
  then have wf: "profiler_wf g" by simp
  show "distinct (profiler_names g)"
    using wf by (simp add: profiler_wf_def profiler_names_def name_array_def)
  show "length (profiler_names g) \<le> PROF_GROUP_MAX"
    using profiler_num [OF wf] by (simp add: length_profiler_names [OF wf])
  assume ok: "fits MDO_NAME_SIZE nm"
  then have cs: "c_string nm" by (simp add: fits_def)
  note scan = profiler_scan [OF wf cs] and num = profiler_num [OF wf]
  show "RegistryProfileEntry bases nm g = Inr (of_nat i, g)"
    if "first_pos nm (profiler_names g) = Some i" for i
    using that scan num by (simp add: RegistryProfileEntry_def)
  assume new: "nm \<notin> set (profiler_names g)"
  show "\<exists>g'. RegistryProfileEntry bases nm g = Inr (of_nat (length (profiler_names g)), g') \<and>
      profiler_names g' = profiler_names g @ [nm] \<and> profiler_wf g' \<and> bases_ok bases"
    if "length (profiler_names g) < PROF_GROUP_MAX"
    using RegistryProfileEntry_new [OF wf ok new, of bases] that I
    by (auto simp: length_profiler_names [OF wf])
  show "\<exists>f. RegistryProfileEntry bases nm g = Inl f" if "length (profiler_names g) = PROF_GROUP_MAX"
    using that new scan num wf length_profiler_names [OF wf]
    by (auto simp: RegistryProfileEntry_def Let_def arr_mod_out profiler_wf_def name_array_def)
qed (simp add: PROF_GROUP_MAX_def)

subsection \<open>Reading the data of a profiler\<close>

definition live :: "ProfileData \<Rightarrow> bool" where
  "live d \<longleftrightarrow> meas_num d \<noteq> 0"

lemma aggregate_live: "fold prof_aggregate ds acc = fold prof_aggregate (filter live ds) acc"
  by (induction ds arbitrary: acc) (auto simp: prof_aggregate_def live_def)

lemma aggregate_conj:
  "(\<forall>d \<in> set ds. live d) \<Longrightarrow>
   fst (fold prof_aggregate ds acc) = (fst acc \<or> ds \<noteq> []) \<and>
   meas_num (snd (fold prof_aggregate ds acc)) = meas_num (snd acc) + sum_list (map meas_num ds) \<and>
   average_cnt (snd (fold prof_aggregate ds acc)) =
     average_cnt (snd acc) + sum_list (map (\<lambda>d. average_cnt d * meas_num d) ds) \<and>
   max_cnt (snd (fold prof_aggregate ds acc)) = fold max (map max_cnt ds) (max_cnt (snd acc)) \<and>
   (ds \<noteq> [] \<longrightarrow> last_cnt (snd (fold prof_aggregate ds acc)) = last_cnt (last ds))"
proof (induction ds arbitrary: acc)
  case (Cons d ds)
  let ?acc = "prof_aggregate d acc"
  have "live d" using Cons.prems by simp
  then have "fst ?acc" "meas_num (snd ?acc) = meas_num (snd acc) + meas_num d"
    "average_cnt (snd ?acc) = average_cnt (snd acc) + average_cnt d * meas_num d"
    "max_cnt (snd ?acc) = max (max_cnt d) (max_cnt (snd acc))" "last_cnt (snd ?acc) = last_cnt d"
    by (auto simp: prof_aggregate_def live_def Let_def max_def not_less)
  with Cons.IH [of ?acc] Cons.prems show ?case by (cases ds) (auto simp: algebra_simps)
qed simp

lemma aggregate_reset:
  assumes "\<forall>d \<in> set ds. live d" "fold prof_aggregate ds (False, ProfileData_Reset) = (r, c)"
  shows "r = (ds \<noteq> [])" "meas_num c = sum_list (map meas_num ds)"
    "average_cnt c = sum_list (map (\<lambda>d. average_cnt d * meas_num d) ds)"
    "max_cnt c = fold max (map max_cnt ds) 0" "ds \<noteq> [] \<Longrightarrow> last_cnt c = last_cnt (last ds)"
  using aggregate_conj [OF assms(1), of "(False, ProfileData_Reset)"] assms(2)
  by (simp_all add: ProfileData_Reset_def)

lemma profiler_get:
  assumes "profiler_wf g" "i < num_alloc_prof g"
  shows "arr_get (prof_fifos g) (unat i) = Inr (prof_fifos g ! unat i)"
    "unat i < length (prof_fifos g)" "area_ready sizeof_ProfileData (prof_fifos g ! unat i)"
    "terminated (area_name (prof_fifos g ! unat i))" "prof_shape (prof_fifos g ! unat i)"
    "str_of (area_name (prof_fifos g ! unat i)) = profiler_names g ! unat i"
    "length (area_name (prof_fifos g ! unat i)) = MDO_NAME_SIZE"
proof -
  have i: "unat i < unat (num_alloc_prof g)" using assms(2) by (simp add: word_less_nat_alt)
  then show l: "unat i < length (prof_fifos g)"
    using assms(1) by (simp add: profiler_wf_def name_array_def)
  then show "arr_get (prof_fifos g) (unat i) = Inr (prof_fifos g ! unat i)" by simp
  have "prof_fifos g ! unat i \<in> set (take (unat (num_alloc_prof g)) (prof_fifos g))"
    using i l by (auto simp: in_set_conv_nth intro!: exI [of _ "unat i"])
  then show "area_ready sizeof_ProfileData (prof_fifos g ! unat i)"
    "terminated (area_name (prof_fifos g ! unat i))"
    using assms(1) by (auto simp: profiler_wf_def name_array_def)
  show "prof_shape (prof_fifos g ! unat i)" "length (area_name (prof_fifos g ! unat i)) = MDO_NAME_SIZE"
    using assms(1) l nth_mem by (auto simp: profiler_wf_def name_array_def)
  show "str_of (area_name (prof_fifos g ! unat i)) = profiler_names g ! unat i"
    using i l by (simp add: profiler_names_def array_names_def)
qed

text \<open>A FIFO of the group changed by queue operations only.\<close>

lemma profiler_wf_update:
  assumes wf: "profiler_wf g" and i: "i < num_alloc_prof g"
    and m: "area_ready sizeof_ProfileData m" "area_frame m = area_frame (prof_fifos g ! unat i)"
  shows "profiler_wf (g\<lparr>prof_fifos := (prof_fifos g)[unat i := m]\<rparr>)"
    "profiler_names (g\<lparr>prof_fifos := (prof_fifos g)[unat i := m]\<rparr>) = profiler_names g"
proof -
  note get = profiler_get [OF wf i]
  let ?fs = "(prof_fifos g)[unat i := m]" and ?n = "unat (num_alloc_prof g)"
  have "area_name m = area_name (prof_fifos g ! unat i)" using m(2) by (simp add: area_frame_def)
  then have same: "map area_name ?fs = map area_name (prof_fifos g)"
    using get(2) by (simp add: map_update list_update_same_conv)
  show "profiler_names (g\<lparr>prof_fifos := ?fs\<rparr>) = profiler_names g"
    using name_array_same_names(2) [OF same] by (simp add: profiler_names_def)
  have "prof_shape m" using m(2) get(5) by (simp add: prof_shape_def area_frame_def)
  then have "\<forall>m' \<in> set ?fs. prof_shape m'"
    using wf set_update_subset_insert [of "prof_fifos g" "unat i" m] by (auto simp: profiler_wf_def)
  moreover have "\<forall>m' \<in> set (take ?n ?fs). area_ready sizeof_ProfileData m'"
    using wf m(1) set_update_subset_insert [of "take ?n (prof_fifos g)" "unat i" m]
    by (auto simp: profiler_wf_def take_update_swap)
  ultimately show "profiler_wf (g\<lparr>prof_fifos := ?fs\<rparr>)"
    using wf name_array_same_names(1) [OF same] by (simp add: profiler_wf_def)
qed

lemma prof_GetProfInfo_eq:
  assumes wf: "profiler_wf g" and i: "i < num_alloc_prof g" and dst: "MDO_NAME_SIZE \<le> length dst"
    and ds: "ds = filter live (fifo_contents (prof_fifos g ! unat i))"
  shows "\<exists>m' b. fifo_contents m' = [] \<and> area_ready sizeof_ProfileData m' \<and>
    area_frame m' = area_frame (prof_fifos g ! unat i) \<and> terminated b \<and>
    str_of b = profiler_names g ! unat i \<and>
    prof_GetProfInfo i dst g =
      (let g' = g\<lparr>prof_fifos := (prof_fifos g)[unat i := m']\<rparr>;
           c = snd (fold prof_aggregate ds (False, ProfileData_Reset)) in
       if ds = [] then Some (Inr (None, g'))
       else if sum_list (map meas_num ds) = 0 then Some (Inl DivByZero)
       else Some (Inr (Some (sent c, b), g')))"
proof -
  note get = profiler_get [OF wf i]
  let ?m = "prof_fifos g ! unat i" and ?acc = "fold prof_aggregate ds (False, ProfileData_Reset)"
  obtain m' where m': "pop_all (StaticMemArea_PopFIFO_MT sizeof_ProfileData) prof_aggregate
      (False, ProfileData_Reset) ?m = Some (Inr (?acc, m'))" "area_ready sizeof_ProfileData m'"
      "fifo_contents m' = []" "area_frame m' = area_frame ?m"
    using sq.pop_all_spec [OF get(3), of prof_aggregate "(False, ProfileData_Reset)"]
    unfolding ds aggregate_live [of "fifo_contents ?m"] by blast
  have nm: "area_name m' = area_name ?m" using m'(4) by (simp add: area_frame_def)
  have "length (str_of (area_name ?m)) < length dst"
    using length_str_of [OF get(4)] get(7) dst by simp
  then obtain b where b: "strcpy dst (str_of (area_name ?m)) = Inr b"
    "str_of b = str_of (area_name ?m)" "terminated b"
    using strcpy_ok [of "str_of (area_name ?m)" dst] by auto
  obtain r c where acc: "?acc = (r, c)" by fastforce
  have "\<forall>d \<in> set ds. live d" using ds by simp
  note f = aggregate_reset [OF this acc]
  have "prof_GetProfInfo i dst g =
      (let g' = g\<lparr>prof_fifos := (prof_fifos g)[unat i := m']\<rparr> in
       if ds = [] then Some (Inr (None, g'))
       else if sum_list (map meas_num ds) = 0 then Some (Inl DivByZero)
       else Some (Inr (Some (sent (snd ?acc), b), g')))"
    using i get(1,4) m'(1) b(1) f(1,2) nm acc
    by (simp add: prof_GetProfInfo_def sent_def Let_def)
  then show ?thesis using m'(2-4) b(2,3) get(6) by (intro exI [of _ m'] exI [of _ b]) simp
qed

subsection \<open>From the measurements of a point to the record that is read\<close>

lemma run_batches:
  assumes p: "idle p" "prof_data p = ProfileData_Reset" "max_calls p \<noteq> 0"
    and "\<forall>xs \<in> set xss. length xs = unat (max_calls p)" "prof_fifo_ok base m"
    "length (fifo_contents m) + length xss \<le> 8"
  shows "\<exists>m' ds. run_meas base (concat xss) p m = Some (Inr (p, m')) \<and> prof_fifo_ok base m' \<and>
    fifo_contents m' = fifo_contents m @ ds \<and> list_all2 (summarises (delta p)) xss ds \<and>
    area_frame m' = area_frame m"
  using assms(4-)
proof (induction xss arbitrary: m)
  case Nil
  then show ?case by simp
next
  case (Cons xs xss)
  have "length xs = unat (max_calls p)" "length (fifo_contents m) < 8" using Cons.prems by auto
  from batch_sent [OF p(1,2) this(1) p(3) Cons.prems(2) this(2)] obtain m1 d where
    m1: "run_meas base xs p m = Some (Inr (p, m1))" "prof_fifo_ok base m1"
      "fifo_contents m1 = fifo_contents m @ [d]" "summarises (delta p) xs d"
      "area_frame m1 = area_frame m" by blast
  from Cons.IH [OF _ m1(2)] Cons.prems m1(3) obtain m2 ds where
    "run_meas base (concat xss) p m1 = Some (Inr (p, m2))" "prof_fifo_ok base m2"
    "fifo_contents m2 = fifo_contents m1 @ ds" "list_all2 (summarises (delta p)) xss ds"
    "area_frame m2 = area_frame m1" by auto
  with m1 show ?case
    by (intro exI [of _ m2] exI [of _ "d # ds"]) (simp add: run_meas_append)
qed

lemma summaries_total:
  assumes "list_all2 (summarises dl) xss ds" "\<forall>xs \<in> set xss. xs \<noteq> [] \<and> length xs < 2 ^ 64"
  shows "sum_list (map meas_num ds) = of_nat (length (concat xss))" "\<forall>d \<in> set ds. live d"
    "fold max (map max_cnt ds) a = fold max (map (meas_value dl) (concat xss)) a"
    "ds \<noteq> [] \<Longrightarrow> last_cnt (last ds) = meas_value dl (last (concat xss))"
    "length ds = length xss"
proof -
  show "sum_list (map meas_num ds) = of_nat (length (concat xss))"
    using assms(1) by induction (auto simp: summarises_def)
  show "\<forall>d \<in> set ds. live d"
    using assms
  proof induction
    case (Cons xs xss d ds)
    then have "unat (of_nat (length xs) :: u64) = length xs" by (intro unat_of_nat_u64) simp
    then have "(of_nat (length xs) :: u64) \<noteq> 0" using Cons.prems by (metis length_0_conv list.set_intros(1) unat_0)
    with Cons show ?case by (simp add: live_def summarises_def)
  qed simp
  have Max_fold: "fold max xs a = max a (Max (set xs))" if "xs \<noteq> []" for xs and a :: u64
    using that Max.set_eq_fold [of a xs] by (simp add: Max_insert)
  show "fold max (map max_cnt ds) a = fold max (map (meas_value dl) (concat xss)) a"
    using assms
  proof (induction arbitrary: a)
    case (Cons xs xss d ds)
    then show ?case
      using Max_fold [of "map (meas_value dl) xs"] by (simp add: summarises_def max.commute)
  qed simp
  show "ds \<noteq> [] \<Longrightarrow> last_cnt (last ds) = meas_value dl (last (concat xss))"
    using assms
  proof induction
    case (Cons xs xss d ds)
    show ?case
    proof (cases ds)
      case Nil
      with Cons show ?thesis by (auto simp: summarises_def)
    next
      case (Cons d' ds')
      then obtain xs' xss' where x: "xss = xs' # xss'" using \<open>list_all2 _ xss ds\<close> by (cases xss) auto
      with \<open>\<forall>xs\<in>set (xs # xss). _ xs\<close> have "concat xss \<noteq> []" by auto
      with Cons.IH Cons x \<open>\<forall>xs\<in>set (xs # xss). _ xs\<close> show ?thesis by auto
    qed
  qed simp
  show "length ds = length xss" using assms(1) by (simp add: list_all2_lengthD)
qed

subsection \<open>Properties\<close>

text \<open>Reading a profiler. \<open>GetProfInfo\<close> drains the FIFO of the profiler and returns one record
  for all the records that were in it: the measurements add up, the maximum is the largest, the
  average is weighted by the measurements, the last value is the newest; it gives the name the
  profiler was registered with, keeps the group well-formed, and a second read finds nothing.\<close>

theorem prof_read_aggregates:
  assumes wf: "profiler_wf g" and i: "i < num_alloc_prof g" and dst: "MDO_NAME_SIZE \<le> length dst"
    and ds: "ds = filter live (fifo_contents (prof_fifos g ! unat i))" "ds \<noteq> []"
    and total: "sum_list (map meas_num ds) \<noteq> 0"
  shows "\<exists>d b g' g''. prof_GetProfInfo i dst g = Some (Inr (Some (d, b), g')) \<and>
    meas_num d = sum_list (map meas_num ds) \<and> max_cnt d = Max (set (map max_cnt ds)) \<and>
    average_cnt d = sum_list (map (\<lambda>d. average_cnt d * meas_num d) ds) div sum_list (map meas_num ds) \<and>
    last_cnt d = last_cnt (last ds) \<and> str_of b = profiler_names g ! unat i \<and>
    profiler_wf g' \<and> profiler_names g' = profiler_names g \<and>
    prof_GetProfInfo i dst g' = Some (Inr (None, g''))"
proof -
  obtain m' b where m': "fifo_contents m' = []" "area_ready sizeof_ProfileData m'"
    "area_frame m' = area_frame (prof_fifos g ! unat i)" "str_of b = profiler_names g ! unat i"
    "prof_GetProfInfo i dst g = Some (Inr (Some (sent (snd (fold prof_aggregate ds
       (False, ProfileData_Reset))), b), g\<lparr>prof_fifos := (prof_fifos g)[unat i := m']\<rparr>))"
    using prof_GetProfInfo_eq [OF wf i dst ds(1)] ds(2) total by (auto simp: Let_def)
  let ?g = "g\<lparr>prof_fifos := (prof_fifos g)[unat i := m']\<rparr>"
  obtain r c where acc: "fold prof_aggregate ds (False, ProfileData_Reset) = (r, c)" by fastforce
  have "\<forall>d \<in> set ds. live d" using ds(1) by simp
  note f = aggregate_reset [OF this acc]
  note wf' = profiler_wf_update [OF wf i m'(2,3)]
  have "i < num_alloc_prof ?g" using i by simp
  moreover have "[] = filter live (fifo_contents (prof_fifos ?g ! unat i))"
    using m'(1) profiler_get(2) [OF wf i] by simp
  ultimately obtain g'' where "prof_GetProfInfo i dst ?g = Some (Inr (None, g''))"
    using prof_GetProfInfo_eq [OF wf'(1) _ dst, of i "[]"] by (auto simp: Let_def)
  moreover have "max_cnt c = Max (set (map max_cnt ds))"
    using f(4) fold_max_Max [of "map max_cnt ds"] ds(2) by simp
  ultimately show ?thesis
    using m'(4,5) acc f ds(2) wf' by (auto simp: sent_def)
qed

text \<open>C26: end to end. A point attached to the empty FIFO of a registered profiler, in the process
  that registered it, makes up to eight full batches of measurements; one read of the profiler
  then reports all of them: their number, their maximum and the last, under the profiler's name.\<close>

theorem prof_measure_then_read:
  assumes wf: "profiler_wf g" and i: "i < num_alloc_prof g" and dst: "MDO_NAME_SIZE \<le> length dst"
    and m: "prof_fifo_ok base (prof_fifos g ! unat i)" "fifo_contents (prof_fifos g ! unat i) = []"
    and p: "idle p" "prof_data p = ProfileData_Reset" "max_calls p \<noteq> 0"
    and xss: "\<forall>xs \<in> set xss. length xs = unat (max_calls p)" "xss \<noteq> []" "length xss \<le> 8"
  shows "\<exists>m' d b g'. run_meas base (concat xss) p (prof_fifos g ! unat i) = Some (Inr (p, m')) \<and>
    prof_GetProfInfo i dst (g\<lparr>prof_fifos := (prof_fifos g)[unat i := m']\<rparr>) =
      Some (Inr (Some (d, b), g')) \<and>
    meas_num d = of_nat (length (concat xss)) \<and>
    max_cnt d = Max (set (map (meas_value (delta p)) (concat xss))) \<and>
    last_cnt d = meas_value (delta p) (last (concat xss)) \<and>
    str_of b = profiler_names g ! unat i"
proof -
  have "length (fifo_contents (prof_fifos g ! unat i)) + length xss \<le> 8" using m(2) xss(3) by simp
  from run_batches [OF p xss(1) m(1) this] m(2) obtain m' ds where
    r: "run_meas base (concat xss) p (prof_fifos g ! unat i) = Some (Inr (p, m'))"
      "prof_fifo_ok base m'" "fifo_contents m' = ds" "list_all2 (summarises (delta p)) xss ds"
      "area_frame m' = area_frame (prof_fifos g ! unat i)" by auto
  let ?g = "g\<lparr>prof_fifos := (prof_fifos g)[unat i := m']\<rparr>"
  have n: "unat (max_calls p) < 2 ^ 32" "0 < unat (max_calls p)"
    using unsigned_less [of "max_calls p"] p(3) by (simp_all add: unat_gt_0)
  then have "\<forall>xs \<in> set xss. xs \<noteq> [] \<and> length xs < 2 ^ 64"
    using xss(1) by auto
  note s = summaries_total [OF r(4) this]
  have "area_ready sizeof_ProfileData m'" using r(2) by (simp add: prof_fifo_ok_def)
  note wf' = profiler_wf_update [OF wf i this r(5)]
  have ds: "ds = filter live (fifo_contents (prof_fifos ?g ! unat i))" "ds \<noteq> []"
    using s(2,5) r(3) profiler_get(2) [OF wf i] xss(2) by (auto simp: filter_id_conv)
  have "length (concat xss) = length xss * unat (max_calls p)"
    using xss(1) by (induction xss) auto
  also have "\<dots> \<le> 8 * 2 ^ 32" using xss(3) n(1) by (intro mult_le_mono) auto
  finally have "length (concat xss) < 2 ^ 64" by simp
  then have u: "unat (of_nat (length (concat xss)) :: u64) = length (concat xss)" by (rule unat_of_nat_u64)
  have ne: "concat xss \<noteq> []" using xss(1,2) n(2) by (cases xss) auto
  then have total: "sum_list (map meas_num ds) \<noteq> 0" using s(1) u by (metis length_0_conv unat_0)
  have "i < num_alloc_prof ?g" using i by simp
  from prof_GetProfInfo_eq [OF wf'(1) this dst ds(1)] ds(2) total wf'(2) obtain b g' where
    g': "prof_GetProfInfo i dst ?g = Some (Inr (Some (sent (snd (fold prof_aggregate ds
       (False, ProfileData_Reset))), b), g'))" "str_of b = profiler_names g ! unat i"
    by (auto simp: Let_def)
  obtain r0 c where acc: "fold prof_aggregate ds (False, ProfileData_Reset) = (r0, c)" by fastforce
  note f = aggregate_reset [OF s(2) acc]
  have "max_cnt c = Max (set (map (meas_value (delta p)) (concat xss)))"
    using f(4) s(3) [of 0] fold_max_Max [of "map (meas_value (delta p)) (concat xss)"] ne by simp
  then show ?thesis
    using r(1) g' acc f(2,5) s(1,4) ds(2)
    by (intro exI [of _ m'] exI [of _ "sent c"] exI [of _ b] exI [of _ g']) (simp add: sent_def)
qed

text \<open>A 51st profiler in a group is written past the end of the array: the assertion lets a
  full group through.\<close>

theorem prof_register_overflow:
  assumes "profiler_wf g" "length (profiler_names g) = 50" "fits MDO_NAME_SIZE nm"
    "nm \<notin> set (profiler_names g)"
  shows "RegistryProfileEntry bases nm g = Inl MemFault"
  using assms profiler_scan [OF assms(1), of nm] profiler_num [OF assms(1)] length_profiler_names [OF assms(1)]
  by (auto simp: RegistryProfileEntry_def Let_def arr_mod_out profiler_wf_def name_array_def fits_def
      PROF_GROUP_MAX_def)

subsection \<open>The properties at work\<close>

definition prof_zero :: CProfilerGroup where
  "prof_zero =
     \<lparr>prof_fifos = replicate PROF_GROUP_MAX
        \<lparr>allocated_ptr = 0, ptr_producer = 0, ptr_consumer = 0, number_chunks = 0,
         single_chunk_size = 0, wr_ind = 0, rd_ind = 0, access_mode = E_READ, attrib = 0,
         in_lock = False, out_lock = False, area_name = replicate MDO_NAME_SIZE NUL,
         chunk_buf = replicate PROF_FIFO_SIZE ProfileData_Reset, elem_size = sizeof_ProfileData\<rparr>,
      num_alloc_prof = 0, pg_group_name = replicate TRACE_STRING_SIZE NUL\<rparr>"

lemma prof_zero_shape: "profiler_shape prof_zero"
  by (simp add: profiler_shape_def prof_zero_def prof_shape_def)

text \<open>The FIFOs of a group, one after the other.\<close>

definition demo_bases :: "nat \<Rightarrow> u64" where
  "demo_bases i = of_nat (4096 + 1024 * i)"

lemma aligned_8: "unat p mod 8 = 0 \<Longrightarrow> ALIGN_64BIT p = p"
  using and_not_mask_unat [of p 3] by (auto simp: ALIGN_64BIT_def mask_eq_exp_minus_1 word_unat_eq_iff)

lemma demo_bases_ok: "bases_ok demo_bases"
proof -
  have "demo_bases i \<noteq> 0 \<and> ALIGN_64BIT (demo_bases i) = demo_bases i" if "i < 50" for i
  proof -
    have "4096 + 1024 * i < 2 ^ 64" using that by simp
    then have u: "unat (demo_bases i) = 4096 + 1024 * i"
      unfolding demo_bases_def by (rule unat_of_nat_u64)
    also have "\<dots> = 8 * (512 + 128 * i)" by simp
    finally have "unat (demo_bases i) mod 8 = 0" by (metis mod_mult_self1_is_0)
    moreover have "unat (demo_bases i) \<noteq> 0" using u by simp
    then have "demo_bases i \<noteq> 0" by auto
    ultimately show ?thesis by (simp add: aligned_8)
  qed
  then show ?thesis by (simp add: bases_ok_def PROF_GROUP_MAX_def)
qed

lemma demo_profiler:
  "\<exists>g. profiler_wf g \<and> num_alloc_prof g = 1 \<and> profiler_names g = [''UI''] \<and>
     prof_fifo_ok 4096 (prof_fifos g ! 0) \<and> fifo_contents (prof_fifos g ! 0) = []"
proof -
  let ?g = "profiler_Reset False prof_zero"
  have g: "profiler_wf ?g" "profiler_names ?g = []" "num_alloc_prof ?g = 0"
    using profiler_Reset_wf [OF prof_zero_shape] by (auto simp: profiler_Reset_def)
  have "fits MDO_NAME_SIZE ''UI''" by (simp add: fits_def c_string_def MDO_NAME_SIZE_def)
  moreover have "0 < length (prof_fifos ?g)"
    by (simp add: profiler_Reset_def prof_zero_def PROF_GROUP_MAX_def)
  ultimately show ?thesis
    using RegistryProfileEntry_new [OF g(1) _ _ _ demo_bases_ok, of "''UI''"] g(2,3)
    by (auto simp: PROF_GROUP_MAX_def demo_bases_def)
qed

theorem prof_measure_then_read_witness:
  "\<exists>g m' d b g'. run_meas 4096 (concat [demo_meas, demo_meas]) (demo_point 2) (prof_fifos g ! 0) =
       Some (Inr (demo_point 2, m')) \<and>
     prof_GetProfInfo 0 (replicate 80 NUL) (g\<lparr>prof_fifos := (prof_fifos g)[0 := m']\<rparr>) =
       Some (Inr (Some (d, b), g')) \<and>
     meas_num d = 4 \<and> max_cnt d = 50 \<and> last_cnt d = 30 \<and> str_of b = ''UI''"
proof -
  obtain g where g: "profiler_wf g" "num_alloc_prof g = 1" "profiler_names g = [''UI'']"
    "prof_fifo_ok 4096 (prof_fifos g ! 0)" "fifo_contents (prof_fifos g ! 0) = []"
    using demo_profiler by blast
  have v: "map (meas_value 10) (concat [demo_meas, demo_meas]) = [50, 30, 50, 30]"
    by (simp add: demo_meas_def clip_def timespec_to_ns_def BILLION_def)
  have l: "length (concat [demo_meas, demo_meas]) = 4" by (simp add: demo_meas_def)
  have la: "meas_value 10 (last (concat [demo_meas, demo_meas])) = 30" by (simp add: demo_meas_def)
  have h: "0 < num_alloc_prof g" "MDO_NAME_SIZE \<le> length (replicate 80 NUL)"
    "max_calls (demo_point 2) \<noteq> 0" "[demo_meas, demo_meas] \<noteq> []"
    "\<forall>xs \<in> set [demo_meas, demo_meas]. length xs = unat (max_calls (demo_point 2))"
    "length [demo_meas, demo_meas] \<le> 8"
    using g(2) by (simp_all add: MDO_NAME_SIZE_def demo_point_ok demo_meas_def)
  have i0: "unat (0 :: u32) = 0" by simp
  from prof_measure_then_read [OF g(1) h(1,2), of 4096 "demo_point 2" "[demo_meas, demo_meas]",
      unfolded i0, OF g(4,5) demo_point_ok(1,2) h(3,5,4,6)]
  obtain m' d b g' where r: "run_meas 4096 (concat [demo_meas, demo_meas]) (demo_point 2)
      (prof_fifos g ! 0) = Some (Inr (demo_point 2, m'))"
    "prof_GetProfInfo 0 (replicate 80 NUL) (g\<lparr>prof_fifos := (prof_fifos g)[0 := m']\<rparr>) =
      Some (Inr (Some (d, b), g'))" "meas_num d = of_nat (length (concat [demo_meas, demo_meas]))"
    "max_cnt d = Max (set (map (meas_value (delta (demo_point 2))) (concat [demo_meas, demo_meas])))"
    "last_cnt d = meas_value (delta (demo_point 2)) (last (concat [demo_meas, demo_meas]))"
    "str_of b = profiler_names g ! 0" by blast
  have "meas_num d = 4" unfolding r(3) l by simp
  moreover have "max_cnt d = 50" unfolding r(4) demo_point_ok(4) v by (simp add: max_def)
  moreover have "last_cnt d = 30" unfolding r(5) demo_point_ok(4) la ..
  moreover have "str_of b = ''UI''" using r(6) g(3) by simp
  ultimately show ?thesis using r(1,2) by blast
qed

theorem prof_read_aggregates_witness:
  "\<exists>g d b g' g''. prof_GetProfInfo 0 (replicate 80 NUL) g = Some (Inr (Some (d, b), g')) \<and>
     meas_num d = 2 \<and> str_of b = ''UI'' \<and>
     prof_GetProfInfo 0 (replicate 80 NUL) g' = Some (Inr (None, g''))"
proof -
  obtain g0 where g0: "profiler_wf g0" "num_alloc_prof g0 = 1" "profiler_names g0 = [''UI'']"
    "prof_fifo_ok 4096 (prof_fifos g0 ! 0)" "fifo_contents (prof_fifos g0 ! 0) = []"
    using demo_profiler by blast
  have b: "\<forall>xs \<in> set [demo_meas]. length xs = unat (max_calls (demo_point 2))"
    by (simp add: demo_point_ok demo_meas_def)
  have "length (fifo_contents (prof_fifos g0 ! 0)) + length [demo_meas] \<le> 8" using g0(5) by simp
  from run_batches [OF demo_point_ok(1,2) _ b g0(4) this] g0(5) obtain m' d where
    r: "prof_fifo_ok 4096 m'" "fifo_contents m' = [d]" "summarises 10 demo_meas d"
      "area_frame m' = area_frame (prof_fifos g0 ! 0)"
    by (auto simp: demo_point_ok list_all2_Cons1)
  let ?g = "g0\<lparr>prof_fifos := (prof_fifos g0)[unat (0 :: u32) := m']\<rparr>"
  have i: "0 < num_alloc_prof g0" using g0(2) by simp
  have wf: "profiler_wf ?g" "profiler_names ?g = [''UI'']"
    using profiler_wf_update [OF g0(1) i, of m'] r(1,4) g0(3) by (simp_all add: prof_fifo_ok_def)
  have n: "meas_num d = 2" using r(3) by (simp add: summarises_def demo_meas_def)
  have "[d] = filter live (fifo_contents (prof_fifos ?g ! unat (0 :: u32)))"
    using r(2) n profiler_get(2) [OF g0(1) i] by (simp add: live_def)
  moreover have "0 < num_alloc_prof ?g" "MDO_NAME_SIZE \<le> length (replicate 80 NUL)"
    "[d] \<noteq> []" "sum_list (map meas_num [d]) \<noteq> 0" using i n by (simp_all add: MDO_NAME_SIZE_def)
  ultimately obtain d' b g' g'' where q:
    "prof_GetProfInfo 0 (replicate 80 NUL) ?g = Some (Inr (Some (d', b), g'))"
    "meas_num d' = sum_list (map meas_num [d])" "str_of b = profiler_names ?g ! unat (0 :: u32)"
    "prof_GetProfInfo 0 (replicate 80 NUL) g' = Some (Inr (None, g''))"
    using prof_read_aggregates [OF wf(1), of 0 "replicate 80 NUL" "[d]"] by blast
  have "meas_num d' = 2" "str_of b = ''UI''" using q(2,3) n wf(2) by simp_all
  with q(1,4) show ?thesis by blast
qed

theorem prof_register_overflow_witness:
  "\<exists>g. length (profiler_names g) = 50 \<and> RegistryProfileEntry demo_bases ''UI'' g = Inl MemFault"
proof -
  let ?nms = "map (\<lambda>k. replicate k (CHR ''p'')) [0..<50]"
  let ?g = "profiler_Reset False prof_zero"
  have g: "profiler_wf ?g \<and> bases_ok demo_bases" "profiler_names ?g = []"
    using profiler_Reset_wf [OF prof_zero_shape] demo_bases_ok by auto
  have f: "\<forall>nm \<in> set ?nms. fits MDO_NAME_SIZE nm"
    by (auto simp: fits_def c_string_def MDO_NAME_SIZE_def)
  have "inj_on (\<lambda>k. replicate k (CHR ''p'')) {0..<50}" by (rule inj_onI) (metis length_replicate)
  then have d: "distinct ?nms" by (simp add: distinct_map)
  obtain g where g1: "profiler_wf g" "profiler_names g = ?nms"
    using profilers.alloc_all_fresh [OF g(1) f d] g(2) by (auto simp: PROF_GROUP_MAX_def)
  have "''UI'' \<noteq> replicate k (CHR ''p'')" for k by (cases k) auto
  then have "length (profiler_names g) = 50" "fits MDO_NAME_SIZE ''UI''" "''UI'' \<notin> set (profiler_names g)"
    unfolding g1(2) by (auto simp: fits_def c_string_def MDO_NAME_SIZE_def)
  with prof_register_overflow [OF g1(1)] show ?thesis by blast
qed

text \<open>Profilers are found again. Registering a name gives the index of a FIFO that carries the
  name; registering it again after another profiler gives the same index and changes nothing, and
  the other profiler has another index.\<close>

theorem profiler_index_stable:
  assumes g: "profiler_wf g" "bases_ok bases"
    and nm: "fits MDO_NAME_SIZE nm" "fits MDO_NAME_SIZE nm'" "nm \<noteq> nm'"
    and one: "RegistryProfileEntry bases nm g = Inr (i, g1)"
    and two: "RegistryProfileEntry bases nm' g1 = Inr (j, g2)"
  shows "profiler_names g2 ! unat i = nm \<and> i \<noteq> j \<and> profiler_wf g2 \<and>
    RegistryProfileEntry bases nm g2 = Inr (i, g2)"
proof -
  have I: "profiler_wf g \<and> bases_ok bases" using g by simp
  note I1 = profilers.alloc_invar [OF I nm(1) one]
  note I2 = profilers.alloc_invar [OF I1 nm(2) two]
  note again = profilers.alloc_stable [OF I nm(1) one nm(2) two]
  show ?thesis
    using profilers.alloc_index [OF I2 nm(1) again]
      profilers.alloc_distinct [OF I nm(1) one nm(2) two nm(3)] again I2 by simp
qed

theorem profiler_index_stable_witness:
  "\<exists>g i g1 j g2. RegistryProfileEntry demo_bases ''P1'' g = Inr (i, g1) \<and>
     RegistryProfileEntry demo_bases ''P2'' g1 = Inr (j, g2) \<and> i \<noteq> j \<and>
     RegistryProfileEntry demo_bases ''P1'' g2 = Inr (i, g2)"
proof -
  obtain g where g: "profiler_wf g" "profiler_names g = [''UI'']" using demo_profiler by blast
  then have I: "profiler_wf g \<and> bases_ok demo_bases" using demo_bases_ok by simp
  have f: "fits MDO_NAME_SIZE ''P1''" "fits MDO_NAME_SIZE ''P2''" "''P1'' \<noteq> ''P2''"
    by (simp_all add: fits_def c_string_def MDO_NAME_SIZE_def)
  obtain i g1 where g1: "RegistryProfileEntry demo_bases ''P1'' g = Inr (i, g1)"
    "profiler_wf g1 \<and> bases_ok demo_bases" "profiler_names g1 = [''UI'', ''P1'']"
    using profilers.miss [OF I f(1)] g(2) by (auto simp: PROF_GROUP_MAX_def)
  obtain j g2 where g2: "RegistryProfileEntry demo_bases ''P2'' g1 = Inr (j, g2)"
    using profilers.miss [OF g1(2) f(2)] g1(3) by (auto simp: PROF_GROUP_MAX_def)
  from profiler_index_stable [OF g(1) demo_bases_ok f g1(1) g2] g1(1) g2 show ?thesis by blast
qed

end
