(* ===== verification/Event_Counters.thy ===== *)
theory Event_Counters
  imports Name_Table
begin

section \<open>Event counters: \<open>CRT_counter_grp\<close>\<close>

text \<open>
  The counters of one group (\<open>rt_debug_types.h\<close>): their state, the operations, the invariant
  with its preservation, and the interpretation of \<open>name_table\<close>. One slot of the array is never
  given out (the guard is \<open>num < NUM_COUNTERS - 1\<close>), which is what keeps the pointer that
  \<open>Get_counter\<close> makes for \<open>cnt_num == num_alloc_counters_\<close> inside the array.
\<close>

record RT_counter =
  cnt_val :: u64
  cnt_name :: cbuf

record CRT_counter_grp =
  rt_counters :: "RT_counter list"
  num_alloc_counters :: u32
  cg_group_name :: cbuf

definition counters_Reset :: "bool \<Rightarrow> CRT_counter_grp \<Rightarrow> CRT_counter_grp" where
  "counters_Reset attach g =
     (if attach then g
      else g\<lparr>num_alloc_counters := 0,
             rt_counters := map (\<lambda>c. c\<lparr>cnt_val := - 1, cnt_name := clear_str (cnt_name c)\<rparr>)
                              (rt_counters g),
             cg_group_name := clear_str (cg_group_name g)\<rparr>)"

definition counters_SetGroupName :: "string \<Rightarrow> CRT_counter_grp \<Rightarrow> fault + CRT_counter_grp" where
  "counters_SetGroupName nm g =
     bindE (strcpy (cg_group_name g) nm) (\<lambda>b. Inr (g\<lparr>cg_group_name := b\<rparr>))"

definition AllocCnt :: "string \<Rightarrow> CRT_counter_grp \<Rightarrow> fault + (u32 \<times> CRT_counter_grp)" where
  "AllocCnt nm g =
     bindE (scan_names (map cnt_name (rt_counters g)) nm 0 (unat (num_alloc_counters g))) (\<lambda>r.
       case r of
         Some i \<Rightarrow> Inr (of_nat i, g)
       | None \<Rightarrow>
           (let i = num_alloc_counters g in
            if i < of_nat (NUM_COUNTERS - 1) then
              ASSERT (length nm \<le> TRACE_STRING_SIZE - 1)
                (bindE (arr_mod (rt_counters g) (unat i)
                          (\<lambda>c. bindE (strcpy (cnt_name c) nm) (\<lambda>b. Inr (c\<lparr>cnt_name := b\<rparr>))))
                   (\<lambda>cs. Inr (i, g\<lparr>rt_counters := cs,
                                   num_alloc_counters := num_alloc_counters g + 1\<rparr>)))
            else Inl AssertFail))"

definition Get_cnt_num :: "CRT_counter_grp \<Rightarrow> u32" where
  "Get_cnt_num g = num_alloc_counters g"

text \<open>The result stands for \<open>&rt_counters_[cnt_num]\<close>; following it is an access to that slot.\<close>

definition Get_counter :: "u32 \<Rightarrow> CRT_counter_grp \<Rightarrow> fault + nat" where
  "Get_counter cnt_num g = ASSERT (cnt_num \<le> num_alloc_counters g) (Inr (unat cnt_num))"

subsection \<open>Invariant\<close>

definition counter_names :: "CRT_counter_grp \<Rightarrow> string list" where
  "counter_names g = array_names cnt_name (unat (num_alloc_counters g)) (rt_counters g)"

definition counters_wf :: "CRT_counter_grp \<Rightarrow> bool" where
  "counters_wf g \<longleftrightarrow>
     name_array cnt_name TRACE_STRING_SIZE NUM_COUNTERS (unat (num_alloc_counters g))
       (rt_counters g) \<and>
     unat (num_alloc_counters g) < NUM_COUNTERS \<and> length (cg_group_name g) = TRACE_STRING_SIZE"

lemma length_counter_names: "counters_wf g \<Longrightarrow> length (counter_names g) = unat (num_alloc_counters g)"
  unfolding counters_wf_def counter_names_def by (blast intro: length_array_names)

lemma counters_Reset_wf:
  assumes "length (rt_counters g) = NUM_COUNTERS" "length (cg_group_name g) = TRACE_STRING_SIZE"
    "\<forall>c \<in> set (rt_counters g). length (cnt_name c) = TRACE_STRING_SIZE"
  shows "counters_wf (counters_Reset False g) \<and> counter_names (counters_Reset False g) = []"
  using assms
  by (simp add: counters_wf_def counters_Reset_def counter_names_def NUM_COUNTERS_def
      name_array_empty)

lemma counters_scan:
  assumes "counters_wf g" "c_string nm"
  shows "scan_names (map cnt_name (rt_counters g)) nm 0 (unat (num_alloc_counters g)) =
    Inr (first_pos nm (counter_names g))"
  using assms name_array_scan unfolding counters_wf_def counter_names_def by blast

lemma AllocCnt_new:
  assumes wf: "counters_wf g" and nm: "fits TRACE_STRING_SIZE nm" "nm \<notin> set (counter_names g)"
    and room: "unat (num_alloc_counters g) < NUM_COUNTERS - 1"
  shows "\<exists>g'. AllocCnt nm g = Inr (num_alloc_counters g, g') \<and>
    counter_names g' = counter_names g @ [nm] \<and> counters_wf g' \<and>
    map cnt_val (rt_counters g') = map cnt_val (rt_counters g)"
proof -
  let ?i = "unat (num_alloc_counters g)"
  have arr: "name_array cnt_name TRACE_STRING_SIZE NUM_COUNTERS ?i (rt_counters g)"
    and i: "?i < length (rt_counters g)" "?i < NUM_COUNTERS"
    using wf by (auto simp: counters_wf_def name_array_def)
  obtain b where b: "strcpy (cnt_name (rt_counters g ! ?i)) nm = Inr b"
    "length b = TRACE_STRING_SIZE" "terminated b" "str_of b = nm"
    using name_array_buf [OF arr i(2) nm(1)] .
  let ?c = "(rt_counters g ! ?i)\<lparr>cnt_name := b\<rparr>"
  let ?g = "g\<lparr>rt_counters := (rt_counters g)[?i := ?c],
              num_alloc_counters := num_alloc_counters g + 1\<rparr>"
  have n: "unat (num_alloc_counters g + 1) = Suc ?i"
    using room by (simp add: NUM_COUNTERS_def unat_word_ariths)
  have "num_alloc_counters g < of_nat (NUM_COUNTERS - 1)"
    using room by (simp add: word_less_nat_alt NUM_COUNTERS_def)
  moreover have "length nm \<le> TRACE_STRING_SIZE - 1" "c_string nm"
    using nm(1) by (auto simp: fits_def TRACE_STRING_SIZE_def)
  ultimately have "AllocCnt nm g = Inr (num_alloc_counters g, ?g)"
    using b i nm(2) counters_scan [OF wf] by (simp add: AllocCnt_def Let_def arr_mod_in)
  moreover have "counter_names ?g = counter_names g @ [nm]"
    using array_names_snoc [OF i(1), of cnt_name ?c] b(4) n by (simp add: counter_names_def)
  moreover have "counters_wf ?g"
    using name_array_snoc [OF arr i(2), of ?c] b wf nm(2) n room
    by (simp add: counters_wf_def counter_names_def)
  moreover have "map cnt_val ((rt_counters g)[?i := ?c]) = map cnt_val (rt_counters g)"
    using i(1) by (simp add: map_update list_update_same_conv)
  ultimately show ?thesis by auto
qed

interpretation counters: name_table AllocCnt counter_names "NUM_COUNTERS - 1"
  "fits TRACE_STRING_SIZE" counters_wf
proof
  fix g nm assume wf: "counters_wf g"
  show "distinct (counter_names g)"
    using wf by (simp add: counters_wf_def counter_names_def name_array_def)
  show "length (counter_names g) \<le> NUM_COUNTERS - 1"
    using wf by (auto simp: length_counter_names counters_wf_def)
  assume ok: "fits TRACE_STRING_SIZE nm"
  then have cs: "c_string nm" by (simp add: fits_def)
  show "AllocCnt nm g = Inr (of_nat i, g)" if "first_pos nm (counter_names g) = Some i" for i
    using that counters_scan [OF wf cs] by (simp add: AllocCnt_def)
  assume new: "nm \<notin> set (counter_names g)"
  show "\<exists>g'. AllocCnt nm g = Inr (of_nat (length (counter_names g)), g') \<and>
      counter_names g' = counter_names g @ [nm] \<and> counters_wf g'"
    if "length (counter_names g) < NUM_COUNTERS - 1"
    using AllocCnt_new [OF wf ok new] that by (auto simp: length_counter_names [OF wf])
  show "\<exists>f. AllocCnt nm g = Inl f" if "length (counter_names g) = NUM_COUNTERS - 1"
  proof -
    have "\<not> num_alloc_counters g < of_nat (NUM_COUNTERS - 1)"
      using that length_counter_names [OF wf] by (simp add: word_less_nat_alt NUM_COUNTERS_def)
    with new counters_scan [OF wf cs] show ?thesis by (simp add: AllocCnt_def)
  qed
qed (simp add: NUM_COUNTERS_def)

subsection \<open>Properties\<close>

text \<open>Counters are found again. \<open>AllocCnt\<close> gives an index at which the counter of this name
  is stored; asked again after another counter was allocated it gives the same index and changes
  nothing, the other counter has another index, and no allocation touches the value of a counter.\<close>

theorem counter_index_stable:
  assumes g: "counters_wf g" and nm: "fits TRACE_STRING_SIZE nm" "fits TRACE_STRING_SIZE nm'" "nm \<noteq> nm'"
    and one: "AllocCnt nm g = Inr (i, g1)" and two: "AllocCnt nm' g1 = Inr (j, g2)"
  shows "counter_names g2 ! unat i = nm \<and> counter_names g2 ! unat j = nm' \<and> i \<noteq> j \<and>
    AllocCnt nm g2 = Inr (i, g2) \<and> counters_wf g2 \<and>
    map cnt_val (rt_counters g2) = map cnt_val (rt_counters g)"
proof -
  have vals: "map cnt_val (rt_counters g') = map cnt_val (rt_counters g)"
    if "counters_wf g" "fits TRACE_STRING_SIZE nm" "AllocCnt nm g = Inr (i, g')" for nm g i g'
  proof (cases "nm \<in> set (counter_names g)")
    case True
    then have "g' = g" using counters.alloc_cases [OF that] by blast
    then show ?thesis by simp
  next
    case False
    have "unat (num_alloc_counters g) < NUM_COUNTERS - 1"
      using counters.full [OF that(1,2) False] that(3) counters.names_limit [OF that(1)]
        length_counter_names [OF that(1)] by fastforce
    with AllocCnt_new [OF that(1,2) False] that(3) show ?thesis by auto
  qed
  note wf1 = counters.alloc_invar [OF g nm(1) one]
  note wf2 = counters.alloc_invar [OF wf1 nm(2) two]
  note again = counters.alloc_stable [OF g nm(1) one nm(2) two]
  show ?thesis
    using counters.alloc_index [OF wf2 nm(1) again] counters.alloc_index [OF wf1 nm(2) two]
      counters.alloc_distinct [OF g nm(1) one nm(2) two nm(3)] again wf2
      vals [OF g nm(1) one] vals [OF wf1 nm(2) two] by simp
qed

text \<open>A group without counters.\<close>

definition demo_counters :: CRT_counter_grp where
  "demo_counters =
     \<lparr>rt_counters = replicate NUM_COUNTERS \<lparr>cnt_val = 0, cnt_name = replicate TRACE_STRING_SIZE NUL\<rparr>,
      num_alloc_counters = 0, cg_group_name = replicate TRACE_STRING_SIZE NUL\<rparr>"

lemma demo_counters_wf: "counters_wf demo_counters" "counter_names demo_counters = []"
  by (simp_all add: counters_wf_def demo_counters_def counter_names_def NUM_COUNTERS_def name_array_empty)

theorem counter_index_stable_witness:
  "\<exists>i g1 j g2. AllocCnt ''EV_A'' demo_counters = Inr (i, g1) \<and> AllocCnt ''EV_B'' g1 = Inr (j, g2) \<and>
     i \<noteq> j \<and> AllocCnt ''EV_A'' g2 = Inr (i, g2)"
proof -
  have f: "fits TRACE_STRING_SIZE ''EV_A''" "fits TRACE_STRING_SIZE ''EV_B''" "''EV_A'' \<noteq> ''EV_B''"
    by (simp_all add: fits_def c_string_def TRACE_STRING_SIZE_def)
  obtain i g1 where g1: "AllocCnt ''EV_A'' demo_counters = Inr (i, g1)" "counters_wf g1"
    "counter_names g1 = [''EV_A'']"
    using counters.miss [OF demo_counters_wf(1) f(1)] demo_counters_wf(2)
    by (auto simp: NUM_COUNTERS_def)
  obtain j g2 where g2: "AllocCnt ''EV_B'' g1 = Inr (j, g2)"
    using counters.miss [OF g1(2) f(2)] g1(3) by (auto simp: NUM_COUNTERS_def)
  from counter_index_stable [OF demo_counters_wf(1) f g1(1) g2] g1(1) g2 show ?thesis by blast
qed

text \<open>A group holds nineteen counters, not twenty: with nineteen different counters
  allocated, allocating one more aborts although the array has a free entry.\<close>

theorem counter_table_full:
  assumes "counters_wf g" "length (counter_names g) = 19" "fits TRACE_STRING_SIZE nm"
    "nm \<notin> set (counter_names g)"
  shows "AllocCnt nm g = Inl AssertFail \<and> unat (num_alloc_counters g) < length (rt_counters g)"
proof -
  have n: "unat (num_alloc_counters g) = 19" using length_counter_names [OF assms(1)] assms(2) by simp
  then have "\<not> num_alloc_counters g < of_nat (NUM_COUNTERS - 1)"
    by (simp add: word_less_nat_alt NUM_COUNTERS_def)
  moreover have "length (rt_counters g) = 20"
    using assms(1) by (simp add: counters_wf_def name_array_def NUM_COUNTERS_def)
  ultimately show ?thesis
    using counters_scan [OF assms(1), of nm] assms(3,4) n by (simp add: AllocCnt_def fits_def)
qed

theorem counter_table_full_witness:
  "\<exists>g. length (counter_names g) = 19 \<and> length (rt_counters g) = 20 \<and> AllocCnt ''EV'' g = Inl AssertFail"
proof -
  let ?nms = "map (\<lambda>k. replicate k (CHR ''c'')) [0..<19]"
  have "inj_on (\<lambda>k. replicate k (CHR ''c'')) {0..<19}" by (rule inj_onI) (metis length_replicate)
  then have d: "distinct ?nms" by (simp add: distinct_map)
  have f: "\<forall>nm \<in> set ?nms. fits TRACE_STRING_SIZE nm"
    by (auto simp: fits_def c_string_def TRACE_STRING_SIZE_def)
  obtain g where g: "counters_wf g" "counter_names g = ?nms"
    using counters.alloc_all_fresh [OF demo_counters_wf(1) f d] demo_counters_wf(2)
    by (auto simp: NUM_COUNTERS_def)
  have l: "length (counter_names g) = 19" unfolding g(2) by simp
  have "''EV'' \<noteq> replicate k (CHR ''c'')" for k by (cases k) auto
  then have "fits TRACE_STRING_SIZE ''EV''" "''EV'' \<notin> set (counter_names g)"
    unfolding g(2) by (auto simp: fits_def c_string_def TRACE_STRING_SIZE_def)
  moreover have "length (rt_counters g) = 20"
    using g(1) by (simp add: counters_wf_def name_array_def NUM_COUNTERS_def)
  ultimately show ?thesis using counter_table_full [OF g(1) l] l by blast
qed

end
