(* ===== verification/Debug_RT.thy ===== *)
theory Debug_RT
  imports Log_Group Profiler_Group Trace_History Event_Counters
begin

section \<open>Groups and the shared object: \<open>CGroupDebugRT\<close> and \<open>CDebugRT\<close>\<close>

text \<open>
  The object that lives in the shared memory (\<open>rt_debug_types.h\<close>): an array of ten groups, each
  with its logs, profilers, traces and event counters. \<open>group_addr\<close> gives the addresses at which
  the calling process sees the buffers of a group; they matter where the code stores pointers into
  the shared memory (\<open>MemAlloc\<close>).
\<close>

subsection \<open>One group\<close>

record CGroupDebugRT =
  logger :: CLog_group
  profiler :: CProfilerGroup
  tracer :: CTraceGroup
  event_counters :: CRT_counter_grp
  gd_group_name :: cbuf

record group_addr =
  ga_trace :: u64
  ga_prof :: "nat \<Rightarrow> u64"

definition group_Reset :: "bool \<Rightarrow> group_addr \<Rightarrow> CGroupDebugRT \<Rightarrow> fault + CGroupDebugRT" where
  "group_Reset attach a g =
     bindE (log_Reset attach (logger g)) (\<lambda>l.
       let g = g\<lparr>logger := l, profiler := profiler_Reset attach (profiler g)\<rparr> in
     bindE (trace_Reset attach (ga_trace a) (tracer g)) (\<lambda>t.
       Inr (g\<lparr>tracer := t, event_counters := counters_Reset attach (event_counters g)\<rparr>)))"

definition group_Init :: "group_addr \<Rightarrow> string \<Rightarrow> CGroupDebugRT \<Rightarrow> fault + CGroupDebugRT" where
  "group_Init a nm g =
     bindE (group_Reset False a g) (\<lambda>g.
     bindE (strncpy (gd_group_name g) nm TRACE_STRING_SIZE) (\<lambda>b.
     bindE (log_SetGroupName nm (logger g)) (\<lambda>l.
     bindE (profiler_SetGroupName nm (profiler g)) (\<lambda>p.
     bindE (trace_SetGroupName nm (tracer g)) (\<lambda>t.
     bindE (counters_SetGroupName nm (event_counters g)) (\<lambda>c.
       Inr (g\<lparr>gd_group_name := b, logger := l, profiler := p, tracer := t,
              event_counters := c\<rparr>)))))))"

definition GetGrpName :: "cbuf \<Rightarrow> CGroupDebugRT \<Rightarrow> fault + cbuf" where
  "GetGrpName dst g = bindE (c_str (gd_group_name g)) (strcpy dst)"

subsection \<open>All groups\<close>

record CDebugRT =
  test_val :: u32
  num_alloc_groups :: u32
  active :: bool
  trace_collected :: bool
  debug_groups :: "CGroupDebugRT list"

type_synonym addr_map = "nat \<Rightarrow> group_addr"

definition SetDataCollection :: "bool \<Rightarrow> CDebugRT \<Rightarrow> CDebugRT" where
  "SetDataCollection start_ind d = d\<lparr>active := start_ind\<rparr>"

definition IsDataCollected :: "CDebugRT \<Rightarrow> bool" where
  "IsDataCollected d = active d"

definition reset_groups :: "bool \<Rightarrow> addr_map \<Rightarrow> CGroupDebugRT list \<Rightarrow> fault + CGroupDebugRT list" where
  "reset_groups attach addrs gs =
     foldE (\<lambda>i gs. arr_mod gs i (group_Reset attach (addrs i))) [0..<MAX_GROUP_NUM] gs"

definition RT_Init :: "addr_map \<Rightarrow> CDebugRT \<Rightarrow> fault + CDebugRT" where
  "RT_Init addrs d =
     (let d = d\<lparr>num_alloc_groups := 0, trace_collected := False, active := False\<rparr> in
      bindE (reset_groups False addrs (debug_groups d)) (\<lambda>gs. Inr (d\<lparr>debug_groups := gs\<rparr>)))"

definition RT_Attach :: "addr_map \<Rightarrow> CDebugRT \<Rightarrow> fault + CDebugRT" where
  "RT_Attach addrs d =
     bindE (reset_groups True addrs (debug_groups d)) (\<lambda>gs. Inr (d\<lparr>debug_groups := gs\<rparr>))"

definition GetDebugGrp :: "u32 \<Rightarrow> CDebugRT \<Rightarrow> fault + CGroupDebugRT" where
  "GetDebugGrp n d = ASSERT (n < num_alloc_groups d) (arr_get (debug_groups d) (unat n))"

text \<open>A change made through the pointer that \<open>GetDebugGrp\<close> returns.\<close>

definition put_grp :: "u32 \<Rightarrow> CGroupDebugRT \<Rightarrow> CDebugRT \<Rightarrow> CDebugRT" where
  "put_grp n g d = d\<lparr>debug_groups := (debug_groups d)[unat n := g]\<rparr>"

definition GetNumGrps :: "CDebugRT \<Rightarrow> u32" where
  "GetNumGrps d = num_alloc_groups d"

function scan_groups :: "CGroupDebugRT list \<Rightarrow> string \<Rightarrow> nat \<Rightarrow> nat \<Rightarrow> fault + nat option" where
  "scan_groups gs nm i num =
     (if i < num then
        bindE (arr_get gs i) (\<lambda>g.
        bindE (GetGrpName (replicate TRACE_STRING_SIZE NUL) g) (\<lambda>tmp_str.
        bindE (strcmp_eq tmp_str nm) (\<lambda>eq.
          if eq then Inr (Some i) else scan_groups gs nm (Suc i) num)))
      else Inr None)"
  by pat_completeness auto
termination
  by (relation "measure (\<lambda>(gs, nm, i, num). num - i)") auto

declare scan_groups.simps [simp del]

definition AllocDbgGrp :: "addr_map \<Rightarrow> string \<Rightarrow> CDebugRT \<Rightarrow> fault + (u32 \<times> CDebugRT)" where
  "AllocDbgGrp addrs nm d =
     bindE (scan_groups (debug_groups d) nm 0 (unat (num_alloc_groups d))) (\<lambda>r.
       case r of
         Some i \<Rightarrow> Inr (of_nat i, d)
       | None \<Rightarrow>
           (let i = num_alloc_groups d; d = d\<lparr>num_alloc_groups := num_alloc_groups d + 1\<rparr> in
            ASSERT (num_alloc_groups d \<le> of_nat MAX_GROUP_NUM)
             (bindE (arr_mod (debug_groups d) (unat i) (group_Init (addrs (unat i)) nm)) (\<lambda>gs.
                Inr (i, d\<lparr>debug_groups := gs\<rparr>)))))"

subsection \<open>Invariant of a group\<close>

definition counters_shape :: "CRT_counter_grp \<Rightarrow> bool" where
  "counters_shape g \<longleftrightarrow> length (rt_counters g) = NUM_COUNTERS \<and>
     length (cg_group_name g) = TRACE_STRING_SIZE \<and>
     (\<forall>c \<in> set (rt_counters g). length (cnt_name c) = TRACE_STRING_SIZE)"

definition group_shape :: "CGroupDebugRT \<Rightarrow> bool" where
  "group_shape g \<longleftrightarrow> log_shape (logger g) \<and> profiler_shape (profiler g) \<and> trace_shape (tracer g) \<and>
     counters_shape (event_counters g) \<and> length (gd_group_name g) = TRACE_STRING_SIZE"

definition group_wf :: "CGroupDebugRT \<Rightarrow> bool" where
  "group_wf g \<longleftrightarrow> log_wf (logger g) \<and> profiler_wf (profiler g) \<and> trace_wf (tracer g) \<and>
     terminated (tg_group_name (tracer g)) \<and> counters_wf (event_counters g)"

text \<open>A group that has just been given the name \<open>nm\<close>: all four components carry it and are empty.\<close>

definition group_fresh :: "string \<Rightarrow> CGroupDebugRT \<Rightarrow> bool" where
  "group_fresh nm g \<longleftrightarrow> messages (logger g) = [] \<and> profiler_names (profiler g) = [] \<and>
     pending (tracer g) = {#} \<and> trace_names (tracer g) = [def_format] \<and>
     num_alloc_formats (tracer g) = 1 \<and>
     counter_names (event_counters g) = [] \<and> str_of (gd_group_name g) = nm \<and>
     str_of (lg_group_name (logger g)) = nm \<and> str_of (tg_group_name (tracer g)) = nm"

definition addr_ok :: "group_addr \<Rightarrow> bool" where
  "addr_ok a \<longleftrightarrow> ga_trace a \<noteq> 0 \<and> ALIGN_64BIT (ga_trace a) = ga_trace a \<and> bases_ok (ga_prof a)"

lemma pending_filter: "filter has_data (chunk_buf (trace_fifo g)) = [] \<Longrightarrow> pending g = {#}"
  by (simp add: pending_def mset_filter [symmetric])

lemma counters_Reset_shape:
  assumes "counters_shape g"
  shows "counters_shape (counters_Reset False g)" "counters_wf (counters_Reset False g)"
    "counter_names (counters_Reset False g) = []"
  using assms counters_Reset_wf [of g] by (auto simp: counters_shape_def counters_Reset_def)

lemma group_Reset_ok:
  assumes "group_shape g" "addr_ok a"
  shows "\<exists>g'. group_Reset False a g = Inr g' \<and> group_shape g' \<and>
    messages (logger g') = [] \<and> area_ready sizeof_LogEntry (logs_fifo (logger g')) \<and>
    profiler_wf (profiler g') \<and> profiler_names (profiler g') = [] \<and>
    trace_wf (tracer g') \<and> trace_names (tracer g') = [def_format] \<and> pending (tracer g') = {#} \<and>
    num_alloc_formats (tracer g') = 1 \<and>
    counters_wf (event_counters g') \<and> counter_names (event_counters g') = []"
proof -
  obtain l where l: "log_Reset False (logger g) = Inr l" "log_shape l" "messages l = []"
    "area_ready sizeof_LogEntry (logs_fifo l)"
    using log_Reset_ok [of "logger g"] assms(1) by (auto simp: group_shape_def)
  obtain t where t: "trace_Reset False (ga_trace a) (tracer g) = Inr t" "trace_wf t" "trace_shape t"
    "trace_names t = [def_format]" "pending t = {#}" "num_alloc_formats t = 1"
    using trace_Reset_ok [of "tracer g" "ga_trace a"] assms pending_filter
    by (auto simp: group_shape_def addr_ok_def)
  let ?g = "g\<lparr>logger := l, profiler := profiler_Reset False (profiler g), tracer := t,
    event_counters := counters_Reset False (event_counters g)\<rparr>"
  have "group_Reset False a g = Inr ?g" using l(1) t(1) by (simp add: group_Reset_def Let_def)
  moreover have "profiler_wf (profiler ?g)" "profiler_shape (profiler ?g)"
    "profiler_names (profiler ?g) = []"
    using profiler_Reset_wf [of "profiler g"] assms(1) by (auto simp: group_shape_def)
  ultimately show ?thesis
    using l t assms(1) counters_Reset_shape [of "event_counters g"]
    by (intro exI [of _ ?g]) (simp add: group_shape_def)
qed

lemma trace_SetGroupName_ok:
  assumes "trace_wf t" "fits TRACE_STRING_SIZE nm"
  shows "\<exists>b. trace_SetGroupName nm t = Inr (t\<lparr>tg_group_name := b\<rparr>) \<and>
    trace_wf (t\<lparr>tg_group_name := b\<rparr>) \<and> terminated b \<and> str_of b = nm"
proof -
  obtain b where "strcpy (tg_group_name t) nm = Inr b" "length b = TRACE_STRING_SIZE"
    "terminated b" "str_of b = nm"
    using assms strcpy_ok [of nm "tg_group_name t"]
    by (auto simp: fits_def trace_wf_def trace_arrays_wf_def)
  then show ?thesis
    using assms(1) by (intro exI [of _ b])
      (simp add: trace_SetGroupName_def trace_wf_def trace_arrays_wf_def)
qed

lemma trace_name_length: "trace_wf t \<Longrightarrow> length (tg_group_name t) = TRACE_STRING_SIZE"
  by (simp add: trace_wf_def trace_arrays_wf_def)

lemma group_Init_ok:
  assumes shape: "group_shape g" and a: "addr_ok a" and nm: "fits TRACE_STRING_SIZE nm"
  shows "\<exists>g'. group_Init a nm g = Inr g' \<and> group_wf g' \<and> group_fresh nm g' \<and>
    length (gd_group_name g') = TRACE_STRING_SIZE \<and> terminated (gd_group_name g') \<and> group_shape g'"
proof -
  obtain g1 where g1: "group_Reset False a g = Inr g1" "group_shape g1" "messages (logger g1) = []"
    "area_ready sizeof_LogEntry (logs_fifo (logger g1))" "profiler_wf (profiler g1)"
    "profiler_names (profiler g1) = []" "trace_wf (tracer g1)" "trace_names (tracer g1) = [def_format]"
    "pending (tracer g1) = {#}" "num_alloc_formats (tracer g1) = 1"
    "counters_wf (event_counters g1)" "counter_names (event_counters g1) = []"
    using group_Reset_ok [OF shape a] by blast
  have len: "length nm < TRACE_STRING_SIZE" "c_string nm" using nm by (auto simp: fits_def)
  obtain b where b: "strncpy (gd_group_name g1) nm TRACE_STRING_SIZE = Inr b"
    "length b = TRACE_STRING_SIZE" "terminated b" "str_of b = nm"
    using strncpy_ok [OF len(1) _ len(2), of "gd_group_name g1"] g1(2) by (auto simp: group_shape_def)
  obtain l where l: "log_SetGroupName nm (logger g1) = Inr l" "log_wf l" "messages l = []"
    "str_of (lg_group_name l) = nm" "log_shape l"
    using log_SetGroupName_ok [of "logger g1" nm] g1(2-4) nm by (auto simp: group_shape_def)
  obtain pb where p: "profiler_SetGroupName nm (profiler g1) = Inr ((profiler g1)\<lparr>pg_group_name := pb\<rparr>)"
    "length pb = TRACE_STRING_SIZE"
    using strcpy_fits [OF nm, of "pg_group_name (profiler g1)"] g1(5)
    by (auto simp: profiler_SetGroupName_def profiler_wf_def)
  obtain tb where t: "trace_SetGroupName nm (tracer g1) = Inr ((tracer g1)\<lparr>tg_group_name := tb\<rparr>)"
    "trace_wf ((tracer g1)\<lparr>tg_group_name := tb\<rparr>)" "terminated tb" "str_of tb = nm"
    using trace_SetGroupName_ok [OF g1(7) nm] by blast
  obtain cb where c: "counters_SetGroupName nm (event_counters g1) =
      Inr ((event_counters g1)\<lparr>cg_group_name := cb\<rparr>)" "length cb = TRACE_STRING_SIZE"
    using strcpy_fits [OF nm, of "cg_group_name (event_counters g1)"] g1(11)
    by (auto simp: counters_SetGroupName_def counters_wf_def)
  let ?g = "g1\<lparr>gd_group_name := b, logger := l, profiler := (profiler g1)\<lparr>pg_group_name := pb\<rparr>,
    tracer := (tracer g1)\<lparr>tg_group_name := tb\<rparr>,
    event_counters := (event_counters g1)\<lparr>cg_group_name := cb\<rparr>\<rparr>"
  have "group_Init a nm g = Inr ?g"
    using g1(1) b(1) l(1) p(1) t(1) c(1) by (simp add: group_Init_def)
  moreover have "group_wf ?g"
    using l(2) p(2) t(2,3) c(2) g1(5,11) by (simp add: group_wf_def profiler_wf_def counters_wf_def)
  moreover have "group_fresh nm ?g"
    using l(3,4) g1(6,8-10,12) b(4) t(4)
    by (simp add: group_fresh_def profiler_names_def trace_names_def counter_names_def pending_def)
  moreover have "group_shape ?g" using g1(2) l(5) p(2) c(2) b(2) trace_name_length [OF t(2)]
    by (simp add: group_shape_def profiler_shape_def trace_shape_def counters_shape_def)
  ultimately show ?thesis using b(2,3) by (intro exI [of _ ?g]) simp
qed

subsection \<open>Invariant of the shared object\<close>

definition group_names :: "CDebugRT \<Rightarrow> string list" where
  "group_names d = array_names gd_group_name (unat (num_alloc_groups d)) (debug_groups d)"

definition rt_wf :: "CDebugRT \<Rightarrow> bool" where
  "rt_wf d \<longleftrightarrow>
     name_array gd_group_name TRACE_STRING_SIZE MAX_GROUP_NUM (unat (num_alloc_groups d))
       (debug_groups d) \<and>
     (\<forall>g \<in> set (take (unat (num_alloc_groups d)) (debug_groups d)). group_wf g) \<and>
     (\<forall>g \<in> set (drop (unat (num_alloc_groups d)) (debug_groups d)). group_shape g)"

definition addrs_ok :: "addr_map \<Rightarrow> bool" where
  "addrs_ok addrs \<longleftrightarrow> (\<forall>i < MAX_GROUP_NUM. addr_ok (addrs i))"

definition rt_shape :: "CDebugRT \<Rightarrow> bool" where
  "rt_shape d \<longleftrightarrow> length (debug_groups d) = MAX_GROUP_NUM \<and> (\<forall>g \<in> set (debug_groups d). group_shape g)"

lemma RT_Init_ok:
  assumes "rt_shape d" "addrs_ok addrs"
  shows "\<exists>d'. RT_Init addrs d = Inr d' \<and> rt_wf d' \<and> rt_shape d' \<and> group_names d' = [] \<and>
    num_alloc_groups d' = 0 \<and> \<not> active d' \<and> test_val d' = test_val d"
proof -
  let ?P = "\<lambda>k :: nat. \<lambda>gs. length gs = MAX_GROUP_NUM \<and> (\<forall>g \<in> set gs. group_shape g)"
  have "\<exists>gs. foldE (\<lambda>i gs. arr_mod gs i (group_Reset False (addrs i))) [0..<MAX_GROUP_NUM]
      (debug_groups d) = Inr gs \<and> ?P MAX_GROUP_NUM gs"
  proof (rule foldE_upt [where P = ?P])
    show "?P 0 (debug_groups d)" using assms(1) by (simp add: rt_shape_def)
    fix k gs assume k: "k < MAX_GROUP_NUM" and P: "?P k gs"
    then have "group_shape (gs ! k)" "addr_ok (addrs k)" using assms(2) by (auto simp: addrs_ok_def)
    from group_Reset_ok [OF this] obtain g' where g': "group_Reset False (addrs k) (gs ! k) = Inr g'"
      "group_shape g'" by blast
    then have "arr_mod gs k (group_Reset False (addrs k)) = Inr (gs[k := g'])"
      using k P by (simp add: arr_mod_in)
    moreover have "\<forall>g \<in> set (gs[k := g']). group_shape g"
      using P g'(2) set_update_subset_insert [of gs k g'] by auto
    ultimately show "\<exists>gs'. arr_mod gs k (group_Reset False (addrs k)) = Inr gs' \<and> ?P (Suc k) gs'"
      using P by simp
  qed
  then obtain gs where gs: "reset_groups False addrs (debug_groups d) = Inr gs" "?P MAX_GROUP_NUM gs"
    by (auto simp: reset_groups_def)
  then have "name_array gd_group_name TRACE_STRING_SIZE MAX_GROUP_NUM 0 gs"
    by (intro name_array_empty) (auto simp: group_shape_def)
  with gs show ?thesis
    by (simp add: RT_Init_def Let_def rt_wf_def rt_shape_def group_names_def)
qed

lemma GetGrpName_ok:
  assumes "terminated (gd_group_name g)" "length (gd_group_name g) \<le> length dst"
  shows "\<exists>b. GetGrpName dst g = Inr b \<and> terminated b \<and> str_of b = str_of (gd_group_name g) \<and>
    length b = length dst"
proof -
  have "length (str_of (gd_group_name g)) < length dst"
    using length_str_of [OF assms(1)] assms(2) by simp
  with strcpy_ok [of "str_of (gd_group_name g)" dst] assms(1) show ?thesis
    by (auto simp: GetGrpName_def)
qed

lemma scan_groups_spec:
  assumes "num \<le> length gs" "\<And>j. j < num \<Longrightarrow> terminated (gd_group_name (gs ! j)) \<and>
      length (gd_group_name (gs ! j)) = TRACE_STRING_SIZE" "c_string nm"
  shows "scan_groups gs nm i num = scan_names (map gd_group_name gs) nm i num"
  using assms
proof (induction gs nm i num rule: scan_groups.induct)
  case (1 gs nm i num)
  show ?case
  proof (cases "i < num")
    case True
    then have t: "terminated (gd_group_name (gs ! i))"
      "length (gd_group_name (gs ! i)) = TRACE_STRING_SIZE" using 1 by auto
    obtain b where b: "GetGrpName (replicate TRACE_STRING_SIZE NUL) (gs ! i) = Inr b" "terminated b"
      "str_of b = str_of (gd_group_name (gs ! i))"
      using GetGrpName_ok [OF t(1), of "replicate TRACE_STRING_SIZE NUL"] t(2) by auto
    have i: "i < length gs" using True 1 by simp
    have "scan_groups gs nm (Suc i) num = scan_names (map gd_group_name gs) nm (Suc i) num"
      if "str_of (gd_group_name (gs ! i)) \<noteq> nm"
      using 1 True i b that strcmp_eq_terminated [OF b(2) 1(4)] by auto
    then show ?thesis
      using True i b strcmp_eq_terminated [OF b(2) 1(4)] strcmp_eq_terminated [OF t(1) 1(4)]
      by (simp add: scan_groups.simps [of gs nm i num] scan_names.simps [of _ nm i num])
  next
    case False
    then show ?thesis
      by (simp add: scan_groups.simps [of gs nm i num] scan_names.simps [of _ nm i num])
  qed
qed

lemma rt_scan:
  assumes "rt_wf d" "c_string nm"
  shows "scan_groups (debug_groups d) nm 0 (unat (num_alloc_groups d)) =
    Inr (first_pos nm (group_names d))"
proof -
  have arr: "name_array gd_group_name TRACE_STRING_SIZE MAX_GROUP_NUM (unat (num_alloc_groups d))
      (debug_groups d)" using assms(1) by (simp add: rt_wf_def)
  have "terminated (gd_group_name (debug_groups d ! j)) \<and>
      length (gd_group_name (debug_groups d ! j)) = TRACE_STRING_SIZE"
    if "j < unat (num_alloc_groups d)" for j
  proof -
    have "debug_groups d ! j \<in> set (take (unat (num_alloc_groups d)) (debug_groups d))"
      using that arr by (auto simp: in_set_conv_nth name_array_def intro!: exI [of _ j])
    then show ?thesis using arr by (auto simp: name_array_def dest: in_set_takeD)
  qed
  then have "scan_groups (debug_groups d) nm 0 (unat (num_alloc_groups d)) =
      scan_names (map gd_group_name (debug_groups d)) nm 0 (unat (num_alloc_groups d))"
    using arr assms(2) by (intro scan_groups_spec) (auto simp: name_array_def)
  with name_array_scan [OF arr assms(2)] show ?thesis by (simp add: group_names_def)
qed

lemma length_group_names: "rt_wf d \<Longrightarrow> length (group_names d) = unat (num_alloc_groups d)"
  unfolding rt_wf_def group_names_def by (blast intro: length_array_names)

lemma rt_num: "rt_wf d \<Longrightarrow> unat (num_alloc_groups d) \<le> MAX_GROUP_NUM"
  by (simp add: rt_wf_def name_array_def)

lemma AllocDbgGrp_new:
  assumes wf: "rt_wf d" and nm: "fits TRACE_STRING_SIZE nm" "nm \<notin> set (group_names d)"
    and room: "unat (num_alloc_groups d) < MAX_GROUP_NUM" and a: "addrs_ok addrs"
  shows "\<exists>d' g. AllocDbgGrp addrs nm d = Inr (num_alloc_groups d, d') \<and> rt_wf d' \<and>
    group_names d' = group_names d @ [nm] \<and> active d' = active d \<and> group_fresh nm g \<and>
    debug_groups d' = (debug_groups d)[unat (num_alloc_groups d) := g] \<and>
    num_alloc_groups d' = num_alloc_groups d + 1 \<and> group_shape g"
proof -
  let ?i = "unat (num_alloc_groups d)"
  have arr: "name_array gd_group_name TRACE_STRING_SIZE MAX_GROUP_NUM ?i (debug_groups d)"
    and i: "?i < length (debug_groups d)"
    using wf room by (auto simp: rt_wf_def name_array_def)
  have dr: "drop ?i (debug_groups d) = debug_groups d ! ?i # drop (Suc ?i) (debug_groups d)"
    using i by (simp add: Cons_nth_drop_Suc)
  have "group_shape (debug_groups d ! ?i)" "addr_ok (addrs ?i)"
    using wf a room unfolding rt_wf_def addrs_ok_def dr by auto
  from group_Init_ok [OF this nm(1)] obtain g where
    g: "group_Init (addrs ?i) nm (debug_groups d ! ?i) = Inr g" "group_wf g" "group_fresh nm g"
      "length (gd_group_name g) = TRACE_STRING_SIZE" "terminated (gd_group_name g)" "group_shape g" by blast
  have gn: "str_of (gd_group_name g) = nm" using g(3) by (simp add: group_fresh_def)
  let ?d = "d\<lparr>num_alloc_groups := num_alloc_groups d + 1, debug_groups := (debug_groups d)[?i := g]\<rparr>"
  have n: "unat (num_alloc_groups d + 1) = Suc ?i"
    using room by (simp add: MAX_GROUP_NUM_def unat_word_ariths)
  then have "num_alloc_groups d + 1 \<le> of_nat MAX_GROUP_NUM"
    using room by (simp add: word_le_nat_alt MAX_GROUP_NUM_def)
  then have "AllocDbgGrp addrs nm d = Inr (num_alloc_groups d, ?d)"
    using rt_scan [OF wf] nm g(1) i by (simp add: AllocDbgGrp_def fits_def Let_def arr_mod_in)
  moreover have "group_names ?d = group_names d @ [nm]"
    using array_names_snoc [OF i, of gd_group_name g] gn n by (simp add: group_names_def)
  moreover have "rt_wf ?d"
  proof -
    have "name_array gd_group_name TRACE_STRING_SIZE MAX_GROUP_NUM (Suc ?i) ((debug_groups d)[?i := g])"
      using name_array_snoc [OF arr room, of g] g(4,5) gn nm(2) by (simp add: group_names_def)
    moreover have "\<forall>g' \<in> set (take (Suc ?i) ((debug_groups d)[?i := g])). group_wf g'"
      unfolding take_Suc_list_update [OF i] using wf g(2) by (simp add: rt_wf_def ball_Un)
    moreover have "\<forall>g' \<in> set (drop (Suc ?i) ((debug_groups d)[?i := g])). group_shape g'"
      using wf dr by (simp add: rt_wf_def drop_update_cancel)
    ultimately show ?thesis using n by (simp add: rt_wf_def)
  qed
  ultimately show ?thesis using g(3,6) by (intro exI [of _ ?d] exI [of _ g]) simp
qed

interpretation groups: name_table "AllocDbgGrp addrs" group_names MAX_GROUP_NUM
  "fits TRACE_STRING_SIZE" "\<lambda>d. rt_wf d \<and> addrs_ok addrs" for addrs
proof
  fix d nm assume I: "rt_wf d \<and> addrs_ok addrs"
  then have wf: "rt_wf d" by simp
  show "distinct (group_names d)" using wf by (simp add: rt_wf_def group_names_def name_array_def)
  show "length (group_names d) \<le> MAX_GROUP_NUM" using rt_num [OF wf] length_group_names [OF wf] by simp
  assume ok: "fits TRACE_STRING_SIZE nm"
  then have cs: "c_string nm" by (simp add: fits_def)
  show "AllocDbgGrp addrs nm d = Inr (of_nat i, d)" if "first_pos nm (group_names d) = Some i" for i
    using that rt_scan [OF wf cs] by (simp add: AllocDbgGrp_def)
  assume new: "nm \<notin> set (group_names d)"
  show "\<exists>d'. AllocDbgGrp addrs nm d = Inr (of_nat (length (group_names d)), d') \<and>
      group_names d' = group_names d @ [nm] \<and> rt_wf d' \<and> addrs_ok addrs"
    if "length (group_names d) < MAX_GROUP_NUM"
    using AllocDbgGrp_new [OF wf ok new] that I by (auto simp: length_group_names [OF wf])
  show "\<exists>f. AllocDbgGrp addrs nm d = Inl f" if "length (group_names d) = MAX_GROUP_NUM"
  proof -
    have "unat (num_alloc_groups d) = 10"
      using that length_group_names [OF wf] by (simp add: MAX_GROUP_NUM_def)
    then have "\<not> num_alloc_groups d + 1 \<le> of_nat MAX_GROUP_NUM"
      by (simp add: word_le_nat_alt MAX_GROUP_NUM_def unat_word_ariths)
    with new rt_scan [OF wf cs] show ?thesis by (simp add: AllocDbgGrp_def Let_def)
  qed
qed (simp add: MAX_GROUP_NUM_def)

subsection \<open>Changing one group\<close>

lemma GetDebugGrp_ok:
  assumes "rt_wf d" "n < num_alloc_groups d"
  shows "GetDebugGrp n d = Inr (debug_groups d ! unat n)" "group_wf (debug_groups d ! unat n)"
    "unat n < length (debug_groups d)" "unat n < unat (num_alloc_groups d)"
    "terminated (gd_group_name (debug_groups d ! unat n))"
    "length (gd_group_name (debug_groups d ! unat n)) = TRACE_STRING_SIZE"
proof -
  show n: "unat n < unat (num_alloc_groups d)" using assms(2) by (simp add: word_less_nat_alt)
  then show l: "unat n < length (debug_groups d)" using assms(1) by (simp add: rt_wf_def name_array_def)
  then show "GetDebugGrp n d = Inr (debug_groups d ! unat n)" using assms(2) by (simp add: GetDebugGrp_def)
  have "debug_groups d ! unat n \<in> set (take (unat (num_alloc_groups d)) (debug_groups d))"
    using n l by (auto simp: in_set_conv_nth intro!: exI [of _ "unat n"])
  then show "group_wf (debug_groups d ! unat n)" "terminated (gd_group_name (debug_groups d ! unat n))"
    "length (gd_group_name (debug_groups d ! unat n)) = TRACE_STRING_SIZE"
    using assms(1) by (auto simp: rt_wf_def name_array_def dest: in_set_takeD)
qed

lemma put_grp_wf:
  assumes "rt_wf d" "n < num_alloc_groups d" "group_wf g"
    "gd_group_name g = gd_group_name (debug_groups d ! unat n)"
  shows "rt_wf (put_grp n g d)" "group_names (put_grp n g d) = group_names d"
proof -
  note n = GetDebugGrp_ok [OF assms(1,2)]
  let ?gs = "(debug_groups d)[unat n := g]" and ?k = "unat (num_alloc_groups d)"
  have same: "map gd_group_name ?gs = map gd_group_name (debug_groups d)"
    using assms(4) n(3) by (simp add: map_update list_update_same_conv)
  have "\<forall>g' \<in> set (take ?k ?gs). group_wf g'"
    using assms(1,3) set_update_subset_insert [of "take ?k (debug_groups d)" "unat n" g]
    by (auto simp: rt_wf_def take_update_swap)
  moreover have "drop ?k ?gs = drop ?k (debug_groups d)" using n(4) by simp
  ultimately show "rt_wf (put_grp n g d)"
    using assms(1) name_array_same_names(1) [OF same] by (simp add: rt_wf_def put_grp_def)
  show "group_names (put_grp n g d) = group_names d"
    using name_array_same_names(2) [OF same] by (simp add: group_names_def put_grp_def)
qed

end
