(* ===== verification/Debug_Handler.thy ===== *)
theory Debug_Handler
  imports Debug_RT
begin

section \<open>The handler of a process: \<open>CDebugHandler\<close>\<close>

text \<open>
  The bridge between a process and the shared object (\<open>rt_debug_main.h\<close>, \<open>rt_debug_main.cc\<close>): its
  own state, the mapping of the shared memory, and one definition per API function. A \<open>world\<close> is
  the handler of the calling process, the shared object, and whether the address in
  \<open>rt_debugp_\<close> is mapped. What the operating system answers is an argument: the clock readings, the
  thread id, and the results of \<open>open\<close>, \<open>lseek\<close>, \<open>mmap\<close> and the like. \<open>lay p\<close> gives the
  addresses of the buffers in an object mapped at \<open>p\<close>.
\<close>

subsection \<open>State\<close>

datatype RTDBG_STATUS_T = RTDBG_INIT | RTDBG_RUNNING_CONSUMER | RTDBG_RUNNING_PRODUCER | RTDBG_STOPPED

record TraceInfo =
  trace_str :: cbuf
  lin_time :: timespec
  ti_status :: u32

record LogSort_Data =
  log_info :: LogEntry
  valid :: bool

record CDebugHandler =
  status :: RTDBG_STATUS_T
  shared_file_name :: cbuf
  out_file_name :: cbuf
  rt_debugp :: u64
  alloc_debug_grp_num :: u32
  grp_trace_res :: "TraceInfo list"
  grp_logs_last :: "LogSort_Data list"
  mmapFd :: int
  mem_attached :: bool

record world =
  hnd :: CDebugHandler
  shm :: CDebugRT
  mapped :: bool

text \<open>\<open>CDebugHandler debug_handler;\<close>: a static object, zeroed before the constructor runs.\<close>

definition debug_handler :: CDebugHandler where
  "debug_handler =
     \<lparr>status = RTDBG_INIT, shared_file_name = replicate TRACE_STRING_SIZE NUL,
      out_file_name = replicate TRACE_STRING_SIZE NUL, rt_debugp = 0, alloc_debug_grp_num = 0,
      grp_trace_res = replicate MAX_GROUP_NUM
        \<lparr>trace_str = replicate (TRACE_STRING_SIZE * 2) NUL, lin_time = zero_time, ti_status = 0\<rparr>,
      grp_logs_last = replicate MAX_GROUP_NUM
        \<lparr>log_info = \<lparr>le_time = zero_time, log_str = replicate LOG_STRING_SIZE NUL\<rparr>, valid = False\<rparr>,
      mmapFd = 0, mem_attached = False\<rparr>"

text \<open>Following \<open>rt_debugp_\<close>, and writing through it.\<close>

definition deref :: "world \<Rightarrow> fault + CDebugRT" where
  "deref w = (if rt_debugp (hnd w) = 0 then Inl NullDeref
              else if \<not> mapped w then Inl MemFault else Inr (shm w))"

definition at_grp ::
  "u32 \<Rightarrow> (CGroupDebugRT \<Rightarrow> fault + ('a \<times> CGroupDebugRT)) \<Rightarrow> world \<Rightarrow> fault + ('a \<times> world)" where
  "at_grp n f w =
     bindE (deref w) (\<lambda>d. bindE (GetDebugGrp n d) (\<lambda>g. bindE (f g) (\<lambda>(x, g).
       Inr (x, w\<lparr>shm := put_grp n g d\<rparr>))))"

type_synonym layout = "u64 \<Rightarrow> addr_map"

subsection \<open>Life cycle\<close>

definition InitExtractTables :: "CDebugHandler \<Rightarrow> CDebugHandler" where
  "InitExtractTables h = h\<lparr>grp_logs_last := map (\<lambda>l. l\<lparr>valid := False\<rparr>) (grp_logs_last h)\<rparr>"

definition RTDBG_Init :: "layout \<Rightarrow> world \<Rightarrow> fault + world" where
  "RTDBG_Init lay w =
     (if \<not> mem_attached (hnd w) then Inr w
      else
        (let w = w\<lparr>hnd := InitExtractTables (hnd w)\<rparr> in
         bindE (deref w) (\<lambda>d. bindE (RT_Init (lay (rt_debugp (hnd w))) d) (\<lambda>d. Inr (w\<lparr>shm := d\<rparr>)))))"

definition RTDBG_SetSharedMemFile :: "string \<Rightarrow> world \<Rightarrow> fault + world" where
  "RTDBG_SetSharedMemFile nm w =
     bindE (sprintf (shared_file_name (hnd w)) ''%s'' [AStr nm]) (\<lambda>b.
       Inr (w\<lparr>hnd := (hnd w)\<lparr>shared_file_name := b\<rparr>\<rparr>))"

text \<open>
  What the operating system answers to \<open>open\<close>, \<open>ftruncate\<close>, \<open>lseek\<close>, \<open>write\<close> and \<open>mmap\<close>
  (\<open>None\<close> is \<open>MAP_FAILED\<close>), and the object that the file holds.
\<close>

record os_answers =
  os_open :: int
  os_ftruncate :: int
  os_lseek :: int
  os_write :: int
  os_mmap :: "u64 option"
  os_file :: CDebugRT

definition map_object :: "RTDBG_STATUS_T \<Rightarrow> u64 \<Rightarrow> os_answers \<Rightarrow> world \<Rightarrow> world" where
  "map_object st p os w =
     w\<lparr>hnd := (hnd w)\<lparr>status := st, rt_debugp := p, mem_attached := True\<rparr>, shm := os_file os,
       mapped := True\<rparr>"

definition RTDBG_ActivateDebugDataCollection ::
  "layout \<Rightarrow> os_answers \<Rightarrow> world \<Rightarrow> fault + (bool \<times> world)" where
  "RTDBG_ActivateDebugDataCollection lay os w =
     ASSERT (\<not> mem_attached (hnd w))
      (bindE (c_str (shared_file_name (hnd w))) (\<lambda>nm.
       ASSERT (0 < length nm)
        (let w = w\<lparr>hnd := (hnd w)\<lparr>mmapFd := os_open os\<rparr>\<rparr> in
         if os_open os < 0 then Inr (False, w)
         else if os_ftruncate os = 0 \<and> (os_lseek os = - 1 \<or> os_write os \<noteq> 1) then Inr (False, w)
         else
           (case os_mmap os of
              None \<Rightarrow> Inr (False, w)
            | Some p \<Rightarrow>
                if p = 0 then Inr (False, w)
                else bindE (RTDBG_Init lay (map_object RTDBG_RUNNING_PRODUCER p os w)) (\<lambda>w.
                       Inr (True, w))))))"

definition RTDBG_AttachDebugData :: "os_answers \<Rightarrow> world \<Rightarrow> fault + (bool \<times> world)" where
  "RTDBG_AttachDebugData os w =
     ASSERT (\<not> mem_attached (hnd w))
      (bindE (c_str (shared_file_name (hnd w))) (\<lambda>nm.
       ASSERT (0 < length nm)
        (let w = w\<lparr>hnd := (hnd w)\<lparr>mmapFd := os_open os\<rparr>\<rparr> in
         if os_open os < 0 then Inr (False, w)
         else if os_lseek os = - 1 \<or> os_lseek os = 0 then Inr (False, w)
         else
           (case os_mmap os of
              None \<Rightarrow> Inr (False, w)
            | Some p \<Rightarrow>
                if p = 0 then Inr (False, w)
                else Inr (True, map_object RTDBG_RUNNING_CONSUMER p os w)))))"

text \<open>The pointer keeps its value after \<open>munmap\<close>.\<close>

definition RTDBG_Close :: "world \<Rightarrow> world" where
  "RTDBG_Close w = w\<lparr>hnd := (hnd w)\<lparr>mem_attached := False\<rparr>, mapped := False\<rparr>"

definition RTDBG_Start :: "world \<Rightarrow> fault + world" where
  "RTDBG_Start w =
     (if \<not> mem_attached (hnd w) then Inr w
      else bindE (deref w) (\<lambda>d. Inr (w\<lparr>shm := SetDataCollection True d\<rparr>)))"

definition RTDBG_Stop :: "world \<Rightarrow> fault + world" where
  "RTDBG_Stop w =
     (if \<not> mem_attached (hnd w) then Inr w
      else
        (let w = w\<lparr>hnd := InitExtractTables (hnd w)\<rparr> in
         bindE (deref w) (\<lambda>d.
           Inr (w\<lparr>shm := SetDataCollection False d, hnd := (hnd w)\<lparr>status := RTDBG_STOPPED\<rparr>\<rparr>))))"

definition IsDataCollectionActive :: "world \<Rightarrow> fault + bool" where
  "IsDataCollectionActive w =
     (if \<not> mem_attached (hnd w) then Inr False else bindE (deref w) (\<lambda>d. Inr (IsDataCollected d)))"

definition RTDBG_GetVersion :: "world \<Rightarrow> string option" where
  "RTDBG_GetVersion w = (if \<not> mem_attached (hnd w) then None else Some ''v0.1'')"

definition RTDBG_GetStatus :: "world \<Rightarrow> RTDBG_STATUS_T" where
  "RTDBG_GetStatus w = (if \<not> mem_attached (hnd w) then RTDBG_STOPPED else status (hnd w))"

subsection \<open>Groups\<close>

definition RTDBG_AllocRTDebugGroup :: "layout \<Rightarrow> string \<Rightarrow> world \<Rightarrow> fault + (u32 \<times> world)" where
  "RTDBG_AllocRTDebugGroup lay nm w =
     (if \<not> mem_attached (hnd w) then Inr (- 1, w)
      else bindE (deref w) (\<lambda>d. bindE (AllocDbgGrp (lay (rt_debugp (hnd w))) nm d) (\<lambda>(i, d).
             Inr (i, w\<lparr>shm := d\<rparr>))))"

definition RTDBG_GetGrpName :: "u32 \<Rightarrow> cbuf \<Rightarrow> world \<Rightarrow> fault + cbuf option" where
  "RTDBG_GetGrpName grp dst w =
     (if \<not> mem_attached (hnd w) then Inr None
      else bindE (deref w) (\<lambda>d. bindE (GetDebugGrp grp d) (\<lambda>g.
             bindE (GetGrpName dst g) (\<lambda>b. Inr (Some b)))))"

definition RTDBG_GetGrpNum :: "world \<Rightarrow> fault + u32" where
  "RTDBG_GetGrpNum w =
     (if \<not> mem_attached (hnd w) then Inr (- 1) else bindE (deref w) (\<lambda>d. Inr (GetNumGrps d)))"

subsection \<open>Event counters\<close>

text \<open>A pointer to a counter is its group and its number; \<open>None\<close> is \<open>NULL\<close>.\<close>

definition RTDBG_GetCounter :: "u32 \<Rightarrow> u32 \<Rightarrow> world \<Rightarrow> fault + (nat \<times> nat) option" where
  "RTDBG_GetCounter grp num w =
     (if \<not> mem_attached (hnd w) then Inr None
      else bindE (deref w) (\<lambda>d. bindE (GetDebugGrp grp d) (\<lambda>g.
             bindE (Get_counter num (event_counters g)) (\<lambda>k. Inr (Some (unat grp, k))))))"

definition RTDBG_AllocCounter :: "u32 \<Rightarrow> string \<Rightarrow> world \<Rightarrow> fault + ((nat \<times> nat) option \<times> world)" where
  "RTDBG_AllocCounter grp nm w =
     (if \<not> mem_attached (hnd w) then Inr (None, w)
      else at_grp grp (\<lambda>g.
             bindE (AllocCnt nm (event_counters g)) (\<lambda>(cnt_num, c).
             bindE (Get_counter cnt_num c) (\<lambda>k.
               Inr (Some (unat grp, k), g\<lparr>event_counters := c\<rparr>)))) w)"

definition RTDBG_GetCountersNum :: "u32 \<Rightarrow> world \<Rightarrow> fault + u32" where
  "RTDBG_GetCountersNum grp w =
     (if \<not> mem_attached (hnd w) then Inr (- 1)
      else bindE (deref w) (\<lambda>d. bindE (GetDebugGrp grp d) (\<lambda>g.
             Inr (Get_cnt_num (event_counters g)))))"

text \<open>A client's \<open>*cnt = f(*cnt)\<close> through such a pointer.\<close>

definition counter_update :: "(nat \<times> nat) option \<Rightarrow> (u64 \<Rightarrow> u64) \<Rightarrow> world \<Rightarrow> fault + world" where
  "counter_update r f w =
     (case r of
        None \<Rightarrow> Inl NullDeref
      | Some (i, k) \<Rightarrow>
          bindE (deref w) (\<lambda>d. bindE (arr_mod (debug_groups d) i (\<lambda>g.
            bindE (arr_mod (rt_counters (event_counters g)) k (\<lambda>c. Inr (c\<lparr>cnt_val := f (cnt_val c)\<rparr>)))
              (\<lambda>cs. Inr (g\<lparr>event_counters := (event_counters g)\<lparr>rt_counters := cs\<rparr>\<rparr>))))
            (\<lambda>gs. Inr (w\<lparr>shm := d\<lparr>debug_groups := gs\<rparr>\<rparr>))))"

subsection \<open>Traces\<close>

definition RTDBG_AddTrace ::
  "timespec \<Rightarrow> u64 \<Rightarrow> u32 \<Rightarrow> u32 \<Rightarrow> u32 \<Rightarrow> u32 \<Rightarrow> u64 \<Rightarrow> u64 \<Rightarrow> u64 \<Rightarrow> u64 \<Rightarrow> world \<Rightarrow> fault + world" where
  "RTDBG_AddTrace now self junk grp tid line var0 var1 var2 var3 w =
     (if \<not> mem_attached (hnd w) then Inr w
      else bindE (deref w) (\<lambda>d.
        if IsDataCollected d = False then Inr w
        else bindE (at_grp grp (\<lambda>g.
               bindE (AddTrace now self junk tid line var0 var1 var2 var3 (tracer g)) (\<lambda>t.
                 Inr ((), g\<lparr>tracer := t\<rparr>))) w) (\<lambda>(_, w). Inr w)))"

definition RTDBG_AddTraceEntry :: "u32 \<Rightarrow> string \<Rightarrow> world \<Rightarrow> fault + (u32 \<times> world)" where
  "RTDBG_AddTraceEntry grp fmt w =
     (if \<not> mem_attached (hnd w) then Inr (- 1, w)
      else at_grp grp (\<lambda>g. bindE (AddTraceFormat fmt (tracer g)) (\<lambda>(i, t).
             Inr (i, g\<lparr>tracer := t\<rparr>))) w)"

text \<open>
  The body of the loop over the groups: when the slot of the group in \<open>grp_trace_res_\<close> was used up
  it is filled from the group. The Boolean says whether the slot takes part in the comparison.
\<close>

definition refill_trace ::
  "timespec \<Rightarrow> TraceInfo \<Rightarrow> CTraceGroup \<Rightarrow> fault + (bool \<times> TraceInfo \<times> CTraceGroup)" where
  "refill_trace now r t =
     (if ti_status r = TRACE_EMPTY_DATA then Inr (False, r, t)
      else if ti_status r = NO_DATA_IND then
        bindE (trace_GetTraceEntry now (trace_str r) t) (\<lambda>(res, t).
          case res of
            None \<Rightarrow> Inr (False, r\<lparr>ti_status := TRACE_EMPTY_DATA\<rparr>, t)
          | Some (s, u) \<Rightarrow> Inr (True, r\<lparr>trace_str := s, lin_time := u, ti_status := DATA_IND\<rparr>, t))
      else Inr (True, r, t))"

definition trace_merge_step ::
  "(nat \<Rightarrow> timespec) \<Rightarrow> nat \<Rightarrow> (timespec \<times> u32) \<times> world \<Rightarrow> fault + ((timespec \<times> u32) \<times> world)" where
  "trace_merge_step clk i acc =
     (let ((min_time, min_index), w) = acc in
      bindE (deref w) (\<lambda>d.
      bindE (GetDebugGrp (of_nat i) d) (\<lambda>g.
      bindE (arr_get (grp_trace_res (hnd w)) i) (\<lambda>r.
      bindE (refill_trace (clk (Suc i)) r (tracer g)) (\<lambda>(takes_part, r, t).
        let w = w\<lparr>hnd := (hnd w)\<lparr>grp_trace_res := (grp_trace_res (hnd w))[i := r]\<rparr>,
                  shm := put_grp (of_nat i) (g\<lparr>tracer := t\<rparr>) d\<rparr> in
        if takes_part \<and> DiffBetweenTimespec (lin_time r) min_time < 0
        then Inr ((lin_time r, of_nat i), w)
        else Inr ((min_time, min_index), w))))))"

text \<open>\<open>clk 0\<close> is the clock reading of the handler, \<open>clk (i + 1)\<close> that of the reader of group \<open>i\<close>.\<close>

definition RTDBG_GetTraceEntry ::
  "(nat \<Rightarrow> timespec) \<Rightarrow> cbuf \<Rightarrow> world \<Rightarrow> fault + ((cbuf \<times> timespec) option \<times> world)" where
  "RTDBG_GetTraceEntry clk dst w =
     bindE (deref w) (\<lambda>d.
       let num_alloc_grps = GetNumGrps d in
       if \<not> mem_attached (hnd w) then Inr (None, w)
       else if IsDataCollected d then Inr (None, w)
       else
         bindE (foldE (trace_merge_step clk) [0..<unat num_alloc_grps] ((clk 0, - 1), w))
           (\<lambda>((min_time, min_index), w).
             if min_index = - 1 then Inr (None, w)
             else
               bindE (arr_get (grp_trace_res (hnd w)) (unat min_index)) (\<lambda>r.
               bindE (c_str (trace_str r)) (\<lambda>s.
               bindE (strcpy dst s) (\<lambda>b.
                 Inr (Some (b, lin_time r),
                      w\<lparr>hnd := (hnd w)\<lparr>grp_trace_res :=
                          (grp_trace_res (hnd w))[unat min_index := r\<lparr>ti_status := NO_DATA_IND\<rparr>]\<rparr>\<rparr>))))))"

subsection \<open>Logs\<close>

definition RTDBG_AddLog :: "timespec \<Rightarrow> u32 \<Rightarrow> string \<Rightarrow> world \<Rightarrow> (fault + world) option" where
  "RTDBG_AddLog now grp str w =
     (if \<not> mem_attached (hnd w) then Some (Inr w)
      else bindD (Some (deref w)) (\<lambda>d.
        if IsDataCollected d \<noteq> True then Some (Inr w)
        else bindD (Some (GetDebugGrp grp d)) (\<lambda>g.
             bindD (AddLog now str (logger g)) (\<lambda>l.
               Some (Inr (w\<lparr>shm := put_grp grp (g\<lparr>logger := l\<rparr>) d\<rparr>))))))"

definition log_merge_step ::
  "u64 \<Rightarrow> nat \<Rightarrow> (timespec \<times> u32) \<times> world \<Rightarrow> fault + ((timespec \<times> u32) \<times> world)" where
  "log_merge_step mask_logs i acc =
     (let ((min_time, min_index), w) = acc;
          compare = (\<lambda>l w. if 0 < DiffBetweenTimespec min_time (le_time (log_info l))
                           then Inr ((le_time (log_info l), of_nat i), w)
                           else Inr ((min_time, min_index), w)) in
      bindE (arr_get (grp_logs_last (hnd w)) i) (\<lambda>l.
        if mask_logs AND push_bit i 1 \<noteq> 0 \<and> valid l = False then
          bindE (deref w) (\<lambda>d.
          bindE (GetDebugGrp (of_nat i) d) (\<lambda>g.
          bindE (GetLogEntry (log_str (log_info l)) (logger g)) (\<lambda>(res, lg).
            let w = w\<lparr>shm := put_grp (of_nat i) (g\<lparr>logger := lg\<rparr>) d\<rparr> in
            case res of
              None \<Rightarrow> Inr ((min_time, min_index), w)
            | Some (b, u) \<Rightarrow>
                (let l = \<lparr>log_info = \<lparr>le_time = u, log_str = b\<rparr>, valid = True\<rparr> in
                 compare l (w\<lparr>hnd := (hnd w)\<lparr>grp_logs_last := (grp_logs_last (hnd w))[i := l]\<rparr>\<rparr>)))))
        else compare l w))"

text \<open>\<open>tm_null\<close>: the caller passed \<open>NULL\<close> for \<open>linux_time\<close>.\<close>

definition RTDBG_GetLog ::
  "timespec \<Rightarrow> cbuf \<Rightarrow> bool \<Rightarrow> u64 \<Rightarrow> world \<Rightarrow> fault + ((cbuf \<times> timespec) option \<times> world)" where
  "RTDBG_GetLog now dst tm_null mask_logs w =
     (if \<not> mem_attached (hnd w) then Inr (None, w)
      else
        bindE (deref w) (\<lambda>d.
        bindE (foldE (log_merge_step mask_logs) [0..<unat (GetNumGrps d)] ((now, - 1), w))
          (\<lambda>((min_time, min_index), w).
            if min_index = - 1 then Inr (None, w)
            else
              bindE (arr_get (grp_logs_last (hnd w)) (unat min_index)) (\<lambda>l.
              bindE (c_str (log_str (log_info l))) (\<lambda>s.
              bindE (strcpy dst s) (\<lambda>b.
                if tm_null then Inl NullDeref
                else Inr (Some (b, le_time (log_info l)),
                       w\<lparr>hnd := (hnd w)\<lparr>grp_logs_last :=
                           (grp_logs_last (hnd w))[unat min_index := l\<lparr>valid := False\<rparr>]\<rparr>\<rparr>)))))))"

subsection \<open>Profilers\<close>

definition RTDBG_AddProfiler :: "layout \<Rightarrow> u32 \<Rightarrow> string \<Rightarrow> world \<Rightarrow> fault + (u32 \<times> world)" where
  "RTDBG_AddProfiler lay grp nm w =
     (if \<not> mem_attached (hnd w) then Inr (- 1, w)
      else at_grp grp (\<lambda>g.
             bindE (RegistryProfileEntry (ga_prof (lay (rt_debugp (hnd w)) (unat grp))) nm (profiler g))
               (\<lambda>(i, p). Inr (i, g\<lparr>profiler := p\<rparr>))) w)"

definition RTDBG_AllocProfCntrNum :: "u32 \<Rightarrow> world \<Rightarrow> fault + u32" where
  "RTDBG_AllocProfCntrNum grp w =
     (if \<not> mem_attached (hnd w) then Inr (- 1)
      else bindE (deref w) (\<lambda>d. bindE (GetDebugGrp grp d) (\<lambda>g. Inr (GetGrpProfNum (profiler g)))))"

definition RTDBG_ProfInit ::
  "(nat \<Rightarrow> timespec) \<Rightarrow> (nat \<Rightarrow> u64) \<Rightarrow> u32 \<Rightarrow> u32 \<Rightarrow> u32 \<Rightarrow> ProfilePoint \<Rightarrow> world \<Rightarrow> fault + ProfilePoint" where
  "RTDBG_ProfInit clk cyc grp pid meas_cnt p w =
     bindE (deref w) (\<lambda>d. bindE (GetDebugGrp grp d) (\<lambda>_.
       Inr (prof_Init clk cyc (unat grp, unat pid) meas_cnt p)))"

text \<open>
  The FIFO a point is attached to, found through the point's own pointer (not through the
  handler's), and its address. The pointer was made in the current mapping.
\<close>

definition mem_fifo :: "layout \<Rightarrow> ProfilePoint \<Rightarrow> world \<Rightarrow> fault + (u64 \<times> prof_fifo)" where
  "mem_fifo lay p w =
     (case mem_ptr p of
        None \<Rightarrow> Inl NullDeref
      | Some (i, k) \<Rightarrow>
          if \<not> mapped w then Inl MemFault
          else bindE (arr_get (debug_groups (shm w)) i) (\<lambda>g.
               bindE (arr_get (prof_fifos (profiler g)) k) (\<lambda>m.
                 Inr (ga_prof (lay (rt_debugp (hnd w)) i) k, m))))"

definition put_fifo :: "ProfilePoint \<Rightarrow> prof_fifo \<Rightarrow> world \<Rightarrow> world" where
  "put_fifo p m w =
     (case mem_ptr p of
        None \<Rightarrow> w
      | Some (i, k) \<Rightarrow>
          (let g = debug_groups (shm w) ! i;
               g = g\<lparr>profiler := (profiler g)\<lparr>prof_fifos := (prof_fifos (profiler g))[k := m]\<rparr>\<rparr> in
           w\<lparr>shm := (shm w)\<lparr>debug_groups := (debug_groups (shm w))[i := g]\<rparr>\<rparr>))"

definition RTDBG_ProfFlushMeas ::
  "layout \<Rightarrow> ProfilePoint \<Rightarrow> world \<Rightarrow> (fault + (ProfilePoint \<times> world)) option" where
  "RTDBG_ProfFlushMeas lay p w =
     (if meas_num (prof_data p) = 0 then Some (Inr (p, w))
      else bindD (Some (mem_fifo lay p w)) (\<lambda>(base, m).
           bindD (prof_Update base p m) (\<lambda>(p', m). Some (Inr (p', put_fifo p m w)))))"

definition RTDBG_StartProfMeas :: "timespec \<Rightarrow> u64 \<Rightarrow> ProfilePoint \<Rightarrow> fault + ProfilePoint" where
  "RTDBG_StartProfMeas now cyc p = prof_Start now cyc p"

definition RTDBG_PutProfVal ::
  "layout \<Rightarrow> timespec \<Rightarrow> u64 \<Rightarrow> u64 option \<Rightarrow> ProfilePoint \<Rightarrow> world \<Rightarrow>
   (fault + (ProfilePoint \<times> world)) option" where
  "RTDBG_PutProfVal lay now cyc val p w =
     (let p = stop_collect now cyc val p in
      if full_batch p then RTDBG_ProfFlushMeas lay p w else Some (Inr (p, w)))"

definition RTDBG_StopProfMeas ::
  "layout \<Rightarrow> timespec \<Rightarrow> u64 \<Rightarrow> ProfilePoint \<Rightarrow> world \<Rightarrow> (fault + (ProfilePoint \<times> world)) option" where
  "RTDBG_StopProfMeas lay now cyc p w = RTDBG_PutProfVal lay now cyc None p w"

definition RTDBG_StopStartProfMeas :: "timespec \<Rightarrow> u64 \<Rightarrow> ProfilePoint \<Rightarrow> ProfilePoint" where
  "RTDBG_StopStartProfMeas now cyc p = prof_StopContinue now cyc p"

definition RTDBG_GetProfInfo ::
  "u32 \<Rightarrow> u32 \<Rightarrow> cbuf \<Rightarrow> cbuf \<Rightarrow> world \<Rightarrow>
   (fault + ((cbuf \<times> (ProfileData \<times> cbuf) option) option \<times> world)) option" where
  "RTDBG_GetProfInfo grp pid grp_name prof_name w =
     (if \<not> mem_attached (hnd w) then Some (Inr (None, w))
      else bindD (Some (deref w)) (\<lambda>d.
           bindD (Some (GetDebugGrp grp d)) (\<lambda>g.
           bindD (Some (GetGrpName grp_name g)) (\<lambda>gb.
           bindD (prof_GetProfInfo pid prof_name (profiler g)) (\<lambda>(r, p).
             Some (Inr (Some (gb, r), w\<lparr>shm := put_grp grp (g\<lparr>profiler := p\<rparr>) d\<rparr>)))))))"

subsection \<open>An attached handler\<close>

definition ngroups :: "world \<Rightarrow> nat" where
  "ngroups w = unat (num_alloc_groups (shm w))"

text \<open>The handler is attached to a well-formed object.\<close>

definition attached_ok :: "world \<Rightarrow> bool" where
  "attached_ok w \<longleftrightarrow> mem_attached (hnd w) \<and> rt_debugp (hnd w) \<noteq> 0 \<and> mapped w \<and> rt_wf (shm w)"

lemma attached_deref: "attached_ok w \<Longrightarrow> deref w = Inr (shm w)"
  by (simp add: attached_ok_def deref_def)

lemma ngroups_le: "attached_ok w \<Longrightarrow> ngroups w \<le> MAX_GROUP_NUM"
  using rt_num by (simp add: attached_ok_def ngroups_def)

lemma group_at:
  assumes "attached_ok w" "i < ngroups w"
  shows "GetDebugGrp (of_nat i) (shm w) = Inr (debug_groups (shm w) ! i)"
    "group_wf (debug_groups (shm w) ! i)" "i < length (debug_groups (shm w))"
    "unat (of_nat i :: u32) = i" "of_nat i < num_alloc_groups (shm w)"
proof -
  have "i < 2 ^ 32" using ngroups_le [OF assms(1)] assms(2) by (simp add: MAX_GROUP_NUM_def)
  then show u: "unat (of_nat i :: u32) = i" by (rule unat_of_nat_u32)
  then show l: "of_nat i < num_alloc_groups (shm w)"
    using assms(2) by (simp add: word_less_nat_alt ngroups_def)
  have "rt_wf (shm w)" using assms(1) by (simp add: attached_ok_def)
  from GetDebugGrp_ok [OF this l] u
  show "GetDebugGrp (of_nat i) (shm w) = Inr (debug_groups (shm w) ! i)"
    "group_wf (debug_groups (shm w) ! i)" "i < length (debug_groups (shm w))" by simp_all
qed

end
