(* ===== verification/Handler_Life.thy ===== *)
theory Handler_Life
  imports Debug_Handler
begin

section \<open>Life cycle of a handler\<close>

text \<open>
  Creating the shared object, attaching to one that exists, registering groups, switching the
  collection on and off.
\<close>

subsection \<open>Creating the object\<close>

definition os_good :: "os_answers \<Rightarrow> bool" where
  "os_good os \<longleftrightarrow> 0 \<le> os_open os \<and> (os_ftruncate os = 0 \<longrightarrow> os_lseek os \<noteq> - 1 \<and> os_write os = 1) \<and>
     os_mmap os \<noteq> None \<and> os_mmap os \<noteq> Some 0"

definition named :: "world \<Rightarrow> bool" where
  "named w \<longleftrightarrow> terminated (shared_file_name (hnd w)) \<and> str_of (shared_file_name (hnd w)) \<noteq> []"

lemma Activate_ok:
  assumes w: "\<not> mem_attached (hnd w)" "named w" and os: "os_good os" "os_mmap os = Some p"
    and obj: "rt_shape (os_file os)" "addrs_ok (lay p)"
  shows "\<exists>w'. RTDBG_ActivateDebugDataCollection lay os w = Inr (True, w') \<and> attached_ok w' \<and>
    rt_debugp (hnd w') = p \<and> group_names (shm w') = [] \<and> num_alloc_groups (shm w') = 0 \<and>
    \<not> active (shm w') \<and> rt_shape (shm w') \<and> status (hnd w') = RTDBG_RUNNING_PRODUCER \<and>
    grp_trace_res (hnd w') = grp_trace_res (hnd w) \<and>
    grp_logs_last (hnd w') = map (\<lambda>l. l\<lparr>valid := False\<rparr>) (grp_logs_last (hnd w))"
proof -
  obtain d where d: "RT_Init (lay p) (os_file os) = Inr d" "rt_wf d" "rt_shape d" "group_names d = []"
    "num_alloc_groups d = 0" "\<not> active d"
    using RT_Init_ok [OF obj] by blast
  have p: "p \<noteq> 0" using os by (auto simp: os_good_def)
  have o: "\<not> os_open os < 0" "\<not> (os_ftruncate os = 0 \<and> (os_lseek os = - 1 \<or> os_write os \<noteq> 1))"
    using os(1) by (auto simp: os_good_def)
  let ?h = "InitExtractTables ((hnd w)\<lparr>mmapFd := os_open os, status := RTDBG_RUNNING_PRODUCER,
    rt_debugp := p, mem_attached := True\<rparr>)"
  let ?w = "w\<lparr>hnd := ?h, shm := d, mapped := True\<rparr>"
  have "RTDBG_ActivateDebugDataCollection lay os w = Inr (True, ?w)"
    using w o p d(1) unfolding RTDBG_ActivateDebugDataCollection_def named_def
    by (simp add: os(2) RTDBG_Init_def map_object_def deref_def InitExtractTables_def Let_def)
  moreover have "attached_ok ?w" using d(2) p by (simp add: attached_ok_def InitExtractTables_def)
  ultimately show ?thesis
    using d(3-6) by (intro exI [of _ ?w]) (simp add: InitExtractTables_def)
qed

lemma SetSharedMemFile_ok:
  assumes "length (shared_file_name (hnd w)) = TRACE_STRING_SIZE" "fits TRACE_STRING_SIZE nm" "nm \<noteq> []"
  shows "\<exists>b. RTDBG_SetSharedMemFile nm w = Inr (w\<lparr>hnd := (hnd w)\<lparr>shared_file_name := b\<rparr>\<rparr>) \<and>
    named (w\<lparr>hnd := (hnd w)\<lparr>shared_file_name := b\<rparr>\<rparr>)"
  using strcpy_fits [OF assms(2,1)] assms(3)
  by (auto simp: RTDBG_SetSharedMemFile_def sprintf_def named_def)

lemma AllocRTDebugGroup_new:
  assumes "attached_ok w" "addrs_ok (lay (rt_debugp (hnd w)))" "fits TRACE_STRING_SIZE nm"
    "nm \<notin> set (group_names (shm w))" "ngroups w < MAX_GROUP_NUM"
  shows "\<exists>d g. RTDBG_AllocRTDebugGroup lay nm w = Inr (num_alloc_groups (shm w), w\<lparr>shm := d\<rparr>) \<and>
    attached_ok (w\<lparr>shm := d\<rparr>) \<and> group_names d = group_names (shm w) @ [nm] \<and>
    active d = active (shm w) \<and> group_fresh nm g \<and> ngroups (w\<lparr>shm := d\<rparr>) = ngroups w + 1 \<and>
    debug_groups d = (debug_groups (shm w))[ngroups w := g] \<and> group_shape g"
proof -
  have wf: "rt_wf (shm w)" using assms(1) by (simp add: attached_ok_def)
  from AllocDbgGrp_new [OF wf assms(3,4) _ assms(2)] assms(5) obtain d g where d:
    "AllocDbgGrp (lay (rt_debugp (hnd w))) nm (shm w) = Inr (num_alloc_groups (shm w), d)" "rt_wf d"
    "group_names d = group_names (shm w) @ [nm]" "active d = active (shm w)" "group_fresh nm g"
    "debug_groups d = (debug_groups (shm w))[ngroups w := g]"
    "num_alloc_groups d = num_alloc_groups (shm w) + 1" "group_shape g"
    by (auto simp: ngroups_def)
  have "RTDBG_AllocRTDebugGroup lay nm w = Inr (num_alloc_groups (shm w), w\<lparr>shm := d\<rparr>)"
    using d(1) assms(1) attached_deref [OF assms(1)]
    by (simp add: RTDBG_AllocRTDebugGroup_def attached_ok_def)
  moreover have "attached_ok (w\<lparr>shm := d\<rparr>)" using assms(1) d(2) by (simp add: attached_ok_def)
  moreover have "ngroups (w\<lparr>shm := d\<rparr>) = ngroups w + 1"
    using d(7) assms(5) by (simp add: ngroups_def MAX_GROUP_NUM_def unat_word_ariths)
  ultimately show ?thesis using d by blast
qed

subsection \<open>An example world\<close>

definition counters_zero :: CRT_counter_grp where
  "counters_zero =
     \<lparr>rt_counters = replicate NUM_COUNTERS \<lparr>cnt_val = 0, cnt_name = replicate TRACE_STRING_SIZE NUL\<rparr>,
      num_alloc_counters = 0, cg_group_name = replicate TRACE_STRING_SIZE NUL\<rparr>"

definition rt_zero :: CDebugRT where
  "rt_zero =
     \<lparr>test_val = 0, num_alloc_groups = 0, active = False, trace_collected = False,
      debug_groups = replicate MAX_GROUP_NUM
        \<lparr>logger = log_zero, profiler = prof_zero, tracer = trace_zero, event_counters = counters_zero,
         gd_group_name = replicate TRACE_STRING_SIZE NUL\<rparr>\<rparr>"

lemma rt_zero_shape: "rt_shape rt_zero"
  using log_zero_shape prof_zero_shape trace_zero_shape
  by (simp add: rt_shape_def rt_zero_def group_shape_def counters_shape_def counters_zero_def)

definition demo_lay :: layout where
  "demo_lay p i = \<lparr>ga_trace = p, ga_prof = demo_bases\<rparr>"

lemma demo_lay_ok: "addrs_ok (demo_lay 4096)"
  using demo_bases_ok aligned_8 [of 4096] by (simp add: addrs_ok_def addr_ok_def demo_lay_def)

definition demo_os :: os_answers where
  "demo_os = \<lparr>os_open = 3, os_ftruncate = 0, os_lseek = 100, os_write = 1, os_mmap = Some 4096,
     os_file = rt_zero\<rparr>"

definition demo_start :: world where
  "demo_start = \<lparr>hnd = debug_handler\<lparr>shared_file_name := ''/tmp/rt'' @ replicate 121 NUL\<rparr>, shm = rt_zero,
     mapped = False\<rparr>"

lemma demo_start_ok: "\<not> mem_attached (hnd demo_start)" "named demo_start" "os_good demo_os"
  "os_mmap demo_os = Some 4096" "rt_shape (os_file demo_os)"
  using rt_zero_shape by (simp_all add: demo_start_def debug_handler_def named_def demo_os_def
      os_good_def terminated_def str_of_def)

text \<open>A handler that has created the object and registered one group, \<open>GEN\<close>.\<close>

lemma demo_world:
  "\<exists>w. attached_ok w \<and> rt_debugp (hnd w) = 4096 \<and> ngroups w = 1 \<and> \<not> active (shm w) \<and>
     group_names (shm w) = [''GEN''] \<and> group_fresh ''GEN'' (debug_groups (shm w) ! 0) \<and> rt_shape (shm w) \<and>
     grp_trace_res (hnd w) = grp_trace_res debug_handler \<and>
     grp_logs_last (hnd w) = grp_logs_last debug_handler"
proof -
  obtain w where w: "attached_ok w" "rt_debugp (hnd w) = 4096" "group_names (shm w) = []"
    "num_alloc_groups (shm w) = 0" "\<not> active (shm w)" "rt_shape (shm w)"
    "grp_trace_res (hnd w) = grp_trace_res debug_handler"
    "grp_logs_last (hnd w) = grp_logs_last debug_handler"
    using Activate_ok [where lay = demo_lay, OF demo_start_ok demo_lay_ok]
    by (auto simp: demo_start_def debug_handler_def)
  have "fits TRACE_STRING_SIZE ''GEN''" by (simp add: fits_def c_string_def TRACE_STRING_SIZE_def)
  moreover have "ngroups w < MAX_GROUP_NUM" using w(4) by (simp add: ngroups_def MAX_GROUP_NUM_def)
  ultimately obtain d g where d: "attached_ok (w\<lparr>shm := d\<rparr>)" "group_names d = [''GEN'']"
    "active d = active (shm w)" "group_fresh ''GEN'' g" "ngroups (w\<lparr>shm := d\<rparr>) = 1"
    "debug_groups d = (debug_groups (shm w))[0 := g]" "group_shape g"
    using AllocRTDebugGroup_new [where lay = demo_lay and nm = "''GEN''", OF w(1)] demo_lay_ok w(2-4)
    by (auto simp: ngroups_def)
  have "0 < length (debug_groups (shm w))" using w(6) by (simp add: rt_shape_def MAX_GROUP_NUM_def)
  moreover have "rt_shape d" using w(6) d(6,7) set_update_subset_insert [of "debug_groups (shm w)" 0 g]
    by (auto simp: rt_shape_def)
  ultimately show ?thesis using w d by (intro exI [of _ "w\<lparr>shm := d\<rparr>"]) simp
qed

subsection \<open>Properties\<close>

text \<open>C21: Creating the object. On a detached handler with a file name, when the system calls
  succeed (the file opens, it can be extended when its size was set, and it is mapped at an address that is not null, with the trace groups
  at multiples of 64 and no array of profile points across the end of the address space), \<open>RTDBG_ActivateDebugDataCollection\<close>
  initialises whatever the file holds, the object of an earlier run included: the result is a well-formed object without groups, collection off,
  mapped and attached as producer; the log slots of the handler are emptied and the trace slots are left as they were.\<close>

theorem activate_initialises:
  assumes "\<not> mem_attached (hnd w)" "named w" "os_good os" "os_mmap os = Some p"
    and "rt_shape (os_file os)" "addrs_ok (lay p)"
  shows "\<exists>w'. RTDBG_ActivateDebugDataCollection lay os w = Inr (True, w') \<and> attached_ok w' \<and>
    group_names (shm w') = [] \<and> \<not> active (shm w') \<and>
    RTDBG_GetStatus w' = RTDBG_RUNNING_PRODUCER \<and>
    grp_trace_res (hnd w') = grp_trace_res (hnd w) \<and>
    (\<forall>l \<in> set (grp_logs_last (hnd w')). \<not> valid l)"
  using Activate_ok [where lay = lay, OF assms]
  by (fastforce simp: RTDBG_GetStatus_def attached_ok_def)

theorem activate_initialises_witness:
  "\<exists>w'. RTDBG_ActivateDebugDataCollection demo_lay demo_os demo_start = Inr (True, w') \<and>
     group_names (shm w') = [] \<and> RTDBG_GetStatus w' = RTDBG_RUNNING_PRODUCER"
  using activate_initialises [where lay = demo_lay, OF demo_start_ok demo_lay_ok] by blast

text \<open>A second process. A handler that attaches to the file of a well-formed object sees that
  object as it is: the same groups, indices and contents, nothing reset; it becomes a consumer.\<close>

theorem attach_keeps_object:
  assumes "\<not> mem_attached (hnd w)" "named w" "0 \<le> os_open os" "os_lseek os \<notin> {- 1, 0}"
    "os_mmap os = Some p" "p \<noteq> 0" "rt_wf (os_file os)"
  shows "\<exists>w'. RTDBG_AttachDebugData os w = Inr (True, w') \<and> attached_ok w' \<and>
    shm w' = os_file os \<and> RTDBG_GetStatus w' = RTDBG_RUNNING_CONSUMER"
  using assms unfolding RTDBG_AttachDebugData_def named_def
  by (auto simp: map_object_def attached_ok_def RTDBG_GetStatus_def Let_def)

theorem attach_keeps_object_witness:
  "\<exists>d w'. group_names d = [''GEN''] \<and>
     RTDBG_AttachDebugData (demo_os\<lparr>os_file := d\<rparr>) demo_start = Inr (True, w') \<and> shm w' = d"
proof -
  obtain w where w: "attached_ok w" "group_names (shm w) = [''GEN'']" using demo_world by blast
  let ?os = "demo_os\<lparr>os_file := shm w\<rparr>"
  have "0 \<le> os_open ?os" "os_lseek ?os \<notin> {- 1, 0}" "os_mmap ?os = Some 4096"
    "(4096 :: u64) \<noteq> 0" "rt_wf (os_file ?os)"
    using w(1) by (simp_all add: demo_os_def attached_ok_def)
  from attach_keeps_object [OF demo_start_ok(1,2) this] show ?thesis
    using w(2) by (intro exI [of _ "shm w"]) auto
qed

text \<open>Groups are found again. Registering a name gives an index whose group carries this name;
  registering it again, even after another name was registered, gives the same index and changes
  nothing; another name gets another index.\<close>

theorem group_index_stable:
  assumes w: "attached_ok w" "addrs_ok (lay (rt_debugp (hnd w)))"
    and nm: "fits TRACE_STRING_SIZE nm" "fits TRACE_STRING_SIZE nm'" "nm \<noteq> nm'"
    and one: "RTDBG_AllocRTDebugGroup lay nm w = Inr (i, w1)"
    and two: "RTDBG_AllocRTDebugGroup lay nm' w1 = Inr (j, w2)"
  shows "group_names (shm w2) ! unat i = nm \<and> i \<noteq> j \<and> attached_ok w2 \<and>
    RTDBG_AllocRTDebugGroup lay nm w2 = Inr (i, w2)"
proof -
  let ?a = "AllocDbgGrp (lay (rt_debugp (hnd w)))"
  have att: "mem_attached (hnd w)" "rt_debugp (hnd w) \<noteq> 0" "mapped w" using w(1) by (auto simp: attached_ok_def)
  have I: "rt_wf (shm w) \<and> addrs_ok (lay (rt_debugp (hnd w)))" using w by (simp add: attached_ok_def)
  from one att obtain d1 where d1: "?a nm (shm w) = Inr (i, d1)" "w1 = w\<lparr>shm := d1\<rparr>"
    by (auto simp: RTDBG_AllocRTDebugGroup_def deref_def bindE_eq_Inr)
  from two att d1(2) obtain d2 where d2: "?a nm' d1 = Inr (j, d2)" "w2 = w\<lparr>shm := d2\<rparr>"
    by (auto simp: RTDBG_AllocRTDebugGroup_def deref_def bindE_eq_Inr)
  have I1: "rt_wf d1 \<and> addrs_ok (lay (rt_debugp (hnd w)))" using groups.alloc_invar [OF I nm(1) d1(1)] .
  have I2: "rt_wf d2 \<and> addrs_ok (lay (rt_debugp (hnd w)))" using groups.alloc_invar [OF I1 nm(2) d2(1)] .
  have again: "?a nm d2 = Inr (i, d2)" using groups.alloc_stable [OF I nm(1) d1(1) nm(2) d2(1)] .
  have "group_names d2 ! unat i = nm" using groups.alloc_index [OF I2 nm(1) again] by simp
  moreover have "i \<noteq> j" using groups.alloc_distinct [OF I nm(1) d1(1) nm(2) d2(1) nm(3)] .
  moreover have "attached_ok w2" using w(1) d2(2) I2 by (simp add: attached_ok_def)
  moreover have "RTDBG_AllocRTDebugGroup lay nm w2 = Inr (i, w2)"
    using again d2(2) att by (simp add: RTDBG_AllocRTDebugGroup_def deref_def)
  ultimately show ?thesis using d2(2) by simp
qed

theorem group_index_stable_witness:
  "\<exists>w i w1 j w2. RTDBG_AllocRTDebugGroup demo_lay ''A'' w = Inr (i, w1) \<and>
     RTDBG_AllocRTDebugGroup demo_lay ''B'' w1 = Inr (j, w2) \<and> i \<noteq> j \<and>
     RTDBG_AllocRTDebugGroup demo_lay ''A'' w2 = Inr (i, w2)"
proof -
  obtain w where w: "attached_ok w" "rt_debugp (hnd w) = 4096" "ngroups w = 1"
    "group_names (shm w) = [''GEN'']" using demo_world by blast
  have f: "fits TRACE_STRING_SIZE ''A''" "fits TRACE_STRING_SIZE ''B''" "''A'' \<noteq> ''B''"
    by (simp_all add: fits_def c_string_def TRACE_STRING_SIZE_def)
  have a: "addrs_ok (demo_lay (rt_debugp (hnd w)))" using w(2) demo_lay_ok by simp
  obtain d1 i where d1: "RTDBG_AllocRTDebugGroup demo_lay ''A'' w = Inr (i, w\<lparr>shm := d1\<rparr>)"
    "attached_ok (w\<lparr>shm := d1\<rparr>)" "group_names d1 = [''GEN'', ''A'']" "ngroups (w\<lparr>shm := d1\<rparr>) = 2"
    using AllocRTDebugGroup_new [where lay = demo_lay, OF w(1) a f(1)] w(3,4) by (auto simp: MAX_GROUP_NUM_def)
  obtain w2 j where d2: "RTDBG_AllocRTDebugGroup demo_lay ''B'' (w\<lparr>shm := d1\<rparr>) = Inr (j, w2)"
    using AllocRTDebugGroup_new [where lay = demo_lay, OF d1(2) _ f(2)] d1(3,4) w(2) demo_lay_ok
    by (auto simp: MAX_GROUP_NUM_def)
  from group_index_stable [OF w(1) a f d1(1) d2] d1(1) d2 show ?thesis by blast
qed

text \<open>An eleventh group. With ten groups registered, registering a new name aborts (and the
  counter of groups has been incremented by then).\<close>

theorem group_table_full:
  assumes "attached_ok w" "ngroups w = 10" "fits TRACE_STRING_SIZE nm" "nm \<notin> set (group_names (shm w))"
  shows "RTDBG_AllocRTDebugGroup lay nm w = Inl AssertFail"
proof -
  have wf: "rt_wf (shm w)" using assms(1) by (simp add: attached_ok_def)
  have "\<not> num_alloc_groups (shm w) + 1 \<le> of_nat MAX_GROUP_NUM"
    using assms(2) by (simp add: word_le_nat_alt MAX_GROUP_NUM_def unat_word_ariths ngroups_def)
  then show ?thesis
    using assms rt_scan [OF wf, of nm] attached_deref [OF assms(1)]
    by (simp add: RTDBG_AllocRTDebugGroup_def AllocDbgGrp_def Let_def fits_def attached_ok_def)
qed

theorem group_table_full_witness:
  "\<exists>w. ngroups w = 10 \<and> RTDBG_AllocRTDebugGroup demo_lay ''GEN'' w = Inl AssertFail"
proof -
  let ?nms = "map (\<lambda>k. replicate k (CHR ''g'')) [0..<10]"
  obtain w0 where w0: "attached_ok w0" "rt_debugp (hnd w0) = 4096" "group_names (shm w0) = []"
    using Activate_ok [where lay = demo_lay, OF demo_start_ok demo_lay_ok] by blast
  have "inj_on (\<lambda>k. replicate k (CHR ''g'')) {0..<10}" by (rule inj_onI) (metis length_replicate)
  then have d: "distinct ?nms" by (simp add: distinct_map)
  have f: "\<forall>nm \<in> set ?nms. fits TRACE_STRING_SIZE nm"
    by (auto simp: fits_def c_string_def TRACE_STRING_SIZE_def)
  have I: "rt_wf (shm w0) \<and> addrs_ok (demo_lay 4096)"
    using w0(1) demo_lay_ok by (simp add: attached_ok_def)
  obtain d where d: "rt_wf d" "group_names d = ?nms"
    using groups.alloc_all_fresh [OF I f d] w0(3) by (auto simp: MAX_GROUP_NUM_def)
  let ?w = "w0\<lparr>shm := d\<rparr>"
  have a: "attached_ok ?w" using w0(1) d(1) by (simp add: attached_ok_def)
  have n: "ngroups ?w = 10"
    using length_group_names [OF d(1)] arg_cong [OF d(2), of length] by (simp add: ngroups_def)
  have "''GEN'' \<noteq> replicate k (CHR ''g'')" for k by (cases k) auto
  then have "fits TRACE_STRING_SIZE ''GEN''" "''GEN'' \<notin> set (group_names (shm ?w))"
    using d(2) by (auto simp: fits_def c_string_def TRACE_STRING_SIZE_def)
  from group_table_full [OF a n this] n show ?thesis by blast
qed

text \<open>The switch. On an attached handler, \<open>RTDBG_AddLog\<close> and \<open>RTDBG_AddTrace\<close> do nothing
  while collection is off, and \<open>RTDBG_Stop\<close> and \<open>RTDBG_Start\<close> turn it off and on for every process
  that maps the object.\<close>

theorem collection_switch:
  assumes "attached_ok w"
  shows "\<exists>w0 w1. RTDBG_Stop w = Inr w0 \<and> attached_ok w0 \<and> IsDataCollectionActive w0 = Inr False \<and>
    RTDBG_AddLog now grp str w0 = Some (Inr w0) \<and>
    RTDBG_AddTrace now self junk grp tid line v0 v1 v2 v3 w0 = Inr w0 \<and>
    RTDBG_Start w0 = Inr w1 \<and> attached_ok w1 \<and> IsDataCollectionActive w1 = Inr True \<and>
    debug_groups (shm w1) = debug_groups (shm w)"
proof -
  have a: "mem_attached (hnd w)" "rt_debugp (hnd w) \<noteq> 0" "mapped w" "rt_wf (shm w)"
    using assms by (auto simp: attached_ok_def)
  have wf: "rt_wf ((shm w)\<lparr>active := b\<rparr>)" for b using a(4) by (simp add: rt_wf_def)
  show ?thesis
    using a wf by (simp add: RTDBG_Stop_def RTDBG_Start_def InitExtractTables_def deref_def
        SetDataCollection_def attached_ok_def IsDataCollectionActive_def IsDataCollected_def
        RTDBG_AddLog_def RTDBG_AddTrace_def Let_def)
qed

theorem collection_switch_witness:
  "\<exists>w w0 w1. attached_ok w \<and> RTDBG_Stop w = Inr w0 \<and> RTDBG_AddLog zero_time 0 ''x'' w0 = Some (Inr w0) \<and>
     RTDBG_Start w0 = Inr w1 \<and> IsDataCollectionActive w1 = Inr True"
proof -
  obtain w where w: "attached_ok w" using demo_world by blast
  from collection_switch [OF w, of zero_time 0 "''x''"] w show ?thesis by blast
qed

end
