(* ===== verification/Register_Race.thy ===== *)
theory Register_Race
  imports Handler_Life
begin

section \<open>Registration of groups by several processes at the same time\<close>

text \<open>
  \<open>CDebugRT::AllocDbgGrp\<close> at the grain of its accesses to the shared object. Unlike the FIFOs it takes no lock: the
  loop reads the number of groups again in every round, and \<open>num_alloc_groups_++\<close> is a load and a store. One call
  alone is \<open>AllocDbgGrp\<close>; two calls at the same time can register two groups under one index.
\<close>

subsection \<open>The accesses of a call\<close>

datatype reg_stage =
    R_test string nat
  | R_compare string nat
  | R_load string nat
  | R_store string nat u32
  | R_assert string nat
  | R_init string nat
  | R_done nat

fun reg_access :: "addr_map \<Rightarrow> reg_stage \<Rightarrow> CDebugRT \<Rightarrow> fault + (reg_stage \<times> CDebugRT)" where
  "reg_access addrs (R_test nm i) d = Inr (if i < unat (num_alloc_groups d) then R_compare nm i else R_load nm i, d)"
| "reg_access addrs (R_compare nm i) d =
     bindE (arr_get (debug_groups d) i) (\<lambda>g.
     bindE (GetGrpName (replicate TRACE_STRING_SIZE NUL) g) (\<lambda>tmp_str.
     bindE (strcmp_eq tmp_str nm) (\<lambda>eq. Inr (if eq then R_done i else R_test nm (Suc i), d))))"
| "reg_access addrs (R_load nm i) d = Inr (R_store nm i (num_alloc_groups d), d)"
| "reg_access addrs (R_store nm i v) d = Inr (R_assert nm i, d\<lparr>num_alloc_groups := v + 1\<rparr>)"
| "reg_access addrs (R_assert nm i) d = ASSERT (num_alloc_groups d \<le> of_nat MAX_GROUP_NUM) (Inr (R_init nm i, d))"
| "reg_access addrs (R_init nm i) d =
     bindE (arr_mod (debug_groups d) i (group_Init (addrs i) nm)) (\<lambda>gs. Inr (R_done i, d\<lparr>debug_groups := gs\<rparr>))"
| "reg_access addrs (R_done i) d = Inr (R_done i, d)"

fun reg_alone :: "nat \<Rightarrow> addr_map \<Rightarrow> reg_stage \<Rightarrow> CDebugRT \<Rightarrow> fault + (reg_stage \<times> CDebugRT)" where
  "reg_alone 0 addrs st d = Inr (st, d)"
| "reg_alone (Suc n) addrs st d = bindE (reg_access addrs st d) (\<lambda>(st, d). reg_alone n addrs st d)"


subsection \<open>One process alone\<close>

lemma reg_alone_done [simp]: "reg_alone n addrs (R_done i) d = Inr (R_done i, d)"
  by (induction n) simp_all

lemma scan_groups_bound: "scan_groups gs nm i num = Inr (Some j) \<Longrightarrow> j < num"
proof (induction gs nm i num rule: scan_groups.induct)
  case (1 gs nm i num)
  from "1.prems" show ?case
    by (subst (asm) scan_groups.simps) (auto simp: bindE_eq_Inr split: if_splits intro: "1.IH")
qed

lemma reg_alone_scan:
  assumes "i \<le> unat (num_alloc_groups d)"
  shows "reg_alone (2 * (unat (num_alloc_groups d) - i) + Suc k) addrs (R_test nm i) d =
    (case scan_groups (debug_groups d) nm i (unat (num_alloc_groups d)) of
       Inl f \<Rightarrow> Inl f
     | Inr None \<Rightarrow> reg_alone k addrs (R_load nm (unat (num_alloc_groups d))) d
     | Inr (Some j) \<Rightarrow> Inr (R_done j, d))"
  using assms
proof (induction "unat (num_alloc_groups d) - i" arbitrary: i)
  case 0
  then show ?case by (simp add: scan_groups.simps)
next
  case (Suc l)
  let ?num = "unat (num_alloc_groups d)"
  have i: "i < ?num" "?num - i = Suc (?num - Suc i)" "l = ?num - Suc i" "Suc i \<le> ?num" using Suc.hyps(2) by simp_all
  have n: "2 * (?num - i) + Suc k = Suc (Suc (2 * (?num - Suc i) + Suc k))" using i(2) by simp
  show ?case using i(1) Suc.hyps(1) [OF i(3,4)]
    unfolding n by (subst scan_groups.simps) (simp add: bindE_def split: sum.splits if_splits)
qed

text \<open>One call alone is \<open>AllocDbgGrp\<close>: after \<open>2 n + 5\<close> accesses, \<open>n\<close> the number of groups, it has returned what
  \<open>AllocDbgGrp\<close> returns and left the object it leaves, or it has failed with the same fault.\<close>

lemma reg_alone_is_call:
  "reg_alone (2 * unat (num_alloc_groups d) + 5) addrs (R_test nm 0) d =
     (case AllocDbgGrp addrs nm d of Inl f \<Rightarrow> Inl f | Inr (r, d') \<Rightarrow> Inr (R_done (unat r), d'))"
proof -
  let ?num = "unat (num_alloc_groups d)"
  have "reg_alone (2 * ?num + 5) addrs (R_test nm 0) d = reg_alone (2 * (?num - 0) + Suc 4) addrs (R_test nm 0) d" by simp
  also have "\<dots> = (case scan_groups (debug_groups d) nm 0 ?num of
       Inl f \<Rightarrow> Inl f
     | Inr None \<Rightarrow> reg_alone 4 addrs (R_load nm ?num) d
     | Inr (Some j) \<Rightarrow> Inr (R_done j, d))" by (rule reg_alone_scan) simp
  also have "\<dots> = (case AllocDbgGrp addrs nm d of Inl f \<Rightarrow> Inl f | Inr (r, d') \<Rightarrow> Inr (R_done (unat r), d'))"
  proof -
    have "reg_alone 4 addrs (R_load nm ?num) d = reg_alone (Suc (Suc (Suc (Suc 0)))) addrs (R_load nm ?num) d"
      by (simp add: numeral_eq_Suc)
    moreover have "j < 2 ^ 32" if "scan_groups (debug_groups d) nm 0 ?num = Inr (Some j)" for j
    proof -
      have "?num < 2 ^ 32" using unsigned_less [of "num_alloc_groups d"] by simp
      then show ?thesis using scan_groups_bound [OF that] by simp
    qed
    ultimately show ?thesis
      by (auto simp: AllocDbgGrp_def Let_def ASSERT_def bindE_def unsigned_of_nat take_bit_nat_eq_self split: sum.splits option.splits)
  qed
  finally show ?thesis .
qed

subsection \<open>Two processes at the same time\<close>












subsection \<open>Counting and initialising\<close>












subsection \<open>Properties\<close>





end
