(* ===== verification/OS_Wrappers.thy ===== *)
theory OS_Wrappers
  imports Mem_Area
begin

section \<open>Threads and mutexes: the wrappers of \<open>i_osa_api.h\<close>\<close>

text \<open>
  The functions of \<open>i_osa_api.h\<close> that have a body, other than the operations on spin locks in \<open>Mem_Area\<close>. Each calls a function of
  the pthread library and asserts that it returns 0. The pthread library is a parameter: \<open>posix\<close> holds the functions that are
  called, each with its result code and the object after the call. \<open>linux_sched\<close> states what \<open>sched(7)\<close> and
  \<open>pthread_attr_setschedparam(3)\<close> document for Linux.
\<close>

subsection \<open>What is called\<close>

datatype OSA_prio =
    OSA_PRIO_LOWEST | OSA_PRIO_ALMOST_LOWEST | OSA_PRIO_VERY_LOW | OSA_PRIO_ALMOST_VERY_LOW | OSA_PRIO_LOW
  | OSA_PRIO_ALMOST_LOW | OSA_PRIO_MEDIUM | OSA_PRIO_ALMOST_HIGH | OSA_PRIO_HIGH | OSA_PRIO_ALMOST_VERY_HIGH
  | OSA_PRIO_VERY_HIGH | OSA_PRIO_ALMOST_HIGHEST | OSA_PRIO_HIGHEST | OSA_PRIO_MAX

fun prio_val :: "OSA_prio \<Rightarrow> int" where
  "prio_val OSA_PRIO_LOWEST = 0"
| "prio_val OSA_PRIO_ALMOST_LOWEST = 1"
| "prio_val OSA_PRIO_VERY_LOW = 2"
| "prio_val OSA_PRIO_ALMOST_VERY_LOW = 3"
| "prio_val OSA_PRIO_LOW = 4"
| "prio_val OSA_PRIO_ALMOST_LOW = 5"
| "prio_val OSA_PRIO_MEDIUM = 6"
| "prio_val OSA_PRIO_ALMOST_HIGH = 7"
| "prio_val OSA_PRIO_HIGH = 8"
| "prio_val OSA_PRIO_ALMOST_VERY_HIGH = 9"
| "prio_val OSA_PRIO_VERY_HIGH = 10"
| "prio_val OSA_PRIO_ALMOST_HIGHEST = 11"
| "prio_val OSA_PRIO_HIGHEST = 12"
| "prio_val OSA_PRIO_MAX = 13"

datatype sched_policy = SCHED_OTHER | SCHED_FIFO

record ('attr, 'mutex, 'thread) posix =
  attr_init :: "'attr \<Rightarrow> int \<times> 'attr"
  attr_destroy :: "'attr \<Rightarrow> int \<times> 'attr"
  attr_setstacksize :: "u32 \<Rightarrow> 'attr \<Rightarrow> int \<times> 'attr"
  attr_setschedpolicy :: "sched_policy \<Rightarrow> 'attr \<Rightarrow> int \<times> 'attr"
  attr_setschedparam :: "int \<Rightarrow> 'attr \<Rightarrow> int \<times> 'attr"
  get_priority_max :: "sched_policy \<Rightarrow> int"
  thread_create :: "'attr \<Rightarrow> string \<Rightarrow> u64 \<Rightarrow> int \<times> 'thread"
  mutex_init :: "int \<times> 'mutex"
  mutex_destroy :: "'mutex \<Rightarrow> int \<times> 'mutex"
  mutex_trylock :: "'mutex \<Rightarrow> int \<times> 'mutex"
  mutex_lock :: "'mutex \<Rightarrow> int \<times> 'mutex"
  mutex_unlock :: "'mutex \<Rightarrow> int \<times> 'mutex"
  spin_destroy :: "OSA_spinlock_t \<Rightarrow> int \<times> OSA_spinlock_t"

text \<open>\<open>ASSERT(f(x) == 0)\<close>\<close>

definition ASSERT_zero :: "int \<times> 'x \<Rightarrow> fault + 'x" where
  "ASSERT_zero r = (case r of (res, x) \<Rightarrow> ASSERT (res = 0) (Inr x))"

subsection \<open>Thread attributes and threads\<close>

definition OSA_thread_attr_init :: "('attr, 'mutex, 'thread) posix \<Rightarrow> 'attr \<Rightarrow> 'attr" where
  "OSA_thread_attr_init os attr = snd (attr_init os attr)"

definition OSA_thread_attr_destroy :: "('attr, 'mutex, 'thread) posix \<Rightarrow> 'attr \<Rightarrow> fault + 'attr" where
  "OSA_thread_attr_destroy os attr = ASSERT_zero (attr_destroy os attr)"

definition OSA_thread_attr_set_stack_size :: "('attr, 'mutex, 'thread) posix \<Rightarrow> u32 \<Rightarrow> 'attr \<Rightarrow> fault + 'attr" where
  "OSA_thread_attr_set_stack_size os stack_size attr = ASSERT_zero (attr_setstacksize os stack_size attr)"

definition OSA_thread_attr_set_priority :: "('attr, 'mutex, 'thread) posix \<Rightarrow> OSA_prio \<Rightarrow> 'attr \<Rightarrow> fault + 'attr" where
  "OSA_thread_attr_set_priority os priority attr =
     ASSERT (prio_val priority < prio_val OSA_PRIO_MAX)
      (bindE
        (if prio_val priority \<le> prio_val OSA_PRIO_LOW then
           bindE (ASSERT_zero (attr_setschedpolicy os SCHED_OTHER attr)) (\<lambda>attr. Inr (prio_val priority, attr))
         else
           (let max_fifo = get_priority_max os SCHED_FIFO in
            bindE (ASSERT_zero (attr_setschedpolicy os SCHED_FIFO attr)) (\<lambda>attr.
              Inr (max_fifo - (prio_val OSA_PRIO_MAX - prio_val priority), attr))))
        (\<lambda>(sched_priority, attr). ASSERT_zero (attr_setschedparam os sched_priority attr)))"

definition OSA_thread_create :: "('attr, 'mutex, 'thread) posix \<Rightarrow> 'attr \<Rightarrow> string \<Rightarrow> u64 \<Rightarrow> fault + 'thread" where
  "OSA_thread_create os thread_attr start_routine arg = ASSERT_zero (thread_create os thread_attr start_routine arg)"

subsection \<open>Mutexes and spin locks\<close>

definition OSA_mutex_create :: "('attr, 'mutex, 'thread) posix \<Rightarrow> fault + 'mutex" where
  "OSA_mutex_create os = ASSERT_zero (mutex_init os)"

definition OSA_mutex_destroy :: "('attr, 'mutex, 'thread) posix \<Rightarrow> 'mutex \<Rightarrow> fault + 'mutex" where
  "OSA_mutex_destroy os m = ASSERT_zero (mutex_destroy os m)"

definition OSA_mutex_trylock :: "('attr, 'mutex, 'thread) posix \<Rightarrow> 'mutex \<Rightarrow> int \<times> 'mutex" where
  "OSA_mutex_trylock os m = mutex_trylock os m"

definition OSA_mutex_lock :: "('attr, 'mutex, 'thread) posix \<Rightarrow> 'mutex \<Rightarrow> fault + 'mutex" where
  "OSA_mutex_lock os m = ASSERT_zero (mutex_lock os m)"

definition OSA_mutex_unlock :: "('attr, 'mutex, 'thread) posix \<Rightarrow> 'mutex \<Rightarrow> fault + 'mutex" where
  "OSA_mutex_unlock os m = ASSERT_zero (mutex_unlock os m)"

definition OSA_spinlock_destroy :: "('attr, 'mutex, 'thread) posix \<Rightarrow> OSA_spinlock_t \<Rightarrow> fault + OSA_spinlock_t" where
  "OSA_spinlock_destroy os l = ASSERT_zero (spin_destroy os l)"

subsection \<open>Priorities on Linux\<close>

text \<open>
  The documented behaviour. A thread attribute has a policy; setting the policy succeeds; a priority is accepted iff it is in
  the range of the policy: 0 for \<open>SCHED_OTHER\<close>, 1 to 99 for \<open>SCHED_FIFO\<close>.
\<close>

definition linux_sched :: "('attr, 'mutex, 'thread) posix \<Rightarrow> ('attr \<Rightarrow> sched_policy) \<Rightarrow> ('attr \<Rightarrow> int) \<Rightarrow> bool" where
  "linux_sched os policy_of priority_of \<longleftrightarrow>
     get_priority_max os SCHED_FIFO = 99 \<and>
     (\<forall>p a. fst (attr_setschedpolicy os p a) = 0 \<and> policy_of (snd (attr_setschedpolicy os p a)) = p) \<and>
     (\<forall>n a. fst (attr_setschedparam os n a) = 0 \<longleftrightarrow>
        (case policy_of a of SCHED_OTHER \<Rightarrow> n = 0 | SCHED_FIFO \<Rightarrow> 1 \<le> n \<and> n \<le> 99)) \<and>
     (\<forall>n a. fst (attr_setschedparam os n a) = 0 \<longrightarrow>
        policy_of (snd (attr_setschedparam os n a)) = policy_of a \<and> priority_of (snd (attr_setschedparam os n a)) = n)"

text \<open>C40: the priorities that can be set. On Linux \<open>OSA_thread_attr_set_priority\<close> sets the lowest priority, and the eight
  real-time priorities above \<open>OSA_PRIO_LOW\<close> (as 91 to 98 of \<open>SCHED_FIFO\<close>, in their order); the four other user priorities, which
  the comment of \<open>OSA_prio\<close> announces, end in a failed assertion, because \<open>SCHED_OTHER\<close> takes no priority but 0.\<close>

theorem low_priorities_abort:
  assumes "linux_sched os policy_of priority_of"
  shows "case OSA_thread_attr_set_priority os prio attr of
      Inl f \<Rightarrow> f = AssertFail \<and> (0 < prio_val prio \<and> prio_val prio \<le> prio_val OSA_PRIO_LOW \<or> prio = OSA_PRIO_MAX)
    | Inr attr' \<Rightarrow>
        prio = OSA_PRIO_LOWEST \<and> policy_of attr' = SCHED_OTHER \<and> priority_of attr' = 0 \<or>
        prio_val OSA_PRIO_LOW < prio_val prio \<and> prio \<noteq> OSA_PRIO_MAX \<and> policy_of attr' = SCHED_FIFO \<and>
          priority_of attr' = 86 + prio_val prio"
proof -
  have p: "get_priority_max os SCHED_FIFO = 99"
    "attr_setschedpolicy os q a = (r, a') \<Longrightarrow> r = 0 \<and> policy_of a' = q"
    "attr_setschedparam os n a = (r, a') \<Longrightarrow> r = 0 \<longleftrightarrow> (case policy_of a of SCHED_OTHER \<Rightarrow> n = 0 | SCHED_FIFO \<Rightarrow> 1 \<le> n \<and> n \<le> 99)"
    "attr_setschedparam os n a = (0, a') \<Longrightarrow> policy_of a' = policy_of a \<and> priority_of a' = n" for q n a r a'
    using assms unfolding linux_sched_def by (metis fst_conv snd_conv)+
  obtain r a' where a': "attr_setschedpolicy os (if prio_val prio \<le> 4 then SCHED_OTHER else SCHED_FIFO) attr = (r, a')"
    by fastforce
  from p(2) [OF this] have r: "r = 0" "policy_of a' = (if prio_val prio \<le> 4 then SCHED_OTHER else SCHED_FIFO)" by simp_all
  obtain r' a'' where a'': "attr_setschedparam os (if prio_val prio \<le> 4 then prio_val prio else 86 + prio_val prio) a' = (r', a'')"
    by fastforce
  show ?thesis using a' r a'' p(3) [OF a''] p(4) [of _ _ a''] p(1)
    by (cases prio) (auto simp: OSA_thread_attr_set_priority_def ASSERT_zero_def ASSERT_def)
qed

text \<open>An instance: attributes are a policy and a priority, a mutex is held or free, thread 1 is created.\<close>

definition demo_posix :: "(sched_policy \<times> int, bool, nat) posix" where
  "demo_posix = \<lparr>
     attr_init = (\<lambda>_. (0, (SCHED_OTHER, 0))), attr_destroy = (\<lambda>a. (0, a)), attr_setstacksize = (\<lambda>_ a. (0, a)),
     attr_setschedpolicy = (\<lambda>p (_, n). (0, (p, n))),
     attr_setschedparam = (\<lambda>n (p, m). if (case p of SCHED_OTHER \<Rightarrow> n = 0 | SCHED_FIFO \<Rightarrow> 1 \<le> n \<and> n \<le> 99) then (0, (p, n)) else (22, (p, m))),
     get_priority_max = (\<lambda>p. case p of SCHED_OTHER \<Rightarrow> 0 | SCHED_FIFO \<Rightarrow> 99),
     thread_create = (\<lambda>_ _ _. (0, 1)),
     mutex_init = (0, False), mutex_destroy = (\<lambda>m. (if m then 16 else 0, m)), mutex_trylock = (\<lambda>m. (if m then 16 else 0, True)),
     mutex_lock = (\<lambda>m. (if m then 35 else 0, True)), mutex_unlock = (\<lambda>m. (0, False)),
     spin_destroy = (\<lambda>l. (if l then 16 else 0, l))\<rparr>"

lemma demo_posix_linux: "linux_sched demo_posix fst snd"
  by (auto simp: linux_sched_def demo_posix_def split: sched_policy.splits if_splits)

theorem low_priorities_abort_witness:
  "OSA_thread_attr_set_priority demo_posix OSA_PRIO_VERY_LOW (OSA_thread_attr_init demo_posix (SCHED_OTHER, 0)) = Inl AssertFail \<and>
   OSA_thread_attr_set_priority demo_posix OSA_PRIO_HIGH (OSA_thread_attr_init demo_posix (SCHED_OTHER, 0)) = Inr (SCHED_FIFO, 94)"
  using low_priorities_abort [OF demo_posix_linux, of OSA_PRIO_VERY_LOW "OSA_thread_attr_init demo_posix (SCHED_OTHER, 0)"]
    low_priorities_abort [OF demo_posix_linux, of OSA_PRIO_HIGH "OSA_thread_attr_init demo_posix (SCHED_OTHER, 0)"]
  by (auto split: sum.splits)

end
