(* ===== verification/Trace_Merge.thy ===== *)
theory Trace_Merge
  imports Handler_Life
begin

section \<open>Merging the traces of all groups\<close>

text \<open>
  \<open>RTDBG_GetTraceEntry\<close> keeps one trace of each group in \<open>grp_trace_res_\<close> and returns the earliest of
  them. The invariant says what the slot of a group holds with respect to the traces that are
  still in the group; \<open>all_rest\<close> is everything the handler still has to deliver.
\<close>

subsection \<open>One slot\<close>

abbreviation TRACE_INFO_SIZE :: nat where "TRACE_INFO_SIZE \<equiv> TRACE_STRING_SIZE * 2"

definition cached :: "TraceInfo \<Rightarrow> bool" where
  "cached r \<longleftrightarrow> ti_status r \<noteq> TRACE_EMPTY_DATA \<and> ti_status r \<noteq> NO_DATA_IND"

text \<open>What is still to be delivered for a group, as text and time.\<close>

definition slot_rest :: "TraceInfo \<Rightarrow> CTraceGroup \<Rightarrow> (string \<times> timespec) multiset" where
  "slot_rest r t = (if cached r then {#(str_of (trace_str r), lin_time r)#} else {#}) +
     image_mset (\<lambda>e. (text_of t e, linux_time e)) (pending t)"

definition slot_ok :: "TraceInfo \<Rightarrow> CTraceGroup \<Rightarrow> bool" where
  "slot_ok r t \<longleftrightarrow> length (trace_str r) = TRACE_INFO_SIZE \<and>
     (ti_status r = TRACE_EMPTY_DATA \<longrightarrow> pending t = {#}) \<and>
     (cached r \<longrightarrow> terminated (trace_str r) \<and> valid_time (lin_time r) \<and>
        (\<forall>e \<in># pending t. ns_of (lin_time r) \<le> ns_of (linux_time e))) \<and>
     (\<forall>e \<in># pending t. valid_time (linux_time e) \<and> printable t TRACE_INFO_SIZE e)"

text \<open>The slot after the loop body: it holds the earliest trace of the group if there is one.\<close>

definition slot_filled :: "TraceInfo \<Rightarrow> CTraceGroup \<Rightarrow> bool" where
  "slot_filled r t \<longleftrightarrow> slot_ok r t \<and> (\<not> cached r \<longrightarrow> slot_rest r t = {#}) \<and>
     (cached r \<longrightarrow> (\<forall>u \<in># slot_rest r t. ns_of (lin_time r) \<le> ns_of (snd u)))"

lemma empty_not_no_data: "TRACE_EMPTY_DATA \<noteq> NO_DATA_IND"
  by (simp add: TRACE_EMPTY_DATA_def NO_DATA_IND_def word_unat_eq_iff unsigned_ucast_eq
      unsigned_minus_1_eq_mask mask_eq_exp_minus_1 take_bit_nat_eq_self)

lemma data_not_empty: "DATA_IND \<noteq> TRACE_EMPTY_DATA"
  by (simp add: TRACE_EMPTY_DATA_def DATA_IND_def)

lemma terminated_printed: "length s = length dst \<Longrightarrow> trace_line g e dst = Inr s \<Longrightarrow> terminated s"
  by (auto simp: trace_line_def sprintf_at_def sprintf_def bindE_eq_Inr strcpy_eq_Inr_iff terminated_def)

lemma trace_read_terminated:
  assumes "trace_wf g" "trace_GetTraceEntry now dst g = Inr (Some (s, t), g')" "length s = length dst"
  shows "terminated s"
  using assms terminated_printed [OF assms(3)]
  by (auto simp: trace_GetTraceEntry_eq bindE_eq_Inr split: prod.splits option.splits)

lemma clear_entry_frame [simp]:
  "tg_group_name (clear_entry k t) = tg_group_name t" "trace_names (clear_entry k t) = trace_names t"
  "num_alloc_formats (clear_entry k t) = num_alloc_formats t"
  by (auto simp: clear_entry_def trace_names_def)

lemma refill_trace_ok:
  assumes wf: "trace_wf t" and ok: "slot_ok r t"
    and now: "valid_time now" "\<forall>u \<in># slot_rest r t. ns_of (snd u) < ns_of now"
  shows "\<exists>r' t'. refill_trace now r t = Inr (cached r', r', t') \<and> slot_filled r' t' \<and> trace_wf t' \<and>
    slot_rest r' t' = slot_rest r t \<and> tg_group_name t' = tg_group_name t"
proof (cases "ti_status r = NO_DATA_IND")
  case False
  then have "refill_trace now r t = Inr (cached r, r, t)"
    by (simp add: refill_trace_def cached_def)
  moreover have "slot_filled r t"
    using ok False by (auto simp: slot_filled_def slot_ok_def cached_def slot_rest_def)
  ultimately show ?thesis using wf by blast
next
  case nd: True
  then have nc: "\<not> cached r" by (simp add: cached_def)
  have rd: "readable now (length (trace_str r)) t"
    using ok now nc by (auto simp: readable_def slot_ok_def slot_rest_def)
  show ?thesis
  proof (cases "pending t = {#}")
    case True
    let ?r = "r\<lparr>ti_status := TRACE_EMPTY_DATA\<rparr>"
    have "refill_trace now r t = Inr (cached ?r, ?r, t)"
      using nd True trace_read_none [OF wf True] empty_not_no_data by (simp add: refill_trace_def cached_def)
    moreover have "slot_filled ?r t"
      using ok True by (simp add: slot_filled_def slot_ok_def cached_def slot_rest_def)
    moreover have "slot_rest ?r t = slot_rest r t" using nc True by (simp add: slot_rest_def cached_def)
    ultimately show ?thesis using wf by blast
  next
    case False
    from trace_read_some [OF wf rd False] obtain k e s where s:
      "trace_GetTraceEntry now (trace_str r) t = Inr (Some (s, linux_time e), clear_entry k t)"
      "trace_wf (clear_entry k t)" "length s = length (trace_str r)" "str_of s = text_of t e"
      "pending t = add_mset e (pending (clear_entry k t))"
      "\<forall>e' \<in># pending t. ns_of (linux_time e) \<le> ns_of (linux_time e')" by blast
    let ?r = "r\<lparr>trace_str := s, lin_time := linux_time e, ti_status := DATA_IND\<rparr>"
    have c: "cached ?r" by (simp add: cached_def data_not_empty data_ind_apart)
    have "refill_trace now r t = Inr (cached ?r, ?r, clear_entry k t)"
      using nd s(1) c empty_not_no_data by (simp add: refill_trace_def)
    moreover have "slot_ok ?r (clear_entry k t)"
      using ok s trace_read_terminated [OF wf s(1,3)] data_not_empty
      by (auto simp: slot_ok_def)
    then have "slot_filled ?r (clear_entry k t)"
      using c s(5,6) by (auto simp: slot_filled_def slot_rest_def)
    moreover have "slot_rest ?r (clear_entry k t) = slot_rest r t"
      using c nc s(4,5) by (simp add: slot_rest_def)
    ultimately show ?thesis using s(2) by (intro exI conjI) (assumption | simp)+
  qed
qed

subsection \<open>All slots\<close>

definition rs :: "world \<Rightarrow> nat \<Rightarrow> TraceInfo" where
  "rs w i = grp_trace_res (hnd w) ! i"

definition tr :: "world \<Rightarrow> nat \<Rightarrow> CTraceGroup" where
  "tr w i = tracer (debug_groups (shm w) ! i)"

definition slots_ok :: "world \<Rightarrow> bool" where
  "slots_ok w \<longleftrightarrow> attached_ok w \<and> \<not> active (shm w) \<and>
     length (grp_trace_res (hnd w)) = MAX_GROUP_NUM \<and>
     (\<forall>i < ngroups w. slot_ok (rs w i) (tr w i))"

definition all_rest :: "world \<Rightarrow> (string \<times> timespec) multiset" where
  "all_rest w = (\<Sum>i < ngroups w. slot_rest (rs w i) (tr w i))"

text \<open>It has two parts: what the slots of the handler hold, and the traces that are in the groups.\<close>

definition in_slots :: "world \<Rightarrow> (string \<times> timespec) multiset" where
  "in_slots w = (\<Sum>i < ngroups w. if cached (rs w i) then {#(str_of (trace_str (rs w i)), lin_time (rs w i))#} else {#})"

definition in_groups :: "world \<Rightarrow> (string \<times> timespec) multiset" where
  "in_groups w = (\<Sum>i < ngroups w. image_mset (\<lambda>e. (text_of (tr w i) e, linux_time e)) (pending (tr w i)))"

lemma all_rest_split: "all_rest w = in_slots w + in_groups w"
  by (simp add: all_rest_def slot_rest_def in_slots_def in_groups_def sum.distrib)

text \<open>A handler that has not read yet: its slots are zero, and zero is the mark for a slot that holds a trace.\<close>

definition new_slots :: "world \<Rightarrow> bool" where
  "new_slots w \<longleftrightarrow> grp_trace_res (hnd w) = grp_trace_res debug_handler"

lemma new_slot_at:
  assumes "new_slots w" "ngroups w \<le> MAX_GROUP_NUM" "i < ngroups w"
  shows "cached (rs w i)" "str_of (trace_str (rs w i)) = []" "terminated (trace_str (rs w i))"
    "length (trace_str (rs w i)) = TRACE_INFO_SIZE" "lin_time (rs w i) = zero_time" "ti_status (rs w i) = 0"
proof -
  have r: "rs w i = \<lparr>trace_str = replicate (TRACE_STRING_SIZE * 2) NUL, lin_time = zero_time, ti_status = 0\<rparr>"
    using assms by (simp add: rs_def debug_handler_def new_slots_def)
  then show "cached (rs w i)" "str_of (trace_str (rs w i)) = []" "terminated (trace_str (rs w i))"
    "length (trace_str (rs w i)) = TRACE_INFO_SIZE" "lin_time (rs w i) = zero_time" "ti_status (rs w i) = 0"
    using data_ind_apart data_not_empty
    by (auto simp: cached_def DATA_IND_def str_of_def terminated_def TRACE_STRING_SIZE_def)
qed

lemma new_in_slots:
  assumes "new_slots w" "ngroups w \<le> MAX_GROUP_NUM"
  shows "in_slots w = replicate_mset (ngroups w) ([], zero_time)"
proof -
  have "(\<Sum>i < n. if cached (rs w i) then {#(str_of (trace_str (rs w i)), lin_time (rs w i))#} else {#}) =
      replicate_mset n ([], zero_time)" if "n \<le> ngroups w" for n
    using that new_slot_at [OF assms] by (induction n) simp_all
  then show ?thesis by (simp add: in_slots_def)
qed

lemma new_slots_ok:
  assumes "attached_ok w" "\<not> active (shm w)" "new_slots w"
    "\<forall>i < ngroups w. \<forall>e \<in># pending (tr w i). valid_time (linux_time e) \<and> printable (tr w i) TRACE_INFO_SIZE e"
  shows "slots_ok w"
proof -
  have "length (grp_trace_res (hnd w)) = MAX_GROUP_NUM" using assms(3) by (simp add: new_slots_def debug_handler_def)
  then show ?thesis using assms new_slot_at [OF assms(3) ngroups_le [OF assms(1)]]
    by (simp add: slots_ok_def slot_ok_def TRACE_EMPTY_DATA_def)
qed

text \<open>A clock reading that is later than everything still to be delivered.\<close>

definition later :: "timespec \<Rightarrow> world \<Rightarrow> bool" where
  "later c w \<longleftrightarrow> valid_time c \<and> (\<forall>u \<in># all_rest w. ns_of (snd u) < ns_of c)"

lemma rest_in_all: "i < ngroups w \<Longrightarrow> u \<in># slot_rest (rs w i) (tr w i) \<Longrightarrow> u \<in># all_rest w"
  by (auto simp: all_rest_def set_mset_sum)

definition put_slot :: "nat \<Rightarrow> TraceInfo \<Rightarrow> CTraceGroup \<Rightarrow> world \<Rightarrow> world" where
  "put_slot k r t w =
     w\<lparr>hnd := (hnd w)\<lparr>grp_trace_res := (grp_trace_res (hnd w))[k := r]\<rparr>,
       shm := put_grp (of_nat k) ((debug_groups (shm w) ! k)\<lparr>tracer := t\<rparr>) (shm w)\<rparr>"

lemma put_slot_ok:
  assumes ok: "slots_ok w" and k: "k < ngroups w" and rt: "slot_ok r t" "trace_wf t"
    "tg_group_name t = tg_group_name (tr w k)"
  shows "slots_ok (put_slot k r t w)" "ngroups (put_slot k r t w) = ngroups w"
    "rs (put_slot k r t w) i = (if i = k then r else rs w i)"
    "tr (put_slot k r t w) i = (if i = k then t else tr w i)"
proof -
  have a: "attached_ok w" using ok by (simp add: slots_ok_def)
  note g = group_at [OF a k]
  let ?w = "put_slot k r t w" and ?g = "(debug_groups (shm w) ! k)\<lparr>tracer := t\<rparr>"
  have "group_wf ?g" using g(2) rt(2,3) by (simp add: group_wf_def tr_def)
  then have "rt_wf (put_grp (of_nat k) ?g (shm w))"
    using a g(4,5) by (intro put_grp_wf(1)) (simp_all add: attached_ok_def)
  then have a': "attached_ok ?w" using a by (simp add: attached_ok_def put_slot_def)
  show n: "ngroups ?w = ngroups w" by (simp add: ngroups_def put_slot_def put_grp_def)
  have kl: "k < length (grp_trace_res (hnd w))"
    using ok k ngroups_le [OF a] by (simp add: slots_ok_def)
  show r: "rs ?w i = (if i = k then r else rs w i)" for i
    using kl by (simp add: rs_def put_slot_def)
  show t: "tr ?w i = (if i = k then t else tr w i)" for i
    using g(3,4) by (simp add: tr_def put_slot_def put_grp_def)
  show "slots_ok ?w"
    using ok a' rt(1) n r t by (simp add: slots_ok_def) (simp add: put_slot_def put_grp_def)
qed

subsection \<open>The loop over the groups\<close>

definition head :: "world \<Rightarrow> nat \<Rightarrow> timespec option" where
  "head w i = (if cached (rs w i) then Some (lin_time (rs w i)) else None)"

lemma head_valid: "slots_ok w \<Longrightarrow> i < ngroups w \<Longrightarrow> head w i = Some u \<Longrightarrow> valid_time u"
  by (auto simp: head_def slots_ok_def slot_ok_def split: if_splits)

lemma earliest_valid:
  assumes "earliest 0 (map f [0..<k]) (c, None) = (t, r)" "valid_time c"
    "\<And>i u. i < k \<Longrightarrow> f i = Some u \<Longrightarrow> valid_time u"
  shows "valid_time t"
  using earliest_origin [where i = 0 and xs = "map f [0..<k]" and t = c and r = None] assms by auto

definition merge_inv ::
  "(nat \<Rightarrow> timespec) \<Rightarrow> world \<Rightarrow> nat \<Rightarrow> (timespec \<times> u32) \<times> world \<Rightarrow> bool" where
  "merge_inv clk w k acc \<longleftrightarrow>
     (case acc of (m, w') \<Rightarrow> slots_ok w' \<and> ngroups w' = ngroups w \<and>
        (\<forall>i < ngroups w. slot_rest (rs w' i) (tr w' i) = slot_rest (rs w i) (tr w i)) \<and>
        (\<forall>i < k. slot_filled (rs w' i) (tr w' i)) \<and>
        m = map_prod id index32 (earliest 0 (map (head w') [0..<k]) (clk 0, None)))"

lemma merge_step:
  assumes inv: "merge_inv clk w k acc" and k: "k < ngroups w" and clk: "\<And>i. later (clk i) w"
  shows "\<exists>acc'. trace_merge_step clk k acc = Inr acc' \<and> merge_inv clk w (Suc k) acc'"
proof -
  obtain mt mi w1 where acc: "acc = ((mt, mi), w1)" by (metis prod.exhaust)
  have ok: "slots_ok w1" and n: "ngroups w1 = ngroups w"
    and rest: "\<forall>i < ngroups w. slot_rest (rs w1 i) (tr w1 i) = slot_rest (rs w i) (tr w i)"
    and filled: "\<forall>i < k. slot_filled (rs w1 i) (tr w1 i)"
    and m: "(mt, mi) = map_prod id index32 (earliest 0 (map (head w1) [0..<k]) (clk 0, None))"
    using inv by (auto simp: merge_inv_def acc)
  have a: "attached_ok w1" using ok by (simp add: slots_ok_def)
  have k1: "k < ngroups w1" using k n by simp
  note g = group_at [OF a k1]
  have r: "arr_get (grp_trace_res (hnd w1)) k = Inr (rs w1 k)"
    using ok k1 ngroups_le [OF a] by (simp add: slots_ok_def rs_def)
  have "trace_wf (tr w1 k)" using g(2) by (simp add: group_wf_def tr_def)
  moreover have "slot_ok (rs w1 k) (tr w1 k)" using ok k1 by (simp add: slots_ok_def)
  moreover have "valid_time (clk (Suc k))" "\<forall>u \<in># slot_rest (rs w1 k) (tr w1 k). ns_of (snd u) < ns_of (clk (Suc k))"
    using clk [of "Suc k"] rest k rest_in_all [OF k] by (auto simp: later_def)
  ultimately obtain r' t' where f: "refill_trace (clk (Suc k)) (rs w1 k) (tr w1 k) = Inr (cached r', r', t')"
    "slot_filled r' t'" "trace_wf t'" "slot_rest r' t' = slot_rest (rs w1 k) (tr w1 k)"
    "tg_group_name t' = tg_group_name (tr w1 k)"
    using refill_trace_ok by blast
  have sok: "slot_ok r' t'" using f(2) by (simp add: slot_filled_def)
  let ?w = "put_slot k r' t' w1"
  note put = put_slot_ok [OF ok k1 sok f(3,5)]
  obtain et er where e: "earliest 0 (map (head w1) [0..<k]) (clk 0, None) = (et, er)" by fastforce
  have mm: "mt = et" "mi = index32 er" using m e by auto
  have hv: "valid_time u" if "i < k" "head w1 i = Some u" for i u
    using head_valid [OF ok _ that(2)] that(1) k1 by simp
  have "valid_time et"
    using earliest_valid [OF e _ hv] clk [of 0] by (simp add: later_def)
  then have flip: "DiffBetweenTimespec (lin_time r') et < 0 \<longleftrightarrow> 0 < DiffBetweenTimespec et (lin_time r')"
    if "cached r'" using that sok by (simp add: slot_ok_def Diff_valid)
  have hd: "map (head ?w) [0..<Suc k] = map (head w1) [0..<k] @ [if cached r' then Some (lin_time r') else None]"
    by (simp add: head_def put(3))
  have step: "trace_merge_step clk k acc = Inr (map_prod id index32
      (earliest 0 (map (head ?w) [0..<Suc k]) (clk 0, None)), ?w)"
    unfolding hd earliest_snoc e acc mm
    using attached_deref [OF a] g(1) r f(1) flip
    by (simp add: trace_merge_step_def tr_def put_slot_def index32_def Let_def)
  have "\<forall>i < Suc k. slot_filled (rs ?w i) (tr ?w i)" using filled f(2) put(3,4) by (simp add: less_Suc_eq)
  moreover have "\<forall>i < ngroups w. slot_rest (rs ?w i) (tr ?w i) = slot_rest (rs w i) (tr w i)"
    using rest f(4) put(3,4) k by simp
  ultimately show ?thesis
    using step put(1,2) n by (auto simp: merge_inv_def)
qed

subsection \<open>One call\<close>

lemma merge_loop:
  assumes "slots_ok w" "\<And>i. later (clk i) w"
  shows "\<exists>w'. foldE (trace_merge_step clk) [0..<ngroups w] ((clk 0, - 1), w) =
      Inr (map_prod id index32 (earliest 0 (map (head w') [0..<ngroups w]) (clk 0, None)), w') \<and>
    slots_ok w' \<and> ngroups w' = ngroups w \<and> all_rest w' = all_rest w \<and>
    (\<forall>i < ngroups w. slot_filled (rs w' i) (tr w' i))"
proof -
  have "merge_inv clk w 0 ((clk 0, - 1), w)"
    using assms(1) by (simp add: merge_inv_def index32_def)
  moreover have "\<exists>acc'. trace_merge_step clk k acc = Inr acc' \<and> merge_inv clk w (Suc k) acc'"
    if "k < ngroups w" "merge_inv clk w k acc" for k acc
    using merge_step [OF that(2,1) assms(2)] .
  ultimately obtain acc where
    "foldE (trace_merge_step clk) [0..<ngroups w] ((clk 0, - 1), w) = Inr acc"
    "merge_inv clk w (ngroups w) acc"
    using foldE_upt [where P = "merge_inv clk w" and n = "ngroups w" and f = "trace_merge_step clk"]
    by blast
  then show ?thesis by (auto simp: merge_inv_def all_rest_def)
qed

lemma all_rest_take:
  assumes "k < ngroups w'" "ngroups w'' = ngroups w'"
    "\<And>i. i \<noteq> k \<Longrightarrow> slot_rest (rs w'' i) (tr w'' i) = slot_rest (rs w' i) (tr w' i)"
    "slot_rest (rs w' k) (tr w' k) = add_mset u (slot_rest (rs w'' k) (tr w'' k))"
  shows "all_rest w' = add_mset u (all_rest w'')"
proof -
  have "all_rest w' = slot_rest (rs w' k) (tr w' k) +
      (\<Sum>i \<in> {..<ngroups w'} - {k}. slot_rest (rs w' i) (tr w' i))"
    unfolding all_rest_def using assms(1) by (intro sum.remove) auto
  moreover have "all_rest w'' = slot_rest (rs w'' k) (tr w'' k) +
      (\<Sum>i \<in> {..<ngroups w'} - {k}. slot_rest (rs w'' i) (tr w'' i))"
    unfolding all_rest_def assms(2) using assms(1) by (intro sum.remove) auto
  moreover have "(\<Sum>i \<in> {..<ngroups w'} - {k}. slot_rest (rs w'' i) (tr w'' i)) =
      (\<Sum>i \<in> {..<ngroups w'} - {k}. slot_rest (rs w' i) (tr w' i))"
    using assms(3) by (intro sum.cong) auto
  ultimately show ?thesis using assms(4) by simp
qed

lemma trace_call_ok:
  assumes ok: "slots_ok w" and clk: "\<And>i. later (clk i) w" and dst: "TRACE_INFO_SIZE \<le> length dst"
  shows "\<exists>w'. slots_ok w' \<and>
    ((RTDBG_GetTraceEntry clk dst w = Inr (None, w') \<and> all_rest w = {#} \<and> all_rest w' = {#}) \<or>
     (\<exists>b t. RTDBG_GetTraceEntry clk dst w = Inr (Some (b, t), w') \<and> length b = length dst \<and>
        terminated b \<and> all_rest w = add_mset (str_of b, t) (all_rest w') \<and>
        (\<forall>u \<in># all_rest w. ns_of t \<le> ns_of (snd u))))"
proof -
  obtain w' where w': "foldE (trace_merge_step clk) [0..<ngroups w] ((clk 0, - 1), w) =
      Inr (map_prod id index32 (earliest 0 (map (head w') [0..<ngroups w]) (clk 0, None)), w')"
    "slots_ok w'" "ngroups w' = ngroups w" "all_rest w' = all_rest w"
    "\<forall>i < ngroups w. slot_filled (rs w' i) (tr w' i)"
    using merge_loop [where clk = clk, OF ok clk] by blast
  have a: "attached_ok w" "attached_ok w'" using ok w'(2) by (auto simp: slots_ok_def)
  let ?hs = "map (head w') [0..<ngroups w]"
  obtain et er where e: "earliest 0 ?hs (clk 0, None) = (et, er)" by fastforce
  have call: "RTDBG_GetTraceEntry clk dst w =
      (if index32 er = - 1 then Inr (None, w')
       else bindE (arr_get (grp_trace_res (hnd w')) (unat (index32 er))) (\<lambda>r.
            bindE (c_str (trace_str r)) (\<lambda>s. bindE (strcpy dst s) (\<lambda>b.
              Inr (Some (b, lin_time r), w'\<lparr>hnd := (hnd w')\<lparr>grp_trace_res :=
                (grp_trace_res (hnd w'))[unat (index32 er) := r\<lparr>ti_status := NO_DATA_IND\<rparr>]\<rparr>\<rparr>)))))"
    using w'(1) e attached_deref [OF a(1)] ok
    by (simp add: RTDBG_GetTraceEntry_def GetNumGrps_def IsDataCollected_def slots_ok_def
        attached_ok_def ngroups_def Let_def)
  have hv: "valid_time u" if "Some u \<in> set ?hs" for u
    using that head_valid [OF w'(2)] w'(3) by fastforce
  have vc: "valid_time (clk 0)" using clk [of 0] by (simp add: later_def)
  have hrest: "\<exists>x. x \<in># all_rest w \<and> snd x = u" if "i < ngroups w" "head w' i = Some u" for i u
  proof -
    have "(str_of (trace_str (rs w' i)), u) \<in># slot_rest (rs w' i) (tr w' i)"
      using that(2) by (auto simp: head_def slot_rest_def split: if_splits)
    then show ?thesis using rest_in_all [of i w'] that(1) w'(3,4) by force
  qed
  show ?thesis
  proof (cases er)
    case None
    have nohead: "head w' i = None" if "i < ngroups w" for i
    proof (rule ccontr)
      assume "head w' i \<noteq> None"
      then obtain u where u: "head w' i = Some u" by blast
      moreover have "\<forall>u. Some u \<in> set ?hs \<longrightarrow> ns_of (clk 0) \<le> ns_of u"
        using e None by (intro earliest_None [where xs = ?hs, OF hv vc]) auto
      moreover have "head w' i \<in> set ?hs" using that by simp
      ultimately have "ns_of (clk 0) \<le> ns_of u" by simp
      with hrest [OF that u] clk [of 0] show False by (force simp: later_def)
    qed
    have "slot_rest (rs w' i) (tr w' i) = {#}" if "i < ngroups w" for i
      using w'(5) nohead [OF that] that by (auto simp: slot_filled_def head_def split: if_splits)
    then have "all_rest w' = {#}" using w'(3) by (simp add: all_rest_def)
    with call None w'(2,4) show ?thesis by (auto simp: index32_def)
  next
    case (Some k)
    have least: "least_at ?hs k et" using earliest_Some [where xs = ?hs, OF hv vc] e Some by blast
    then have k: "k < ngroups w" "head w' k = Some et" by (auto simp: least_at_def)
    have k10: "k < MAX_GROUP_NUM" using k(1) ngroups_le [OF a(1)] by simp
    then have "index32 er \<noteq> - 1"
      using index32_None_iff [of er] Some by (simp add: MAX_GROUP_NUM_def)
    moreover have u: "unat (index32 er) = k"
      using Some k10 unat_of_nat_u32 [of k] by (simp add: index32_def MAX_GROUP_NUM_def)
    moreover have g: "arr_get (grp_trace_res (hnd w')) k = Inr (rs w' k)"
      using w'(2) k10 by (simp add: slots_ok_def rs_def)
    moreover have c: "cached (rs w' k)" "lin_time (rs w' k) = et"
      using k(2) by (auto simp: head_def split: if_splits)
    moreover have s: "slot_ok (rs w' k) (tr w' k)" using w'(2,3) k(1) by (simp add: slots_ok_def)
    then have t: "terminated (trace_str (rs w' k))" "length (trace_str (rs w' k)) = TRACE_INFO_SIZE"
      using c(1) by (auto simp: slot_ok_def)
    moreover have "length (str_of (trace_str (rs w' k))) < length dst"
      using length_str_of [OF t(1)] t(2) dst by simp
    then obtain b where b: "strcpy dst (str_of (trace_str (rs w' k))) = Inr b" "length b = length dst"
      "terminated b" "str_of b = str_of (trace_str (rs w' k))"
      using strcpy_ok [of "str_of (trace_str (rs w' k))" dst] by auto
    let ?r = "(rs w' k)\<lparr>ti_status := NO_DATA_IND\<rparr>"
    let ?w = "w'\<lparr>hnd := (hnd w')\<lparr>grp_trace_res := (grp_trace_res (hnd w'))[k := ?r]\<rparr>\<rparr>"
    have call': "RTDBG_GetTraceEntry clk dst w = Inr (Some (b, et), ?w)"
      using calculation b(1) call by simp
    have n: "ngroups ?w = ngroups w'" "tr ?w = tr w'" by (auto simp: ngroups_def tr_def)
    have r: "rs ?w i = (if i = k then ?r else rs w' i)" for i
      using w'(2) k10 by (simp add: rs_def slots_ok_def)
    have "slot_ok ?r (tr w' k)"
      using s empty_not_no_data by (auto simp: slot_ok_def cached_def)
    then have "slots_ok ?w"
      using w'(2) n r by (auto simp: slots_ok_def attached_ok_def)
    moreover have "all_rest w' = add_mset (str_of b, et) (all_rest ?w)"
      using k(1) w'(3) n r c b(4)
      by (intro all_rest_take [of k]) (auto simp: slot_rest_def cached_def)
    moreover have "ns_of et \<le> ns_of (snd x)" if "x \<in># all_rest w" for x
    proof -
      from that have "x \<in># all_rest w'" using w'(4) by simp
      then obtain i where i: "i < ngroups w" "x \<in># slot_rest (rs w' i) (tr w' i)"
        unfolding all_rest_def w'(3) by (auto simp: set_mset_sum)
      then have f: "slot_filled (rs w' i) (tr w' i)" using w'(5) by simp
      with i(2) have ci: "cached (rs w' i)" "ns_of (lin_time (rs w' i)) \<le> ns_of (snd x)"
        by (auto simp: slot_filled_def split: if_splits)
      then have "?hs ! i = Some (lin_time (rs w' i))" using i(1) by (simp add: head_def)
      then have "ns_of et \<le> ns_of (lin_time (rs w' i))" using least i(1) by (simp add: least_at_def)
      with ci(2) show ?thesis by simp
    qed
    ultimately show ?thesis using call' b(2,3) w'(4) by (intro exI [of _ ?w]) auto
  qed
qed

subsection \<open>Reading all traces\<close>

text \<open>
  The loop \<open>while(RTDBG_GetTraceEntry(buf, &lin_time)) ...\<close> of \<open>RTDBG_ExtractDebugData\<close> is
  \<open>pop_all\<close> over this reader; \<open>clk n\<close> are the clock readings of the \<open>n\<close>th call.
\<close>

definition trace_reader ::
  "(nat \<Rightarrow> nat \<Rightarrow> timespec) \<Rightarrow> nat \<times> cbuf \<times> world \<Rightarrow>
   fault + ((string \<times> timespec) option \<times> (nat \<times> cbuf \<times> world))" where
  "trace_reader clk = (\<lambda>(n, buf, w).
     bindE (RTDBG_GetTraceEntry (clk n) buf w) (\<lambda>(r, w).
       case r of
         None \<Rightarrow> Inr (None, (n, buf, w))
       | Some (b, t) \<Rightarrow> Inr (Some (str_of b, t), (Suc n, b, w))))"

lemma trace_reader_all:
  assumes "slots_ok w" "\<And>n i. later (clk n i) w" "TRACE_INFO_SIZE \<le> length buf"
  shows "\<exists>res n' buf' w'. pop_all (trace_reader clk) f acc (n, buf, w) =
      Some (Inr (fold f res acc, (n', buf', w'))) \<and>
    sorted (map (\<lambda>x. ns_of (snd x)) res) \<and> mset res = all_rest w \<and>
    slots_ok w' \<and> all_rest w' = {#} \<and> length buf' = length buf"
  using assms
proof (induction "size (all_rest w)" arbitrary: w n buf acc)
  case 0
  then have e: "all_rest w = {#}" by simp
  with trace_call_ok [of w "clk n" buf] 0 obtain w' where
    "slots_ok w'" "RTDBG_GetTraceEntry (clk n) buf w = Inr (None, w')" "all_rest w' = {#}" by auto
  with e show ?case
    by (intro exI [of _ "[]"]) (auto simp: pop_all.simps [of _ f acc] trace_reader_def)
next
  case (Suc k)
  then have "all_rest w \<noteq> {#}" by auto
  with trace_call_ok [of w "clk n" buf] Suc.prems obtain w1 b t where
    c: "slots_ok w1" "RTDBG_GetTraceEntry (clk n) buf w = Inr (Some (b, t), w1)" "length b = length buf"
      "all_rest w = add_mset (str_of b, t) (all_rest w1)"
      "\<forall>u \<in># all_rest w. ns_of t \<le> ns_of (snd u)" by auto
  have "later (clk m i) w1" for m i using Suc.prems(2) [of m i] c(4) by (simp add: later_def)
  with Suc.hyps(1) [of w1 b "f (str_of b, t) acc" "Suc n"] Suc.hyps(2) Suc.prems(3) c
  obtain res n' buf' w' where
    IH: "pop_all (trace_reader clk) f (f (str_of b, t) acc) (Suc n, b, w1) =
      Some (Inr (fold f res (f (str_of b, t) acc), (n', buf', w')))"
      "sorted (map (\<lambda>x. ns_of (snd x)) res)" "mset res = all_rest w1"
      "slots_ok w'" "all_rest w' = {#}" "length buf' = length b" by auto
  have "set res = set_mset (all_rest w1)" using IH(3) by (metis set_mset_mset)
  then have "\<forall>x \<in> set res. ns_of t \<le> ns_of (snd x)" using c(4,5) by auto
  then show ?case
    using c IH by (intro exI [of _ "(str_of b, t) # res"])
      (auto simp: pop_all.simps [of _ f acc] trace_reader_def)
qed

subsection \<open>Properties\<close>

text \<open>One call of the merge. When collection is stopped, the slots of the handler are
  consistent with the groups and every trace is older than the clock, a call returns a trace of
  least time among all that are left in all the groups, with its text, and removes exactly this one;
  it answers that there is none exactly when nothing is left in any group.\<close>

theorem trace_merge_earliest:
  assumes "slots_ok w" "\<forall>i. later (clk i) w" "TRACE_INFO_SIZE \<le> length dst"
  shows "\<exists>w' r. RTDBG_GetTraceEntry clk dst w = Inr (r, w') \<and> slots_ok w' \<and>
    (case r of
       None \<Rightarrow> all_rest w = {#}
     | Some (b, t) \<Rightarrow> all_rest w = add_mset (str_of b, t) (all_rest w') \<and>
         (\<forall>u \<in># all_rest w. ns_of t \<le> ns_of (snd u)))"
  using trace_call_ok [of w clk dst] assms by fastforce

text \<open>C3: reading all traces. Let a handler be attached to a well-formed object with collection off; let its slots be right (a slot marked empty is
  that of a group without traces, and a slot that holds a line holds one that is not later than the traces left in its group);
  let the stamps be valid, every line fit the 256 characters of a slot, and the clock of the reader be later than everything
  that is to be read. Then the loop that reads traces until there is none ends, and what it returns, sorted by time across
  the groups, is exactly: the line in each slot that holds one, and every trace that is in a group, once, with its own text and
  time. Nothing is left in slots or groups. On a handler that has not read before, the lines in the slots are one empty line with
  time zero for each group (the slots are zero, which is the mark of a slot that holds a line).\<close>

theorem trace_merge_sorted:
  assumes "slots_ok w" "\<forall>n i. later (clk n i) w" "TRACE_INFO_SIZE \<le> length buf"
  shows "\<exists>res s'. pop_all (trace_reader clk) (\<lambda>x out. out @ [x]) [] (0, buf, w) = Some (Inr (res, s')) \<and>
    sorted (map (\<lambda>x. ns_of (snd x)) res) \<and> mset res = in_slots w + in_groups w \<and>
    in_slots (snd (snd s')) = {#} \<and> in_groups (snd (snd s')) = {#} \<and>
    (new_slots w \<longrightarrow> in_slots w = replicate_mset (ngroups w) ([], zero_time))"
proof -
  have f: "fold (\<lambda>x out. out @ [x]) res acc = acc @ res" for res acc :: "(string \<times> timespec) list"
    by (induction res arbitrary: acc) auto
  have "attached_ok w" using assms(1) by (simp add: slots_ok_def)
  then have "new_slots w \<longrightarrow> in_slots w = replicate_mset (ngroups w) ([], zero_time)"
    using new_in_slots ngroups_le by blast
  then show ?thesis
    using trace_reader_all [of w clk buf "\<lambda>x out. out @ [x]" "[]" 0] assms by (force simp: f all_rest_split)
qed

text \<open>C31: the slots of a new handler are zero, which is the mark for a slot that holds a trace.
  With no trace in any group and collection off, the first call of a handler attached to an object with groups returns
  success, with an empty text and time zero, instead of no trace.\<close>

theorem trace_phantom:
  assumes w: "attached_ok w" "\<not> active (shm w)" "grp_trace_res (hnd w) = grp_trace_res debug_handler"
    and empty: "0 < ngroups w" "\<forall>i < ngroups w. pending (tr w i) = {#}"
    and clk: "\<forall>i. valid_time (clk i) \<and> 0 < ns_of (clk i)" and dst: "TRACE_INFO_SIZE \<le> length dst"
  shows "\<exists>b w'. RTDBG_GetTraceEntry clk dst w = Inr (Some (b, zero_time), w') \<and> str_of b = []"
proof -
  have new: "new_slots w" using w(3) by (simp add: new_slots_def)
  have ok: "slots_ok w" using new_slots_ok [OF w(1,2) new] empty(2) by simp
  have "in_groups w = {#}" using empty(2) by (simp add: in_groups_def)
  then have all: "all_rest w = replicate_mset (ngroups w) ([], zero_time)"
    using new_in_slots [OF new ngroups_le [OF w(1)]] by (simp add: all_rest_split)
  then have mem: "u = ([], zero_time)" if "u \<in># all_rest w" for u
    using that unfolding all by (simp split: if_splits)
  have ne: "all_rest w \<noteq> {#}" using all empty(1) by simp
  have "later (clk i) w" for i 
    using clk mem unfolding later_def by (metis ns_of_zero_time snd_conv)
  with trace_call_ok [of w clk dst] ok dst ne obtain b t w' where
    "RTDBG_GetTraceEntry clk dst w = Inr (Some (b, t), w')"
    "all_rest w = add_mset (str_of b, t) (all_rest w')" by blast
  with mem [of "(str_of b, t)"] show ?thesis by auto
qed

text \<open>\<open>RTDBG_GetTraceEntry\<close> follows \<open>rt_debugp_\<close> before it tests \<open>mem_attached_\<close>: on a handler
  that was never attached it follows a null pointer, and after \<open>RTDBG_Close\<close> an unmapped one, where
  the other operations return at once.\<close>

theorem trace_read_unattached:
  "RTDBG_GetTraceEntry clk dst (w\<lparr>hnd := debug_handler\<rparr>) = Inl NullDeref \<and>
   RTDBG_GetTraceEntry clk dst (RTDBG_Close w) =
     Inl (if rt_debugp (hnd w) = 0 then NullDeref else MemFault) \<and>
   RTDBG_GetLog now dst tm_null msk (RTDBG_Close w) = Inr (None, RTDBG_Close w) \<and>
   RTDBG_AddTrace now self junk grp tid line v0 v1 v2 v3 (RTDBG_Close w) = Inr (RTDBG_Close w)"
  by (simp add: RTDBG_GetTraceEntry_def deref_def debug_handler_def RTDBG_Close_def RTDBG_GetLog_def
      RTDBG_AddTrace_def)

subsection \<open>The properties at work\<close>

text \<open>One group with one trace, read by a new handler: its slot holds a trace, by mistake.\<close>

lemma demo_slots:
  "\<exists>w x. slots_ok w \<and> (\<forall>u \<in># all_rest w. ns_of (snd u) \<le> 1000000000) \<and> in_groups w = {#x#} \<and> snd x = \<lparr>tv_sec = 1, tv_nsec = 0\<rparr> \<and>
     all_rest w = {#([], zero_time), x#} \<and> new_slots w \<and>
     ngroups w = 1 \<and> grp_logs_last (hnd w) = grp_logs_last debug_handler \<and>
     (\<exists>g. group_fresh ''GEN'' g \<and> debug_groups (shm w) ! 0 = g\<lparr>tracer := tr w 0\<rparr>)"
proof -
  obtain w0 where w0: "attached_ok w0" "ngroups w0 = 1" "\<not> active (shm w0)"
    "group_fresh ''GEN'' (debug_groups (shm w0) ! 0)"
    "grp_trace_res (hnd w0) = grp_trace_res debug_handler"
    "grp_logs_last (hnd w0) = grp_logs_last debug_handler" using demo_world by blast
  let ?t0 = "tr w0 0"
  have g: "group_wf (debug_groups (shm w0) ! 0)" using group_at(2) [OF w0(1), of 0] w0(2) by simp
  have t0: "trace_wf ?t0" "terminated (tg_group_name ?t0)" "pending ?t0 = {#}"
    "trace_names ?t0 = [def_format]" "num_alloc_formats ?t0 = 1" "str_of (tg_group_name ?t0) = ''GEN''"
    using g w0(4) by (auto simp: group_wf_def group_fresh_def tr_def)
  have "\<forall>c \<in> set [demo_call 1]. tc_id c < num_alloc_formats ?t0" using t0(5) by (simp add: demo_call_def)
  from AddTrace_run_history [OF t0(1) this] obtain t where t: "trace_wf t"
    "trace_history t = keep_last TRACE_ENTRIES_NUM (trace_history ?t0 @ map call_entry [demo_call 1])"
    "trace_formats t = trace_formats ?t0" "num_alloc_formats t = num_alloc_formats ?t0"
    "tg_group_name t = tg_group_name ?t0" by blast
  have p: "pending t = {#call_entry (demo_call 1)#}"
    using pending_after_adds [OF t0(1,3) t(1,2)] by (simp add: TRACE_ENTRIES_NUM_def)
  have pr: "printable t 256 (call_entry (demo_call 1))"
    using demo_printable(1) [OF t(1)] t(3-5) t0(2,4-6) by (simp add: trace_names_def)
  let ?r = "rs w0 0"
  have r: "?r = \<lparr>trace_str = replicate (TRACE_STRING_SIZE * 2) NUL, lin_time = zero_time, ti_status = 0\<rparr>"
    using w0(5) by (simp add: rs_def debug_handler_def MAX_GROUP_NUM_def)
  have c: "cached ?r" using r data_ind_apart data_not_empty by (simp add: cached_def DATA_IND_def)
  have "terminated (trace_str ?r)" using r by (simp add: terminated_def TRACE_STRING_SIZE_def)
  then have s: "slot_ok ?r t"
    using r c p pr demo_times(1)
    by (simp add: slot_ok_def demo_call_def TRACE_STRING_SIZE_def TRACE_EMPTY_DATA_def)
  have s0: "slots_ok w0"
    using w0 t0(3) c r \<open>terminated (trace_str ?r)\<close>
    by (simp add: slots_ok_def slot_ok_def cached_def) (simp add: debug_handler_def)
  note put = put_slot_ok [OF s0 _ s t(1,5)]
  let ?x = "(text_of t (call_entry (demo_call 1)), tc_now (demo_call 1))"
  have "in_groups (put_slot 0 ?r t w0) = {#?x#}" using put(2,4) w0(2) p by (simp add: in_groups_def)
  moreover have "all_rest (put_slot 0 ?r t w0) = {#([], zero_time), ?x#}"
    using put(2-4) w0(2) c r p by (simp add: all_rest_def slot_rest_def str_of_def TRACE_STRING_SIZE_def)
  moreover have "grp_trace_res (hnd (put_slot 0 ?r t w0)) = grp_trace_res (hnd w0)" by (simp add: put_slot_def rs_def)
  then have "new_slots (put_slot 0 ?r t w0)" using w0(5) by (simp add: new_slots_def)
  moreover have "debug_groups (shm (put_slot 0 ?r t w0)) ! 0 = (debug_groups (shm w0) ! 0)\<lparr>tracer := t\<rparr>"
    using group_at(3) [OF w0(1), of 0] w0(2) by (simp add: put_slot_def put_grp_def)
  moreover have "grp_logs_last (hnd (put_slot 0 ?r t w0)) = grp_logs_last debug_handler"
    using w0(6) by (simp add: put_slot_def)
  ultimately show ?thesis
    using put(1,2,4) w0(2,4) by (intro exI [of _ "put_slot 0 ?r t w0"] exI [of _ ?x])
      (auto simp: demo_call_def ns_of_def zero_time_def)
qed

theorem trace_merge_earliest_witness:
  "\<exists>w w' r. RTDBG_GetTraceEntry (\<lambda>i. \<lparr>tv_sec = 3, tv_nsec = 0\<rparr>) (replicate 1000 NUL) w = Inr (Some r, w') \<and>
     slots_ok w' \<and> size (all_rest w') = 1"
proof -
  obtain w x where w: "slots_ok w" "\<forall>u \<in># all_rest w. ns_of (snd u) \<le> 1000000000" "all_rest w = {#([], zero_time), x#}"
    using demo_slots by blast
  have l: "\<forall>i :: nat. later \<lparr>tv_sec = 3, tv_nsec = 0\<rparr> w"
    using w(2) demo_times(3) by (fastforce simp: later_def ns_of_def)
  have d: "TRACE_INFO_SIZE \<le> length (replicate 1000 NUL)" by (simp add: TRACE_STRING_SIZE_def)
  obtain w' r where r: "RTDBG_GetTraceEntry (\<lambda>i. \<lparr>tv_sec = 3, tv_nsec = 0\<rparr>) (replicate 1000 NUL) w = Inr (r, w')"
    "slots_ok w'" "case r of None \<Rightarrow> all_rest w = {#}
      | Some (b, t) \<Rightarrow> all_rest w = add_mset (str_of b, t) (all_rest w') \<and>
          (\<forall>u \<in># all_rest w. ns_of t \<le> ns_of (snd u))"
    using trace_merge_earliest [OF w(1) l d] by blast
  have "r \<noteq> None" using r(3) w(3) by (cases r) auto
  then obtain b t where "r = Some (b, t)" by (cases r) auto
  with r(3) w(3) have "size (all_rest w') = 1" by (auto dest: arg_cong [of _ _ size])
  with r(1,2) \<open>r = Some (b, t)\<close> show ?thesis by blast
qed

theorem trace_merge_sorted_witness:
  "\<exists>w x res s'. pop_all (trace_reader (\<lambda>n i. \<lparr>tv_sec = 3, tv_nsec = 0\<rparr>)) (\<lambda>x out. out @ [x]) []
       (0, replicate 1000 NUL, w) = Some (Inr (res, s')) \<and>
     in_groups w = {#x#} \<and> snd x = \<lparr>tv_sec = 1, tv_nsec = 0\<rparr> \<and> mset res = {#([], zero_time), x#} \<and>
     sorted (map (\<lambda>x. ns_of (snd x)) res)"
proof -
  obtain w x where w: "slots_ok w" "\<forall>u \<in># all_rest w. ns_of (snd u) \<le> 1000000000" "in_groups w = {#x#}"
    "snd x = \<lparr>tv_sec = 1, tv_nsec = 0\<rparr>" "new_slots w" "ngroups w = 1" using demo_slots by blast
  have l: "\<forall>n i :: nat. later \<lparr>tv_sec = 3, tv_nsec = 0\<rparr> w"
    using w(2) demo_times(3) by (fastforce simp: later_def ns_of_def)
  have d: "TRACE_INFO_SIZE \<le> length (replicate 1000 NUL)" by (simp add: TRACE_STRING_SIZE_def)
  obtain res s' where r: "pop_all (trace_reader (\<lambda>n i. \<lparr>tv_sec = 3, tv_nsec = 0\<rparr>)) (\<lambda>x out. out @ [x]) []
       (0, replicate 1000 NUL, w) = Some (Inr (res, s'))" "mset res = in_slots w + in_groups w"
    "sorted (map (\<lambda>x. ns_of (snd x)) res)" "new_slots w \<longrightarrow> in_slots w = replicate_mset (ngroups w) ([], zero_time)"
    using trace_merge_sorted [OF w(1) l d] by blast
  then have "mset res = {#([], zero_time), x#}" using w(3,5,6) by simp
  with r(1,3) w(3,4) show ?thesis by blast
qed

theorem trace_phantom_witness:
  "\<exists>w b w'. group_names (shm w) = [''GEN''] \<and> pending (tr w 0) = {#} \<and>
     RTDBG_GetTraceEntry (\<lambda>i. \<lparr>tv_sec = 3, tv_nsec = 0\<rparr>) (replicate 1000 NUL) w = Inr (Some (b, zero_time), w') \<and>
     str_of b = []"
proof -
  obtain w where w: "attached_ok w" "ngroups w = 1" "\<not> active (shm w)"
    "group_fresh ''GEN'' (debug_groups (shm w) ! 0)" "group_names (shm w) = [''GEN'']"
    "grp_trace_res (hnd w) = grp_trace_res debug_handler" using demo_world by blast
  have p: "0 < ngroups w" "\<forall>i < ngroups w. pending (tr w i) = {#}"
    using w(2,4) by (auto simp: group_fresh_def tr_def)
  have c: "\<forall>i :: nat. valid_time \<lparr>tv_sec = 3, tv_nsec = 0\<rparr> \<and> 0 < ns_of \<lparr>tv_sec = 3, tv_nsec = 0\<rparr>"
    using demo_times(3) by (simp add: ns_of_def)
  have d: "TRACE_INFO_SIZE \<le> length (replicate 1000 NUL)" by (simp add: TRACE_STRING_SIZE_def)
  from trace_phantom [OF w(1,3,6) p c d] p w(2,5) show ?thesis by auto
qed

end
