(* ===== verification/Log_Merge.thy ===== *)
theory Log_Merge
  imports Handler_Life "HOL-Library.Sublist"
begin

section \<open>Merging the logs of all groups\<close>

text \<open>
  \<open>RTDBG_GetLog\<close> keeps the next message of each group in \<open>grp_logs_last\<close> and returns the earliest
  of these. The specification is a merge of queues: at each step the head of one queue is taken
  whose time is not later than that of any other head.
\<close>

subsection \<open>The merge of queues\<close>

inductive merge_of :: "('a \<times> timespec) list list \<Rightarrow> ('a \<times> timespec) list \<Rightarrow> bool" where
  all_empty: "(\<forall>q \<in> set qs. q = []) \<Longrightarrow> merge_of qs []"
| take_head: "i < length qs \<Longrightarrow> qs ! i = x # q \<Longrightarrow>
    (\<forall>q' \<in> set qs. \<forall>y q''. q' = y # q'' \<longrightarrow> ns_of (snd x) \<le> ns_of (snd y)) \<Longrightarrow>
    merge_of (qs[i := q]) res \<Longrightarrow> merge_of qs (x # res)"

inductive_cases merge_of_NilE: "merge_of qs []"
inductive_cases merge_of_ConsE: "merge_of qs (x # res)"

abbreviation time_sorted :: "('a \<times> timespec) list \<Rightarrow> bool" where
  "time_sorted xs \<equiv> sorted (map (\<lambda>x. ns_of (snd x)) xs)"

lemma mset_concat_update:
  assumes "i < length qs" "qs ! i = x # q"
  shows "mset (concat qs) = add_mset x (mset (concat (qs[i := q])))"
proof -
  have "qs = take i qs @ (x # q) # drop (Suc i) qs" using id_take_nth_drop [OF assms(1)] assms(2) by simp
  then have "mset (concat qs) = mset (concat (take i qs)) + mset (x # q) + mset (concat (drop (Suc i) qs))"
    by (metis concat.simps(2) concat_append mset_append union_assoc)
  moreover have "qs[i := q] = take i qs @ q # drop (Suc i) qs" using assms(1) by (simp add: upd_conv_take_nth_drop)
  ultimately show ?thesis by simp
qed

lemma merge_of_mset: "merge_of qs res \<Longrightarrow> mset res = mset (concat qs)"
proof (induction rule: merge_of.induct)
  case (take_head i qs x q res)
  then show ?case using mset_concat_update [of i qs x q] by simp
qed (auto simp: concat_eq_Nil_conv)

lemma merge_of_order: "merge_of qs res \<Longrightarrow> j < length qs \<Longrightarrow> subseq (qs ! j) res"
proof (induction rule: merge_of.induct)
  case (take_head i qs x q res)
  then show ?case by (cases "j = i") (auto intro: subseq_Cons2 list_emb_Cons)
qed auto

lemma merge_of_sorted:
  "merge_of qs res \<Longrightarrow> (\<forall>q \<in> set qs. time_sorted q) \<Longrightarrow> time_sorted res"
proof (induction rule: merge_of.induct)
  case (take_head i qs x q res)
  have s: "time_sorted (x # q)" using take_head.hyps(1,2) take_head.prems by (metis nth_mem)
  have "\<forall>q' \<in> set (qs[i := q]). time_sorted q'"
    using take_head.prems s set_update_subset_insert [of qs i q] by auto
  then have sr: "time_sorted res" by (rule take_head.IH)
  have "ns_of (snd x) \<le> ns_of (snd y)" if "y \<in> set res" for y
  proof -
    have "y \<in> set (concat (qs[i := q]))"
      using that merge_of_mset [OF take_head.hyps(4)] by (metis set_mset_mset)
    then obtain q' where q': "q' \<in> set (qs[i := q])" "y \<in> set q'" by auto
    then consider "q' = q" | "q' \<in> set qs" using set_update_subset_insert [of qs i q] by auto
    then show ?thesis
    proof cases
      case 1
      then show ?thesis using s q'(2) by auto
    next
      case 2
      obtain z q'' where z: "q' = z # q''" using q'(2) by (cases q') auto
      then have "ns_of (snd x) \<le> ns_of (snd z)" using take_head.hyps(3) 2 by blast
      moreover have "ns_of (snd z) \<le> ns_of (snd y)" using take_head.prems 2 z q'(2) by auto
      ultimately show ?thesis by simp
    qed
  qed
  with sr show ?case by auto
qed simp

subsection \<open>One slot\<close>

definition log_rest :: "LogSort_Data \<Rightarrow> CLog_group \<Rightarrow> (string \<times> timespec) list" where
  "log_rest l g = (if valid l then [(str_of (log_str (log_info l)), le_time (log_info l))] else []) @
     map (\<lambda>m. (log_line (str_of (lg_group_name g)) m, fst m)) (messages g)"

definition log_slot_ok :: "LogSort_Data \<Rightarrow> CLog_group \<Rightarrow> bool" where
  "log_slot_ok l g \<longleftrightarrow> length (log_str (log_info l)) = LOG_STRING_SIZE \<and>
     (valid l \<longrightarrow> terminated (log_str (log_info l)) \<and> valid_time (le_time (log_info l))) \<and>
     (\<forall>m \<in> set (messages g). valid_time (fst m) \<and>
        length (log_line (str_of (lg_group_name g)) m) < LOG_STRING_SIZE)"

definition ls :: "world \<Rightarrow> nat \<Rightarrow> LogSort_Data" where
  "ls w i = grp_logs_last (hnd w) ! i"

definition lg :: "world \<Rightarrow> nat \<Rightarrow> CLog_group" where
  "lg w i = logger (debug_groups (shm w) ! i)"

definition logs_ok :: "world \<Rightarrow> bool" where
  "logs_ok w \<longleftrightarrow> attached_ok w \<and> length (grp_logs_last (hnd w)) = MAX_GROUP_NUM \<and>
     (\<forall>i < ngroups w. log_slot_ok (ls w i) (lg w i))"

definition log_rests :: "world \<Rightarrow> (string \<times> timespec) list list" where
  "log_rests w = map (\<lambda>i. log_rest (ls w i) (lg w i)) [0..<ngroups w]"

definition log_later :: "timespec \<Rightarrow> world \<Rightarrow> bool" where
  "log_later c w \<longleftrightarrow> valid_time c \<and> (\<forall>q \<in> set (log_rests w). \<forall>x \<in> set q. ns_of (snd x) < ns_of c)"

definition put_log :: "nat \<Rightarrow> LogSort_Data \<Rightarrow> CLog_group \<Rightarrow> world \<Rightarrow> world" where
  "put_log k l g w =
     w\<lparr>hnd := (hnd w)\<lparr>grp_logs_last := (grp_logs_last (hnd w))[k := l]\<rparr>,
       shm := put_grp (of_nat k) ((debug_groups (shm w) ! k)\<lparr>logger := g\<rparr>) (shm w)\<rparr>"

lemma put_log_ok:
  assumes ok: "logs_ok w" and k: "k < ngroups w" and lg: "log_slot_ok l g" "log_wf g"
  shows "logs_ok (put_log k l g w)" "ngroups (put_log k l g w) = ngroups w"
    "ls (put_log k l g w) i = (if i = k then l else ls w i)"
    "lg (put_log k l g w) i = (if i = k then g else lg w i)"
proof -
  have a: "attached_ok w" using ok by (simp add: logs_ok_def)
  note gr = group_at [OF a k]
  let ?w = "put_log k l g w" and ?g = "(debug_groups (shm w) ! k)\<lparr>logger := g\<rparr>"
  have "group_wf ?g" using gr(2) lg(2) by (simp add: group_wf_def)
  then have "rt_wf (put_grp (of_nat k) ?g (shm w))"
    using a gr(4,5) by (intro put_grp_wf(1)) (simp_all add: attached_ok_def)
  then have a': "attached_ok ?w" using a by (simp add: attached_ok_def put_log_def)
  show n: "ngroups ?w = ngroups w" by (simp add: ngroups_def put_log_def put_grp_def)
  have kl: "k < length (grp_logs_last (hnd w))" using ok k ngroups_le [OF a] by (simp add: logs_ok_def)
  show r: "ls ?w i = (if i = k then l else ls w i)" for i using kl by (simp add: ls_def put_log_def)
  show t: "lg ?w i = (if i = k then g else lg w i)" for i
    using gr(3,4) by (simp add: lg_def put_log_def put_grp_def)
  show "logs_ok ?w" using ok a' lg(1) n r t by (simp add: logs_ok_def) (simp add: put_log_def)
qed

subsection \<open>The loop over the groups\<close>

lemma log_refill:
  assumes ok: "log_slot_ok l g" and wf: "log_wf g" and inv: "\<not> valid l"
  shows "(messages g = [] \<and> GetLogEntry (log_str (log_info l)) g = Inr (None, g)) \<or>
    (\<exists>b t g'. GetLogEntry (log_str (log_info l)) g = Inr (Some (b, t), g') \<and> log_wf g' \<and>
       log_slot_ok \<lparr>log_info = \<lparr>le_time = t, log_str = b\<rparr>, valid = True\<rparr> g' \<and>
       log_rest \<lparr>log_info = \<lparr>le_time = t, log_str = b\<rparr>, valid = True\<rparr> g' = log_rest l g)"
proof (cases "messages g")
  case Nil
  then show ?thesis using GetLogEntry_eq(1) [OF wf] by blast
next
  case (Cons m ms)
  obtain t s where m: "m = (t, s)" by fastforce
  have "length (log_line (str_of (lg_group_name g)) (t, s)) < length (log_str (log_info l))"
    using ok Cons m by (simp add: log_slot_ok_def)
  from log_read [OF wf Cons [unfolded m] this] obtain b g' where b:
    "GetLogEntry (log_str (log_info l)) g = Inr (Some (b, t), g')"
    "str_of b = log_line (str_of (lg_group_name g)) (t, s)"
    "length b = length (log_str (log_info l))" "terminated b" "log_wf g'" "messages g' = ms"
    "lg_group_name g' = lg_group_name g" by blast
  with ok inv Cons m show ?thesis by (auto simp: log_slot_ok_def log_rest_def)
qed

definition lhead :: "world \<Rightarrow> nat \<Rightarrow> timespec option" where
  "lhead w i = (if valid (ls w i) then Some (le_time (log_info (ls w i))) else None)"

definition log_inv :: "timespec \<Rightarrow> world \<Rightarrow> nat \<Rightarrow> (timespec \<times> u32) \<times> world \<Rightarrow> bool" where
  "log_inv now w k acc \<longleftrightarrow>
     (case acc of (m, w') \<Rightarrow> logs_ok w' \<and> ngroups w' = ngroups w \<and> log_rests w' = log_rests w \<and>
        (\<forall>i < k. \<not> valid (ls w' i) \<longrightarrow> messages (lg w' i) = []) \<and>
        m = map_prod id index32 (earliest 0 (map (lhead w') [0..<k]) (now, None)))"

lemma mask_all: "i < 64 \<Longrightarrow> (- 1 :: u64) AND push_bit i 1 \<noteq> 0"
  by (simp add: push_bit_eq_mult)

lemma log_step_keep:
  assumes w1: "logs_ok w1" and k: "k < ngroups w1"
    and skip: "valid (ls w1 k) \<or> messages (lg w1 k) = []"
  shows "log_merge_step (- 1) k ((et, index32 er), w1) =
    Inr (map_prod id index32 (earliest k [lhead w1 k] (et, er)), w1)"
proof -
  have a: "attached_ok w1" using w1 by (simp add: logs_ok_def)
  note g = group_at [OF a k]
  have l: "arr_get (grp_logs_last (hnd w1)) k = Inr (ls w1 k)"
    using w1 k ngroups_le [OF a] by (simp add: logs_ok_def ls_def)
  have m: "(- 1 :: u64) AND push_bit k 1 \<noteq> 0"
    using k ngroups_le [OF a] by (intro mask_all) (simp add: MAX_GROUP_NUM_def)
  have p: "w1\<lparr>shm := put_grp (of_nat k) ((debug_groups (shm w1) ! k)\<lparr>logger := lg w1 k\<rparr>) (shm w1)\<rparr> = w1"
    using g(3,4) by (simp add: put_grp_def lg_def)
  show ?thesis
  proof (cases "valid (ls w1 k)")
    case True
    then show ?thesis using l by (simp add: log_merge_step_def lhead_def index32_def Let_def)
  next
    case False
    have "log_wf (lg w1 k)" using g(2) by (simp add: group_wf_def lg_def)
    from GetLogEntry_eq(1) [OF this] False skip
    have "GetLogEntry (log_str (log_info (ls w1 k))) (lg w1 k) = Inr (None, lg w1 k)" by blast
    with False l m g(1) p attached_deref [OF a] show ?thesis
      by (simp add: log_merge_step_def lhead_def lg_def Let_def)
  qed
qed

lemma log_step_fill:
  assumes w1: "logs_ok w1" and k: "k < ngroups w1" and nv: "\<not> valid (ls w1 k)"
    and get: "GetLogEntry (log_str (log_info (ls w1 k))) (lg w1 k) = Inr (Some (b, t), g')"
    and l': "l' = \<lparr>log_info = \<lparr>le_time = t, log_str = b\<rparr>, valid = True\<rparr>"
  shows "log_merge_step (- 1) k ((et, index32 er), w1) =
    Inr (map_prod id index32 (earliest k [Some t] (et, er)), put_log k l' g' w1)"
proof -
  have a: "attached_ok w1" using w1 by (simp add: logs_ok_def)
  note g = group_at [OF a k]
  have l: "arr_get (grp_logs_last (hnd w1)) k = Inr (ls w1 k)"
    using w1 k ngroups_le [OF a] by (simp add: logs_ok_def ls_def)
  have m: "(- 1 :: u64) AND push_bit k 1 \<noteq> 0"
    using k ngroups_le [OF a] by (intro mask_all) (simp add: MAX_GROUP_NUM_def)
  show ?thesis
    using nv l m g(1) get attached_deref [OF a]
    by (simp add: log_merge_step_def lg_def put_log_def index32_def Let_def l')
qed

lemma log_step:
  assumes inv: "log_inv now w k acc" and k: "k < ngroups w"
  shows "\<exists>acc'. log_merge_step (- 1) k acc = Inr acc' \<and> log_inv now w (Suc k) acc'"
proof -
  obtain m w1 where acc: "acc = (m, w1)" by fastforce
  obtain et er where e: "earliest 0 (map (lhead w1) [0..<k]) (now, None) = (et, er)" by fastforce
  have ok: "logs_ok w1" and n: "ngroups w1 = ngroups w" and rest: "log_rests w1 = log_rests w"
    and filled: "\<forall>i < k. \<not> valid (ls w1 i) \<longrightarrow> messages (lg w1 i) = []" and m: "m = (et, index32 er)"
    using inv e by (auto simp: log_inv_def acc)
  have a: "attached_ok w1" using ok by (simp add: logs_ok_def)
  have k1: "k < ngroups w1" using k n by simp
  have wf: "log_wf (lg w1 k)" using group_at(2) [OF a k1] by (simp add: group_wf_def lg_def)
  have sok: "log_slot_ok (ls w1 k) (lg w1 k)" using ok k1 by (simp add: logs_ok_def)
  have snoc: "map (lhead w') [0..<Suc k] = map (lhead w') [0..<k] @ [lhead w' k]" for w' by simp
  show ?thesis
  proof (cases "valid (ls w1 k) \<or> messages (lg w1 k) = []")
    case True
    have "\<forall>i < Suc k. \<not> valid (ls w1 i) \<longrightarrow> messages (lg w1 i) = []"
      using True filled by (auto simp: less_Suc_eq)
    then have "log_inv now w (Suc k) (map_prod id index32 (earliest k [lhead w1 k] (et, er)), w1)"
      using ok n rest by (simp add: log_inv_def snoc earliest_snoc e del: upt_Suc)
    with log_step_keep [OF ok k1 True] show ?thesis by (auto simp: acc m)
  next
    case False
    with log_refill [OF sok wf] obtain b t g' where f:
      "GetLogEntry (log_str (log_info (ls w1 k))) (lg w1 k) = Inr (Some (b, t), g')" "log_wf g'"
      "log_slot_ok \<lparr>log_info = \<lparr>le_time = t, log_str = b\<rparr>, valid = True\<rparr> g'"
      "log_rest \<lparr>log_info = \<lparr>le_time = t, log_str = b\<rparr>, valid = True\<rparr> g' = log_rest (ls w1 k) (lg w1 k)"
      by blast
    let ?l = "\<lparr>log_info = \<lparr>le_time = t, log_str = b\<rparr>, valid = True\<rparr>"
    let ?w = "put_log k ?l g' w1"
    note put = put_log_ok [OF ok k1 f(3,2)]
    have "log_rests ?w = log_rests w1" using f(4) put(2-4) by (simp add: log_rests_def)
    moreover have "\<forall>i < Suc k. \<not> valid (ls ?w i) \<longrightarrow> messages (lg ?w i) = []"
      using filled put(3,4) by (simp add: less_Suc_eq)
    moreover have "map (lhead ?w) [0..<Suc k] = map (lhead w1) [0..<k] @ [Some t]"
      using put(3) by (simp add: lhead_def)
    ultimately have "log_inv now w (Suc k) (map_prod id index32 (earliest k [Some t] (et, er)), ?w)"
      using put(1,2) n rest by (simp add: log_inv_def earliest_snoc e del: upt_Suc)
    with log_step_fill [OF ok k1 _ f(1) refl] False show ?thesis by (auto simp: acc m)
  qed
qed

subsection \<open>One call\<close>

lemma log_loop:
  assumes "logs_ok w"
  shows "\<exists>w' et er. foldE (log_merge_step (- 1)) [0..<ngroups w] ((now, - 1), w) = Inr ((et, index32 er), w') \<and>
    earliest 0 (map (lhead w') [0..<ngroups w]) (now, None) = (et, er) \<and>
    logs_ok w' \<and> ngroups w' = ngroups w \<and> log_rests w' = log_rests w \<and>
    (\<forall>i < ngroups w. \<not> valid (ls w' i) \<longrightarrow> messages (lg w' i) = [])"
proof -
  have "log_inv now w 0 ((now, - 1), w)" using assms by (simp add: log_inv_def index32_def)
  moreover have "\<exists>acc'. log_merge_step (- 1) k acc = Inr acc' \<and> log_inv now w (Suc k) acc'"
    if "k < ngroups w" "log_inv now w k acc" for k acc using log_step [OF that(2,1)] .
  ultimately obtain m w' where
    "foldE (log_merge_step (- 1)) [0..<ngroups w] ((now, - 1), w) = Inr (m, w')"
    "log_inv now w (ngroups w) (m, w')"
    using foldE_upt [where P = "log_inv now w" and n = "ngroups w" and f = "log_merge_step (- 1)"]
    by (metis prod.exhaust)
  then show ?thesis
    by (cases "earliest 0 (map (lhead w') [0..<ngroups w]) (now, None)") (auto simp: log_inv_def)
qed

lemma logs_at:
  assumes "logs_ok w" "i < ngroups w"
  shows "log_rests w ! i = log_rest (ls w i) (lg w i)" "i < length (log_rests w)"
    "lhead w i = Some u \<Longrightarrow> valid_time u"
    "lhead w i = Some u \<Longrightarrow> log_rests w ! i = (str_of (log_str (log_info (ls w i))), u) # tl (log_rests w ! i)"
  using assms by (auto simp: log_rests_def logs_ok_def log_slot_ok_def lhead_def log_rest_def split: if_splits)

lemma log_rest_head:
  assumes "logs_ok w" "\<forall>i < ngroups w. \<not> valid (ls w i) \<longrightarrow> messages (lg w i) = []"
    "q' \<in> set (log_rests w)" "q' = y # q''"
  shows "\<exists>i < ngroups w. lhead w i = Some (snd y)"
  using assms by (fastforce simp: log_rests_def log_rest_def lhead_def split: if_splits)

lemma log_clear_slot:
  assumes ok: "logs_ok w" and k: "k < ngroups w" and v: "valid (ls w k)"
    and w': "w' = w\<lparr>hnd := (hnd w)\<lparr>grp_logs_last := (grp_logs_last (hnd w))[k := (ls w k)\<lparr>valid := False\<rparr>]\<rparr>\<rparr>"
  shows "logs_ok w'" "log_rests w' = (log_rests w)[k := tl (log_rests w ! k)]"
proof -
  have a: "attached_ok w" using ok by (simp add: logs_ok_def)
  have kl: "k < length (grp_logs_last (hnd w))" using ok k ngroups_le [OF a] by (simp add: logs_ok_def)
  have n: "ngroups w' = ngroups w" "\<And>i. lg w' i = lg w i" by (simp_all add: ngroups_def lg_def w')
  have s: "ls w' i = (if i = k then (ls w k)\<lparr>valid := False\<rparr> else ls w i)" for i
    using kl by (simp add: ls_def w')
  have "attached_ok w'" using a by (simp add: attached_ok_def w')
  then show "logs_ok w'"
    using ok n s k by (simp add: logs_ok_def log_slot_ok_def) (simp add: w')
  show "log_rests w' = (log_rests w)[k := tl (log_rests w ! k)]"
    using k v n s by (intro nth_equalityI) (auto simp: log_rests_def log_rest_def nth_list_update)
qed

lemma log_deliver:
  assumes ok: "logs_ok w" and k: "k < ngroups w" "lhead w k = Some u" and dst: "LOG_STRING_SIZE \<le> length dst"
  shows "\<exists>b w'. bindE (arr_get (grp_logs_last (hnd w)) k) (\<lambda>l.
      bindE (c_str (log_str (log_info l))) (\<lambda>s. bindE (strcpy dst s) (\<lambda>b.
        Inr (Some (b, le_time (log_info l)), w\<lparr>hnd := (hnd w)\<lparr>grp_logs_last :=
          (grp_logs_last (hnd w))[k := l\<lparr>valid := False\<rparr>]\<rparr>\<rparr>)))) = Inr (Some (b, u), w') \<and>
    length b = length dst \<and> logs_ok w' \<and> log_rests w' = (log_rests w)[k := tl (log_rests w ! k)] \<and>
    log_rests w ! k = (str_of b, u) # tl (log_rests w ! k)"
proof -
  have a: "attached_ok w" using ok by (simp add: logs_ok_def)
  have v: "valid (ls w k)" "le_time (log_info (ls w k)) = u" using k(2) by (auto simp: lhead_def split: if_splits)
  have l: "arr_get (grp_logs_last (hnd w)) k = Inr (ls w k)"
    using ok k(1) ngroups_le [OF a] by (simp add: logs_ok_def ls_def)
  have t: "terminated (log_str (log_info (ls w k)))" "length (log_str (log_info (ls w k))) = LOG_STRING_SIZE"
    using ok k(1) v(1) by (auto simp: logs_ok_def log_slot_ok_def)
  let ?s = "str_of (log_str (log_info (ls w k)))"
  have "length ?s < length dst" using length_str_of [OF t(1)] t(2) dst by simp
  with strcpy_ok [of ?s dst] t(1) obtain b where b: "strcpy dst ?s = Inr b" "length b = length dst" "str_of b = ?s"
    by auto
  let ?w = "w\<lparr>hnd := (hnd w)\<lparr>grp_logs_last := (grp_logs_last (hnd w))[k := (ls w k)\<lparr>valid := False\<rparr>]\<rparr>\<rparr>"
  note clr = log_clear_slot [OF ok k(1) v(1) refl]
  show ?thesis using l t(1) b v(2) clr logs_at(4) [OF ok k] by (intro exI [of _ b] exI [of _ ?w]) simp
qed

lemma log_call_ok:
  assumes ok: "logs_ok w" and now: "log_later now w" and dst: "LOG_STRING_SIZE \<le> length dst"
  shows "\<exists>w'. logs_ok w' \<and>
    ((RTDBG_GetLog now dst False (- 1) w = Inr (None, w') \<and> (\<forall>q \<in> set (log_rests w). q = []) \<and>
        log_rests w' = log_rests w) \<or>
     (\<exists>b t i q. RTDBG_GetLog now dst False (- 1) w = Inr (Some (b, t), w') \<and> length b = length dst \<and>
        i < length (log_rests w) \<and> log_rests w ! i = (str_of b, t) # q \<and>
        (\<forall>q' \<in> set (log_rests w). \<forall>y q''. q' = y # q'' \<longrightarrow> ns_of t \<le> ns_of (snd y)) \<and>
        log_rests w' = (log_rests w)[i := q]))"
proof -
  obtain w' et er where w': "foldE (log_merge_step (- 1)) [0..<ngroups w] ((now, - 1), w) = Inr ((et, index32 er), w')"
    "earliest 0 (map (lhead w') [0..<ngroups w]) (now, None) = (et, er)" "logs_ok w'" "ngroups w' = ngroups w"
    "log_rests w' = log_rests w" "\<forall>i < ngroups w. \<not> valid (ls w' i) \<longrightarrow> messages (lg w' i) = []"
    using log_loop [OF ok] by blast
  let ?hs = "map (lhead w') [0..<ngroups w]"
  have a: "attached_ok w" "attached_ok w'" using ok w'(3) by (auto simp: logs_ok_def)
  have hv: "valid_time u" if "Some u \<in> set ?hs" for u using that logs_at(3) [OF w'(3)] w'(4) by fastforce
  have vn: "valid_time now" using now by (simp add: log_later_def)
  note call = RTDBG_GetLog_def [of now dst False "- 1" w]
  have hd_in: "\<exists>i < ngroups w. lhead w' i = Some (snd y)" if "q' \<in> set (log_rests w)" "q' = y # q''" for q' y q''
    using log_rest_head [OF w'(3)] w'(4-6) that by simp
  show ?thesis
  proof (cases er)
    case None
    have "\<forall>u. Some u \<in> set ?hs \<longrightarrow> ns_of now \<le> ns_of u"
      using w'(2) None by (intro earliest_None [where xs = ?hs, OF hv vn]) auto
    then have far: "ns_of now \<le> ns_of u" if "i < ngroups w" "lhead w' i = Some u" for i u
      using that by force
    have "q = []" if q: "q \<in> set (log_rests w)" for q
    proof (cases q)
      case (Cons y q'')
      then have "ns_of now \<le> ns_of (snd y)" using hd_in q far by blast
      moreover have "ns_of (snd y) < ns_of now" using now q Cons by (auto simp: log_later_def)
      ultimately show ?thesis by simp
    qed
    with None w' attached_deref [OF a(1)] a(1) show ?thesis
      by (auto simp: call index32_def GetNumGrps_def attached_ok_def ngroups_def)
  next
    case (Some k)
    have least: "least_at ?hs k et" using earliest_Some [where xs = ?hs, OF hv vn] w'(2) Some by blast
    then have k: "k < ngroups w'" "lhead w' k = Some et" using w'(4) by (auto simp: least_at_def)
    have k10: "k < MAX_GROUP_NUM" using k(1) ngroups_le [OF a(2)] by simp
    have ix: "index32 er \<noteq> - 1" "unat (index32 er) = k"
      using index32_None_iff [of er] Some k10 unat_of_nat_u32 [of k] by (simp_all add: MAX_GROUP_NUM_def index32_def)
    have "\<forall>q' \<in> set (log_rests w). \<forall>y q''. q' = y # q'' \<longrightarrow> ns_of et \<le> ns_of (snd y)"
      using hd_in least by (fastforce simp: least_at_def)
    with log_deliver [OF w'(3) k dst] ix w' attached_deref [OF a(1)] a(1) logs_at(2) [OF w'(3) k(1)]
    show ?thesis by (fastforce simp: call GetNumGrps_def attached_ok_def ngroups_def)
  qed
qed

subsection \<open>Reading all logs\<close>

text \<open>The loop \<open>while(RTDBG_GetLog(buf, &lin_time, -1)) ...\<close> of \<open>RTDBG_ExtractDebugData\<close> is
  \<open>pop_all\<close> over this reader; \<open>clk n\<close> is the clock reading of the \<open>n\<close>th call.\<close>

definition log_reader ::
  "(nat \<Rightarrow> timespec) \<Rightarrow> nat \<times> cbuf \<times> world \<Rightarrow>
   fault + ((string \<times> timespec) option \<times> (nat \<times> cbuf \<times> world))" where
  "log_reader clk = (\<lambda>(n, buf, w).
     bindE (RTDBG_GetLog (clk n) buf False (- 1) w) (\<lambda>(r, w).
       case r of
         None \<Rightarrow> Inr (None, (n, buf, w))
       | Some (b, t) \<Rightarrow> Inr (Some (str_of b, t), (Suc n, b, w))))"

lemma log_later_update:
  assumes "log_later c w" "i < length (log_rests w)" "log_rests w ! i = x # q" "log_rests w' = (log_rests w)[i := q]"
  shows "log_later c w'"
proof -
  have "ns_of (snd z) < ns_of c" if q': "q' \<in> set (log_rests w')" "z \<in> set q'" for q' z
  proof -
    from q'(1) assms(4) set_update_subset_insert [of "log_rests w" i q]
    consider "q' = q" | "q' \<in> set (log_rests w)" by auto
    then show ?thesis
    proof cases
      case 1
      then have "z \<in> set (log_rests w ! i)" using q'(2) assms(3) by simp
      then show ?thesis using assms(1,2) by (auto simp: log_later_def)
    qed (use assms(1) q'(2) in \<open>auto simp: log_later_def\<close>)
  qed
  then show ?thesis using assms(1) by (simp add: log_later_def)
qed

lemma log_reader_all:
  assumes "logs_ok w" "\<And>n. log_later (clk n) w" "LOG_STRING_SIZE \<le> length buf"
  shows "\<exists>res n' buf' w'. pop_all (log_reader clk) f acc (n, buf, w) = Some (Inr (fold f res acc, (n', buf', w'))) \<and>
    merge_of (log_rests w) res \<and> logs_ok w' \<and> (\<forall>q \<in> set (log_rests w'). q = []) \<and> length buf' = length buf"
  using assms
proof (induction "length (concat (log_rests w))" arbitrary: w n buf acc rule: less_induct)
  case less
  consider (stop) w' where "logs_ok w'" "RTDBG_GetLog (clk n) buf False (- 1) w = Inr (None, w')"
      "\<forall>q \<in> set (log_rests w). q = []" "log_rests w' = log_rests w"
    | (more) w1 b t i q where "logs_ok w1" "RTDBG_GetLog (clk n) buf False (- 1) w = Inr (Some (b, t), w1)"
      "length b = length buf" "i < length (log_rests w)" "log_rests w ! i = (str_of b, t) # q"
      "\<forall>q' \<in> set (log_rests w). \<forall>y q''. q' = y # q'' \<longrightarrow> ns_of t \<le> ns_of (snd y)"
      "log_rests w1 = (log_rests w)[i := q]"
    using log_call_ok [OF less.prems(1) less.prems(2) [of n] less.prems(3)] by blast
  then show ?case
  proof cases
    case stop
    then have "pop_all (log_reader clk) f acc (n, buf, w) = Some (Inr (acc, (n, buf, w')))"
      by (simp add: pop_all.simps [of _ f acc] log_reader_def)
    with stop show ?thesis by (intro exI [of _ "[]"]) (auto intro: merge_of.all_empty)
  next
    case more
    have "mset (concat (log_rests w)) = add_mset (str_of b, t) (mset (concat (log_rests w1)))"
      using mset_concat_update [OF more(4,5)] more(7) by simp
    then have "length (concat (log_rests w1)) < length (concat (log_rests w))"
      by (metis lessI size_add_mset size_mset)
    from less.hyps [OF this more(1)] log_later_update [OF less.prems(2) more(4,5,7)] less.prems(3) more(3)
    obtain res n' buf' w' where IH:
      "pop_all (log_reader clk) f (f (str_of b, t) acc) (Suc n, b, w1) =
         Some (Inr (fold f res (f (str_of b, t) acc), (n', buf', w')))"
      "merge_of (log_rests w1) res" "logs_ok w'" "\<forall>q \<in> set (log_rests w'). q = []" "length buf' = length b"
      by metis
    have "pop_all (log_reader clk) f acc (n, buf, w) =
        Some (Inr (fold f ((str_of b, t) # res) acc, (n', buf', w')))"
      using more(2) IH(1) by (simp add: pop_all.simps [of _ f acc] log_reader_def)
    moreover have "merge_of (log_rests w) ((str_of b, t) # res)"
      using more(4-7) IH(2) by (intro merge_of.take_head) auto
    ultimately show ?thesis using IH(3-5) more(3) by metis
  qed
qed

lemma fold_snoc [simp]: "fold (\<lambda>x out. out @ [x]) res acc = acc @ res"
  by (induction res arbitrary: acc) auto

subsection \<open>Properties\<close>

text \<open>C17: reading all logs. When every message is older than the clock and fits its slot, the loop
  that reads logs of all groups until there is none ends, and what it returns is a merge of the
  queues of the groups: at each step the head of a queue that is not later than any other head.
  So each message comes exactly once, the messages of a group keep their order, and the
  result is sorted by time when each group is.\<close>

theorem log_merge_all:
  assumes "logs_ok w" "\<forall>n. log_later (clk n) w" "LOG_STRING_SIZE \<le> length buf"
  shows "\<exists>res s'. pop_all (log_reader clk) (\<lambda>x out. out @ [x]) [] (0, buf, w) = Some (Inr (res, s')) \<and>
    merge_of (log_rests w) res \<and> mset res = mset (concat (log_rests w)) \<and>
    (\<forall>q \<in> set (log_rests w). subseq q res) \<and>
    ((\<forall>q \<in> set (log_rests w). time_sorted q) \<longrightarrow> time_sorted res) \<and>
    (\<forall>q \<in> set (log_rests (snd (snd s'))). q = [])"
proof -
  obtain res n' buf' w' where r:
    "pop_all (log_reader clk) (\<lambda>x out. out @ [x]) [] (0, buf, w) = Some (Inr (res, (n', buf', w')))"
    "merge_of (log_rests w) res" "\<forall>q \<in> set (log_rests w'). q = []"
    using log_reader_all [of w clk buf "\<lambda>x out. out @ [x]" "[]" 0] assms by auto
  moreover have "\<forall>q \<in> set (log_rests w). subseq q res"
    using merge_of_order [OF r(2)] by (metis in_set_conv_nth)
  ultimately show ?thesis
    using merge_of_mset [OF r(2)] merge_of_sorted [OF r(2)]
    by (intro exI [of _ res] exI [of _ "(n', buf', w')"]) simp
qed

text \<open>A read for no registered group, with slots that were never filled.\<close>

lemma unfilled_read:
  assumes w: "attached_ok w" "0 < ngroups w" "grp_logs_last (hnd w) = grp_logs_last debug_handler"
    and now: "valid_time now" "0 < ns_of now" and dst: "0 < length dst"
    and msk: "\<forall>i < ngroups w. msk AND push_bit i 1 = 0"
  shows "\<exists>b. RTDBG_GetLog now dst False msk w = Inr (Some (b, zero_time), w) \<and> str_of b = []"
proof -
  let ?l = "\<lparr>log_info = \<lparr>le_time = zero_time, log_str = replicate LOG_STRING_SIZE NUL\<rparr>, valid = False\<rparr>"
  have sl: "arr_get (grp_logs_last (hnd w)) i = Inr ?l" if "i < ngroups w" for i
    using that ngroups_le [OF w(1)] w(3) by (simp add: debug_handler_def)
  have cmp: "0 < DiffBetweenTimespec now zero_time" "\<not> 0 < DiffBetweenTimespec zero_time zero_time"
    using now by (simp_all add: Diff_valid)
  let ?P = "\<lambda>k acc. acc = (if k = (0 :: nat) then ((now, - 1 :: u32), w) else ((zero_time, 0), w))"
  have "\<exists>acc. foldE (log_merge_step msk) [0..<ngroups w] ((now, - 1), w) = Inr acc \<and> ?P (ngroups w) acc"
  proof (rule foldE_upt)
    show "\<exists>acc'. log_merge_step msk k acc = Inr acc' \<and> ?P (Suc k) acc'" if "k < ngroups w" "?P k acc" for k acc
      using that sl [OF that(1)] cmp msk by (auto simp: log_merge_step_def Let_def split: if_splits)
  qed simp
  then have l: "foldE (log_merge_step msk) [0..<ngroups w] ((now, - 1), w) = Inr ((zero_time, 0), w)"
    using w(2) by simp
  have t: "terminated (replicate LOG_STRING_SIZE NUL)" "str_of (replicate LOG_STRING_SIZE NUL) = []"
    by (auto simp: terminated_def str_of_def LOG_STRING_SIZE_def TRACE_STRING_SIZE_def)
  obtain b where "strcpy dst [] = Inr b" "str_of b = []" using strcpy_ok [of "[]" dst] dst by (auto simp: c_string_def)
  moreover have "(grp_logs_last (hnd w))[0 := ?l] = grp_logs_last (hnd w)"
    using w(3) by (simp add: debug_handler_def list_update_same_conv MAX_GROUP_NUM_def)
  then have "w\<lparr>hnd := (hnd w)\<lparr>grp_logs_last := (grp_logs_last (hnd w))[0 := ?l]\<rparr>\<rparr> = w" by simp
  ultimately show ?thesis
    using l t sl [OF w(2)] attached_deref [OF w(1)] w(1)
    by (simp add: RTDBG_GetLog_def GetNumGrps_def attached_ok_def ngroups_def)
qed

text \<open>C39: a mask that excludes a group does not keep its slot out of the comparison. On a handler
  whose slots were never filled, a read for none of the registered groups (mask 0, or the bit of a
  group that does not exist) returns success with an empty text and time zero instead of no log, and
  changes nothing, so that a loop that reads until there is no log never ends.\<close>

theorem log_mask_phantom:
  assumes "attached_ok w" "0 < ngroups w" "grp_logs_last (hnd w) = grp_logs_last debug_handler"
    and "valid_time now" "0 < ns_of now" "0 < length dst" "\<forall>i < ngroups w. msk AND push_bit i 1 = 0"
  shows "\<exists>b. RTDBG_GetLog now dst False msk w = Inr (Some (b, zero_time), w) \<and> str_of b = []"
  using unfilled_read [OF assms] .

subsection \<open>The properties at work\<close>

text \<open>Two groups, read by a new handler: \<open>GEN\<close> has logged at 1 s and 2 s, \<open>A\<close> has logged nothing.\<close>

lemma demo_logs_world:
  "\<exists>w. logs_ok w \<and> ngroups w = 2 \<and> log_later \<lparr>tv_sec = 3, tv_nsec = 0\<rparr> w \<and>
     log_rests w = [map (\<lambda>m. (log_line ''GEN'' m, fst m)) demo_logs, []]"
proof -
  obtain w0 where w0: "attached_ok w0" "rt_debugp (hnd w0) = 4096" "ngroups w0 = 1"
    "group_names (shm w0) = [''GEN'']" "group_fresh ''GEN'' (debug_groups (shm w0) ! 0)"
    "grp_logs_last (hnd w0) = grp_logs_last debug_handler" using demo_world by blast
  have "fits TRACE_STRING_SIZE ''A''" by (simp add: fits_def c_string_def TRACE_STRING_SIZE_def)
  with AllocRTDebugGroup_new [where lay = demo_lay and nm = "''A''", OF w0(1)] demo_lay_ok w0(2-4)
  obtain d g where d: "attached_ok (w0\<lparr>shm := d\<rparr>)" "group_fresh ''A'' g" "ngroups (w0\<lparr>shm := d\<rparr>) = 2"
    "debug_groups d = (debug_groups (shm w0))[1 := g]" by (auto simp: MAX_GROUP_NUM_def)
  let ?w = "w0\<lparr>shm := d\<rparr>"
  have len: "1 < length (debug_groups (shm w0))" using group_at(3) [OF d(1), of 1] d(3,4) by simp
  have s: "ls ?w i = \<lparr>log_info = \<lparr>le_time = zero_time, log_str = replicate LOG_STRING_SIZE NUL\<rparr>, valid = False\<rparr>"
    if "i < 2" for i using that w0(6) by (simp add: ls_def debug_handler_def MAX_GROUP_NUM_def)
  have l: "lg ?w 0 = logger (debug_groups (shm w0) ! 0)" "lg ?w 1 = logger g" using d(4) len by (simp_all add: lg_def)
  then have e: "messages (lg ?w i) = []" if "i < 2" for i
    using that d(2) w0(5) by (cases "i = 0") (auto simp: group_fresh_def less_Suc_eq numeral_2_eq_2)
  have ok: "logs_ok ?w"
    using d(1,3) s e w0(6) by (simp add: logs_ok_def log_slot_ok_def) (simp add: debug_handler_def)
  have wf: "log_wf (lg ?w 0)" using group_at(2) [OF d(1), of 0] d(3) by (simp add: group_wf_def lg_def)
  from add_logs_ok [OF wf demo_logs_ok] e [of 0] obtain g1 where g1: "log_wf g1" "messages g1 = demo_logs"
    "lg_group_name g1 = lg_group_name (lg ?w 0)" by (auto simp: demo_logs_def LOG_GROUP_BUFSIZE_def)
  have nm: "str_of (lg_group_name g1) = ''GEN''" using g1(3) w0(5) l(1) by (simp add: group_fresh_def)
  have lines: "map (log_line (str_of (lg_group_name g1))) (messages g1) =
      [''1000000005, GEN,  start'', ''2000000000, GEN,  stop'']" using g1(2) nm demo_log_lines by simp
  have "length (log_line (str_of (lg_group_name g1)) m) < LOG_STRING_SIZE" if "m \<in> set (messages g1)" for m
  proof -
    have "log_line (str_of (lg_group_name g1)) m \<in> set (map (log_line (str_of (lg_group_name g1))) (messages g1))"
      using that by simp
    then show ?thesis unfolding lines by (auto simp: LOG_STRING_SIZE_def TRACE_STRING_SIZE_def)
  qed
  moreover have "valid_time (fst m)" if "m \<in> set (messages g1)" for m
    using that g1(2) by (auto simp: demo_logs_def valid_time_def ns_of_def)
  ultimately have "log_slot_ok (ls ?w 0) g1" using s [of 0] by (simp add: log_slot_ok_def)
  note put = put_log_ok [OF ok _ this g1(1), of 0]
  have "log_rests (put_log 0 (ls ?w 0) g1 ?w) = [map (\<lambda>m. (log_line ''GEN'' m, fst m)) demo_logs, []]"
    using put(2-4) d(3) s [of 0] s [of 1] e [of 1] nm g1(2)
    by (simp add: log_rests_def log_rest_def upt_rec numeral_2_eq_2)
  then show ?thesis
    using put(1,2) d(3) by (intro exI [of _ "put_log 0 (ls ?w 0) g1 ?w"])
      (simp add: log_later_def valid_time_def ns_of_def demo_logs_def)
qed

theorem log_merge_all_witness:
  "\<exists>w res s'. pop_all (log_reader (\<lambda>n. \<lparr>tv_sec = 3, tv_nsec = 0\<rparr>)) (\<lambda>x out. out @ [x]) [] (0, replicate 1000 NUL, w) =
       Some (Inr (res, s')) \<and> length res = 2 \<and> (''1000000005, GEN,  start'', \<lparr>tv_sec = 1, tv_nsec = 5\<rparr>) \<in> set res"
proof -
  obtain w where w: "logs_ok w" "log_later \<lparr>tv_sec = 3, tv_nsec = 0\<rparr> w"
    "log_rests w = [map (\<lambda>m. (log_line ''GEN'' m, fst m)) demo_logs, []]" using demo_logs_world by blast
  have "\<forall>n :: nat. log_later \<lparr>tv_sec = 3, tv_nsec = 0\<rparr> w" "LOG_STRING_SIZE \<le> length (replicate 1000 NUL)"
    using w(2) by (simp_all add: LOG_STRING_SIZE_def TRACE_STRING_SIZE_def)
  from log_merge_all [OF w(1) this] obtain res s' where r:
    "pop_all (log_reader (\<lambda>n. \<lparr>tv_sec = 3, tv_nsec = 0\<rparr>)) (\<lambda>x out. out @ [x]) [] (0, replicate 1000 NUL, w) = Some (Inr (res, s'))"
    "mset res = mset (map (\<lambda>m. (log_line ''GEN'' m, fst m)) demo_logs)" using w(3) by auto
  have "length res = 2" using arg_cong [OF r(2), of size] by (simp add: demo_logs_def)
  moreover have "(log_line ''GEN'' (hd demo_logs), \<lparr>tv_sec = 1, tv_nsec = 5\<rparr>) \<in> set res"
    using arg_cong [OF r(2), of set_mset] by (simp add: demo_logs_def)
  moreover have "log_line ''GEN'' (hd demo_logs) = ''1000000005, GEN,  start''"
    using demo_log_lines by (simp add: demo_logs_def)
  ultimately show ?thesis using r(1) by (intro exI [of _ w] exI [of _ res] exI [of _ s']) simp
qed

theorem log_mask_phantom_witness:
  "\<exists>w b. ngroups w = 1 \<and> str_of b = [] \<and>
     RTDBG_GetLog \<lparr>tv_sec = 3, tv_nsec = 0\<rparr> (replicate 1000 NUL) False 0 w = Inr (Some (b, zero_time), w)"
proof -
  obtain w where w: "attached_ok w" "ngroups w = 1" "grp_logs_last (hnd w) = grp_logs_last debug_handler"
    using demo_world by blast
  have "0 < ngroups w" "valid_time \<lparr>tv_sec = 3, tv_nsec = 0\<rparr>" "0 < ns_of \<lparr>tv_sec = 3, tv_nsec = 0\<rparr>"
    "0 < length (replicate 1000 NUL)" "\<forall>i < ngroups w. (0 :: u64) AND push_bit i 1 = 0"
    using w(2) by (simp_all add: valid_time_def ns_of_def)
  from log_mask_phantom [OF w(1) this(1) w(3) this(2-5)] w(2) show ?thesis by blast
qed

end
