(* ===== verification/Extract_Data.thy ===== *)
theory Extract_Data
  imports Trace_Merge Log_Merge
begin

section \<open>The report: \<open>RTDBG_ExtractDebugData\<close>\<close>

text \<open>
  The text file with everything collected (\<open>rt_debug_main.h\<close>): the event counters and the profilers
  group by group, then the traces and the logs of all groups merged by time. The file is the
  string of what is printed to it, in order; \<open>file_ok\<close> says whether \<open>fopen\<close> succeeds. The loops over
  traces and logs are \<open>pop_all\<close> over the readers of \<open>Trace_Merge\<close> and \<open>Log_Merge\<close>.
\<close>

definition nl :: string where "nl = [CHR 0x0A]"

definition counters_heading :: string where
  "counters_heading = ''Event Counters'' @ nl @ ''**************'' @ nl"

definition profilers_heading :: string where
  "profilers_heading = ''*************'' @ nl @ nl @ nl @ ''Profilers'' @ nl @ ''*************'' @ nl"

definition traces_heading :: string where
  "traces_heading = ''**************'' @ nl @ nl @ nl @ ''Traces'' @ nl @ ''**************'' @ nl"

definition logs_heading :: string where
  "logs_heading = ''********'' @ nl @ nl @ nl @ ''Logs'' @ nl @ ''********'' @ nl"

text \<open>Group number \<open>i\<close> and its name, copied into the local \<open>char grp_name[100]\<close>.\<close>

definition named_group :: "nat \<Rightarrow> world \<Rightarrow> fault + (CGroupDebugRT \<times> string)" where
  "named_group i w =
     bindE (deref w) (\<lambda>d.
     bindE (GetDebugGrp (of_nat i) d) (\<lambda>g.
     bindE (GetGrpName (replicate 100 NUL) g) (\<lambda>b.
     bindE (c_str b) (\<lambda>grp_name. Inr (g, grp_name)))))"

definition print_counter :: "string \<Rightarrow> RT_counter \<Rightarrow> fault + string" where
  "print_counter grp_name c =
     bindE (c_str (cnt_name c)) (\<lambda>s.
       c_format (''%s, %s, %ld'' @ nl) [AStr grp_name, AStr s, AInt (cnt_val c)])"

definition extract_counters :: "world \<Rightarrow> nat \<Rightarrow> string \<Rightarrow> fault + string" where
  "extract_counters w i out =
     bindE (named_group i w) (\<lambda>(g, grp_name).
       let grp_cntrs = event_counters g in
       foldE (\<lambda>j out.
         bindE (Get_counter (of_nat j) grp_cntrs) (\<lambda>k.
         bindE (arr_get (rt_counters grp_cntrs) k) (\<lambda>c.
         bindE (print_counter grp_name c) (\<lambda>s. Inr (out @ s)))))
       [0..<unat (Get_cnt_num grp_cntrs)] out)"

definition print_profiler :: "string \<Rightarrow> string \<Rightarrow> ProfileData \<Rightarrow> fault + string" where
  "print_profiler grp_name prof_name d =
     c_format (''%s, %s, avg=, %ld, max=, %ld, last=, %ld, max time=, %ld, measurements=, %ld'' @ nl)
       [AStr grp_name, AStr prof_name, AInt (average_cnt d), AInt (max_cnt d), AInt (last_cnt d),
        AInt (max_cnt_time d), AInt (meas_num d)]"

definition extract_profiler ::
  "string \<Rightarrow> nat \<Rightarrow> string \<times> CProfilerGroup \<Rightarrow> (fault + (string \<times> CProfilerGroup)) option" where
  "extract_profiler grp_name j = (\<lambda>(out, p).
     bindD (prof_GetProfInfo (of_nat j) (replicate 1000 NUL) p) (\<lambda>(r, p).
       case r of
         None \<Rightarrow> Some (Inr (out, p))
       | Some (prof_tmp, b) \<Rightarrow>
           bindD (Some (c_str b)) (\<lambda>prof_name.
           bindD (Some (print_profiler grp_name prof_name prof_tmp)) (\<lambda>s. Some (Inr (out @ s, p))))))"

definition extract_profilers :: "nat \<Rightarrow> string \<times> world \<Rightarrow> (fault + (string \<times> world)) option" where
  "extract_profilers i = (\<lambda>(out, w).
     bindD (Some (named_group i w)) (\<lambda>(g, grp_name).
     bindD (foldD (extract_profiler grp_name) [0..<unat (GetGrpProfNum (profiler g))] (out, profiler g))
       (\<lambda>(out, p). Some (Inr (out, w\<lparr>shm := put_grp (of_nat i) (g\<lparr>profiler := p\<rparr>) (shm w)\<rparr>)))))"

text \<open>\<open>fprintf(fptr, "%s\n", buf)\<close>\<close>

definition print_line :: "string \<times> timespec \<Rightarrow> string \<Rightarrow> string" where
  "print_line x out = out @ fst x @ nl"

definition RTDBG_ExtractDebugData ::
  "bool \<Rightarrow> (nat \<Rightarrow> nat \<Rightarrow> timespec) \<Rightarrow> (nat \<Rightarrow> timespec) \<Rightarrow> world \<Rightarrow>
   (fault + (string option \<times> world)) option" where
  "RTDBG_ExtractDebugData file_ok trace_clk log_clk w =
     (if \<not> mem_attached (hnd w) then Some (Inr (None, w))
      else
        bindD (Some (deref w)) (\<lambda>d. let num_grp = unat (GetNumGrps d) in
        bindD (Some (ASSERT file_ok (ASSERT (status (hnd w) \<noteq> RTDBG_RUNNING_PRODUCER)
                (ASSERT (rt_debugp (hnd w) \<noteq> 0)
                  (foldE (extract_counters w) [0..<num_grp] counters_heading))))) (\<lambda>out.
        bindD (foldD extract_profilers [0..<num_grp] (out @ profilers_heading, w)) (\<lambda>(out, w).
        bindD (pop_all (trace_reader trace_clk) print_line (out @ traces_heading) (0, replicate 1000 NUL, w))
          (\<lambda>(out, (_, buf, w)).
        bindD (pop_all (log_reader log_clk) print_line (out @ logs_heading) (0, buf, w))
          (\<lambda>(out, (_, _, w)). Some (Inr (Some out, w))))))))"

subsection \<open>The lines of the report\<close>

definition counter_text :: "string \<Rightarrow> RT_counter \<Rightarrow> string" where
  "counter_text grp_name c = grp_name @ '', '' @ str_of (cnt_name c) @ '', '' @ dec_int (sint (cnt_val c)) @ nl"

definition profiler_text :: "string \<Rightarrow> string \<Rightarrow> ProfileData \<Rightarrow> string" where
  "profiler_text grp_name prof_name d =
     grp_name @ '', '' @ prof_name @ '', avg=, '' @ dec_int (sint (average_cnt d)) @
     '', max=, '' @ dec_int (sint (max_cnt d)) @ '', last=, '' @ dec_int (sint (last_cnt d)) @
     '', max time=, '' @ dec_int (sint (max_cnt_time d)) @
     '', measurements=, '' @ dec_int (sint (meas_num d)) @ nl"

lemma print_counter_ok:
  "terminated (cnt_name c) \<Longrightarrow> print_counter gn c = Inr (counter_text gn c)"
  by (simp add: print_counter_def counter_text_def conv_int_def nl_def)

lemma print_profiler_ok: "print_profiler gn pn d = Inr (profiler_text gn pn d)"
  by (simp add: print_profiler_def profiler_text_def conv_int_def nl_def)

lemma fold_print_line [simp]: "fold print_line res out = out @ concat (map (\<lambda>x. fst x @ nl) res)"
  by (induction res arbitrary: out) (auto simp: print_line_def)

subsection \<open>Counters\<close>

lemma group_name_at:
  assumes "attached_ok w" "i < ngroups w"
  shows "terminated (gd_group_name (debug_groups (shm w) ! i))"
    "length (gd_group_name (debug_groups (shm w) ! i)) = TRACE_STRING_SIZE"
    "group_names (shm w) ! i = str_of (gd_group_name (debug_groups (shm w) ! i))"
proof -
  have na: "name_array gd_group_name TRACE_STRING_SIZE MAX_GROUP_NUM (ngroups w) (debug_groups (shm w))"
    using assms(1) by (simp add: attached_ok_def rt_wf_def ngroups_def)
  have l: "i < length (debug_groups (shm w))" using group_at(3) [OF assms] .
  then have "debug_groups (shm w) ! i \<in> set (take (ngroups w) (debug_groups (shm w)))"
    using assms(2) by (auto simp: in_set_conv_nth intro!: exI [of _ i])
  then show "terminated (gd_group_name (debug_groups (shm w) ! i))"
    "length (gd_group_name (debug_groups (shm w) ! i)) = TRACE_STRING_SIZE"
    using na l by (auto simp: name_array_def)
  show "group_names (shm w) ! i = str_of (gd_group_name (debug_groups (shm w) ! i))"
    using l assms(2) by (simp add: group_names_def array_names_def ngroups_def)
qed

lemma named_group_eq:
  assumes "attached_ok w" "i < ngroups w"
  shows "named_group i w =
    (if length (group_names (shm w) ! i) < 100 then Inr (debug_groups (shm w) ! i, group_names (shm w) ! i)
     else Inl MemFault)"
proof -
  note n = group_name_at [OF assms]
  let ?nm = "group_names (shm w) ! i" and ?g = "debug_groups (shm w) ! i"
  have gn: "GetGrpName dst ?g = strcpy dst ?nm" for dst using n(1,3) by (simp add: GetGrpName_def)
  have start: "named_group i w = bindE (strcpy (replicate 100 NUL) ?nm) (\<lambda>b. bindE (c_str b) (\<lambda>s. Inr (?g, s)))"
    using attached_deref [OF assms(1)] group_at(1) [OF assms] by (simp add: named_group_def gn)
  show ?thesis
  proof (cases "length ?nm < 100")
    case True
    have "c_string ?nm" using n(3) by simp
    with True strcpy_ok [of ?nm "replicate 100 NUL"] obtain b where
      "strcpy (replicate 100 NUL) ?nm = Inr b" "terminated b" "str_of b = ?nm" by auto
    with True start show ?thesis by simp
  next
    case False
    then show ?thesis unfolding start by (simp add: strcpy_overflow)
  qed
qed

definition group_counters_text :: "string \<Rightarrow> CRT_counter_grp \<Rightarrow> string" where
  "group_counters_text gn c =
     concat (map (counter_text gn) (take (unat (num_alloc_counters c)) (rt_counters c)))"

definition counters_text :: "world \<Rightarrow> string" where
  "counters_text w = concat (map (\<lambda>i. group_counters_text (group_names (shm w) ! i)
     (event_counters (debug_groups (shm w) ! i))) [0..<ngroups w])"

text \<open>All group names fit the local buffer of the report.\<close>

definition short_names :: "world \<Rightarrow> bool" where
  "short_names w \<longleftrightarrow> (\<forall>i < ngroups w. length (group_names (shm w) ! i) < 100)"

lemma extract_counters_ok:
  assumes w: "attached_ok w" "length (group_names (shm w) ! i) < 100" and i: "i < ngroups w"
  shows "extract_counters w i out = Inr (out @
    group_counters_text (group_names (shm w) ! i) (event_counters (debug_groups (shm w) ! i)))"
proof -
  let ?gn = "group_names (shm w) ! i" and ?c = "event_counters (debug_groups (shm w) ! i)"
  let ?n = "unat (num_alloc_counters ?c)"
  have c: "counters_wf ?c" using group_at(2) [OF w(1) i] by (simp add: group_wf_def)
  then have n: "?n < length (rt_counters ?c)" "length (rt_counters ?c) = 20"
    by (auto simp: counters_wf_def name_array_def NUM_COUNTERS_def)
  let ?P = "\<lambda>k out'. out' = out @ concat (map (counter_text ?gn) (take k (rt_counters ?c)))"
  have "\<exists>out'. foldE (\<lambda>j out. bindE (Get_counter (of_nat j) ?c) (\<lambda>k. bindE (arr_get (rt_counters ?c) k)
      (\<lambda>c. bindE (print_counter ?gn c) (\<lambda>s. Inr (out @ s))))) [0..<?n] out = Inr out' \<and> ?P ?n out'"
  proof (rule foldE_upt [where P = ?P])
    fix k out' assume k: "k < ?n" and P: "?P k out'"
    have u: "unat (of_nat k :: u32) = k" using k n by (intro unat_of_nat_u32) simp
    then have "(of_nat k :: u32) \<le> num_alloc_counters ?c" using k by (simp add: word_le_nat_alt)
    moreover have "rt_counters ?c ! k \<in> set (take ?n (rt_counters ?c))"
      using k n by (auto simp: in_set_conv_nth intro!: exI [of _ k])
    then have "terminated (cnt_name (rt_counters ?c ! k))"
      using c by (auto simp: counters_wf_def name_array_def)
    ultimately show "\<exists>out''. bindE (Get_counter (of_nat k) ?c) (\<lambda>k. bindE (arr_get (rt_counters ?c) k)
        (\<lambda>c. bindE (print_counter ?gn c) (\<lambda>s. Inr (out' @ s)))) = Inr out'' \<and> ?P (Suc k) out''"
      using k n u P by (simp add: Get_counter_def print_counter_ok take_Suc_conv_app_nth)
  qed simp
  moreover have "named_group i w = Inr (debug_groups (shm w) ! i, ?gn)"
    using named_group_eq [OF w(1) i] w(2) by simp
  ultimately show ?thesis
    by (simp add: extract_counters_def Get_cnt_num_def group_counters_text_def Let_def)
qed

lemma extract_all_counters:
  assumes w: "attached_ok w" "short_names w"
  shows "foldE (extract_counters w) [0..<ngroups w] out = Inr (out @ counters_text w)"
proof -
  let ?t = "\<lambda>i. group_counters_text (group_names (shm w) ! i) (event_counters (debug_groups (shm w) ! i))"
  have "foldE (extract_counters w) [0..<ngroups w] out = Inr (fold (\<lambda>i out. out @ ?t i) [0..<ngroups w] out)"
    using w by (intro foldE_fold) (simp add: extract_counters_ok short_names_def)
  moreover have "fold (\<lambda>i out. out @ ?t i) is out = out @ concat (map ?t is)" for "is"
    by (induction "is" arbitrary: out) auto
  ultimately show ?thesis by (simp add: counters_text_def)
qed

subsection \<open>Profilers\<close>

abbreviation prof_records :: "CProfilerGroup \<Rightarrow> nat \<Rightarrow> ProfileData list" where
  "prof_records p j \<equiv> filter live (fifo_contents (prof_fifos p ! j))"

definition prof_text :: "string \<Rightarrow> CProfilerGroup \<Rightarrow> nat \<Rightarrow> string" where
  "prof_text gn p j =
     (if prof_records p j = [] then []
      else profiler_text gn (profiler_names p ! j)
             (sent (snd (fold prof_aggregate (prof_records p j) (False, ProfileData_Reset)))))"

definition group_profilers_text :: "string \<Rightarrow> CProfilerGroup \<Rightarrow> string" where
  "group_profilers_text gn p = concat (map (prof_text gn p) [0..<unat (num_alloc_prof p)])"

definition profilers_text :: "world \<Rightarrow> string" where
  "profilers_text w = concat (map (\<lambda>i. group_profilers_text (group_names (shm w) ! i)
     (profiler (debug_groups (shm w) ! i))) [0..<ngroups w])"

text \<open>No sum of measurement counts wraps to zero (\<open>GetProfInfo\<close> divides by it).\<close>

definition countable_group :: "CProfilerGroup \<Rightarrow> bool" where
  "countable_group p \<longleftrightarrow> (\<forall>j < unat (num_alloc_prof p).
     prof_records p j = [] \<or> sum_list (map meas_num (prof_records p j)) \<noteq> 0)"

definition drained :: "CProfilerGroup \<Rightarrow> bool" where
  "drained p \<longleftrightarrow> (\<forall>j < unat (num_alloc_prof p). fifo_contents (prof_fifos p ! j) = [])"

definition prof_loop_inv :: "string \<Rightarrow> string \<Rightarrow> CProfilerGroup \<Rightarrow> nat \<Rightarrow> string \<times> CProfilerGroup \<Rightarrow> bool" where
  "prof_loop_inv gn out p0 k = (\<lambda>(out', p).
     profiler_wf p \<and> num_alloc_prof p = num_alloc_prof p0 \<and> profiler_names p = profiler_names p0 \<and>
     out' = out @ concat (map (prof_text gn p0) [0..<k]) \<and>
     (\<forall>j < unat (num_alloc_prof p0). fifo_contents (prof_fifos p ! j) =
        (if j < k then [] else fifo_contents (prof_fifos p0 ! j))))"

lemma extract_profiler_step:
  assumes inv: "prof_loop_inv gn out p0 k s" and k: "k < unat (num_alloc_prof p0)" and c: "countable_group p0"
  shows "\<exists>s'. extract_profiler gn k s = Some (Inr s') \<and> prof_loop_inv gn out p0 (Suc k) s'"
proof -
  obtain out' p where s: "s = (out', p)" by fastforce
  have wf: "profiler_wf p" and n: "num_alloc_prof p = num_alloc_prof p0" and nm: "profiler_names p = profiler_names p0"
    and out': "out' = out @ concat (map (prof_text gn p0) [0..<k])"
    and f: "\<forall>j < unat (num_alloc_prof p0). fifo_contents (prof_fifos p ! j) =
        (if j < k then [] else fifo_contents (prof_fifos p0 ! j))"
    using inv by (auto simp: prof_loop_inv_def s)
  have "unat (num_alloc_prof p0) \<le> PROF_GROUP_MAX" using wf n by (simp add: profiler_wf_def name_array_def)
  then have u: "unat (of_nat k :: u32) = k" using k by (intro unat_of_nat_u32) (simp add: PROF_GROUP_MAX_def)
  then have i: "of_nat k < num_alloc_prof p" using k n by (simp add: word_less_nat_alt)
  let ?ds = "prof_records p0 k"
  have ds: "?ds = filter live (fifo_contents (prof_fifos p ! unat (of_nat k :: u32)))" using f k u by simp
  have dst: "MDO_NAME_SIZE \<le> length (replicate 1000 NUL)" by (simp add: MDO_NAME_SIZE_def)
  from prof_GetProfInfo_eq [OF wf i dst ds] u nm obtain m' b where m':
    "fifo_contents m' = []" "area_ready sizeof_ProfileData m'" "area_frame m' = area_frame (prof_fifos p ! k)"
    "terminated b" "str_of b = profiler_names p0 ! k"
    "prof_GetProfInfo (of_nat k) (replicate 1000 NUL) p =
      (let g' = p\<lparr>prof_fifos := (prof_fifos p)[k := m']\<rparr>;
           c = snd (fold prof_aggregate ?ds (False, ProfileData_Reset)) in
       if ?ds = [] then Some (Inr (None, g'))
       else if sum_list (map meas_num ?ds) = 0 then Some (Inl DivByZero)
       else Some (Inr (Some (sent c, b), g')))" by auto
  let ?p = "p\<lparr>prof_fifos := (prof_fifos p)[k := m']\<rparr>"
  have "?ds = [] \<or> sum_list (map meas_num ?ds) \<noteq> 0" using c k by (simp add: countable_group_def)
  then have "extract_profiler gn k s = Some (Inr (out' @ prof_text gn p0 k, ?p))"
    using m'(4-6) by (auto simp: extract_profiler_def s prof_text_def print_profiler_ok Let_def)
  moreover have "prof_loop_inv gn out p0 (Suc k) (out' @ prof_text gn p0 k, ?p)"
    using profiler_wf_update [OF wf i m'(2)] m'(1,3) u n nm out' f profiler_get(2) [OF wf i] k
    by (simp add: prof_loop_inv_def nth_list_update less_Suc_eq)
  ultimately show ?thesis by blast
qed

lemma extract_profiler_loop:
  assumes "profiler_wf p" "countable_group p"
  shows "\<exists>p'. foldD (extract_profiler gn) [0..<unat (num_alloc_prof p)] (out, p) =
      Some (Inr (out @ group_profilers_text gn p, p')) \<and> profiler_wf p' \<and> drained p'"
proof -
  have "prof_loop_inv gn out p 0 (out, p)" using assms(1) by (simp add: prof_loop_inv_def)
  moreover have "\<exists>s'. extract_profiler gn k s = Some (Inr s') \<and> prof_loop_inv gn out p (Suc k) s'"
    if "k < unat (num_alloc_prof p)" "prof_loop_inv gn out p k s" for k s
    using extract_profiler_step [OF that(2,1) assms(2)] .
  ultimately obtain s' where "foldD (extract_profiler gn) [0..<unat (num_alloc_prof p)] (out, p) = Some (Inr s')"
    "prof_loop_inv gn out p (unat (num_alloc_prof p)) s'"
    using foldD_upt [where P = "prof_loop_inv gn out p" and n = "unat (num_alloc_prof p)"] by blast
  then show ?thesis
    by (cases s') (auto simp: prof_loop_inv_def group_profilers_text_def drained_def)
qed

text \<open>The world after the profilers of the first \<open>k\<close> groups were read.\<close>

definition report_inv :: "string \<Rightarrow> world \<Rightarrow> nat \<Rightarrow> string \<times> world \<Rightarrow> bool" where
  "report_inv out w k = (\<lambda>(out', w').
     attached_ok w' \<and> hnd w' = hnd w \<and> num_alloc_groups (shm w') = num_alloc_groups (shm w) \<and>
     active (shm w') = active (shm w) \<and>
     out' = out @ concat (map (\<lambda>i. group_profilers_text (group_names (shm w) ! i)
       (profiler (debug_groups (shm w) ! i))) [0..<k]) \<and>
     (\<forall>i < ngroups w. \<exists>p. debug_groups (shm w') ! i = (debug_groups (shm w) ! i)\<lparr>profiler := p\<rparr> \<and>
        (if i < k then drained p else p = profiler (debug_groups (shm w) ! i))))"

lemma report_same_names:
  assumes "report_inv out w k (out', w')" "attached_ok w" "i < ngroups w"
  shows "ngroups w' = ngroups w" "group_names (shm w') ! i = group_names (shm w) ! i"
proof -
  show n: "ngroups w' = ngroups w" using assms(1) by (simp add: report_inv_def ngroups_def)
  have "attached_ok w'" using assms(1) by (simp add: report_inv_def)
  from group_name_at(3) [OF this, of i] group_name_at(3) [OF assms(2,3)] assms(1,3) n
  show "group_names (shm w') ! i = group_names (shm w) ! i"
    by (auto simp: report_inv_def)
qed

lemma extract_profilers_step:
  assumes inv: "report_inv out w k s" and k: "k < ngroups w"
    and w: "attached_ok w" "short_names w" "countable_group (profiler (debug_groups (shm w) ! k))"
  shows "\<exists>s'. extract_profilers k s = Some (Inr s') \<and> report_inv out w (Suc k) s'"
proof -
  obtain out' w1 where s: "s = (out', w1)" by fastforce
  note inv' = inv [unfolded s]
  have a: "attached_ok w1" and hd: "hnd w1 = hnd w" "num_alloc_groups (shm w1) = num_alloc_groups (shm w)"
      "active (shm w1) = active (shm w)"
    and g: "debug_groups (shm w1) ! k = debug_groups (shm w) ! k"
    using inv' k by (auto simp: report_inv_def)
  note n = report_same_names [OF inv' w(1) k]
  let ?g = "debug_groups (shm w) ! k" and ?gn = "group_names (shm w) ! k"
  have k1: "k < ngroups w1" using k n by simp
  note at = group_at [OF a k1]
  have gwf: "group_wf ?g" using at(2) g by simp
  then have "profiler_wf (profiler ?g)" by (simp add: group_wf_def)
  from extract_profiler_loop [OF this w(3), of ?gn out'] obtain p' where p':
    "foldD (extract_profiler ?gn) [0..<unat (num_alloc_prof (profiler ?g))] (out', profiler ?g) =
      Some (Inr (out' @ group_profilers_text ?gn (profiler ?g), p'))" "profiler_wf p'" "drained p'" by blast
  let ?w = "w1\<lparr>shm := put_grp (of_nat k) (?g\<lparr>profiler := p'\<rparr>) (shm w1)\<rparr>"
  have "named_group k w1 = Inr (?g, ?gn)"
    using named_group_eq [OF a k1] w(2) k n g by (simp add: short_names_def)
  then have "extract_profilers k s = Some (Inr (out' @ group_profilers_text ?gn (profiler ?g), ?w))"
    using p'(1) by (simp add: extract_profilers_def s GetGrpProfNum_def)
  moreover have "group_wf (?g\<lparr>profiler := p'\<rparr>)" using gwf p'(2) by (simp add: group_wf_def)
  then have "rt_wf (put_grp (of_nat k) (?g\<lparr>profiler := p'\<rparr>) (shm w1))"
    using a at(4,5) g by (intro put_grp_wf(1)) (simp_all add: attached_ok_def)
  then have "attached_ok ?w" using a by (simp add: attached_ok_def)
  then have "report_inv out w (Suc k) (out' @ group_profilers_text ?gn (profiler ?g), ?w)"
    using inv' hd at(3,4) g p'(3) k
    by (auto simp: report_inv_def put_grp_def nth_list_update less_Suc_eq)
  ultimately show ?thesis by blast
qed

lemma extract_all_profilers:
  assumes w: "attached_ok w" "short_names w"
    and c: "\<forall>i < ngroups w. countable_group (profiler (debug_groups (shm w) ! i))"
  shows "\<exists>w'. foldD extract_profilers [0..<ngroups w] (out, w) = Some (Inr (out @ profilers_text w, w')) \<and>
    report_inv out w (ngroups w) (out @ profilers_text w, w')"
proof -
  have "\<exists>p. g = g\<lparr>profiler := p\<rparr> \<and> p = profiler g" for g :: CGroupDebugRT by (cases g) auto
  then have "report_inv out w 0 (out, w)" using w(1) by (simp add: report_inv_def)
  moreover have "\<exists>s'. extract_profilers k s = Some (Inr s') \<and> report_inv out w (Suc k) s'"
    if "k < ngroups w" "report_inv out w k s" for k s
    using extract_profilers_step [OF that(2,1) w] c that(1) by blast
  ultimately obtain s' where s': "foldD extract_profilers [0..<ngroups w] (out, w) = Some (Inr s')"
    "report_inv out w (ngroups w) s'"
    using foldD_upt [where P = "report_inv out w" and n = "ngroups w"] by blast
  then have "fst s' = out @ profilers_text w" by (auto simp: report_inv_def profilers_text_def)
  with s' show ?thesis by (metis prod.collapse)
qed

subsection \<open>What the readers leave alone\<close>

lemma GetDebugGrp_eq_Inr: "GetDebugGrp n d = Inr g \<longleftrightarrow>
    n < num_alloc_groups d \<and> unat n < length (debug_groups d) \<and> g = debug_groups d ! unat n"
  by (auto simp: GetDebugGrp_def ASSERT_def arr_get_def)

lemma deref_eq_Inr: "deref w = Inr d \<longleftrightarrow> rt_debugp (hnd w) \<noteq> 0 \<and> mapped w \<and> d = shm w"
  by (auto simp: deref_def)

text \<open>The reader of traces touches the trace slots and the tracers only.\<close>

definition but_traces where
  "but_traces w = (grp_logs_last (hnd w), status (hnd w), num_alloc_groups (shm w), active (shm w),
     map (\<lambda>g. (logger g, profiler g, event_counters g, gd_group_name g)) (debug_groups (shm w)))"

text \<open>The reader of logs touches the log slots and the loggers only.\<close>

definition but_logs where
  "but_logs w = (grp_trace_res (hnd w), status (hnd w), num_alloc_groups (shm w), active (shm w),
     map (\<lambda>g. (tracer g, profiler g, event_counters g, gd_group_name g)) (debug_groups (shm w)))"

lemma map_put_grp:
  "unat n < length (debug_groups d) \<Longrightarrow> f g = f (debug_groups d ! unat n) \<Longrightarrow>
   map f (debug_groups (put_grp n g d)) = map f (debug_groups d)"
  by (simp add: put_grp_def map_update list_update_same_conv)

lemma put_grp_frame [simp]:
  "num_alloc_groups (put_grp n g d) = num_alloc_groups d" "active (put_grp n g d) = active d"
  by (simp_all add: put_grp_def)

lemma trace_merge_step_frame:
  "trace_merge_step clk i acc = Inr acc' \<Longrightarrow> but_traces (snd acc') = but_traces (snd acc)"
  by (auto simp: trace_merge_step_def but_traces_def bindE_eq_Inr deref_eq_Inr GetDebugGrp_eq_Inr
      map_put_grp Let_def split: prod.splits if_splits)

lemma but_logs_updates [simp]:
  "but_logs (w\<lparr>hnd := (hnd w)\<lparr>grp_logs_last := x\<rparr>\<rparr>) = but_logs w"
  "GetDebugGrp n (shm w) = Inr g \<Longrightarrow> but_logs (w\<lparr>shm := put_grp n (g\<lparr>logger := l\<rparr>) (shm w)\<rparr>) = but_logs w"
  by (auto simp: but_logs_def GetDebugGrp_eq_Inr map_put_grp)

lemma log_merge_step_frame:
  assumes "log_merge_step msk i acc = Inr acc'"
  shows "but_logs (snd acc') = but_logs (snd acc)"
proof -
  obtain mt mi w where acc: "acc = ((mt, mi), w)" by (metis prod.exhaust)
  from assms obtain l where l: "arr_get (grp_logs_last (hnd w)) i = Inr l"
    by (auto simp: log_merge_step_def acc bindE_eq_Inr Let_def)
  show ?thesis
  proof (cases "msk AND push_bit i 1 \<noteq> 0 \<and> valid l = False")
    case False
    with assms l show ?thesis by (auto simp: log_merge_step_def acc Let_def split: if_splits)
  next
    case True
    with assms l obtain g res lg where g: "GetDebugGrp (of_nat i) (shm w) = Inr g"
      "GetLogEntry (log_str (log_info l)) (logger g) = Inr (res, lg)"
      by (auto simp: log_merge_step_def acc bindE_eq_Inr deref_eq_Inr Let_def)
    let ?w = "w\<lparr>shm := put_grp (of_nat i) (g\<lparr>logger := lg\<rparr>) (shm w)\<rparr>"
    from assms l True g consider "snd acc' = ?w"
      | b u where "snd acc' = ?w\<lparr>hnd := (hnd ?w)\<lparr>grp_logs_last := (grp_logs_last (hnd ?w))[i :=
          \<lparr>log_info = \<lparr>le_time = u, log_str = b\<rparr>, valid = True\<rparr>]\<rparr>\<rparr>"
      by (cases res) (auto simp: log_merge_step_def acc bindE_eq_Inr deref_eq_Inr Let_def split: if_splits)
    then show ?thesis using g(1) by cases (simp_all only: but_logs_updates acc snd_conv)
  qed
qed

lemma GetTraceEntry_frame:
  assumes "RTDBG_GetTraceEntry clk dst w = Inr (r, w')"
  shows "but_traces w' = but_traces w"
proof -
  have "but_traces (snd acc) = but_traces w"
    if "foldE (trace_merge_step clk) is ((m, k), w) = Inr acc" for "is" acc m k
    using foldE_inv [OF that, of "\<lambda>acc. but_traces (snd acc) = but_traces w"] trace_merge_step_frame by fastforce
  with assms show ?thesis
    by (fastforce simp: RTDBG_GetTraceEntry_def bindE_eq_Inr but_traces_def Let_def split: if_splits prod.splits)
qed

lemma GetLog_frame:
  assumes "RTDBG_GetLog now dst tm_null msk w = Inr (r, w')"
  shows "but_logs w' = but_logs w"
proof -
  have "but_logs (snd acc) = but_logs w"
    if "foldE (log_merge_step msk) is ((m, k), w) = Inr acc" for "is" acc m k
    using foldE_inv [OF that, of "\<lambda>acc. but_logs (snd acc) = but_logs w"] log_merge_step_frame by fastforce
  with assms show ?thesis
    by (fastforce simp: RTDBG_GetLog_def bindE_eq_Inr but_logs_def split: if_splits prod.splits)
qed

lemma trace_loop_frame:
  assumes "pop_all (trace_reader clk) f acc (n, buf, w) = Some (Inr (out, (n', buf', w')))"
  shows "but_traces w' = but_traces w"
  using pop_all_inv [OF assms, of "\<lambda>(_, _, w1). but_traces w1 = but_traces w"] GetTraceEntry_frame
  by (fastforce simp: trace_reader_def bindE_eq_Inr split: option.splits prod.splits)

lemma log_loop_frame:
  assumes "pop_all (log_reader clk) f acc (n, buf, w) = Some (Inr (out, (n', buf', w')))"
  shows "but_logs w' = but_logs w"
  using pop_all_inv [OF assms, of "\<lambda>(_, _, w1). but_logs w1 = but_logs w"] GetLog_frame
  by (fastforce simp: log_reader_def bindE_eq_Inr split: option.splits prod.splits)

subsection \<open>The whole report\<close>

lemma but_traces_at:
  assumes "but_traces w' = but_traces w" "attached_ok w" "i < ngroups w"
  shows "lg w' i = lg w i" "profiler (debug_groups (shm w') ! i) = profiler (debug_groups (shm w) ! i)"
proof -
  let ?f = "\<lambda>g. (logger g, profiler g, event_counters g, gd_group_name g)"
  have m: "map ?f (debug_groups (shm w')) = map ?f (debug_groups (shm w))" using assms(1) by (simp add: but_traces_def)
  have "i < length (debug_groups (shm w))" using group_at(3) [OF assms(2,3)] .
  moreover have "length (debug_groups (shm w')) = length (debug_groups (shm w))" using arg_cong [OF m, of length] by simp
  ultimately have "?f (debug_groups (shm w') ! i) = ?f (debug_groups (shm w) ! i)"
    using arg_cong [OF m, of "\<lambda>xs. xs ! i"] by simp
  then show "lg w' i = lg w i" "profiler (debug_groups (shm w') ! i) = profiler (debug_groups (shm w) ! i)"
    by (simp_all add: lg_def)
qed

lemma but_logs_at:
  assumes "but_logs w' = but_logs w" "attached_ok w" "i < ngroups w"
  shows "tr w' i = tr w i" "profiler (debug_groups (shm w') ! i) = profiler (debug_groups (shm w) ! i)"
proof -
  let ?f = "\<lambda>g. (tracer g, profiler g, event_counters g, gd_group_name g)"
  have m: "map ?f (debug_groups (shm w')) = map ?f (debug_groups (shm w))" using assms(1) by (simp add: but_logs_def)
  have "i < length (debug_groups (shm w))" using group_at(3) [OF assms(2,3)] .
  moreover have "length (debug_groups (shm w')) = length (debug_groups (shm w))" using arg_cong [OF m, of length] by simp
  ultimately have "?f (debug_groups (shm w') ! i) = ?f (debug_groups (shm w) ! i)"
    using arg_cong [OF m, of "\<lambda>xs. xs ! i"] by simp
  then show "tr w' i = tr w i" "profiler (debug_groups (shm w') ! i) = profiler (debug_groups (shm w) ! i)"
    by (simp_all add: tr_def)
qed

lemma logs_same:
  assumes "attached_ok w'" "grp_logs_last (hnd w') = grp_logs_last (hnd w)" "ngroups w' = ngroups w"
    "\<And>i. i < ngroups w \<Longrightarrow> lg w' i = lg w i"
  shows "log_rests w' = log_rests w" "logs_ok w \<Longrightarrow> logs_ok w'"
  using assms by (auto simp: log_rests_def logs_ok_def ls_def)

lemma slots_same:
  assumes "attached_ok w'" "grp_trace_res (hnd w') = grp_trace_res (hnd w)" "ngroups w' = ngroups w"
    "active (shm w') = active (shm w)" "\<And>i. i < ngroups w \<Longrightarrow> tr w' i = tr w i"
  shows "all_rest w' = all_rest w" "slots_ok w \<Longrightarrow> slots_ok w'"
  using assms by (auto simp: all_rest_def slots_ok_def rs_def)

lemma report_inv_same:
  assumes "report_inv out w (ngroups w) (out', w')" "i < ngroups w"
  shows "tr w' i = tr w i" "lg w' i = lg w i" "drained (profiler (debug_groups (shm w') ! i))"
  using assms by (fastforce simp: report_inv_def tr_def lg_def)+

abbreviation lines_text :: "(string \<times> timespec) list \<Rightarrow> string" where
  "lines_text xs \<equiv> concat (map (\<lambda>x. fst x @ nl) xs)"

text \<open>Reading the traces and then the logs leaves both empty and does not touch the profilers.\<close>

lemma read_traces_then_logs:
  assumes w: "slots_ok w" "logs_ok w" "\<And>n i. later (tclk n i) w" "\<And>n. log_later (lclk n) w"
  obtains ts ls st sl where "pop_all (trace_reader tclk) print_line out (0, replicate 1000 NUL, w) =
      Some (Inr (out @ lines_text ts, st))"
    "pop_all (log_reader lclk) print_line ((out @ lines_text ts) @ h) (0, fst (snd st), snd (snd st)) =
      Some (Inr (((out @ lines_text ts) @ h) @ lines_text ls, sl))"
    "time_sorted ts" "mset ts = all_rest w" "merge_of (log_rests w) ls"
    "all_rest (snd (snd sl)) = {#}" "\<forall>q \<in> set (log_rests (snd (snd sl))). q = []"
    "\<forall>i < ngroups w. profiler (debug_groups (shm (snd (snd sl))) ! i) = profiler (debug_groups (shm w) ! i)"
proof -
  have len: "TRACE_INFO_SIZE \<le> length (replicate 1000 NUL)" "LOG_STRING_SIZE \<le> length (replicate 1000 NUL)"
    by (simp_all add: TRACE_STRING_SIZE_def LOG_STRING_SIZE_def)
  from trace_reader_all [of w tclk _ print_line out 0, OF w(1,3) len(1)] obtain ts n1 b1 w1 where t:
    "pop_all (trace_reader tclk) print_line out (0, replicate 1000 NUL, w) =
       Some (Inr (out @ lines_text ts, (n1, b1, w1)))"
    "time_sorted ts" "mset ts = all_rest w" "slots_ok w1" "all_rest w1 = {#}" "length b1 = length (replicate 1000 NUL)"
    by auto
  have a: "attached_ok w" "attached_ok w1" using w(1) t(4) by (auto simp: slots_ok_def)
  have f1: "but_traces w1 = but_traces w" using trace_loop_frame [OF t(1)] .
  then have n1: "ngroups w1 = ngroups w" "grp_logs_last (hnd w1) = grp_logs_last (hnd w)"
    by (simp_all add: but_traces_def ngroups_def)
  have ls1: "log_rests w1 = log_rests w" "logs_ok w1"
    using logs_same [OF a(2) n1(2,1)] but_traces_at(1) [OF f1 a(1)] w(2) by auto
  have l1: "\<And>n. log_later (lclk n) w1" using w(4) ls1(1) by (simp add: log_later_def)
  have "LOG_STRING_SIZE \<le> length b1" using len(2) t(6) by simp
  from log_reader_all [of w1 lclk b1 print_line "(out @ lines_text ts) @ h" 0, OF ls1(2) l1 this]
  obtain ls n2 b2 w2 where l:
    "pop_all (log_reader lclk) print_line ((out @ lines_text ts) @ h) (0, b1, w1) =
      Some (Inr (((out @ lines_text ts) @ h) @ lines_text ls, (n2, b2, w2)))"
    "merge_of (log_rests w1) ls" "logs_ok w2" "\<forall>q \<in> set (log_rests w2). q = []" by auto
  have f2: "but_logs w2 = but_logs w1" using log_loop_frame [OF l(1)] .
  then have n2: "ngroups w2 = ngroups w1" "grp_trace_res (hnd w2) = grp_trace_res (hnd w1)" "active (shm w2) = active (shm w1)"
    by (simp_all add: but_logs_def ngroups_def)
  have "attached_ok w2" using l(3) by (simp add: logs_ok_def)
  then have "all_rest w2 = {#}" using slots_same(1) [OF _ n2(2,1,3)] but_logs_at(1) [OF f2 a(2)] t(5) by auto
  moreover have "profiler (debug_groups (shm w2) ! i) = profiler (debug_groups (shm w) ! i)" if "i < ngroups w" for i
    using but_logs_at(2) [OF f2 a(2), of i] but_traces_at(2) [OF f1 a(1) that] that n1(1) by simp
  ultimately show ?thesis
    using t(1-3) l(1,2,4) ls1(1) by (intro that [of ts "(n1, b1, w1)" ls "(n2, b2, w2)"]) simp_all
qed

lemma report_returns:
  assumes w: "slots_ok w" "logs_ok w" "short_names w" "status (hnd w) \<noteq> RTDBG_RUNNING_PRODUCER"
    and c: "\<forall>i < ngroups w. countable_group (profiler (debug_groups (shm w) ! i))"
    and clk: "\<forall>n i. later (tclk n i) w" "\<forall>n. log_later (lclk n) w"
  shows "\<exists>ts ls w'. RTDBG_ExtractDebugData True tclk lclk w = Some (Inr (Some
      (counters_heading @ counters_text w @ profilers_heading @ profilers_text w @
       traces_heading @ lines_text ts @ logs_heading @ lines_text ls), w')) \<and>
    time_sorted ts \<and> mset ts = in_slots w + in_groups w \<and> merge_of (log_rests w) ls \<and>
    in_slots w' = {#} \<and> in_groups w' = {#} \<and> (\<forall>q \<in> set (log_rests w'). q = []) \<and>
    (\<forall>i < ngroups w. drained (profiler (debug_groups (shm w') ! i))) \<and>
    (new_slots w \<longrightarrow> in_slots w = replicate_mset (ngroups w) ([], zero_time))"
proof -
  have a: "attached_ok w" using w(1) by (simp add: slots_ok_def)
  have att: "mem_attached (hnd w)" "rt_debugp (hnd w) \<noteq> 0" using a by (auto simp: attached_ok_def)
  let ?o1 = "(counters_heading @ counters_text w) @ profilers_heading"
  from extract_all_profilers [OF a w(3) c, of ?o1] obtain w1 where p:
    "foldD extract_profilers [0..<ngroups w] (?o1, w) = Some (Inr (?o1 @ profilers_text w, w1))"
    "report_inv ?o1 w (ngroups w) (?o1 @ profilers_text w, w1)" by blast
  have s1: "attached_ok w1" "ngroups w1 = ngroups w" "hnd w1 = hnd w" "active (shm w1) = active (shm w)"
    using p(2) by (auto simp: report_inv_def ngroups_def)
  have same: "all_rest w1 = all_rest w" "slots_ok w1" "log_rests w1 = log_rests w" "logs_ok w1"
    using slots_same [of w1 w] logs_same [of w1 w] report_inv_same(1,2) [OF p(2)] s1 w(1,2) by auto
  have k1: "later (tclk n i) w1" for n i using clk(1) same(1) by (simp add: later_def)
  have k2: "log_later (lclk n) w1" for n using clk(2) same(3) by (simp add: log_later_def)
  let ?o2 = "(?o1 @ profilers_text w) @ traces_heading"
  obtain ts ls st sl where r:
    "pop_all (trace_reader tclk) print_line ?o2 (0, replicate 1000 NUL, w1) =
       Some (Inr (?o2 @ lines_text ts, st))"
    "pop_all (log_reader lclk) print_line ((?o2 @ lines_text ts) @ logs_heading) (0, fst (snd st), snd (snd st)) =
       Some (Inr (((?o2 @ lines_text ts) @ logs_heading) @ lines_text ls, sl))"
    "time_sorted ts" "mset ts = all_rest w1" "merge_of (log_rests w1) ls"
    "all_rest (snd (snd sl)) = {#}" "\<forall>q \<in> set (log_rests (snd (snd sl))). q = []"
    "\<forall>i < ngroups w1. profiler (debug_groups (shm (snd (snd sl))) ! i) = profiler (debug_groups (shm w1) ! i)"
    by (rule read_traces_then_logs [where out = ?o2 and h = logs_heading, OF same(2,4) k1 k2])
  have num: "unat (GetNumGrps (shm w)) = ngroups w" by (simp add: GetNumGrps_def ngroups_def)
  have "RTDBG_ExtractDebugData True tclk lclk w =
      Some (Inr (Some (((?o2 @ lines_text ts) @ logs_heading) @ lines_text ls), snd (snd sl)))"
    using att w(4) attached_deref [OF a] extract_all_counters [OF a w(3)] p(1) r(1,2)
    by (simp add: RTDBG_ExtractDebugData_def num Let_def ASSERT_def split_beta del: append_assoc)
  moreover have "new_slots w \<longrightarrow> in_slots w = replicate_mset (ngroups w) ([], zero_time)"
    using new_in_slots ngroups_le [OF a] by blast
  moreover have "in_slots (snd (snd sl)) = {#}" "in_groups (snd (snd sl)) = {#}" using r(6) by (simp_all add: all_rest_split)
  ultimately show ?thesis
    using r(3-8) same(1,3) s1(2) report_inv_same(3) [OF p(2)]
    by (intro exI [of _ ts] exI [of _ ls] exI [of _ "snd (snd sl)"]) (simp add: all_rest_split)
qed

subsection \<open>Properties\<close>

text \<open>C16: the report. Let a handler be attached to a well-formed object that is not a running producer, with collection stopped. Let its trace
  slots be right (a slot marked empty is that of a group without traces, and a line that a slot holds is not later than
  the traces left in its group), and the file open. Let group names have less than 100 characters, every trace line at most
  255, every log line less than 112, and let stamps be valid and earlier than the clock readings of the readers; let no profiler's
  count of measurements wrap to zero. Then \<open>RTDBG_ExtractDebugData\<close> returns, and the file holds, under their headings: every
  event counter of every group with its value; for each profiler with records the aggregate of all its records; one line for
  each trace slot that holds a line and one for every trace that is in a group, once, all sorted by time; the lines of the logs (those
  held in slots and those in the groups) as a merge of the queues of the groups. Afterwards no slot holds anything and no
  trace, log or record is left in the groups. On a handler that has not read before, the trace slots add one empty line for each group.\<close>

theorem extract_report:
  assumes w: "slots_ok w" "logs_ok w" "short_names w" "status (hnd w) \<noteq> RTDBG_RUNNING_PRODUCER"
    and c: "\<forall>i < ngroups w. countable_group (profiler (debug_groups (shm w) ! i))"
    and clk: "\<forall>n i. later (tclk n i) w" "\<forall>n. log_later (lclk n) w"
  shows "\<exists>ts ls w'. RTDBG_ExtractDebugData True tclk lclk w = Some (Inr (Some
      (counters_heading @ counters_text w @ profilers_heading @ profilers_text w @
       traces_heading @ lines_text ts @ logs_heading @ lines_text ls), w')) \<and>
    time_sorted ts \<and> mset ts = in_slots w + in_groups w \<and> merge_of (log_rests w) ls \<and>
    in_slots w' = {#} \<and> in_groups w' = {#} \<and> (\<forall>q \<in> set (log_rests w'). q = []) \<and>
    (\<forall>i < ngroups w. drained (profiler (debug_groups (shm w') ! i))) \<and>
    (new_slots w \<longrightarrow> in_slots w = replicate_mset (ngroups w) ([], zero_time))"
  by (rule report_returns [OF assms])

text \<open>The operations that test \<open>mem_attached_\<close> before they touch the object, on a detached handler.\<close>

lemma detached_ops:
  assumes "\<not> mem_attached (hnd w)"
  shows "RTDBG_Init lay w = Inr w" "RTDBG_Start w = Inr w" "RTDBG_Stop w = Inr w" "IsDataCollectionActive w = Inr False"
    "RTDBG_AllocRTDebugGroup lay nm w = Inr (- 1, w)" "RTDBG_GetGrpName grp gb w = Inr None" "RTDBG_GetGrpNum w = Inr (- 1)"
    "RTDBG_GetCounter grp num w = Inr None" "RTDBG_AllocCounter grp nm w = Inr (None, w)" "RTDBG_GetCountersNum grp w = Inr (- 1)"
    "RTDBG_AddTraceEntry grp nm w = Inr (- 1, w)" "RTDBG_AddTrace now self junk grp tid line v0 v1 v2 v3 w = Inr w"
    "RTDBG_AddLog now grp str w = Some (Inr w)" "RTDBG_GetLog now dst tm_null msk w = Inr (None, w)"
    "RTDBG_AddProfiler lay grp nm w = Inr (- 1, w)" "RTDBG_AllocProfCntrNum grp w = Inr (- 1)"
    "RTDBG_GetProfInfo grp pid gb pb w = Some (Inr (None, w))"
    "RTDBG_ExtractDebugData file_ok tclk lclk w = Some (Inr (None, w))"
    "RTDBG_GetVersion w = None" "RTDBG_GetStatus w = RTDBG_STOPPED"
  using assms by (simp_all add: RTDBG_Init_def RTDBG_Start_def RTDBG_Stop_def IsDataCollectionActive_def
      RTDBG_AllocRTDebugGroup_def RTDBG_GetGrpName_def RTDBG_GetGrpNum_def RTDBG_GetCounter_def
      RTDBG_AllocCounter_def RTDBG_GetCountersNum_def RTDBG_AddTraceEntry_def RTDBG_AddTrace_def RTDBG_AddLog_def
      RTDBG_GetLog_def RTDBG_AddProfiler_def RTDBG_AllocProfCntrNum_def RTDBG_GetProfInfo_def RTDBG_ExtractDebugData_def
      RTDBG_GetVersion_def RTDBG_GetStatus_def)

text \<open>C27: a detached handler. The twenty operations that test \<open>mem_attached_\<close> before they touch the object leave everything as it
  is and return their neutral answer, whatever the arguments. The one other operation that tests it,
  \<open>RTDBG_GetTraceEntry\<close>, follows the pointer to the object first: it faults on a handler that was never attached or
  whose object is not mapped any more, instead of returning that there is no trace.\<close>

theorem detached_is_inert:
  assumes "\<not> mem_attached (hnd w)"
  shows "RTDBG_Init lay w = Inr w \<and> RTDBG_Start w = Inr w \<and> RTDBG_Stop w = Inr w \<and> IsDataCollectionActive w = Inr False \<and>
    RTDBG_AllocRTDebugGroup lay nm w = Inr (- 1, w) \<and> RTDBG_GetGrpName grp gb w = Inr None \<and> RTDBG_GetGrpNum w = Inr (- 1) \<and>
    RTDBG_GetCounter grp num w = Inr None \<and> RTDBG_AllocCounter grp nm w = Inr (None, w) \<and> RTDBG_GetCountersNum grp w = Inr (- 1) \<and>
    RTDBG_AddTraceEntry grp nm w = Inr (- 1, w) \<and> RTDBG_AddTrace now self junk grp tid line v0 v1 v2 v3 w = Inr w \<and>
    RTDBG_AddLog now grp str w = Some (Inr w) \<and> RTDBG_GetLog now dst tm_null msk w = Inr (None, w) \<and>
    RTDBG_AddProfiler lay grp nm w = Inr (- 1, w) \<and> RTDBG_AllocProfCntrNum grp w = Inr (- 1) \<and>
    RTDBG_GetProfInfo grp pid gb pb w = Some (Inr (None, w)) \<and>
    RTDBG_ExtractDebugData file_ok tclk lclk w = Some (Inr (None, w)) \<and>
    RTDBG_GetVersion w = None \<and> RTDBG_GetStatus w = RTDBG_STOPPED \<and>
    RTDBG_GetTraceEntry clk dst w =
      (if rt_debugp (hnd w) = 0 then Inl NullDeref else if \<not> mapped w then Inl MemFault else Inr (None, w))"
  using assms by (intro conjI detached_ops) (simp_all add: RTDBG_GetTraceEntry_def deref_def Let_def)

text \<open>C34: when the report cannot be made. A file that cannot be opened, and a handler that is the running
  producer, abort; and a group whose name has 100 or more characters (a group name may have up to 127)
  overflows the local buffer for it, before anything is extracted.\<close>

theorem extract_report_fails:
  assumes "attached_ok w"
  shows "(\<not> file_ok \<or> status (hnd w) = RTDBG_RUNNING_PRODUCER \<longrightarrow>
      RTDBG_ExtractDebugData file_ok tclk lclk w = Some (Inl AssertFail)) \<and>
    (file_ok \<and> status (hnd w) \<noteq> RTDBG_RUNNING_PRODUCER \<and> \<not> short_names w \<longrightarrow>
      RTDBG_ExtractDebugData file_ok tclk lclk w = Some (Inl MemFault))"
proof -
  have att: "mem_attached (hnd w)" "rt_debugp (hnd w) \<noteq> 0" using assms by (auto simp: attached_ok_def)
  have num: "unat (GetNumGrps (shm w)) = ngroups w" by (simp add: GetNumGrps_def ngroups_def)
  have long: "extract_counters w i out = Inl MemFault" if "i < ngroups w" "\<not> length (group_names (shm w) ! i) < 100" for i out
    using named_group_eq [OF assms that(1)] that(2) by (simp add: extract_counters_def)
  have "foldE (extract_counters w) [0..<ngroups w] counters_heading = Inl MemFault" if "\<not> short_names w"
  proof -
    from that obtain i where i: "i < ngroups w" "\<not> length (group_names (shm w) ! i) < 100"
      by (auto simp: short_names_def)
    show ?thesis
    proof (rule foldE_fails [of _ _ _ i])
      show "(\<exists>out'. extract_counters w k out = Inr out') \<or> extract_counters w k out = Inl MemFault"
        if "k \<in> set [0..<ngroups w]" for k out
        using that long extract_counters_ok [OF assms] by (cases "length (group_names (shm w) ! k) < 100") auto
    qed (use i long in auto)
  qed
  then show ?thesis using att attached_deref [OF assms] by (simp add: RTDBG_ExtractDebugData_def num ASSERT_def Let_def)
qed

subsection \<open>The properties at work\<close>

lemma wf_no_profilers: "profiler_wf p \<Longrightarrow> profiler_names p = [] \<Longrightarrow> unat (num_alloc_prof p) = 0"
  by (auto simp: profiler_wf_def name_array_def profiler_names_def array_names_def)

lemma wf_no_counters: "counters_wf c \<Longrightarrow> counter_names c = [] \<Longrightarrow> unat (num_alloc_counters c) = 0"
  by (auto simp: counters_wf_def name_array_def counter_names_def array_names_def)

text \<open>One group with one trace, read by a new consumer.\<close>

lemma demo_report_world:
  "\<exists>w x. slots_ok w \<and> logs_ok w \<and> short_names w \<and> status (hnd w) = RTDBG_STOPPED \<and>
     (\<forall>u \<in># all_rest w. ns_of (snd u) \<le> 1000000000) \<and> in_groups w = {#x#} \<and> snd x = \<lparr>tv_sec = 1, tv_nsec = 0\<rparr> \<and>
     new_slots w \<and> ngroups w = 1 \<and> log_rests w = [[]] \<and>
     counters_text w = [] \<and> profilers_text w = [] \<and> (\<forall>i < ngroups w. countable_group (profiler (debug_groups (shm w) ! i)))"
proof -
  obtain w0 x g where w0: "slots_ok w0" "\<forall>u \<in># all_rest w0. ns_of (snd u) \<le> 1000000000" "in_groups w0 = {#x#}"
    "ngroups w0 = 1" "grp_logs_last (hnd w0) = grp_logs_last debug_handler" "group_fresh ''GEN'' g"
    "debug_groups (shm w0) ! 0 = g\<lparr>tracer := tr w0 0\<rparr>" "snd x = \<lparr>tv_sec = 1, tv_nsec = 0\<rparr>" "new_slots w0"
    using demo_slots by blast
  let ?w = "w0\<lparr>hnd := (hnd w0)\<lparr>status := RTDBG_STOPPED\<rparr>\<rparr>"
  have a: "attached_ok ?w" using w0(1) by (simp add: slots_ok_def attached_ok_def)
  have n: "ngroups ?w = 1" "tr ?w = tr w0" "rs ?w = rs w0" using w0(4) by (auto simp: ngroups_def tr_def rs_def)
  have wf: "group_wf (debug_groups (shm ?w) ! 0)" using group_at(2) [OF a, of 0] n by simp
  then have z: "unat (num_alloc_prof (profiler g)) = 0" "unat (num_alloc_counters (event_counters g)) = 0"
    using w0(6,7) wf_no_profilers wf_no_counters by (auto simp: group_wf_def group_fresh_def)
  have l: "ls ?w 0 = \<lparr>log_info = \<lparr>le_time = zero_time, log_str = replicate LOG_STRING_SIZE NUL\<rparr>, valid = False\<rparr>"
    "lg ?w 0 = logger g" using w0(5,7) by (simp_all add: ls_def lg_def debug_handler_def MAX_GROUP_NUM_def)
  have m: "messages (logger g) = []" using w0(6) by (simp add: group_fresh_def)
  have "logs_ok ?w" using a n(1) l m w0(5)
    by (simp add: logs_ok_def log_slot_ok_def) (simp add: debug_handler_def)
  moreover have "slots_ok ?w" using w0(1) a n by (simp add: slots_ok_def) (simp add: w0(4))
  moreover have "all_rest ?w = all_rest w0" using n w0(4) by (simp add: all_rest_def)
  moreover have "in_groups ?w = in_groups w0" using n w0(4) by (simp add: in_groups_def)
  moreover have "new_slots ?w" using w0(9) by (simp add: new_slots_def)
  moreover have "log_rests ?w = [[]]" using n(1) l m by (simp add: log_rests_def log_rest_def)
  moreover have "short_names ?w"
    using group_name_at(3) [OF a, of 0] n(1) w0(6,7) by (simp add: short_names_def group_fresh_def)
  moreover have "counters_text ?w = []" "profilers_text ?w = []"
    using n(1) z w0(7) by (simp_all add: counters_text_def profilers_text_def group_counters_text_def group_profilers_text_def)
  moreover have "countable_group (profiler (debug_groups (shm ?w) ! 0))" using z w0(7) by (simp add: countable_group_def)
  ultimately show ?thesis using n(1) w0(2,3,8) by (intro exI [of _ ?w] exI [of _ x]) simp
qed

theorem extract_report_witness:
  "\<exists>w x ts w'. RTDBG_ExtractDebugData True (\<lambda>n i. \<lparr>tv_sec = 3, tv_nsec = 0\<rparr>) (\<lambda>n. \<lparr>tv_sec = 3, tv_nsec = 0\<rparr>) w =
     Some (Inr (Some (counters_heading @ profilers_heading @ traces_heading @ lines_text ts @ logs_heading), w')) \<and>
     in_groups w = {#x#} \<and> snd x = \<lparr>tv_sec = 1, tv_nsec = 0\<rparr> \<and> mset ts = {#([], zero_time), x#} \<and> in_groups w' = {#}"
proof -
  let ?t = "\<lparr>tv_sec = 3, tv_nsec = 0\<rparr> :: timespec"
  obtain w x where w: "slots_ok w" "logs_ok w" "short_names w" "status (hnd w) = RTDBG_STOPPED"
     "\<forall>u \<in># all_rest w. ns_of (snd u) \<le> 1000000000" "in_groups w = {#x#}" "log_rests w = [[]]"
     "counters_text w = []" "profilers_text w = []"
     "\<forall>i < ngroups w. countable_group (profiler (debug_groups (shm w) ! i))"
     "snd x = \<lparr>tv_sec = 1, tv_nsec = 0\<rparr>" "new_slots w" "ngroups w = 1" using demo_report_world by blast
  have l: "\<forall>n i :: nat. later ?t w" using w(5) demo_times(3) by (fastforce simp: later_def ns_of_def)
  have ll: "\<forall>n :: nat. log_later ?t w" using w(7) demo_times(3) by (simp add: log_later_def)
  have "status (hnd w) \<noteq> RTDBG_RUNNING_PRODUCER" using w(4) by simp
  from extract_report [OF w(1-3) this w(10) l ll] obtain ts ls' w' where r:
    "RTDBG_ExtractDebugData True (\<lambda>n i. ?t) (\<lambda>n. ?t) w = Some (Inr (Some
      (counters_heading @ counters_text w @ profilers_heading @ profilers_text w @
       traces_heading @ lines_text ts @ logs_heading @ lines_text ls'), w'))"
    "mset ts = in_slots w + in_groups w" "merge_of (log_rests w) ls'" "in_groups w' = {#}"
    "new_slots w \<longrightarrow> in_slots w = replicate_mset (ngroups w) ([], zero_time)" by blast
  have "ls' = []" using merge_of_mset [OF r(3)] w(7) by simp
  moreover have "mset ts = {#([], zero_time), x#}" using r(2,5) w(6,12,13) by simp
  ultimately show ?thesis using r(1,4) w(6,8,9,11)
    by (intro exI [of _ w] exI [of _ x] exI [of _ ts] exI [of _ w']) simp
qed

theorem detached_is_inert_witness:
  "RTDBG_Start demo_start = Inr demo_start \<and> RTDBG_AddLog zero_time 0 ''x'' demo_start = Some (Inr demo_start) \<and>
   RTDBG_GetTraceEntry (\<lambda>i. zero_time) [] demo_start = Inl NullDeref"
  using detached_is_inert [OF demo_start_ok(1), where clk = "\<lambda>i. zero_time" and dst = "[]" and now = zero_time and grp = 0 and str = "''x''"]
  by (simp add: demo_start_def debug_handler_def)

theorem extract_report_fails_witness:
  "(\<exists>w. attached_ok w \<and> RTDBG_ExtractDebugData False (\<lambda>n i. zero_time) (\<lambda>n. zero_time) w = Some (Inl AssertFail)) \<and>
   (\<exists>w. length (group_names (shm w) ! 0) = 100 \<and>
     RTDBG_ExtractDebugData True (\<lambda>n i. zero_time) (\<lambda>n. zero_time) w = Some (Inl MemFault))"
proof -
  obtain w0 where w0: "attached_ok w0" "rt_debugp (hnd w0) = 4096" "group_names (shm w0) = []"
    using Activate_ok [where lay = demo_lay, OF demo_start_ok demo_lay_ok] by blast
  have one: "\<exists>w. attached_ok w \<and> RTDBG_ExtractDebugData False (\<lambda>n i. zero_time) (\<lambda>n. zero_time) w = Some (Inl AssertFail)"
    using extract_report_fails [OF w0(1), of False] w0(1) by blast
  let ?nm = "replicate 100 (CHR ''g'')"
  have f: "fits TRACE_STRING_SIZE ?nm" by (simp add: fits_def c_string_def TRACE_STRING_SIZE_def)
  have I: "rt_wf (shm w0) \<and> addrs_ok (demo_lay 4096)" using w0(1) demo_lay_ok by (simp add: attached_ok_def)
  obtain d where d: "rt_wf d" "group_names d = [?nm]"
    using groups.alloc_all_fresh [OF I, of "[?nm]"] f w0(3) by (auto simp: MAX_GROUP_NUM_def)
  let ?w = "w0\<lparr>shm := d, hnd := (hnd w0)\<lparr>status := RTDBG_STOPPED\<rparr>\<rparr>"
  have a: "attached_ok ?w" using w0(1) d(1) by (simp add: attached_ok_def)
  have n: "ngroups ?w = 1"
    using length_group_names [OF d(1)] arg_cong [OF d(2), of length] by (simp add: ngroups_def)
  then have "\<not> short_names ?w" using d(2) by (simp add: short_names_def)
  then have "\<exists>w. length (group_names (shm w) ! 0) = 100 \<and>
     RTDBG_ExtractDebugData True (\<lambda>n i. zero_time) (\<lambda>n. zero_time) w = Some (Inl MemFault)"
    using extract_report_fails [OF a, of True] d(2) by (intro exI [of _ ?w]) simp
  with one show ?thesis by blast
qed

end
