(* ===== verification/API_Steps.thy ===== *)
theory API_Steps
  imports Extract_Data
begin

section \<open>The operations as steps of several processes\<close>

text \<open>
  Any number of processes attach to the same shared object, and each has a handler of its own. A
  step is one operation of one process that returns; \<open>api_step\<close> has a rule for every operation of the
  interface that changes state, with what the interface asks of its arguments (names that fit, texts that
  fit, points of this process), and its label says whether the operation reset the object: \<open>RTDBG_Init\<close> of an
  attached process and a successful \<open>RTDBG_ActivateDebugDataCollection\<close> do. What the steps of all
  processes preserve, resets included, is the invariant of the object; between resets the tables of
  names grow: entries are added at the end and never moved or renamed, so an index that one process
  got stays valid in every process. An operation that aborts is no step: it ends its process, and may
  leave the object as it was in the middle (\<open>AllocDbgGrp\<close> on a full table leaves eleven groups counted).
\<close>

subsection \<open>Growth\<close>

definition group_extends :: "CGroupDebugRT \<Rightarrow> CGroupDebugRT \<Rightarrow> bool" where
  "group_extends g g' \<longleftrightarrow> gd_group_name g' = gd_group_name g \<and>
     prefix (counter_names (event_counters g)) (counter_names (event_counters g')) \<and>
     prefix (trace_names (tracer g)) (trace_names (tracer g')) \<and>
     prefix (profiler_names (profiler g)) (profiler_names (profiler g'))"

definition rt_extends :: "CDebugRT \<Rightarrow> CDebugRT \<Rightarrow> bool" where
  "rt_extends d d' \<longleftrightarrow> num_alloc_groups d \<le> num_alloc_groups d' \<and>
     prefix (group_names d) (group_names d') \<and>
     (\<forall>i < unat (num_alloc_groups d). group_extends (debug_groups d ! i) (debug_groups d' ! i))"

lemma group_extends_refl [simp]: "group_extends g g"
  by (simp add: group_extends_def)

lemma group_extends_trans: "group_extends a b \<Longrightarrow> group_extends b c \<Longrightarrow> group_extends a c"
  by (auto simp: group_extends_def dest: prefix_order.trans)

lemma rt_extends_refl [simp]: "rt_extends d d"
  by (simp add: rt_extends_def)

lemma rt_extends_trans:
  assumes "rt_extends a b" "rt_extends b c"
  shows "rt_extends a c"
proof -
  have "unat (num_alloc_groups a) \<le> unat (num_alloc_groups b)"
    using assms(1) by (simp add: rt_extends_def word_le_nat_alt)
  then have "group_extends (debug_groups a ! i) (debug_groups c ! i)" if "i < unat (num_alloc_groups a)" for i
    using assms that group_extends_trans unfolding rt_extends_def by fastforce
  then show ?thesis using assms by (auto simp: rt_extends_def dest: prefix_order.trans)
qed

text \<open>A well-formed object that grows into a well-formed object.\<close>

definition grows :: "CDebugRT \<Rightarrow> CDebugRT \<Rightarrow> bool" where
  "grows d d' \<longleftrightarrow> (rt_wf d \<longrightarrow> rt_wf d' \<and> rt_extends d d' \<and> (rt_shape d \<longrightarrow> rt_shape d'))"

lemma grows_refl [simp]: "grows d d"
  by (simp add: grows_def)

lemma grows_trans: "grows a b \<Longrightarrow> grows b c \<Longrightarrow> grows a c"
  using rt_extends_trans by (auto simp: grows_def)

text \<open>The same for one group; the sizes and addresses of its two buffers stay.\<close>

definition group_frame where
  "group_frame g = (area_frame (logs_fifo (logger g)), area_frame (trace_fifo (tracer g)))"

definition group_grows :: "CGroupDebugRT \<Rightarrow> CGroupDebugRT \<Rightarrow> bool" where
  "group_grows g g' \<longleftrightarrow> (group_wf g \<longrightarrow> group_wf g' \<and> group_extends g g' \<and> group_frame g' = group_frame g)"

lemma group_grows_shape:
  assumes "group_wf g" "group_grows g g'" "group_shape g"
  shows "group_shape g'"
proof -
  have g': "group_wf g'" "gd_group_name g' = gd_group_name g" "group_frame g' = group_frame g"
    using assms by (simp_all add: group_grows_def group_extends_def)
  have "log_shape (logger g')" "trace_shape (tracer g')"
    using g' assms(3) by (auto simp: group_shape_def group_wf_def log_wf_def trace_wf_def trace_arrays_wf_def
        name_array_def log_shape_def trace_shape_def group_frame_def area_frame_def)
  moreover have "profiler_shape (profiler g')" "counters_shape (event_counters g')"
    using g'(1) by (auto simp: group_wf_def profiler_wf_def profiler_shape_def counters_wf_def counters_shape_def name_array_def)
  ultimately show ?thesis using assms(3) g'(2) by (simp add: group_shape_def)
qed

lemma grows_put_grp:
  assumes "GetDebugGrp n d = Inr g" "group_grows g g'"
  shows "grows d (put_grp n g' d)"
  unfolding grows_def
proof
  assume wf: "rt_wf d"
  from assms(1) have n: "n < num_alloc_groups d" "unat n < length (debug_groups d)"
    and g: "g = debug_groups d ! unat n" by (auto simp: GetDebugGrp_eq_Inr)
  have g': "group_wf g'" "group_extends g g'"
    using assms(2) GetDebugGrp_ok(2) [OF wf n(1)] g by (auto simp: group_grows_def)
  have "gd_group_name g' = gd_group_name (debug_groups d ! unat n)"
    using g'(2) g by (simp add: group_extends_def)
  note put = put_grp_wf [OF wf n(1) g'(1) this]
  have "group_extends (debug_groups d ! i) (debug_groups (put_grp n g' d) ! i)" for i
    using g'(2) g n(2) by (cases "i = unat n") (auto simp: put_grp_def)
  moreover have "rt_shape (put_grp n g' d)" if shape: "rt_shape d"
  proof -
    have "group_shape g'"
      using group_grows_shape [OF _ assms(2)] GetDebugGrp_ok(2) [OF wf n(1)] g n(2) shape by (simp add: rt_shape_def)
    then show ?thesis
      using shape set_update_subset_insert [of "debug_groups d" "unat n" g'] by (auto simp: rt_shape_def put_grp_def)
  qed
  ultimately show "rt_wf (put_grp n g' d) \<and> rt_extends d (put_grp n g' d) \<and> (rt_shape d \<longrightarrow> rt_shape (put_grp n g' d))"
    using put by (simp add: rt_extends_def)
qed

lemma grows_active [simp]: "grows d (d\<lparr>active := b\<rparr>)"
proof -
  have "rt_wf (d\<lparr>active := b\<rparr>) = rt_wf d" "group_names (d\<lparr>active := b\<rparr>) = group_names d" "rt_shape (d\<lparr>active := b\<rparr>) = rt_shape d"
    by (simp_all add: rt_wf_def group_names_def rt_shape_def)
  then show ?thesis by (simp add: grows_def rt_extends_def)
qed

subsection \<open>The operations of the components\<close>

named_theorems group_grow

lemma AllocCnt_grow [group_grow]:
  assumes "AllocCnt nm (event_counters g) = Inr (i, c)" "fits TRACE_STRING_SIZE nm"
  shows "group_grows g (g\<lparr>event_counters := c\<rparr>)"
  using counters.alloc_cases [OF _ assms(2,1)] by (auto simp: group_grows_def group_wf_def group_extends_def group_frame_def)

lemma AddTraceFormat_frame:
  "AddTraceFormat fmt t = Inr (i, t') \<Longrightarrow> tg_group_name t' = tg_group_name t \<and> trace_fifo t' = trace_fifo t"
  by (auto simp: AddTraceFormat_def bindE_eq_Inr ASSERT_def Let_def split: if_splits option.splits)

lemma AddTraceFormat_grow [group_grow]:
  assumes "AddTraceFormat fmt (tracer g) = Inr (i, t)" "fits TRACE_STRING_SIZE fmt"
  shows "group_grows g (g\<lparr>tracer := t\<rparr>)"
  using formats.alloc_cases [OF _ assms(2,1)] AddTraceFormat_frame [OF assms(1)]
  by (auto simp: group_grows_def group_wf_def group_extends_def group_frame_def)

lemma RegistryProfileEntry_grow [group_grow]:
  assumes "RegistryProfileEntry bases nm (profiler g) = Inr (i, p)" "fits MDO_NAME_SIZE nm" "bases_ok bases"
  shows "group_grows g (g\<lparr>profiler := p\<rparr>)"
  using profilers.alloc_cases [OF _ assms(2,1)] assms(3)
  by (auto simp: group_grows_def group_wf_def group_extends_def group_frame_def)

lemma AddTrace_num: "AddTrace now self junk tid line v0 v1 v2 v3 t = Inr t' \<Longrightarrow> tid < num_alloc_formats t"
  by (auto simp: AddTrace_def bindE_eq_Inr ASSERT_def split: if_splits)

lemma AddTrace_grow [group_grow]:
  assumes "AddTrace now self junk tid line v0 v1 v2 v3 (tracer g) = Inr t"
  shows "group_grows g (g\<lparr>tracer := t\<rparr>)"
  using AddTrace_wf [OF _ AddTrace_num [OF assms] assms] AddTrace_eq [OF _ AddTrace_num [OF assms]] assms
  by (auto simp: group_grows_def group_wf_def group_extends_def group_frame_def area_frame_def trace_names_def Let_def)

lemma AddLog_grow [group_grow]:
  assumes "AddLog now s (logger g) = Some (Inr l)" "loggable s"
  shows "group_grows g (g\<lparr>logger := l\<rparr>)"
  using AddLog_ok [OF _ assms(2), of "logger g" now] assms(1)
  by (auto simp: group_grows_def group_wf_def group_extends_def group_frame_def)

lemma trace_GetTraceEntry_grow [group_grow]:
  assumes "trace_GetTraceEntry now dst (tracer g) = Inr (r, t)"
  shows "group_grows g (g\<lparr>tracer := t\<rparr>)"
proof -
  have "trace_wf t \<and> tg_group_name t = tg_group_name (tracer g) \<and> trace_names t = trace_names (tracer g) \<and>
      area_frame (trace_fifo t) = area_frame (trace_fifo (tracer g))"
    if wf: "trace_wf (tracer g)"
  proof -
    obtain u k where e: "earliest 0 (trace_times (tracer g)) (now, None) = (u, k)" by fastforce
    show ?thesis
    proof (cases k)
      case None
      then show ?thesis using assms wf e trace_GetTraceEntry_eq [OF wf, of now dst] by simp
    next
      case (Some j)
      then have "j < length (chunk_buf (trace_fifo (tracer g)))"
        using earliest_index [of "trace_times (tracer g)" now u j] e by (simp add: trace_times_def)
      moreover have "area_frame (trace_fifo (clear_entry j (tracer g))) = area_frame (trace_fifo (tracer g))"
        by (simp add: area_frame_def clear_entry_def)
      ultimately show ?thesis using assms wf e Some trace_GetTraceEntry_eq [OF wf, of now dst] clear_entry_wf [OF wf]
        by (auto simp: bindE_eq_Inr)
    qed
  qed
  then show ?thesis by (auto simp: group_grows_def group_wf_def group_extends_def group_frame_def)
qed

lemma refill_trace_grow [group_grow]:
  assumes "refill_trace now r (tracer g) = Inr (b, r', t)"
  shows "group_grows g (g\<lparr>tracer := t\<rparr>)"
proof -
  consider "t = tracer g" | x where "trace_GetTraceEntry now (trace_str r) (tracer g) = Inr (x, t)"
    using assms by (auto simp: refill_trace_def bindE_eq_Inr split: if_splits option.splits)
  then show ?thesis
    by cases (simp add: group_grows_def group_wf_def group_extends_def group_frame_def, rule trace_GetTraceEntry_grow)
qed

lemma GetLogEntry_grow [group_grow]:
  assumes "GetLogEntry dst (logger g) = Inr (r, l)"
  shows "group_grows g (g\<lparr>logger := l\<rparr>)"
proof -
  have "log_wf l \<and> area_frame (logs_fifo l) = area_frame (logs_fifo (logger g))" if wf: "log_wf (logger g)"
  proof (cases "messages (logger g)")
    case Nil
    then show ?thesis using GetLogEntry_eq(1) [OF wf, of dst] assms wf by simp
  next
    case (Cons m ms)
    then obtain l' where l': "log_wf l'" "area_frame (logs_fifo l') = area_frame (logs_fifo (logger g))" "GetLogEntry dst (logger g) =
        bindE (strcpy dst (log_line (str_of (lg_group_name (logger g))) m)) (\<lambda>b. Inr (Some (b, fst m), l'))"
      using GetLogEntry_eq(2) [OF wf, of "fst m" "snd m" ms dst] by auto
    with assms have "bindE (strcpy dst (log_line (str_of (lg_group_name (logger g))) m))
        (\<lambda>b. Inr (Some (b, fst m), l')) = Inr (r, l)" by simp
    then show ?thesis using l'(1,2) by (auto simp: bindE_eq_Inr)
  qed
  then show ?thesis by (auto simp: group_grows_def group_wf_def group_extends_def group_frame_def)
qed

lemma prof_GetProfInfo_grow [group_grow]:
  assumes "prof_GetProfInfo i dst (profiler g) = Some (Inr (r, p))" "MDO_NAME_SIZE \<le> length dst"
  shows "group_grows g (g\<lparr>profiler := p\<rparr>)"
proof -
  have i: "i < num_alloc_prof (profiler g)"
    using assms(1) by (auto simp: prof_GetProfInfo_def bindD_eq_Some_Inr ASSERT_def split: if_splits)
  have "profiler_wf p \<and> profiler_names p = profiler_names (profiler g)" if wf: "profiler_wf (profiler g)"
  proof -
    let ?ds = "filter live (fifo_contents (prof_fifos (profiler g) ! unat i))"
    from prof_GetProfInfo_eq [OF wf i assms(2) refl] obtain m' b where m':
      "area_ready sizeof_ProfileData m'" "area_frame m' = area_frame (prof_fifos (profiler g) ! unat i)"
      "prof_GetProfInfo i dst (profiler g) =
        (let g' = (profiler g)\<lparr>prof_fifos := (prof_fifos (profiler g))[unat i := m']\<rparr>;
             c = snd (fold prof_aggregate ?ds (False, ProfileData_Reset)) in
         if ?ds = [] then Some (Inr (None, g'))
         else if sum_list (map meas_num ?ds) = 0 then Some (Inl DivByZero)
         else Some (Inr (Some (sent c, b), g')))" by blast
    then have "p = (profiler g)\<lparr>prof_fifos := (prof_fifos (profiler g))[unat i := m']\<rparr>"
      using assms(1) by (auto simp: Let_def split: if_splits)
    then show ?thesis using profiler_wf_update [OF wf i m'(1,2)] by simp
  qed
  then show ?thesis by (auto simp: group_grows_def group_wf_def group_extends_def group_frame_def)
qed

subsection \<open>The operations of the handler\<close>

text \<open>What one operation does to the rest of the world: the object grows, the mapping stays.\<close>

definition world_grows :: "world \<Rightarrow> world \<Rightarrow> bool" where
  "world_grows w w' \<longleftrightarrow> grows (shm w) (shm w') \<and> mapped w' = mapped w \<and>
     mem_attached (hnd w') = mem_attached (hnd w) \<and> rt_debugp (hnd w') = rt_debugp (hnd w)"

lemma world_grows_refl [simp]: "world_grows w w"
  by (simp add: world_grows_def)

lemma world_grows_trans: "world_grows a b \<Longrightarrow> world_grows b c \<Longrightarrow> world_grows a c"
  using grows_trans by (auto simp: world_grows_def)

named_theorems world_grow

lemma at_grp_grow:
  assumes "at_grp n f w = Inr (x, w')"
    "\<And>g y g'. GetDebugGrp n (shm w) = Inr g \<Longrightarrow> f g = Inr (y, g') \<Longrightarrow> group_grows g g'"
  shows "world_grows w w'"
  using assms grows_put_grp by (fastforce simp: at_grp_def bindE_eq_Inr deref_eq_Inr world_grows_def)

lemma put_grp_grow:
  assumes "GetDebugGrp n (shm w) = Inr g" "group_grows g g'" "shm w' = put_grp n g' (shm w)"
    "mapped w' = mapped w" "mem_attached (hnd w') = mem_attached (hnd w)" "rt_debugp (hnd w') = rt_debugp (hnd w)"
  shows "world_grows w w'"
  using assms grows_put_grp by (simp add: world_grows_def)

lemma Start_grow [world_grow]: "RTDBG_Start w = Inr w' \<Longrightarrow> world_grows w w'"
  by (auto simp: RTDBG_Start_def bindE_eq_Inr deref_eq_Inr world_grows_def SetDataCollection_def split: if_splits)

lemma Stop_grow [world_grow]: "RTDBG_Stop w = Inr w' \<Longrightarrow> world_grows w w'"
  by (auto simp: RTDBG_Stop_def bindE_eq_Inr deref_eq_Inr world_grows_def SetDataCollection_def
      InitExtractTables_def Let_def split: if_splits)

lemma AllocRTDebugGroup_grow [world_grow]:
  assumes "RTDBG_AllocRTDebugGroup lay nm w = Inr (i, w')" "fits TRACE_STRING_SIZE nm"
    "addrs_ok (lay (rt_debugp (hnd w)))"
  shows "world_grows w w'"
proof (cases "w' = w")
  case False
  then obtain d where d: "AllocDbgGrp (lay (rt_debugp (hnd w))) nm (shm w) = Inr (i, d)" "w' = w\<lparr>shm := d\<rparr>"
    using assms(1) by (auto simp: RTDBG_AllocRTDebugGroup_def bindE_eq_Inr deref_eq_Inr split: if_splits)
  have "rt_wf d \<and> rt_extends (shm w) d \<and> (rt_shape (shm w) \<longrightarrow> rt_shape d)" if wf: "rt_wf (shm w)"
  proof (cases "nm \<in> set (group_names (shm w))")
    case True
    then show ?thesis using groups.alloc_cases [OF _ assms(2) d(1)] wf assms(3) by auto
  next
    case new: False
    have room: "unat (num_alloc_groups (shm w)) < MAX_GROUP_NUM"
      using groups.full [OF _ assms(2) new] groups.names_limit [of "shm w"] d(1) wf assms(3)
      by (fastforce simp: length_group_names [OF wf])
    from AllocDbgGrp_new [OF wf assms(2) new room assms(3)] d(1) obtain g where
      d': "rt_wf d" "group_names d = group_names (shm w) @ [nm]"
      "debug_groups d = (debug_groups (shm w))[unat (num_alloc_groups (shm w)) := g]"
      "num_alloc_groups d = num_alloc_groups (shm w) + 1" "group_shape g" by auto
    have "rt_shape d" if "rt_shape (shm w)"
      using that d'(3,5) set_update_subset_insert [of "debug_groups (shm w)" "unat (num_alloc_groups (shm w))" g]
      by (auto simp: rt_shape_def)
    moreover have "num_alloc_groups (shm w) \<le> num_alloc_groups (shm w) + 1"
      using room by (simp add: word_le_nat_alt unat_word_ariths MAX_GROUP_NUM_def)
    ultimately show ?thesis using d' by (simp add: rt_extends_def)
  qed
  then show ?thesis using d(2) by (simp add: world_grows_def grows_def)
qed simp

lemma AllocCounter_grow [world_grow]:
  assumes "RTDBG_AllocCounter grp nm w = Inr (r, w')" "fits TRACE_STRING_SIZE nm"
  shows "world_grows w w'"
proof (cases "mem_attached (hnd w)")
  case True
  with assms(1) show ?thesis unfolding RTDBG_AllocCounter_def
    by (intro at_grp_grow) (auto simp: bindE_eq_Inr intro: AllocCnt_grow [OF _ assms(2)])
qed (use assms(1) in \<open>simp add: RTDBG_AllocCounter_def\<close>)

lemma AddTraceEntry_grow [world_grow]:
  assumes "RTDBG_AddTraceEntry grp fmt w = Inr (r, w')" "fits TRACE_STRING_SIZE fmt"
  shows "world_grows w w'"
proof (cases "mem_attached (hnd w)")
  case True
  with assms(1) show ?thesis unfolding RTDBG_AddTraceEntry_def
    by (intro at_grp_grow) (auto simp: bindE_eq_Inr intro: AddTraceFormat_grow [OF _ assms(2)])
qed (use assms(1) in \<open>simp add: RTDBG_AddTraceEntry_def\<close>)

lemma AddProfiler_grow [world_grow]:
  assumes "RTDBG_AddProfiler lay grp nm w = Inr (r, w')" "fits MDO_NAME_SIZE nm"
    "bases_ok (ga_prof (lay (rt_debugp (hnd w)) (unat grp)))"
  shows "world_grows w w'"
proof (cases "mem_attached (hnd w)")
  case True
  with assms(1) show ?thesis unfolding RTDBG_AddProfiler_def
    by (intro at_grp_grow) (auto simp: bindE_eq_Inr intro: RegistryProfileEntry_grow [OF _ assms(2,3)])
qed (use assms(1) in \<open>simp add: RTDBG_AddProfiler_def\<close>)

lemma AddTrace_world_grow [world_grow]:
  assumes "RTDBG_AddTrace now self junk grp tid line v0 v1 v2 v3 w = Inr w'"
  shows "world_grows w w'"
proof (cases "mem_attached (hnd w) \<and> active (shm w)")
  case True
  with assms obtain x where "at_grp grp (\<lambda>g. bindE (AddTrace now self junk tid line v0 v1 v2 v3 (tracer g))
      (\<lambda>t. Inr ((), g\<lparr>tracer := t\<rparr>))) w = Inr (x, w')"
    by (auto simp: RTDBG_AddTrace_def bindE_eq_Inr deref_eq_Inr IsDataCollected_def)
  then show ?thesis by (rule at_grp_grow) (auto simp: bindE_eq_Inr intro: AddTrace_grow)
qed (use assms in \<open>auto simp: RTDBG_AddTrace_def bindE_eq_Inr deref_eq_Inr IsDataCollected_def split: if_splits\<close>)

lemma AddLog_world_grow [world_grow]:
  assumes "RTDBG_AddLog now grp s w = Some (Inr w')" "loggable s"
  shows "world_grows w w'"
proof (cases "w' = w")
  case False
  with assms(1) obtain g l where "GetDebugGrp grp (shm w) = Inr g" "AddLog now s (logger g) = Some (Inr l)"
    "w' = w\<lparr>shm := put_grp grp (g\<lparr>logger := l\<rparr>) (shm w)\<rparr>"
    by (auto simp: RTDBG_AddLog_def bindD_eq_Some_Inr deref_eq_Inr split: if_splits)
  then show ?thesis using AddLog_grow [OF _ assms(2)] by (intro put_grp_grow) auto
qed simp

text \<open>A counter is changed through the pointer that \<open>RTDBG_AllocCounter\<close> gave.\<close>

lemma counter_update_grow [world_grow]:
  assumes "counter_update (Some (i, k)) f w = Inr w'" "i < ngroups w" "ngroups w \<le> MAX_GROUP_NUM"
  shows "world_grows w w'"
proof -
  from assms obtain g c where g: "arr_get (debug_groups (shm w)) i = Inr g"
    "arr_get (rt_counters (event_counters g)) k = Inr c"
    "w' = w\<lparr>shm := (shm w)\<lparr>debug_groups := (debug_groups (shm w))[i := g\<lparr>event_counters := (event_counters g)\<lparr>rt_counters :=
      (rt_counters (event_counters g))[k := c\<lparr>cnt_val := f (cnt_val c)\<rparr>]\<rparr>\<rparr>]\<rparr>\<rparr>"
    by (auto simp: counter_update_def bindE_eq_Inr deref_eq_Inr arr_mod_def)
  let ?c' = "c\<lparr>cnt_val := f (cnt_val c)\<rparr>" and ?ec = "event_counters g"
  let ?g' = "g\<lparr>event_counters := ?ec\<lparr>rt_counters := (rt_counters ?ec)[k := ?c']\<rparr>\<rparr>"
  have i: "unat (of_nat i :: u32) = i" using assms(2,3) by (intro unat_of_nat_u32) (simp add: MAX_GROUP_NUM_def)
  have "i < length (debug_groups (shm w))" "debug_groups (shm w) ! i = g"
    and k: "k < length (rt_counters ?ec)" "rt_counters ?ec ! k = c"
    using g(1,2) by (auto simp: arr_get_def split: if_splits)
  then have "GetDebugGrp (of_nat i) (shm w) = Inr g"
    using assms(2) i by (simp add: GetDebugGrp_eq_Inr word_less_nat_alt ngroups_def)
  moreover have same: "map cnt_name ((rt_counters ?ec)[k := ?c']) = map cnt_name (rt_counters ?ec)"
    using k by (simp add: map_update list_update_same_conv)
  have "group_grows g ?g'"
    using name_array_same_names [OF same]
    by (simp add: group_grows_def group_wf_def counters_wf_def group_extends_def counter_names_def group_frame_def)
  ultimately show ?thesis using g(3) i by (intro put_grp_grow [of "of_nat i" w g ?g']) (simp_all add: put_grp_def)
qed

lemma GetTraceEntry_grow [world_grow]:
  assumes "RTDBG_GetTraceEntry clk dst w = Inr (r, w')"
  shows "world_grows w w'"
proof -
  have step: "world_grows (snd acc) (snd acc')" if "trace_merge_step clk i acc = Inr acc'" for i acc acc'
  proof -
    obtain m k w1 where acc: "acc = ((m, k), w1)" by (metis prod.exhaust)
    with that obtain g r b r' t where "GetDebugGrp (of_nat i) (shm w1) = Inr g"
      "refill_trace (clk (Suc i)) r (tracer g) = Inr (b, r', t)"
      "shm (snd acc') = put_grp (of_nat i) (g\<lparr>tracer := t\<rparr>) (shm w1)" "mapped (snd acc') = mapped w1"
      "mem_attached (hnd (snd acc')) = mem_attached (hnd w1)" "rt_debugp (hnd (snd acc')) = rt_debugp (hnd w1)"
      by (fastforce simp: trace_merge_step_def bindE_eq_Inr deref_eq_Inr Let_def split: if_splits prod.splits)
    then show ?thesis using refill_trace_grow acc by (intro put_grp_grow) auto
  qed
  have "world_grows w (snd acc)" if "foldE (trace_merge_step clk) is ((m, k), w) = Inr acc" for "is" acc m k
    using foldE_inv [OF that, of "\<lambda>acc. world_grows w (snd acc)"] step world_grows_trans by fastforce
  with assms show ?thesis
    by (fastforce simp: RTDBG_GetTraceEntry_def bindE_eq_Inr world_grows_def Let_def split: if_splits prod.splits)
qed

lemma GetLog_grow [world_grow]:
  assumes "RTDBG_GetLog now dst tm_null msk w = Inr (r, w')"
  shows "world_grows w w'"
proof -
  have step: "world_grows (snd acc) (snd acc')" if st: "log_merge_step msk i acc = Inr acc'" for i acc acc'
  proof -
    obtain mt mi w1 where acc: "acc = ((mt, mi), w1)" by (metis prod.exhaust)
    from st obtain l where l: "arr_get (grp_logs_last (hnd w1)) i = Inr l"
      by (auto simp: log_merge_step_def acc bindE_eq_Inr Let_def)
    show ?thesis
    proof (cases "msk AND push_bit i 1 \<noteq> 0 \<and> valid l = False")
      case False
      with st l show ?thesis by (auto simp: log_merge_step_def acc Let_def split: if_splits)
    next
      case True
      with st l obtain g res lg where g: "GetDebugGrp (of_nat i) (shm w1) = Inr g"
        "GetLogEntry (log_str (log_info l)) (logger g) = Inr (res, lg)"
        by (auto simp: log_merge_step_def acc bindE_eq_Inr deref_eq_Inr Let_def)
      have "shm (snd acc') = put_grp (of_nat i) (g\<lparr>logger := lg\<rparr>) (shm w1) \<and> mapped (snd acc') = mapped w1 \<and>
          mem_attached (hnd (snd acc')) = mem_attached (hnd w1) \<and> rt_debugp (hnd (snd acc')) = rt_debugp (hnd w1)"
        using st l True g by (cases res) (auto simp: log_merge_step_def acc bindE_eq_Inr deref_eq_Inr Let_def split: if_splits)
      then show ?thesis using put_grp_grow [OF g(1) GetLogEntry_grow [OF g(2)]] acc by simp
    qed
  qed
  have "world_grows w (snd acc)" if "foldE (log_merge_step msk) is ((m, k), w) = Inr acc" for "is" acc m k
    using foldE_inv [OF that, of "\<lambda>acc. world_grows w (snd acc)"] step world_grows_trans by fastforce
  with assms show ?thesis
    by (fastforce simp: RTDBG_GetLog_def bindE_eq_Inr world_grows_def split: if_splits prod.splits)
qed

lemma GetProfInfo_grow [world_grow]:
  assumes "RTDBG_GetProfInfo grp pid gb pb w = Some (Inr (r, w'))" "MDO_NAME_SIZE \<le> length pb"
  shows "world_grows w w'"
proof (cases "w' = w")
  case False
  with assms(1) obtain g x p where g: "GetDebugGrp grp (shm w) = Inr g"
    "prof_GetProfInfo pid pb (profiler g) = Some (Inr (x, p))"
    "w' = w\<lparr>shm := put_grp grp (g\<lparr>profiler := p\<rparr>) (shm w)\<rparr>"
    by (auto simp: RTDBG_GetProfInfo_def bindD_eq_Some_Inr deref_eq_Inr split: if_splits)
  show ?thesis using g(3) by (intro put_grp_grow [OF g(1) prof_GetProfInfo_grow [OF g(2) assms(2)]]) simp_all
qed simp

text \<open>A point that refers to a registered profiler whose buffer is where this process sees it.\<close>

definition point_ok :: "layout \<Rightarrow> ProfilePoint \<Rightarrow> world \<Rightarrow> bool" where
  "point_ok lay p w \<longleftrightarrow> (case mem_ptr p of
     None \<Rightarrow> False
   | Some (i, k) \<Rightarrow> i < ngroups w \<and> k < unat (num_alloc_prof (profiler (debug_groups (shm w) ! i))) \<and>
       area_at (ga_prof (lay (rt_debugp (hnd w)) i) k) (prof_fifos (profiler (debug_groups (shm w) ! i)) ! k))"

lemma prof_Update_grow [group_grow]:
  assumes "prof_Update base p (prof_fifos (profiler g) ! k) = Some (Inr (p', m'))" "mem_ptr p \<noteq> None"
    "k < unat (num_alloc_prof (profiler g))" "area_at base (prof_fifos (profiler g) ! k)"
  shows "group_grows g (g\<lparr>profiler := (profiler g)\<lparr>prof_fifos := (prof_fifos (profiler g))[k := m']\<rparr>\<rparr>)"
proof -
  let ?pg = "profiler g" and ?m = "prof_fifos (profiler g) ! k"
  have "profiler_wf (?pg\<lparr>prof_fifos := (prof_fifos ?pg)[k := m']\<rparr>) \<and>
      profiler_names (?pg\<lparr>prof_fifos := (prof_fifos ?pg)[k := m']\<rparr>) = profiler_names ?pg" if wf: "profiler_wf ?pg"
  proof -
    have u: "unat (of_nat k :: u32) = k"
      using assms(3) profiler_num(1) [OF wf] by (intro unat_of_nat_u32) (simp add: PROF_GROUP_MAX_def)
    then have k: "of_nat k < num_alloc_prof ?pg" using assms(3) by (simp add: word_less_nat_alt)
    have ok: "prof_fifo_ok base ?m"
      using profiler_get(3,5) [OF wf k] u assms(4) by (simp add: prof_fifo_ok_def prof_shape_def)
    have cap: "length (fifo_contents ?m) \<le> prof_cap"
      using sq.len_cap [of sizeof_ProfileData ?m] ok prof_fifo_cap [OF ok] by (simp add: prof_fifo_ok_def)
    have "area_ready sizeof_ProfileData m' \<and> area_frame m' = area_frame ?m"
    proof (cases "meas_num (prof_data p) = 0")
      case True
      then show ?thesis using assms(1) ok by (simp add: prof_Update_def prof_fifo_ok_def)
    next
      case False
      from cap consider "length (fifo_contents ?m) < prof_cap" | "length (fifo_contents ?m) = prof_cap" by linarith
      then show ?thesis
        using prof_Update_room [OF ok _ False assms(2)] prof_Update_full [OF ok _ False assms(2)] assms(1)
        by cases (auto simp: prof_fifo_ok_def)
    qed
    then show ?thesis using profiler_wf_update [OF wf k, of m'] u by simp
  qed
  then show ?thesis by (auto simp: group_grows_def group_wf_def group_extends_def group_frame_def)
qed

lemma ProfFlushMeas_grow [world_grow]:
  assumes "RTDBG_ProfFlushMeas lay p w = Some (Inr (p', w'))" "point_ok lay p w" "ngroups w \<le> MAX_GROUP_NUM"
  shows "world_grows w w'"
proof (cases "meas_num (prof_data p) = 0")
  case False
  obtain i k where ik: "mem_ptr p = Some (i, k)" "i < ngroups w"
    "k < unat (num_alloc_prof (profiler (debug_groups (shm w) ! i)))"
    "area_at (ga_prof (lay (rt_debugp (hnd w)) i) k) (prof_fifos (profiler (debug_groups (shm w) ! i)) ! k)"
    using assms(2) by (auto simp: point_ok_def split: option.splits)
  have u: "unat (of_nat i :: u32) = i" using ik(2) assms(3) by (intro unat_of_nat_u32) (simp add: MAX_GROUP_NUM_def)
  let ?g = "debug_groups (shm w) ! i"
  from assms(1) False ik(1) obtain m' where m': "i < length (debug_groups (shm w))"
    "prof_Update (ga_prof (lay (rt_debugp (hnd w)) i) k) p (prof_fifos (profiler ?g) ! k) = Some (Inr (p', m'))"
    "w' = put_fifo p m' w"
    by (auto simp: RTDBG_ProfFlushMeas_def bindD_eq_Some_Inr mem_fifo_def bindE_eq_Inr arr_get_def split: if_splits)
  have "GetDebugGrp (of_nat i) (shm w) = Inr ?g"
    using m'(1) ik(2) u by (simp add: GetDebugGrp_eq_Inr word_less_nat_alt ngroups_def)
  from put_grp_grow [OF this prof_Update_grow [OF m'(2) _ ik(3,4)], of w'] show ?thesis
    using ik(1) m'(3) u by (simp add: put_fifo_def put_grp_def Let_def)
qed (use assms(1) in \<open>simp add: RTDBG_ProfFlushMeas_def\<close>)

lemma stop_collect_frame [simp]: "mem_ptr (stop_collect now cyc val p) = mem_ptr p"
  by (simp add: stop_collect_def Let_def)

lemma PutProfVal_grow [world_grow]:
  assumes "RTDBG_PutProfVal lay now cyc val p w = Some (Inr (p', w'))" "point_ok lay p w" "ngroups w \<le> MAX_GROUP_NUM"
  shows "world_grows w w'"
  using assms ProfFlushMeas_grow [where p = "stop_collect now cyc val p" and lay = lay and w = w]
  by (auto simp: RTDBG_PutProfVal_def point_ok_def Let_def split: if_splits)

lemma extract_profilers_grow:
  assumes "extract_profilers i (out, w) = Some (Inr (out', w'))"
  shows "world_grows w w'"
proof -
  obtain g nm x p where g: "named_group i w = Inr (g, nm)"
    "foldD (extract_profiler nm) [0..<unat (GetGrpProfNum (profiler g))] (out, profiler g) = Some (Inr (x, p))"
    "w' = w\<lparr>shm := put_grp (of_nat i) (g\<lparr>profiler := p\<rparr>) (shm w)\<rparr>"
    using assms by (auto simp: extract_profilers_def bindD_eq_Some_Inr)
  have dst: "MDO_NAME_SIZE \<le> length (replicate 1000 NUL)" by (simp add: MDO_NAME_SIZE_def)
  have step: "group_grows (g\<lparr>profiler := snd s\<rparr>) (g\<lparr>profiler := snd s'\<rparr>)"
    if "extract_profiler nm j s = Some (Inr s')" for j s s'
    using that prof_GetProfInfo_grow [of "of_nat j" "replicate 1000 NUL" "g\<lparr>profiler := snd s\<rparr>", OF _ dst]
    by (fastforce simp: extract_profiler_def bindD_eq_Some_Inr split: prod.splits option.splits)
  have "group_grows g (g\<lparr>profiler := snd (x, p)\<rparr>)"
    by (rule foldD_inv [OF g(2), where P = "\<lambda>s. group_grows g (g\<lparr>profiler := snd s\<rparr>)"])
      (use step group_extends_trans in \<open>fastforce simp: group_grows_def\<close>)+
  moreover have "GetDebugGrp (of_nat i) (shm w) = Inr g"
    using g(1) by (auto simp: named_group_def bindE_eq_Inr deref_eq_Inr)
  ultimately show ?thesis using g(3) by (intro put_grp_grow) simp_all
qed

lemma trace_reader_grow:
  assumes "trace_reader clk (n, buf, w) = Inr (x, (n', buf', w'))"
  shows "world_grows w w'"
proof -
  from assms obtain r where "RTDBG_GetTraceEntry (clk n) buf w = Inr (r, w')"
    by (auto simp: trace_reader_def bindE_eq_Inr split: option.splits)
  then show ?thesis by (rule GetTraceEntry_grow)
qed

lemma log_reader_grow:
  assumes "log_reader clk (n, buf, w) = Inr (x, (n', buf', w'))"
  shows "world_grows w w'"
proof -
  from assms obtain r where "RTDBG_GetLog (clk n) buf False (- 1) w = Inr (r, w')"
    by (auto simp: log_reader_def bindE_eq_Inr split: option.splits)
  then show ?thesis by (rule GetLog_grow)
qed

lemma reader_loop_grow:
  assumes "pop_all rd f acc (n, buf, w) = Some (Inr (out, (n', buf', w')))"
    "\<And>n buf w x n' buf' w'. rd (n, buf, w) = Inr (x, (n', buf', w')) \<Longrightarrow> world_grows w w'"
  shows "world_grows w w'"
proof -
  have "(\<lambda>s. world_grows w (snd (snd s))) (n', buf', w')"
  proof (rule pop_all_inv [OF assms(1)])
    fix s x s1 assume "world_grows w (snd (snd s))" "rd s = Inr (x, s1)"
    moreover obtain n b v n1 b1 v1 where "s = (n, b, v)" "s1 = (n1, b1, v1)" by (metis prod.exhaust)
    ultimately show "world_grows w (snd (snd s1))" using assms(2) world_grows_trans by fastforce
  qed simp
  then show ?thesis by simp
qed

lemma ExtractDebugData_grow [world_grow]:
  assumes "RTDBG_ExtractDebugData file_ok tclk lclk w = Some (Inr (r, w'))"
  shows "world_grows w w'"
proof (cases "mem_attached (hnd w)")
  case True
  have "bindD (Some (deref w)) (\<lambda>d. let num_grp = unat (GetNumGrps d) in
      bindD (Some (ASSERT file_ok (ASSERT (status (hnd w) \<noteq> RTDBG_RUNNING_PRODUCER)
        (ASSERT (rt_debugp (hnd w) \<noteq> 0) (foldE (extract_counters w) [0..<num_grp] counters_heading))))) (\<lambda>out.
      bindD (foldD extract_profilers [0..<num_grp] (out @ profilers_heading, w)) (\<lambda>(out, w).
      bindD (pop_all (trace_reader tclk) print_line (out @ traces_heading) (0, replicate 1000 NUL, w)) (\<lambda>(out, (_, buf, w)).
      bindD (pop_all (log_reader lclk) print_line (out @ logs_heading) (0, buf, w)) (\<lambda>(out, (_, _, w)).
        Some (Inr (Some out, w))))))) = Some (Inr (r, w'))"
    using assms True unfolding RTDBG_ExtractDebugData_def by (simp only: not_True_eq_False if_False)
  then obtain d out o1 w1 o3 n3 b3 w2 o4 n4 b4 w4 where e: "deref w = Inr d"
    "foldD extract_profilers [0..<unat (GetNumGrps d)] (out @ profilers_heading, w) = Some (Inr (o1, w1))"
    "pop_all (trace_reader tclk) print_line (o1 @ traces_heading) (0, replicate 1000 NUL, w1) =
       Some (Inr (o3, (n3, b3, w2)))"
    "pop_all (log_reader lclk) print_line (o3 @ logs_heading) (0, b3, w2) = Some (Inr (o4, (n4, b4, w4)))"
    "w4 = w'"
    unfolding Let_def bindD_eq_Some_Inr split_paired_Ex prod.case option.inject sum.inject prod.inject
    by -
      (elim exE conjE, rule that, assumption+)
  have "world_grows w (snd (o1, w1))"
    by (rule foldD_inv [OF e(2), where P = "\<lambda>s. world_grows w (snd s)"])
      (use extract_profilers_grow world_grows_trans in fastforce)+
  moreover have "world_grows w1 w2" using reader_loop_grow [OF e(3) trace_reader_grow] .
  moreover have "world_grows w2 w4" using reader_loop_grow [OF e(4) log_reader_grow] .
  ultimately show ?thesis using world_grows_trans e(5) by (metis snd_conv)
qed (use assms in \<open>simp add: RTDBG_ExtractDebugData_def\<close>)

subsection \<open>Steps of one process\<close>

text \<open>The state of one process: its handler is consistent with the object.\<close>

definition world_ok :: "layout \<Rightarrow> world \<Rightarrow> bool" where
  "world_ok lay w \<longleftrightarrow> rt_wf (shm w) \<and>
     (mem_attached (hnd w) \<longrightarrow> rt_debugp (hnd w) \<noteq> 0 \<and> mapped w \<and> addrs_ok (lay (rt_debugp (hnd w))))"

inductive api_step :: "layout \<Rightarrow> bool \<Rightarrow> world \<Rightarrow> world \<Rightarrow> bool" for lay where
  init: "RTDBG_Init lay w = Inr w' \<Longrightarrow> api_step lay (mem_attached (hnd w)) w w'"
| activate: "RTDBG_ActivateDebugDataCollection lay os w = Inr (r, w') \<Longrightarrow> os_file os = shm w \<Longrightarrow>
    (\<forall>p. os_mmap os = Some p \<longrightarrow> addrs_ok (lay p)) \<Longrightarrow> api_step lay r w w'"
| set_file: "RTDBG_SetSharedMemFile nm w = Inr w' \<Longrightarrow> api_step lay False w w'"
| attach: "RTDBG_AttachDebugData os w = Inr (r, w') \<Longrightarrow> os_file os = shm w \<Longrightarrow>
    (\<forall>p. os_mmap os = Some p \<longrightarrow> addrs_ok (lay p)) \<Longrightarrow> api_step lay False w w'"
| close: "api_step lay False w (RTDBG_Close w)"
| start: "RTDBG_Start w = Inr w' \<Longrightarrow> api_step lay False w w'"
| stop: "RTDBG_Stop w = Inr w' \<Longrightarrow> api_step lay False w w'"
| alloc_group: "RTDBG_AllocRTDebugGroup lay nm w = Inr (i, w') \<Longrightarrow> fits TRACE_STRING_SIZE nm \<Longrightarrow> api_step lay False w w'"
| alloc_counter: "RTDBG_AllocCounter grp nm w = Inr (c, w') \<Longrightarrow> fits TRACE_STRING_SIZE nm \<Longrightarrow> api_step lay False w w'"
| add_format: "RTDBG_AddTraceEntry grp fmt w = Inr (i, w') \<Longrightarrow> fits TRACE_STRING_SIZE fmt \<Longrightarrow> api_step lay False w w'"
| add_profiler: "RTDBG_AddProfiler lay grp nm w = Inr (i, w') \<Longrightarrow> fits MDO_NAME_SIZE nm \<Longrightarrow> api_step lay False w w'"
| count: "counter_update (Some (i, k)) f w = Inr w' \<Longrightarrow> i < ngroups w \<Longrightarrow> api_step lay False w w'"
| add_trace: "RTDBG_AddTrace now self junk grp tid line v0 v1 v2 v3 w = Inr w' \<Longrightarrow> api_step lay False w w'"
| add_log: "RTDBG_AddLog now grp str w = Some (Inr w') \<Longrightarrow> loggable str \<Longrightarrow> api_step lay False w w'"
| prof_flush: "RTDBG_ProfFlushMeas lay p w = Some (Inr (p', w')) \<Longrightarrow> point_ok lay p w \<Longrightarrow> api_step lay False w w'"
| prof_stop: "RTDBG_PutProfVal lay now cyc val p w = Some (Inr (p', w')) \<Longrightarrow> point_ok lay p w \<Longrightarrow> api_step lay False w w'"
| get_trace: "RTDBG_GetTraceEntry clk dst w = Inr (t, w') \<Longrightarrow> api_step lay False w w'"
| get_log: "RTDBG_GetLog now dst tm_null msk w = Inr (l, w') \<Longrightarrow> api_step lay False w w'"
| get_prof: "RTDBG_GetProfInfo grp pid gb pb w = Some (Inr (d, w')) \<Longrightarrow> MDO_NAME_SIZE \<le> length pb \<Longrightarrow> api_step lay False w w'"
| report: "RTDBG_ExtractDebugData file_ok tclk lclk w = Some (Inr (out, w')) \<Longrightarrow> api_step lay False w w'"

inductive_cases api_stepE: "api_step lay b w w'"

lemma SetSharedMemFile_grow [world_grow]: "RTDBG_SetSharedMemFile nm w = Inr w' \<Longrightarrow> world_grows w w'"
  by (auto simp: RTDBG_SetSharedMemFile_def bindE_eq_Inr world_grows_def)

lemma alloc_no_group:
  "RTDBG_AllocRTDebugGroup lay nm w = Inr (i, w') \<Longrightarrow> \<not> mem_attached (hnd w) \<Longrightarrow> w' = w"
  "RTDBG_AddProfiler lay grp nm w = Inr (i, w') \<Longrightarrow> \<not> mem_attached (hnd w) \<Longrightarrow> w' = w"
  by (simp_all add: RTDBG_AllocRTDebugGroup_def RTDBG_AddProfiler_def)

lemma AddProfiler_group: "RTDBG_AddProfiler lay grp nm w = Inr (i, w') \<Longrightarrow> mem_attached (hnd w) \<Longrightarrow> grp < num_alloc_groups (shm w)"
  by (auto simp: RTDBG_AddProfiler_def at_grp_def bindE_eq_Inr deref_eq_Inr GetDebugGrp_eq_Inr)

lemma attach_cases:
  assumes "RTDBG_AttachDebugData os w = Inr (r, w')" "os_file os = shm w"
  shows "\<not> mem_attached (hnd w) \<and> shm w' = shm w \<and>
    (mem_attached (hnd w') \<longrightarrow> rt_debugp (hnd w') \<noteq> 0 \<and> mapped w' \<and> os_mmap os = Some (rt_debugp (hnd w')))"
  using assms
  by (auto simp: RTDBG_AttachDebugData_def ASSERT_def bindE_eq_Inr Let_def map_object_def
      split: if_splits option.splits)

text \<open>The operations that reset the object leave it empty and well-formed.\<close>

lemma Init_preserves:
  assumes "RTDBG_Init lay w = Inr w'" "world_ok lay w" "mem_attached (hnd w) \<Longrightarrow> rt_shape (shm w)"
  shows "world_ok lay w' \<and> (rt_shape (shm w) \<longrightarrow> rt_shape (shm w')) \<and> (\<not> mem_attached (hnd w) \<longrightarrow> w' = w)"
proof (cases "mem_attached (hnd w)")
  case True
  then have "addrs_ok (lay (rt_debugp (hnd w)))" using assms(2) by (simp add: world_ok_def)
  with RT_Init_ok [OF assms(3) [OF True]] obtain d where
    "RT_Init (lay (rt_debugp (hnd w))) (shm w) = Inr d" "rt_wf d" "rt_shape d" by blast
  then show ?thesis using assms(1,2) True
    by (auto simp: RTDBG_Init_def InitExtractTables_def Let_def bindE_eq_Inr deref_eq_Inr world_ok_def)
qed (use assms in \<open>simp add: RTDBG_Init_def\<close>)

lemma Activate_preserves:
  assumes "RTDBG_ActivateDebugDataCollection lay os w = Inr (r, w')" "world_ok lay w"
    "r \<Longrightarrow> rt_shape (os_file os)" "\<forall>p. os_mmap os = Some p \<longrightarrow> addrs_ok (lay p)"
  shows "world_ok lay w' \<and> (rt_shape (shm w) \<longrightarrow> rt_shape (shm w')) \<and> (\<not> r \<longrightarrow> shm w' = shm w)"
proof -
  have att: "\<not> mem_attached (hnd w)" using assms(1) by (auto simp: RTDBG_ActivateDebugDataCollection_def ASSERT_def)
  have nm: "named w" using assms(1)
    by (auto simp: RTDBG_ActivateDebugDataCollection_def ASSERT_def bindE_eq_Inr c_str_def named_def split: if_splits)
  show ?thesis
  proof (cases "os_good os")
    case True
    then obtain p where p: "os_mmap os = Some p" "p \<noteq> 0" by (auto simp: os_good_def)
    have r using assms(1) True p
      by (auto simp: RTDBG_ActivateDebugDataCollection_def ASSERT_def bindE_eq_Inr os_good_def Let_def split: if_splits)
    from Activate_ok [where lay = lay, OF att nm True p(1) assms(3) [OF this]] assms(1,4) p obtain
      "attached_ok w'" "rt_debugp (hnd w') = p" "rt_shape (shm w')" by auto
    then show ?thesis using assms(4) p \<open>r\<close> by (simp add: world_ok_def attached_ok_def)
  next
    case False
    then have "w' = w\<lparr>hnd := (hnd w)\<lparr>mmapFd := os_open os\<rparr>\<rparr>"
      using assms(1) nm by (auto simp: RTDBG_ActivateDebugDataCollection_def ASSERT_def named_def os_good_def Let_def
          split: if_splits option.splits)
    then show ?thesis using assms(2) by (simp add: world_ok_def)
  qed
qed

text \<open>Preservation: every step keeps the process consistent, and lets the object grow unless it resets it.\<close>

lemma api_step_preserves:
  assumes "api_step lay b w w'" "world_ok lay w" "b \<Longrightarrow> rt_shape (shm w)"
  shows "world_ok lay w' \<and> (rt_shape (shm w) \<longrightarrow> rt_shape (shm w')) \<and> (\<not> b \<longrightarrow> rt_extends (shm w) (shm w'))"
proof -
  have wf: "rt_wf (shm w)" using assms(2) by (simp add: world_ok_def)
  have keep: ?thesis if "world_grows w w'"
    using that assms(2,3) by (auto simp: world_grows_def world_ok_def grows_def)
  have n: "ngroups w \<le> MAX_GROUP_NUM" using assms(2) rt_num by (simp add: world_ok_def ngroups_def)
  have refl: "world_grows w w'" if "w' = w" using that by simp
  show ?thesis
    using assms(1)
  proof cases
    case init
    with Init_preserves [OF init(2) assms(2)] assms(3) show ?thesis by auto
  next
    case (activate os)
    with Activate_preserves [OF activate(1) assms(2)] assms(3) show ?thesis by auto
  next
    case (attach os r)
    with attach_cases [OF attach(2,3)] assms(2,3) show ?thesis by (auto simp: world_ok_def)
  next
    case close
    with assms(2,3) show ?thesis by (simp add: world_ok_def RTDBG_Close_def)
  next
    case (alloc_group nm i)
    have "world_grows w w'"
    proof (cases "mem_attached (hnd w)")
      case True
      then show ?thesis using AllocRTDebugGroup_grow [OF alloc_group(2,3)] assms(2) by (simp add: world_ok_def)
    qed (use alloc_no_group(1) [OF alloc_group(2)] in simp)
    then show ?thesis by (rule keep)
  next
    case (add_profiler grp nm i)
    have "world_grows w w'"
    proof (cases "mem_attached (hnd w)")
      case True
      have "unat grp < MAX_GROUP_NUM"
        using AddProfiler_group [OF add_profiler(2) True] n by (simp add: word_less_nat_alt ngroups_def)
      then show ?thesis using AddProfiler_grow [OF add_profiler(2,3)] assms(2) True
        by (simp add: world_ok_def addrs_ok_def addr_ok_def)
    qed (use alloc_no_group(2) [OF add_profiler(2)] in simp)
    then show ?thesis by (rule keep)
  qed (rule keep, erule world_grow; (assumption | rule n))+
qed

subsection \<open>Steps of several processes\<close>

record system =
  handlers :: "nat \<Rightarrow> CDebugHandler \<times> bool"
  object :: CDebugRT

text \<open>What process \<open>p\<close> sees, and the system after an operation that leaves it in \<open>w\<close>.\<close>

definition view :: "nat \<Rightarrow> system \<Rightarrow> world" where
  "view p s = \<lparr>hnd = fst (handlers s p), shm = object s, mapped = snd (handlers s p)\<rparr>"

definition commit :: "nat \<Rightarrow> world \<Rightarrow> system \<Rightarrow> system" where
  "commit p w s = \<lparr>handlers = (handlers s)(p := (hnd w, mapped w)), object = shm w\<rparr>"

inductive sys_step :: "layout \<Rightarrow> bool \<Rightarrow> system \<Rightarrow> system \<Rightarrow> bool" for lay where
  proc: "api_step lay b (view p s) w \<Longrightarrow> sys_step lay b s (commit p w s)"

text \<open>A run, with the number of resets in it.\<close>

inductive reaches :: "layout \<Rightarrow> nat \<Rightarrow> system \<Rightarrow> system \<Rightarrow> bool" for lay where
  here: "reaches lay 0 s s"
| more: "reaches lay n s s1 \<Longrightarrow> sys_step lay False s1 s2 \<Longrightarrow> reaches lay n s s2"
| reset: "reaches lay n s s1 \<Longrightarrow> sys_step lay True s1 s2 \<Longrightarrow> reaches lay (Suc n) s s2"

inductive_cases sys_stepE: "sys_step lay b s s'"

definition sys_ok :: "layout \<Rightarrow> system \<Rightarrow> bool" where
  "sys_ok lay s \<longleftrightarrow> (\<forall>p. world_ok lay (view p s))"

lemma view_commit: "view q (commit p w s) = (if q = p then w else (view q s)\<lparr>shm := shm w\<rparr>)"
  by (cases w) (simp add: view_def commit_def)

lemma object_commit [simp]: "object (commit p w s) = shm w"
  by (simp add: commit_def)

lemma shm_view [simp]: "shm (view p s) = object s"
  by (simp add: view_def)

lemma sys_step_preserves:
  assumes "sys_step lay b s s'" "sys_ok lay s" "b \<Longrightarrow> rt_shape (object s)"
  shows "sys_ok lay s' \<and> (rt_shape (object s) \<longrightarrow> rt_shape (object s')) \<and> (\<not> b \<longrightarrow> rt_extends (object s) (object s'))"
proof -
  obtain p w where w: "api_step lay b (view p s) w" "s' = commit p w s" using assms(1) by (rule sys_stepE)
  have v: "world_ok lay (view q s)" for q using assms(2) by (simp add: sys_ok_def)
  have sh: "b \<Longrightarrow> rt_shape (shm (view p s))" using assms(3) by simp
  from api_step_preserves [OF w(1) v sh] have pw: "world_ok lay w" "rt_shape (object s) \<longrightarrow> rt_shape (shm w)"
    "\<not> b \<longrightarrow> rt_extends (object s) (shm w)" by simp_all
  then have g: "rt_wf (shm w)" by (simp add: world_ok_def)
  have "world_ok lay (view q s')" for q
    using pw(1) g v [of q] w(2) by (simp add: view_commit) (simp add: world_ok_def)
  then show ?thesis using pw(2,3) w(2) by (simp add: sys_ok_def)
qed

lemma reaches_preserves:
  "reaches lay n s s' \<Longrightarrow> sys_ok lay s \<Longrightarrow> rt_shape (object s) \<Longrightarrow> sys_ok lay s' \<and> rt_shape (object s')"
proof (induction rule: reaches.induct)
  case (more n s s1 s2)
  then show ?case using sys_step_preserves [OF more(2)] by simp
next
  case (reset n s s1 s2)
  then show ?case using sys_step_preserves [OF reset(2)] by simp
qed simp

lemma reaches_no_reset:
  "reaches lay n s s' \<Longrightarrow> n = 0 \<Longrightarrow> sys_ok lay s \<Longrightarrow> sys_ok lay s' \<and> rt_extends (object s) (object s')"
proof (induction rule: reaches.induct)
  case (more n s s1 s2)
  then have "sys_ok lay s1" "rt_extends (object s) (object s1)" by simp_all
  moreover from sys_step_preserves [OF more(2) this(1)]
  have "sys_ok lay s2" "rt_extends (object s1) (object s2)" by simp_all
  ultimately show ?case using rt_extends_trans by blast
qed simp_all

lemma sys_attached:
  assumes "sys_ok lay s" "mem_attached (hnd (view p s))"
  shows "attached_ok (view p s)" "addrs_ok (lay (rt_debugp (hnd (view p s))))"
  using assms by (auto simp: sys_ok_def world_ok_def attached_ok_def)

lemma reaches_on:
  assumes "reaches lay 0 s s'" "sys_ok lay s"
  shows "sys_ok lay s'" "rt_extends (object s) (object s')"
  using reaches_no_reset [OF assms(1) refl assms(2)] by simp_all

text \<open>An entry that was added to a group is found again later, also by another process.\<close>

lemma at_grp_again:
  assumes w: "attached_ok w" "at_grp n f w = Inr (x, w1)"
    and w': "attached_ok w'" "rt_extends (shm w1) (shm w')"
    and again: "\<And>g g1 g'. group_wf g \<Longrightarrow> f g = Inr (x, g1) \<Longrightarrow> group_wf g' \<Longrightarrow> group_extends g1 g' \<Longrightarrow> f' g' = Inr (x, g')"
  shows "at_grp n f' w' = Inr (x, w')"
proof -
  from w(2) attached_deref [OF w(1)] obtain g g1 where g: "GetDebugGrp n (shm w) = Inr g" "f g = Inr (x, g1)"
    "w1 = w\<lparr>shm := put_grp n g1 (shm w)\<rparr>" by (auto simp: at_grp_def bindE_eq_Inr)
  have rt: "rt_wf (shm w)" "rt_wf (shm w')" using w(1) w'(1) by (auto simp: attached_ok_def)
  have n: "n < num_alloc_groups (shm w)" "g = debug_groups (shm w) ! unat n"
    using g(1) by (auto simp: GetDebugGrp_eq_Inr)
  have "num_alloc_groups (shm w1) = num_alloc_groups (shm w)" using g(3) by simp
  then have n': "n < num_alloc_groups (shm w')"
    using n(1) w'(2) by (auto simp: rt_extends_def dest: less_le_trans)
  note at = GetDebugGrp_ok [OF rt(1) n(1)] and at' = GetDebugGrp_ok [OF rt(2) n']
  have "debug_groups (shm w1) ! unat n = g1" using g(3) at(3) by (simp add: put_grp_def)
  then have "group_extends g1 (debug_groups (shm w') ! unat n)"
    using w'(2) at(4) g(3) by (auto simp: rt_extends_def)
  with again [of g g1] at(2) g(2) n(2) at'(2)
  have "f' (debug_groups (shm w') ! unat n) = Inr (x, debug_groups (shm w') ! unat n)" by simp
  then show ?thesis using attached_deref [OF w'(1)] at'(1) by (simp add: at_grp_def put_grp_def)
qed

lemma AllocCounter_again:
  assumes w: "attached_ok w" "RTDBG_AllocCounter grp nm w = Inr (c, w1)" "fits TRACE_STRING_SIZE nm"
    and w': "attached_ok w'" "rt_extends (shm w1) (shm w')"
  shows "RTDBG_AllocCounter grp nm w' = Inr (c, w')"
proof -
  let ?f = "\<lambda>g. bindE (AllocCnt nm (event_counters g)) (\<lambda>(cnt_num, c).
    bindE (Get_counter cnt_num c) (\<lambda>k. Inr (Some (unat grp, k), g\<lparr>event_counters := c\<rparr>)))"
  have att: "mem_attached (hnd w)" "mem_attached (hnd w')" using w(1) w'(1) by (auto simp: attached_ok_def)
  have "?f g' = Inr (c, g')" if "group_wf g" "?f g = Inr (c, g1)" "group_wf g'" "group_extends g1 g'" for g g1 g'
  proof -
    have wf: "counters_wf (event_counters g)" "counters_wf (event_counters g')"
      and px: "prefix (counter_names (event_counters g1)) (counter_names (event_counters g'))"
      using that by (auto simp: group_wf_def group_extends_def)
    from that(2) obtain j ec k where j: "AllocCnt nm (event_counters g) = Inr (j, ec)" "Get_counter j ec = Inr k"
      "c = Some (unat grp, k)" "g1 = g\<lparr>event_counters := ec\<rparr>" by (auto simp: bindE_eq_Inr)
    then have again: "AllocCnt nm (event_counters g') = Inr (j, event_counters g')"
      using counters.alloc_later [OF wf(1) w(3) j(1) wf(2)] px by simp
    have "unat j < unat (num_alloc_counters (event_counters g'))"
      using counters.alloc_index [OF wf(2) w(3) again] by (simp add: length_counter_names [OF wf(2)])
    then have "Get_counter j (event_counters g') = Inr k"
      using j(2) by (auto simp: Get_counter_def ASSERT_def word_le_nat_alt split: if_splits)
    then show ?thesis using again j(3) by simp
  qed
  moreover have "at_grp grp ?f w = Inr (c, w1)" using w(2) att by (simp add: RTDBG_AllocCounter_def)
  ultimately have "at_grp grp ?f w' = Inr (c, w')"
    using at_grp_again [where n = grp and f = ?f and f' = ?f and x = c, OF w(1) _ w'] by blast
  then show ?thesis using att by (simp add: RTDBG_AllocCounter_def)
qed

lemma AddTraceEntry_again:
  assumes w: "attached_ok w" "RTDBG_AddTraceEntry grp nm w = Inr (i, w1)" "fits TRACE_STRING_SIZE nm"
    and w': "attached_ok w'" "rt_extends (shm w1) (shm w')"
  shows "RTDBG_AddTraceEntry grp nm w' = Inr (i, w')"
proof -
  let ?f = "\<lambda>g. bindE (AddTraceFormat nm (tracer g)) (\<lambda>(i, t). Inr (i, g\<lparr>tracer := t\<rparr>))"
  have att: "mem_attached (hnd w)" "mem_attached (hnd w')" using w(1) w'(1) by (auto simp: attached_ok_def)
  have "?f g' = Inr (i, g')" if "group_wf g" "?f g = Inr (i, g1)" "group_wf g'" "group_extends g1 g'" for g g1 g'
  proof -
    from that(2) obtain t where t: "AddTraceFormat nm (tracer g) = Inr (i, t)" "g1 = g\<lparr>tracer := t\<rparr>"
      by (auto simp: bindE_eq_Inr)
    then have "AddTraceFormat nm (tracer g') = Inr (i, tracer g')"
      using that formats.alloc_later [OF _ w(3) t(1)] by (auto simp: group_wf_def group_extends_def)
    then show ?thesis by simp
  qed
  moreover have "at_grp grp ?f w = Inr (i, w1)" using w(2) att by (simp add: RTDBG_AddTraceEntry_def)
  ultimately have "at_grp grp ?f w' = Inr (i, w')"
    using at_grp_again [where n = grp and f = ?f and f' = ?f and x = i, OF w(1) _ w'] by blast
  then show ?thesis using att by (simp add: RTDBG_AddTraceEntry_def)
qed

lemma AddProfiler_again:
  assumes w: "attached_ok w" "RTDBG_AddProfiler lay grp nm w = Inr (i, w1)" "fits MDO_NAME_SIZE nm"
    and w': "attached_ok w'" "rt_extends (shm w1) (shm w')"
    and a: "addrs_ok (lay (rt_debugp (hnd w)))" "addrs_ok (lay (rt_debugp (hnd w')))"
  shows "RTDBG_AddProfiler lay grp nm w' = Inr (i, w')"
proof -
  let ?b = "\<lambda>w. ga_prof (lay (rt_debugp (hnd w)) (unat grp))"
  let ?f = "\<lambda>w g. bindE (RegistryProfileEntry (?b w) nm (profiler g)) (\<lambda>(i, p). Inr (i, g\<lparr>profiler := p\<rparr>))"
  have att: "mem_attached (hnd w)" "mem_attached (hnd w')" using w(1) w'(1) by (auto simp: attached_ok_def)
  have "unat grp < MAX_GROUP_NUM"
    using AddProfiler_group [OF w(2) att(1)] ngroups_le [OF w(1)] by (simp add: word_less_nat_alt ngroups_def)
  then have b: "bases_ok (?b w)" "bases_ok (?b w')" using a by (auto simp: addrs_ok_def addr_ok_def)
  have "?f w' g' = Inr (i, g')" if "group_wf g" "?f w g = Inr (i, g1)" "group_wf g'" "group_extends g1 g'" for g g1 g'
  proof -
    from that(2) obtain p where p: "RegistryProfileEntry (?b w) nm (profiler g) = Inr (i, p)" "g1 = g\<lparr>profiler := p\<rparr>"
      by (auto simp: bindE_eq_Inr)
    have wf: "profiler_wf (profiler g) \<and> bases_ok (?b w)" "profiler_wf (profiler g') \<and> bases_ok (?b w)"
      "profiler_wf (profiler g') \<and> bases_ok (?b w')" using that(1,3) b by (auto simp: group_wf_def)
    have "prefix (profiler_names p) (profiler_names (profiler g'))" using that(4) p(2) by (simp add: group_extends_def)
    from profilers.alloc_later [OF wf(1) w(3) p(1) wf(2) this] profilers.alloc_cases [OF wf(2) w(3)]
    have "first_pos nm (profiler_names (profiler g')) = Some (unat i)" by blast
    then show ?thesis using profilers.hit [OF wf(3) w(3)] by simp
  qed
  moreover have "at_grp grp (?f w) w = Inr (i, w1)" using w(2) att by (simp add: RTDBG_AddProfiler_def)
  ultimately have "at_grp grp (?f w') w' = Inr (i, w')"
    using at_grp_again [where n = grp and f = "?f w" and f' = "?f w'" and x = i, OF w(1) _ w'] by blast
  then show ?thesis using att by (simp add: RTDBG_AddProfiler_def)
qed

lemma registered_later:
  assumes "sys_ok lay s" "api_step lay False (view p s) w" "reaches lay 0 (commit p w s) s'" "mem_attached (hnd (view q s'))"
  shows "attached_ok (view q s')" "rt_extends (shm w) (shm (view q s'))" "addrs_ok (lay (rt_debugp (hnd (view q s'))))"
proof -
  have "sys_ok lay (commit p w s)" using sys_step_preserves [OF sys_step.proc [OF assms(2)] assms(1)] by simp
  from reaches_on [OF assms(3) this] sys_attached assms(4)
  show "attached_ok (view q s')" "rt_extends (shm w) (shm (view q s'))"
    "addrs_ok (lay (rt_debugp (hnd (view q s'))))" by auto
qed

subsection \<open>Properties\<close>

text \<open>C6: preservation. Any number of processes perform operations on one shared object, in any order, each operation
  with arguments as the interface asks (names and texts that fit, points and counters of the process) and each returning;
  \<open>n\<close> of the operations reset the object (\<open>RTDBG_Init\<close> by an attached process, or a successful
  \<open>RTDBG_ActivateDebugDataCollection\<close>). Then, resets or not, the object stays well-formed and every attached handler
  mapped (at the start the handlers are consistent, the object well-formed and of the size of its type). And as long as there is no reset (\<open>n = 0\<close>), the tables of names only grow at the end: no group, counter, trace format
  or profiler is moved, renamed or lost. Operations that abort are not covered: they end their process and may leave the
  object in the middle.\<close>

theorem processes_preserve_object:
  assumes "sys_ok lay s" "rt_shape (object s)" "reaches lay n s s'"
  shows "sys_ok lay s' \<and> rt_shape (object s') \<and> rt_wf (object s') \<and>
    (\<forall>p. mem_attached (hnd (view p s')) \<longrightarrow> mapped (view p s') \<and> rt_debugp (hnd (view p s')) \<noteq> 0) \<and>
    (n = 0 \<longrightarrow> prefix (group_names (object s)) (group_names (object s')) \<and>
      (\<forall>i < unat (num_alloc_groups (object s)).
         let g = debug_groups (object s) ! i; g' = debug_groups (object s') ! i in
         prefix (counter_names (event_counters g)) (counter_names (event_counters g')) \<and>
         prefix (trace_names (tracer g)) (trace_names (tracer g')) \<and>
         prefix (profiler_names (profiler g)) (profiler_names (profiler g'))))"
proof -
  have r: "sys_ok lay s'" "rt_shape (object s')" "n = 0 \<longrightarrow> rt_extends (object s) (object s')"
    using reaches_preserves [OF assms(3,1,2)] reaches_no_reset [OF assms(3) _ assms(1)] by auto
  then have w: "world_ok lay (view p s')" for p by (simp add: sys_ok_def)
  then have "rt_wf (object s')" by (metis shm_view world_ok_def)
  moreover have "\<forall>p. mem_attached (hnd (view p s')) \<longrightarrow> mapped (view p s') \<and> rt_debugp (hnd (view p s')) \<noteq> 0"
    using w by (simp add: world_ok_def)
  ultimately show ?thesis using r by (simp add: rt_extends_def group_extends_def Let_def)
qed

text \<open>C20: handles are shared. An index that a process got for the name of a group is the one that any
  attached process gets for this name after any further operations of any processes that return and among which no reset is
  (no \<open>RTDBG_Init\<close> by an attached process and no successful \<open>RTDBG_ActivateDebugDataCollection\<close>: a reset empties the table of
  groups, and the name is then registered anew), and asking for it changes nothing.\<close>

theorem group_handle_shared:
  assumes s: "sys_ok lay s" "mem_attached (hnd (view p s))"
    and alloc: "RTDBG_AllocRTDebugGroup lay nm (view p s) = Inr (i, w)" "fits TRACE_STRING_SIZE nm"
    and later: "reaches lay 0 (commit p w s) s'" "mem_attached (hnd (view q s'))"
  shows "RTDBG_AllocRTDebugGroup lay nm (view q s') = Inr (i, view q s') \<and>
    group_names (object s') ! unat i = nm"
proof -
  note a = sys_attached [OF s]
  have "sys_step lay False s (commit p w s)" using api_step.alloc_group [OF alloc] by (rule sys_step.proc)
  from sys_step_preserves [OF this s(1)] have s1: "sys_ok lay (commit p w s)" by simp
  note s' = reaches_on [OF later(1) s1]
  have a': "attached_ok (view q s')" "addrs_ok (lay (rt_debugp (hnd (view q s'))))"
    using sys_attached s' later(2) by blast+
  from alloc(1) a(1) obtain d where d: "AllocDbgGrp (lay (rt_debugp (hnd (view p s)))) nm (object s) = Inr (i, d)"
    "shm w = d" using attached_deref [OF a(1)]
    by (auto simp: RTDBG_AllocRTDebugGroup_def bindE_eq_Inr attached_ok_def)
  let ?a = "lay (rt_debugp (hnd (view p s)))" and ?b = "lay (rt_debugp (hnd (view q s')))"
  have I: "rt_wf (object s) \<and> addrs_ok ?a" "rt_wf (object s') \<and> addrs_ok ?a" "rt_wf (object s') \<and> addrs_ok ?b"
    using a a' by (auto simp: attached_ok_def)
  have "prefix (group_names d) (group_names (object s'))" using s' d(2) by (simp add: rt_extends_def)
  from groups.alloc_later [OF I(1) alloc(2) d(1) I(2) this]
  have hit: "AllocDbgGrp ?a nm (object s') = Inr (i, object s')" .
  from groups.alloc_cases [OF I(2) alloc(2) hit] have f: "first_pos nm (group_names (object s')) = Some (unat i)" by simp
  from groups.hit [OF I(3) alloc(2) f] have "AllocDbgGrp ?b nm (object s') = Inr (i, object s')" by simp
  moreover have "group_names (object s') ! unat i = nm" using first_pos_SomeD [OF f] by simp
  ultimately show ?thesis
    using a'(1) attached_deref [OF a'(1)] by (simp add: RTDBG_AllocRTDebugGroup_def attached_ok_def)
qed

text \<open>C22: handles of members. For names that fit their buffers, the number that a process got for an event
  counter, a trace format or a profiler of a group is the one that any attached process gets for it in this group after any
  further operations of any processes that return and among which no reset is (no \<open>RTDBG_Init\<close> by an attached process and no
  successful \<open>RTDBG_ActivateDebugDataCollection\<close>), and asking for it changes nothing.\<close>

theorem member_handles_shared:
  assumes s: "sys_ok lay s" "mem_attached (hnd (view p s))" and nm: "fits TRACE_STRING_SIZE nm"
    and later: "reaches lay 0 (commit p w s) s'" "mem_attached (hnd (view q s'))"
  shows "(RTDBG_AllocCounter grp nm (view p s) = Inr (c, w) \<longrightarrow>
      RTDBG_AllocCounter grp nm (view q s') = Inr (c, view q s')) \<and>
    (RTDBG_AddTraceEntry grp nm (view p s) = Inr (i, w) \<longrightarrow>
      RTDBG_AddTraceEntry grp nm (view q s') = Inr (i, view q s')) \<and>
    (RTDBG_AddProfiler lay grp nm (view p s) = Inr (i, w) \<and> fits MDO_NAME_SIZE nm \<longrightarrow>
      RTDBG_AddProfiler lay grp nm (view q s') = Inr (i, view q s'))"
proof -
  note a = sys_attached [OF s]
  note regd = registered_later [OF s(1) _ later]
  have "RTDBG_AllocCounter grp nm (view q s') = Inr (c, view q s')"
    if al: "RTDBG_AllocCounter grp nm (view p s) = Inr (c, w)"
    using AllocCounter_again [OF a(1) al nm regd(1,2)] api_step.alloc_counter [OF al nm] by blast
  moreover have "RTDBG_AddTraceEntry grp nm (view q s') = Inr (i, view q s')"
    if al: "RTDBG_AddTraceEntry grp nm (view p s) = Inr (i, w)"
    using AddTraceEntry_again [OF a(1) al nm regd(1,2)] api_step.add_format [OF al nm] by blast
  moreover have "RTDBG_AddProfiler lay grp nm (view q s') = Inr (i, view q s')"
    if al: "RTDBG_AddProfiler lay grp nm (view p s) = Inr (i, w)" "fits MDO_NAME_SIZE nm"
    using AddProfiler_again [OF a(1) al regd(1,2) a(2) regd(3)] api_step.add_profiler [OF al] by blast
  ultimately show ?thesis by blast
qed

subsection \<open>The properties at work\<close>

text \<open>Processes that all have mapped an object with the group \<open>GEN\<close>.\<close>

lemma demo_system:
  "\<exists>s. sys_ok demo_lay s \<and> rt_shape (object s) \<and> group_names (object s) = [''GEN''] \<and> num_alloc_groups (object s) = 1 \<and>
     counter_names (event_counters (debug_groups (object s) ! 0)) = [] \<and>
     (\<forall>p. attached_ok (view p s) \<and> rt_debugp (hnd (view p s)) = 4096 \<and> mem_attached (hnd (view p s)))"
proof -
  obtain w where w: "attached_ok w" "rt_debugp (hnd w) = 4096" "ngroups w = 1" "group_names (shm w) = [''GEN'']"
    "group_fresh ''GEN'' (debug_groups (shm w) ! 0)" "rt_shape (shm w)" using demo_world by blast
  let ?s = "\<lparr>handlers = \<lambda>_. (hnd w, True), object = shm w\<rparr>"
  have "view p ?s = w" for p using w(1) by (simp add: view_def attached_ok_def)
  moreover have "world_ok demo_lay w" using w(1,2) demo_lay_ok by (simp add: world_ok_def attached_ok_def)
  moreover have "unat (num_alloc_groups (shm w)) = unat (1 :: u32)" using w(3) by (simp add: ngroups_def)
  then have "num_alloc_groups (shm w) = 1" by (simp only: word_unat_eq_iff)
  ultimately show ?thesis using w
    by (intro exI [of _ ?s]) (simp add: sys_ok_def group_fresh_def attached_ok_def)
qed

text \<open>A process of it registers a group.\<close>

lemma demo_alloc:
  assumes "sys_ok demo_lay s" "attached_ok (view p s)" "rt_debugp (hnd (view p s)) = 4096"
    "fits TRACE_STRING_SIZE nm" "nm \<notin> set (group_names (object s))" "unat (num_alloc_groups (object s)) < MAX_GROUP_NUM"
  shows "\<exists>i w. RTDBG_AllocRTDebugGroup demo_lay nm (view p s) = Inr (i, w) \<and> hnd w = hnd (view p s) \<and> mapped w \<and>
    group_names (shm w) = group_names (object s) @ [nm] \<and>
    unat (num_alloc_groups (shm w)) = Suc (unat (num_alloc_groups (object s))) \<and>
    sys_step demo_lay False s (commit p w s) \<and> sys_ok demo_lay (commit p w s)"
proof -
  obtain d where d: "RTDBG_AllocRTDebugGroup demo_lay nm (view p s) = Inr (num_alloc_groups (object s), (view p s)\<lparr>shm := d\<rparr>)"
    "group_names d = group_names (object s) @ [nm]"
    "ngroups ((view p s)\<lparr>shm := d\<rparr>) = ngroups (view p s) + 1"
    using AllocRTDebugGroup_new [where lay = demo_lay and w = "view p s" and nm = nm] assms demo_lay_ok
    by (auto simp: ngroups_def)
  have st: "sys_step demo_lay False s (commit p ((view p s)\<lparr>shm := d\<rparr>) s)"
    using api_step.alloc_group [OF d(1) assms(4)] by (rule sys_step.proc)
  show ?thesis using d st sys_step_preserves [OF st assms(1)] assms(2)
    by (intro exI [of _ "num_alloc_groups (object s)"] exI [of _ "(view p s)\<lparr>shm := d\<rparr>"])
      (simp add: ngroups_def attached_ok_def)
qed

lemma demo_names: "fits TRACE_STRING_SIZE ''A''" "fits TRACE_STRING_SIZE ''B''"
  by (simp_all add: fits_def c_string_def TRACE_STRING_SIZE_def)

text \<open>Process 1 registers \<open>A\<close>; then process 2 resets the object.\<close>

theorem processes_preserve_object_witness:
  "\<exists>s s' s2. reaches demo_lay 0 s s' \<and> group_names (object s) = [''GEN''] \<and> group_names (object s') = [''GEN'', ''A''] \<and>
     rt_wf (object s') \<and> reaches demo_lay 1 s s2 \<and> group_names (object s2) = [] \<and> rt_wf (object s2)"
proof -
  obtain s where s: "sys_ok demo_lay s" "group_names (object s) = [''GEN'']" "num_alloc_groups (object s) = 1"
    "\<forall>p. attached_ok (view p s) \<and> rt_debugp (hnd (view p s)) = 4096" "rt_shape (object s)" using demo_system by blast
  have s1: "attached_ok (view 1 s)" "rt_debugp (hnd (view 1 s)) = 4096" using s(4) by auto
  from demo_alloc [OF s(1) s1 demo_names(1)] s(2,3) obtain i w where w:
    "sys_step demo_lay False s (commit 1 w s)" "group_names (shm w) = [''GEN'', ''A'']" by (auto simp: MAX_GROUP_NUM_def)
  let ?s1 = "commit 1 w s"
  have r1: "reaches demo_lay 0 s ?s1" by (rule reaches.more [OF reaches.here w(1)])
  note ok1 = processes_preserve_object [OF s(1,5) r1]
  have v: "hnd (view 2 ?s1) = hnd (view 2 s)" "mapped (view 2 ?s1) = mapped (view 2 s)" by (simp_all add: view_commit)
  then have a: "attached_ok (view 2 ?s1)" "rt_debugp (hnd (view 2 ?s1)) = 4096"
    using s(4) ok1 by (simp_all add: attached_ok_def)
  have "rt_shape (object ?s1)" using ok1 by simp
  from RT_Init_ok [OF this demo_lay_ok] obtain d where d: "RT_Init (demo_lay 4096) (object ?s1) = Inr d" "group_names d = []"
    by blast
  let ?w2 = "(view 2 ?s1)\<lparr>hnd := InitExtractTables (hnd (view 2 ?s1)), shm := d\<rparr>"
  have "RTDBG_Init demo_lay (view 2 ?s1) = Inr ?w2"
    using a d(1) by (simp add: RTDBG_Init_def InitExtractTables_def deref_def attached_ok_def)
  then have "api_step demo_lay (mem_attached (hnd (view 2 ?s1))) (view 2 ?s1) ?w2" by (rule api_step.init)
  then have "sys_step demo_lay True ?s1 (commit 2 ?w2 ?s1)" using a(1) by (intro sys_step.proc) (simp add: attached_ok_def)
  from reaches.reset [OF r1 this] have r2: "reaches demo_lay 1 s (commit 2 ?w2 ?s1)" by simp
  from processes_preserve_object [OF s(1,5) r2] ok1 show ?thesis using s(2) w(2) d(2) r1 r2
    by (intro exI [of _ s] exI [of _ ?s1] exI [of _ "commit 2 ?w2 ?s1"]) simp
qed

text \<open>Process 0 registers \<open>A\<close>, process 1 registers \<open>B\<close>, process 2 asks for \<open>A\<close>.\<close>

theorem group_handle_shared_witness:
  "\<exists>s i w s1 j w1. RTDBG_AllocRTDebugGroup demo_lay ''A'' (view 0 s) = Inr (i, w) \<and> s1 = commit 0 w s \<and>
     RTDBG_AllocRTDebugGroup demo_lay ''B'' (view 1 s1) = Inr (j, w1) \<and>
     RTDBG_AllocRTDebugGroup demo_lay ''A'' (view 2 (commit 1 w1 s1)) = Inr (i, view 2 (commit 1 w1 s1))"
proof -
  obtain s where s: "sys_ok demo_lay s" "group_names (object s) = [''GEN'']" "num_alloc_groups (object s) = 1"
    "\<forall>p. attached_ok (view p s) \<and> rt_debugp (hnd (view p s)) = 4096 \<and> mem_attached (hnd (view p s))" using demo_system by blast
  have s0: "attached_ok (view 0 s)" "rt_debugp (hnd (view 0 s)) = 4096" using s(4) by auto
  from demo_alloc [OF s(1) s0 demo_names(1)] s(2,3) obtain i w where w:
    "RTDBG_AllocRTDebugGroup demo_lay ''A'' (view 0 s) = Inr (i, w)" "group_names (shm w) = [''GEN'', ''A'']"
    "unat (num_alloc_groups (shm w)) = 2" "sys_ok demo_lay (commit 0 w s)" by (auto simp: MAX_GROUP_NUM_def)
  let ?s = "commit 0 w s"
  have v1: "hnd (view 1 ?s) = hnd (view 1 s)" by (simp add: view_commit)
  then have s1: "mem_attached (hnd (view 1 ?s))" "rt_debugp (hnd (view 1 ?s)) = 4096" using s(4) by simp_all
  from demo_alloc [OF w(4) sys_attached(1) [OF w(4) s1(1)] s1(2) demo_names(2)] w(2,3) obtain j w1 where w1:
    "RTDBG_AllocRTDebugGroup demo_lay ''B'' (view 1 ?s) = Inr (j, w1)" "sys_step demo_lay False ?s (commit 1 w1 ?s)"
    by (auto simp: MAX_GROUP_NUM_def)
  have r: "reaches demo_lay 0 ?s (commit 1 w1 ?s)" using reaches.more [OF reaches.here w1(2)] .
  have "hnd (view 2 (commit 1 w1 ?s)) = hnd (view 2 s)" by (simp add: view_commit)
  then have "mem_attached (hnd (view 2 (commit 1 w1 ?s)))" using s(4) by simp
  from group_handle_shared [OF s(1) _ w(1) demo_names(1) r this] s(4) w(1) w1(1) show ?thesis by blast
qed

theorem member_handles_shared_witness:
  "\<exists>s c w. RTDBG_AllocCounter 0 ''A'' (view 0 s) = Inr (c, w) \<and>
     RTDBG_AllocCounter 0 ''A'' (view 1 (commit 0 w s)) = Inr (c, view 1 (commit 0 w s))"
proof -
  obtain s where s: "sys_ok demo_lay s" "num_alloc_groups (object s) = 1"
    "counter_names (event_counters (debug_groups (object s) ! 0)) = []"
    "\<forall>p. attached_ok (view p s) \<and> mem_attached (hnd (view p s))" using demo_system by blast
  let ?g = "debug_groups (object s) ! 0"
  have a: "attached_ok (view 0 s)" using s(4) by simp
  have g: "GetDebugGrp 0 (object s) = Inr ?g" "group_wf ?g"
    using GetDebugGrp_ok(1,2) [of "object s" 0] a s(2) by (simp_all add: attached_ok_def)
  then have wf: "counters_wf (event_counters ?g)" by (simp add: group_wf_def)
  from counters.miss [OF wf demo_names(1)] s(3) obtain c where c: "AllocCnt ''A'' (event_counters ?g) = Inr (0, c)"
    "counters_wf c" by (auto simp: NUM_COUNTERS_def)
  have "Get_counter 0 c = Inr 0" by (simp add: Get_counter_def)
  with c(1) g(1) a attached_deref [OF a] obtain w where w: "RTDBG_AllocCounter 0 ''A'' (view 0 s) = Inr (Some (0, 0), w)"
    by (simp add: RTDBG_AllocCounter_def at_grp_def attached_ok_def)
  have "mem_attached (hnd (view 0 s))" "mem_attached (hnd (view 1 (commit 0 w s)))" using s(4) by (simp_all add: view_commit)
  from member_handles_shared [OF s(1) this(1) demo_names(1) reaches.here this(2)] w show ?thesis by blast
qed

end
