(* ===== verification/Registry.thy ===== *)
theory Registry
  imports API_Steps
begin

section \<open>What is registered: an abstract catalogue\<close>

text \<open>
  The abstract specification of the registration operations. A catalogue is the list of groups,
  each with its name and the names of its event counters, trace formats and profilers; registering
  a name gives its position, and adds it at the end when it is new. \<open>catalog_of\<close> reads the catalogue
  off the shared object, and each operation of the handler implements the abstract one as long as
  the result is within the sizes of the tables.
\<close>

subsection \<open>The catalogue\<close>

type_synonym catalog = "(string \<times> string list \<times> string list \<times> string list) list"

datatype reg = RGroup string | RCounter string string | RFormat string string | RProfiler string string

fun reg_entry :: "reg \<Rightarrow> string list \<times> string list \<times> string list \<Rightarrow> nat \<times> (string list \<times> string list \<times> string list)" where
  "reg_entry (RCounter g nm) (c, t, p) = (let (i, c) = enter nm c in (i, (c, t, p)))"
| "reg_entry (RFormat g nm) (c, t, p) = (let (i, t) = enter nm t in (i, (c, t, p)))"
| "reg_entry (RProfiler g nm) (c, t, p) = (let (i, p) = enter nm p in (i, (c, t, p)))"
| "reg_entry (RGroup nm) e = (0, e)"

fun reg_target :: "reg \<Rightarrow> string" where
  "reg_target (RGroup nm) = nm"
| "reg_target (RCounter g nm) = g"
| "reg_target (RFormat g nm) = g"
| "reg_target (RProfiler g nm) = g"

definition is_group :: "reg \<Rightarrow> bool" where
  "is_group r \<longleftrightarrow> (case r of RGroup _ \<Rightarrow> True | _ \<Rightarrow> False)"

definition reg_step :: "reg \<Rightarrow> catalog \<Rightarrow> nat \<times> catalog" where
  "reg_step r cat =
     (case first_pos (reg_target r) (map fst cat) of
        None \<Rightarrow> if is_group r then (length cat, cat @ [(reg_target r, [], [def_format], [])]) else (0, cat)
      | Some k \<Rightarrow> if is_group r then (k, cat)
                  else (let (i, e) = reg_entry r (snd (cat ! k)) in (i, cat[k := (fst (cat ! k), e)])))"

fun reg_run :: "reg list \<Rightarrow> catalog \<Rightarrow> nat list \<times> catalog" where
  "reg_run [] cat = ([], cat)"
| "reg_run (r # ops) cat = (let (i, cat) = reg_step r cat; (is, cat) = reg_run ops cat in (i # is, cat))"

text \<open>The sizes of the tables.\<close>

fun entry_bounded :: "string list \<times> string list \<times> string list \<Rightarrow> bool" where
  "entry_bounded (c, t, p) \<longleftrightarrow> length c \<le> NUM_COUNTERS - 1 \<and> length t \<le> MAX_TRACE_FORMATS \<and> length p \<le> PROF_GROUP_MAX"

definition bounded :: "catalog \<Rightarrow> bool" where
  "bounded cat \<longleftrightarrow> length cat \<le> MAX_GROUP_NUM \<and> (\<forall>e \<in> set cat. entry_bounded (snd e))"

definition settled :: "reg \<Rightarrow> nat \<Rightarrow> catalog \<Rightarrow> bool" where
  "settled r i cat \<longleftrightarrow> reg_step r cat = (i, cat) \<and> reg_target r \<in> fst ` set cat"

subsection \<open>Laws of the catalogue\<close>

definition entry_extends ::
  "string list \<times> string list \<times> string list \<Rightarrow> string list \<times> string list \<times> string list \<Rightarrow> bool" where
  "entry_extends e e' \<longleftrightarrow> prefix (fst e) (fst e') \<and> prefix (fst (snd e)) (fst (snd e')) \<and> prefix (snd (snd e)) (snd (snd e'))"

definition cat_extends :: "catalog \<Rightarrow> catalog \<Rightarrow> bool" where
  "cat_extends cat cat' \<longleftrightarrow> prefix (map fst cat) (map fst cat') \<and>
     (\<forall>k < length cat. entry_extends (snd (cat ! k)) (snd (cat' ! k)))"

lemma entry_extends_refl [simp]: "entry_extends e e"
  by (simp add: entry_extends_def)

lemma cat_extends_refl [simp]: "cat_extends cat cat"
  by (simp add: cat_extends_def)

lemma cat_extends_length: "cat_extends a b \<Longrightarrow> length a \<le> length b"
  by (metis cat_extends_def length_map prefix_length_le)

lemma entry_extends_trans: "entry_extends a b \<Longrightarrow> entry_extends b c \<Longrightarrow> entry_extends a c"
  unfolding entry_extends_def by (meson prefix_order.trans)

lemma cat_extends_trans:
  assumes "cat_extends a b" "cat_extends b c"
  shows "cat_extends a c"
proof -
  have "entry_extends (snd (a ! k)) (snd (c ! k))" if k: "k < length a" for k
  proof (rule entry_extends_trans)
    show "entry_extends (snd (a ! k)) (snd (b ! k))" using assms(1) k by (simp add: cat_extends_def)
    have "k < length b" using k cat_extends_length [OF assms(1)] by simp
    then show "entry_extends (snd (b ! k)) (snd (c ! k))" using assms(2) by (simp add: cat_extends_def)
  qed
  moreover have "prefix (map fst a) (map fst c)"
  proof (rule prefix_order.trans)
    show "prefix (map fst a) (map fst b)" using assms(1) by (simp add: cat_extends_def)
    show "prefix (map fst b) (map fst c)" using assms(2) by (simp add: cat_extends_def)
  qed
  ultimately show ?thesis by (simp add: cat_extends_def)
qed

lemma reg_entry_extends: "entry_extends e (snd (reg_entry r e))"
  using enter_in by (cases "(r, e)" rule: reg_entry.cases) (auto simp: entry_extends_def Let_def split: prod.splits)

lemma reg_step_extends: "cat_extends cat (snd (reg_step r cat))"
proof (cases "first_pos (reg_target r) (map fst cat)")
  case None
  then show ?thesis by (simp add: reg_step_def cat_extends_def nth_append)
next
  case (Some k)
  then have k: "k < length cat" using first_pos_SomeD [OF Some] by simp
  have "map fst (cat[k := (fst (cat ! k), e)]) = map fst cat" for e
    using k by (simp add: map_update list_update_same_conv)
  moreover have "entry_extends (snd (cat ! j)) (snd (cat[k := (fst (cat ! k), snd (reg_entry r (snd (cat ! k))))] ! j))" for j
    using k reg_entry_extends [of "snd (cat ! k)" r] by (cases "j = k") auto
  ultimately show ?thesis using Some by (simp add: reg_step_def cat_extends_def Let_def split_beta)
qed

lemma reg_run_extends: "cat_extends cat (snd (reg_run ops cat))"
proof (induction ops arbitrary: cat)
  case (Cons r ops)
  from cat_extends_trans [OF reg_step_extends [of cat r] Cons] show ?case by (simp add: Let_def split_beta)
qed simp

lemma bounded_mono:
  assumes "cat_extends a b" "bounded b"
  shows "bounded a"
proof -
  note l = cat_extends_length [OF assms(1)]
  have "entry_bounded (snd (a ! k))" if k: "k < length a" for k
  proof -
    have "entry_extends (snd (a ! k)) (snd (b ! k))" using assms(1) k by (simp add: cat_extends_def)
    moreover have "entry_bounded (snd (b ! k))" using assms(2) k l by (simp add: bounded_def)
    ultimately show ?thesis
      by (cases "snd (a ! k)"; cases "snd (b ! k)") (auto simp: entry_extends_def dest!: prefix_length_le)
  qed
  then have "entry_bounded (snd e)" if "e \<in> set a" for e using that by (metis in_set_conv_nth)
  then show ?thesis using assms(2) l by (auto simp: bounded_def)
qed

lemma reg_step_settles:
  assumes "reg_step r cat = (i, cat')" "is_group r \<or> reg_target r \<in> fst ` set cat"
  shows "settled r i cat'"
proof (cases "first_pos (reg_target r) (map fst cat)")
  case None
  then have "is_group r" using assms(2) by (auto simp: first_pos_None_iff)
  then show ?thesis using None assms(1)
    by (auto simp: reg_step_def settled_def first_pos_append_miss first_pos_None_iff)
next
  case (Some k)
  then have k: "k < length cat" "fst (cat ! k) = reg_target r" using first_pos_SomeD [OF Some] by auto
  show ?thesis
  proof (cases "is_group r")
    case True
    have "reg_target r \<in> fst ` set cat" using k by (metis image_eqI nth_mem)
    then show ?thesis using True Some assms(1) by (simp add: reg_step_def settled_def)
  next
    case False
    obtain e where e: "reg_entry r (snd (cat ! k)) = (i, e)" "cat' = cat[k := (fst (cat ! k), e)]"
      using Some assms(1) False by (auto simp: reg_step_def Let_def split: prod.splits)
    have "map fst cat' = map fst cat" using e(2) k(1) by (simp add: map_update list_update_same_conv)
    moreover have "reg_entry r e = (i, e)"
      using e(1) enter_in False
      by (cases "(r, snd (cat ! k))" rule: reg_entry.cases) (auto simp: Let_def is_group_def split: prod.splits)
    moreover have "reg_target r \<in> fst ` set cat" using k by (metis image_eqI nth_mem)
    moreover have "fst ` set cat' = fst ` set cat" using calculation(1) by (metis list.set_map)
    ultimately show ?thesis using Some False e k(1) by (simp add: reg_step_def settled_def)
  qed
qed

lemma reg_entry_keeps:
  assumes "reg_entry r e = (i, e)" "entry_extends e e'" "\<not> is_group r"
  shows "reg_entry r e' = (i, e')"
proof -
  obtain c t p c' t' p' where e: "e = (c, t, p)" "e' = (c', t', p')" by (metis prod.exhaust)
  have px: "prefix c c'" "prefix t t'" "prefix p p'" using assms(2) e by (auto simp: entry_extends_def)
  show ?thesis
  proof (cases r)
    case (RCounter g nm)
    have "enter nm c = (i, c)" using assms(1) e RCounter by (auto simp: Let_def split: prod.splits)
    from enter_prefix [OF this px(1)] show ?thesis using e RCounter by simp
  next
    case (RFormat g nm)
    have "enter nm t = (i, t)" using assms(1) e RFormat by (auto simp: Let_def split: prod.splits)
    from enter_prefix [OF this px(2)] show ?thesis using e RFormat by simp
  next
    case (RProfiler g nm)
    have "enter nm p = (i, p)" using assms(1) e RProfiler by (auto simp: Let_def split: prod.splits)
    from enter_prefix [OF this px(3)] show ?thesis using e RProfiler by simp
  qed (use assms(3) in \<open>simp add: is_group_def\<close>)
qed

lemma settled_extends:
  assumes "settled r i cat" "cat_extends cat cat'"
  shows "settled r i cat'"
proof -
  have t: "reg_target r \<in> set (map fst cat)" using assms(1) by (simp add: settled_def)
  obtain zs where zs: "map fst cat' = map fst cat @ zs" using assms(2) by (auto simp: cat_extends_def prefix_def)
  obtain k where k: "first_pos (reg_target r) (map fst cat) = Some k" using t first_pos_None_iff by fastforce
  then have k': "first_pos (reg_target r) (map fst cat') = Some k" using t zs by (simp add: first_pos_append_hit)
  have kl: "k < length cat" using first_pos_SomeD [OF k] by simp
  have "reg_target r \<in> fst ` set cat'" using t zs by (metis Un_iff list.set_map set_append)
  moreover have "reg_step r cat' = (i, cat')"
  proof (cases "is_group r")
    case True
    then show ?thesis using assms(1) k k' by (simp add: settled_def reg_step_def)
  next
    case False
    obtain j e where e: "reg_entry r (snd (cat ! k)) = (j, e)" by (metis surj_pair)
    then have "j = i" "cat[k := (fst (cat ! k), e)] = cat"
      using assms(1) k False by (simp_all add: settled_def reg_step_def)
    then have "reg_entry r (snd (cat ! k)) = (i, snd (cat ! k))"
      using e kl by (metis nth_list_update_eq snd_conv)
    from reg_entry_keeps [OF this _ False] have "reg_entry r (snd (cat' ! k)) = (i, snd (cat' ! k))"
      using assms(2) kl by (simp add: cat_extends_def)
    then show ?thesis using k' False by (simp add: reg_step_def)
  qed
  ultimately show ?thesis by (simp add: settled_def)
qed

text \<open>Registering everything a second time, also after others have registered more, gives the same
  numbers and adds nothing.\<close>

fun groups_first :: "string set \<Rightarrow> reg list \<Rightarrow> bool" where
  "groups_first seen [] = True"
| "groups_first seen (r # ops) = ((is_group r \<or> reg_target r \<in> seen) \<and> groups_first (insert (reg_target r) seen) ops)"

lemma reg_run_settled:
  "groups_first seen ops \<Longrightarrow> seen \<subseteq> fst ` set cat \<Longrightarrow> cat_extends (snd (reg_run ops cat)) cat' \<Longrightarrow>
   reg_run ops cat' = (fst (reg_run ops cat), cat')"
proof (induction ops arbitrary: seen cat)
  case (Cons r ops)
  obtain i cat1 where 1: "reg_step r cat = (i, cat1)" by fastforce
  obtain js cat2 where 2: "reg_run ops cat1 = (js, cat2)" by fastforce
  have s: "settled r i cat1" using reg_step_settles [OF 1] Cons.prems(1,2) by auto
  have x: "cat_extends cat cat1" "cat_extends cat1 cat2" using reg_step_extends [of cat r] reg_run_extends [of cat1 ops] 1 2 by simp_all
  have c: "cat_extends cat2 cat'" using Cons.prems(3) 1 2 by simp
  have "fst ` set cat \<subseteq> fst ` set cat1"
    using x(1) unfolding cat_extends_def by (metis list.set_map set_mono_prefix)
  then have "insert (reg_target r) seen \<subseteq> fst ` set cat1" using Cons.prems(2) s by (auto simp: settled_def)
  with Cons.IH [of "insert (reg_target r) seen" cat1] Cons.prems(1) c 2 have "reg_run ops cat' = (js, cat')" by simp
  moreover have "reg_step r cat' = (i, cat')"
    using settled_extends [OF s cat_extends_trans [OF x(2) c]] by (simp add: settled_def)
  ultimately show ?case using 1 2 by simp
qed simp

lemma length_reg_run [simp]: "length (fst (reg_run ops cat)) = length ops"
  by (induction ops arbitrary: cat) (auto simp: Let_def split_beta)

lemma reg_run_append:
  "reg_run (xs @ ys) cat = (fst (reg_run xs cat) @ fst (reg_run ys (snd (reg_run xs cat))), snd (reg_run ys (snd (reg_run xs cat))))"
  by (induction xs arbitrary: cat) (auto simp: Let_def split_beta)

lemma groups_first_mono: "groups_first seen ops \<Longrightarrow> seen \<subseteq> seen' \<Longrightarrow> groups_first seen' ops"
proof (induction ops arbitrary: seen seen')
  case (Cons r ops)
  then have "groups_first (insert (reg_target r) seen') ops" by (meson groups_first.simps(2) insert_mono)
  with Cons.prems show ?case by auto
qed simp

lemma reg_run_each_settled:
  assumes "groups_first seen ops" "seen \<subseteq> fst ` set cat" "k < length ops"
  shows "settled (ops ! k) (fst (reg_run ops cat) ! k) (snd (reg_run ops cat))"
  using assms
proof (induction ops arbitrary: seen cat k)
  case (Cons r ops)
  obtain i cat1 where 1: "reg_step r cat = (i, cat1)" by fastforce
  have s: "settled r i cat1" using reg_step_settles [OF 1] Cons.prems(1,2) by auto
  have x: "cat_extends cat cat1" using reg_step_extends [of cat r] 1 by simp
  show ?case
  proof (cases k)
    case 0
    then show ?thesis using settled_extends [OF s reg_run_extends] 1 by (simp add: Let_def split_beta)
  next
    case (Suc m)
    have "fst ` set cat \<subseteq> fst ` set cat1"
      using x unfolding cat_extends_def by (metis list.set_map set_mono_prefix)
    then have "insert (reg_target r) seen \<subseteq> fst ` set cat1" using Cons.prems(2) s by (auto simp: settled_def)
    with Cons.IH [of "insert (reg_target r) seen" cat1 m] Cons.prems(1,3) Suc 1 show ?thesis
      by (simp add: Let_def split_beta)
  qed
qed simp

lemma settled_group: "settled (RGroup nm) i cat \<Longrightarrow> first_pos nm (map fst cat) = Some i"
  by (auto simp: settled_def reg_step_def is_group_def split: option.splits)

subsection \<open>The catalogue of the shared object\<close>

definition entry_of :: "CGroupDebugRT \<Rightarrow> string \<times> string list \<times> string list \<times> string list" where
  "entry_of g = (str_of (gd_group_name g), counter_names (event_counters g), trace_names (tracer g), profiler_names (profiler g))"

definition catalog_of :: "CDebugRT \<Rightarrow> catalog" where
  "catalog_of d = map entry_of (take (unat (num_alloc_groups d)) (debug_groups d))"

lemma catalog_names [simp]: "map fst (catalog_of d) = group_names d"
  by (simp add: catalog_of_def entry_of_def group_names_def array_names_def)

lemma length_catalog: "attached_ok w \<Longrightarrow> length (catalog_of (shm w)) = ngroups w"
  using length_group_names [of "shm w"] catalog_names [of "shm w"]
  by (metis attached_ok_def length_map ngroups_def)

lemma catalog_at: "attached_ok w \<Longrightarrow> i < ngroups w \<Longrightarrow> catalog_of (shm w) ! i = entry_of (debug_groups (shm w) ! i)"
  using group_at(3) [of w i] by (simp add: catalog_of_def ngroups_def)

lemma catalog_put_grp:
  "unat n < unat (num_alloc_groups d) \<Longrightarrow> catalog_of (put_grp n g d) = (catalog_of d)[unat n := entry_of g]"
  by (simp add: catalog_of_def put_grp_def take_update_swap map_update)

lemma catalog_bounded:
  assumes "rt_wf d"
  shows "bounded (catalog_of d)"
proof -
  have "entry_bounded (snd (entry_of g))" if "g \<in> set (take (unat (num_alloc_groups d)) (debug_groups d))" for g
  proof -
    have g: "group_wf g" using assms that by (simp add: rt_wf_def)
    then have wf: "counters_wf (event_counters g)" "trace_wf (tracer g)" "profiler_wf (profiler g)" by (auto simp: group_wf_def)
    then have "trace_arrays_wf (tracer g)" by (simp add: trace_wf_def)
    from wf this length_trace_names [OF this] profiler_num(1) [OF wf(3)] show ?thesis
      by (auto simp: entry_of_def length_counter_names length_profiler_names counters_wf_def trace_arrays_wf_def name_array_def)
  qed
  moreover have "length (catalog_of d) \<le> MAX_GROUP_NUM"
    using rt_num [OF assms] by (simp add: catalog_of_def)
  ultimately show ?thesis by (auto simp: bounded_def catalog_of_def)
qed

lemma catalog_extends:
  assumes "rt_wf d" "rt_wf d'" "rt_extends d d'"
  shows "cat_extends (catalog_of d) (catalog_of d')"
proof -
  let ?n = "unat (num_alloc_groups d)" and ?n' = "unat (num_alloc_groups d')"
  have l: "?n \<le> length (debug_groups d)" "?n' \<le> length (debug_groups d')" "?n \<le> ?n'"
    using assms by (auto simp: rt_wf_def name_array_def rt_extends_def word_le_nat_alt)
  have "entry_extends (snd (catalog_of d ! k)) (snd (catalog_of d' ! k))" if "k < length (catalog_of d)" for k
    using that assms(3) l by (auto simp: catalog_of_def entry_of_def entry_extends_def rt_extends_def group_extends_def)
  then show ?thesis using assms(3) by (simp add: cat_extends_def rt_extends_def)
qed

text \<open>A process that can register: attached, with buffers where the library can use them.\<close>

definition can_register :: "layout \<Rightarrow> world \<Rightarrow> bool" where
  "can_register lay w \<longleftrightarrow> attached_ok w \<and> addrs_ok (lay (rt_debugp (hnd w)))"

lemma reg_group:
  assumes w: "can_register lay w" and nm: "fits TRACE_STRING_SIZE nm"
    and r: "reg_step (RGroup nm) (catalog_of (shm w)) = (i, cat)" "bounded cat"
  shows "\<exists>w'. RTDBG_AllocRTDebugGroup lay nm w = Inr (of_nat i, w') \<and> can_register lay w' \<and>
    catalog_of (shm w') = cat \<and> hnd w' = hnd w \<and> active (shm w') = active (shm w)"
proof (cases "nm \<in> set (group_names (shm w))")
  case True
  then obtain k where k: "first_pos nm (group_names (shm w)) = Some k" using first_pos_None_iff by fastforce
  have a: "attached_ok w" "addrs_ok (lay (rt_debugp (hnd w)))" using w by (auto simp: can_register_def)
  then have "rt_wf (shm w) \<and> addrs_ok (lay (rt_debugp (hnd w)))" by (simp add: attached_ok_def)
  from groups.hit [OF this nm k] have "RTDBG_AllocRTDebugGroup lay nm w = Inr (of_nat k, w)"
    using attached_deref [OF a(1)] a(1) by (simp add: RTDBG_AllocRTDebugGroup_def attached_ok_def)
  then show ?thesis using r(1) k w by (simp add: reg_step_def is_group_def)
next
  case False
  have a: "attached_ok w" "addrs_ok (lay (rt_debugp (hnd w)))" using w by (auto simp: can_register_def)
  have c: "i = length (catalog_of (shm w))" "cat = catalog_of (shm w) @ [(nm, [], [def_format], [])]"
    using False r(1) by (auto simp: reg_step_def is_group_def)
  then have n: "ngroups w < MAX_GROUP_NUM" using r(2) length_catalog [OF a(1)] by (simp add: bounded_def)
  from AllocRTDebugGroup_new [where lay = lay, OF a nm False n] obtain d g where d:
    "RTDBG_AllocRTDebugGroup lay nm w = Inr (num_alloc_groups (shm w), w\<lparr>shm := d\<rparr>)" "attached_ok (w\<lparr>shm := d\<rparr>)"
    "active d = active (shm w)" "group_fresh nm g" "ngroups (w\<lparr>shm := d\<rparr>) = ngroups w + 1"
    "debug_groups d = (debug_groups (shm w))[ngroups w := g]" by blast
  have "ngroups w < length (debug_groups (shm w))" using group_at(3) [OF d(2), of "ngroups w"] d(5,6) by simp
  then have "catalog_of d = catalog_of (shm w) @ [entry_of g]"
    using d(5,6) by (simp add: catalog_of_def ngroups_def take_Suc_list_update)
  moreover have "entry_of g = (nm, [], [def_format], [])" using d(4) by (simp add: entry_of_def group_fresh_def)
  ultimately have "catalog_of d = cat" using c(2) by simp
  moreover have "num_alloc_groups (shm w) = of_nat i" using c(1) length_catalog [OF a(1)] by (simp add: ngroups_def)
  ultimately show ?thesis using d(1-3) a(2) by (auto simp: can_register_def)
qed

text \<open>The operations inside a group.\<close>

lemma at_grp_register:
  assumes w: "can_register lay w" and k: "k < ngroups w"
    and f: "f (debug_groups (shm w) ! k) = Inr (x, g)" "group_wf g" "gd_group_name g = gd_group_name (debug_groups (shm w) ! k)"
  shows "\<exists>w'. at_grp (of_nat k) f w = Inr (x, w') \<and> can_register lay w' \<and> hnd w' = hnd w \<and>
    catalog_of (shm w') = (catalog_of (shm w))[k := entry_of g] \<and> active (shm w') = active (shm w)"
proof -
  have a: "attached_ok w" using w by (simp add: can_register_def)
  note at = group_at [OF a k]
  let ?w = "w\<lparr>shm := put_grp (of_nat k) g (shm w)\<rparr>"
  have "at_grp (of_nat k) f w = Inr (x, ?w)" using attached_deref [OF a] at(1) f(1) by (simp add: at_grp_def)
  moreover have "rt_wf (put_grp (of_nat k) g (shm w))"
    using a at(4,5) f(2,3) by (intro put_grp_wf(1)) (simp_all add: attached_ok_def)
  then have "can_register lay ?w" using w by (simp add: can_register_def attached_ok_def)
  ultimately show ?thesis using catalog_put_grp [of "of_nat k" "shm w" g] at(4) k by (auto simp: ngroups_def)
qed

lemma reg_member_step:
  assumes "first_pos (reg_target r) (group_names (shm w)) = Some k" "\<not> is_group r" "attached_ok w" "k < ngroups w"
    "reg_step r (catalog_of (shm w)) = (i, cat)"
  obtains e where "reg_entry r (snd (entry_of (debug_groups (shm w) ! k))) = (i, e)"
    "cat = (catalog_of (shm w))[k := (str_of (gd_group_name (debug_groups (shm w) ! k)), e)]"
  using assms catalog_at [OF assms(3,4)]
  by (cases "reg_entry r (snd (entry_of (debug_groups (shm w) ! k)))") (auto simp: reg_step_def entry_of_def)

lemma bounded_update: "bounded (cat[k := (nm, e)]) \<Longrightarrow> k < length cat \<Longrightarrow> entry_bounded e"
  by (auto simp: bounded_def dest!: bspec [where x = "(nm, e)"] intro: set_update_memI)

text \<open>The group of a registration, and its entry before and after.\<close>

lemma reg_member:
  assumes w: "can_register lay w" and g: "first_pos (reg_target r) (group_names (shm w)) = Some k"
    and r: "reg_step r (catalog_of (shm w)) = (i, cat)" "bounded cat" "\<not> is_group r"
  obtains e where "attached_ok w" "k < ngroups w" "group_wf (debug_groups (shm w) ! k)" "unat (of_nat k :: u32) = k"
    "reg_entry r (snd (entry_of (debug_groups (shm w) ! k))) = (i, e)" "entry_bounded e"
    "cat = (catalog_of (shm w))[k := (str_of (gd_group_name (debug_groups (shm w) ! k)), e)]"
proof -
  have a: "attached_ok w" using w by (simp add: can_register_def)
  then have k: "k < ngroups w"
    using first_pos_SomeD [OF g] length_group_names [of "shm w"] by (simp add: attached_ok_def ngroups_def)
  obtain e where e: "reg_entry r (snd (entry_of (debug_groups (shm w) ! k))) = (i, e)"
    "cat = (catalog_of (shm w))[k := (str_of (gd_group_name (debug_groups (shm w) ! k)), e)]"
    using reg_member_step [OF g r(3) a k r(1)] .
  moreover have "entry_bounded e"
    using bounded_update [of _ k _ e] r(2) e(2) k length_catalog [OF a] by auto
  ultimately show ?thesis using that a k group_at(2,4) [OF a k] by blast
qed

lemma reg_counter:
  assumes w: "can_register lay w" and nm: "fits TRACE_STRING_SIZE nm"
    and g: "first_pos gn (group_names (shm w)) = Some k"
    and r: "reg_step (RCounter gn nm) (catalog_of (shm w)) = (i, cat)" "bounded cat"
  shows "\<exists>w'. RTDBG_AllocCounter (of_nat k) nm w = Inr (Some (k, i), w') \<and> can_register lay w' \<and>
    catalog_of (shm w') = cat \<and> hnd w' = hnd w \<and> active (shm w') = active (shm w)"
proof -
  let ?g = "debug_groups (shm w) ! k" and ?c = "event_counters (debug_groups (shm w) ! k)"
  have t: "first_pos (reg_target (RCounter gn nm)) (group_names (shm w)) = Some k" "\<not> is_group (RCounter gn nm)"
    using g by (simp_all add: is_group_def)
  obtain e where k: "attached_ok w" "k < ngroups w" "group_wf ?g" "unat (of_nat k :: u32) = k"
    and e: "reg_entry (RCounter gn nm) (snd (entry_of ?g)) = (i, e)" "entry_bounded e"
      "cat = (catalog_of (shm w))[k := (str_of (gd_group_name ?g), e)]"
    using reg_member [OF w t(1) r t(2)] .
  then obtain cs where cs: "enter nm (counter_names ?c) = (i, cs)" "e = (cs, snd (snd (entry_of ?g)))"
    by (auto simp: entry_of_def split: prod.splits)
  have l: "length cs \<le> NUM_COUNTERS - 1" using e(2) cs(2) by (simp add: entry_of_def)
  have wf: "counters_wf ?c" using k(3) by (simp add: group_wf_def)
  from counters.alloc_enter [OF wf nm cs(1) l] obtain c where
    c: "AllocCnt nm ?c = Inr (of_nat i, c)" "counter_names c = cs" "counters_wf c" by blast
  have "i < length cs" using enter_less [OF cs(1)] by simp
  moreover from this l have "unat (of_nat i :: u32) = i" by (intro unat_of_nat_u32) (simp add: NUM_COUNTERS_def)
  ultimately have i: "unat (of_nat i :: u32) = i" "i < length cs" by simp_all
  then have "Get_counter (of_nat i) c = Inr i"
    using length_counter_names [OF c(3)] c(2) by (simp add: Get_counter_def word_le_nat_alt)
  then have f: "bindE (AllocCnt nm ?c) (\<lambda>(cnt_num, c). bindE (Get_counter cnt_num c)
      (\<lambda>k'. Inr (Some (unat (of_nat k :: u32), k'), ?g\<lparr>event_counters := c\<rparr>))) = Inr (Some (k, i), ?g\<lparr>event_counters := c\<rparr>)"
    using c(1) k(4) by simp
  have "group_wf (?g\<lparr>event_counters := c\<rparr>)" using k(3) c(3) by (simp add: group_wf_def)
  from at_grp_register [where f = "\<lambda>g. bindE (AllocCnt nm (event_counters g)) (\<lambda>(cnt_num, c). bindE (Get_counter cnt_num c)
      (\<lambda>k'. Inr (Some (unat (of_nat k :: u32), k'), g\<lparr>event_counters := c\<rparr>)))", OF w k(2) f this]
  show ?thesis using k(1) e(3) cs(2) c(2)
    by (auto simp: RTDBG_AllocCounter_def attached_ok_def entry_of_def)
qed

lemma reg_format:
  assumes w: "can_register lay w" and nm: "fits TRACE_STRING_SIZE nm"
    and g: "first_pos gn (group_names (shm w)) = Some k"
    and r: "reg_step (RFormat gn nm) (catalog_of (shm w)) = (i, cat)" "bounded cat"
  shows "\<exists>w'. RTDBG_AddTraceEntry (of_nat k) nm w = Inr (of_nat i, w') \<and> can_register lay w' \<and>
    catalog_of (shm w') = cat \<and> hnd w' = hnd w \<and> active (shm w') = active (shm w)"
proof -
  let ?g = "debug_groups (shm w) ! k" and ?t = "tracer (debug_groups (shm w) ! k)"
  have t: "first_pos (reg_target (RFormat gn nm)) (group_names (shm w)) = Some k" "\<not> is_group (RFormat gn nm)"
    using g by (simp_all add: is_group_def)
  obtain e where k: "attached_ok w" "k < ngroups w" "group_wf ?g" "unat (of_nat k :: u32) = k"
    and e: "reg_entry (RFormat gn nm) (snd (entry_of ?g)) = (i, e)" "entry_bounded e"
      "cat = (catalog_of (shm w))[k := (str_of (gd_group_name ?g), e)]"
    using reg_member [OF w t(1) r t(2)] .
  then obtain ts where ts: "enter nm (trace_names ?t) = (i, ts)"
    "e = (counter_names (event_counters ?g), ts, profiler_names (profiler ?g))"
    by (auto simp: entry_of_def split: prod.splits)
  have wf: "trace_wf ?t" using k(3) by (simp add: group_wf_def)
  from formats.alloc_enter [OF wf nm ts(1)] e(2) ts(2) obtain t where
    t: "AddTraceFormat nm ?t = Inr (of_nat i, t)" "trace_names t = ts" "trace_wf t" by auto
  then have f: "bindE (AddTraceFormat nm ?t) (\<lambda>(i, t). Inr (i, ?g\<lparr>tracer := t\<rparr>)) = Inr (of_nat i, ?g\<lparr>tracer := t\<rparr>)" by simp
  have "group_wf (?g\<lparr>tracer := t\<rparr>)" using k(3) t(3) AddTraceFormat_frame [OF t(1)] by (simp add: group_wf_def)
  from at_grp_register [where f = "\<lambda>g. bindE (AddTraceFormat nm (tracer g)) (\<lambda>(i, t). Inr (i, g\<lparr>tracer := t\<rparr>))", OF w k(2) f this]
  show ?thesis using k(1) e(3) ts(2) t(2) by (auto simp: RTDBG_AddTraceEntry_def attached_ok_def entry_of_def)
qed

lemma reg_profiler:
  assumes w: "can_register lay w" and nm: "fits MDO_NAME_SIZE nm"
    and g: "first_pos gn (group_names (shm w)) = Some k"
    and r: "reg_step (RProfiler gn nm) (catalog_of (shm w)) = (i, cat)" "bounded cat"
  shows "\<exists>w'. RTDBG_AddProfiler lay (of_nat k) nm w = Inr (of_nat i, w') \<and> can_register lay w' \<and>
    catalog_of (shm w') = cat \<and> hnd w' = hnd w \<and> active (shm w') = active (shm w)"
proof -
  let ?g = "debug_groups (shm w) ! k" and ?p = "profiler (debug_groups (shm w) ! k)"
  let ?b = "ga_prof (lay (rt_debugp (hnd w)) (unat (of_nat k :: u32)))"
  have t: "first_pos (reg_target (RProfiler gn nm)) (group_names (shm w)) = Some k" "\<not> is_group (RProfiler gn nm)"
    using g by (simp_all add: is_group_def)
  obtain e where k: "attached_ok w" "k < ngroups w" "group_wf ?g" "unat (of_nat k :: u32) = k"
    and e: "reg_entry (RProfiler gn nm) (snd (entry_of ?g)) = (i, e)" "entry_bounded e"
      "cat = (catalog_of (shm w))[k := (str_of (gd_group_name ?g), e)]"
    using reg_member [OF w t(1) r t(2)] .
  then obtain ps where ps: "enter nm (profiler_names ?p) = (i, ps)"
    "e = (counter_names (event_counters ?g), trace_names (tracer ?g), ps)"
    by (auto simp: entry_of_def split: prod.splits)
  have "k < MAX_GROUP_NUM" using k(2) ngroups_le [OF k(1)] by simp
  then have wf: "profiler_wf ?p \<and> bases_ok ?b"
    using k(3,4) w by (simp add: group_wf_def can_register_def addrs_ok_def addr_ok_def)
  from profilers.alloc_enter [OF wf nm ps(1)] e(2) ps(2) obtain p where
    p: "RegistryProfileEntry ?b nm ?p = Inr (of_nat i, p)" "profiler_names p = ps" "profiler_wf p" by auto
  then have f: "bindE (RegistryProfileEntry ?b nm ?p) (\<lambda>(i, p). Inr (i, ?g\<lparr>profiler := p\<rparr>)) = Inr (of_nat i, ?g\<lparr>profiler := p\<rparr>)"
    by simp
  have "group_wf (?g\<lparr>profiler := p\<rparr>)" using k(3) p(3) by (simp add: group_wf_def)
  from at_grp_register [where f = "\<lambda>g. bindE (RegistryProfileEntry ?b nm (profiler g)) (\<lambda>(i, p). Inr (i, g\<lparr>profiler := p\<rparr>))", OF w k(2) f this]
  show ?thesis using k(1) e(3) ps(2) p(2) by (auto simp: RTDBG_AddProfiler_def attached_ok_def entry_of_def)
qed

subsection \<open>Properties\<close>

text \<open>The name of a registration fits its buffer: names of groups, counters and formats have one of
  \<open>TRACE_STRING_SIZE\<close> characters, names of profilers one of \<open>MDO_NAME_SIZE\<close>.\<close>

fun reg_fits :: "reg \<Rightarrow> bool" where
  "reg_fits (RGroup nm) = fits TRACE_STRING_SIZE nm"
| "reg_fits (RCounter g nm) = fits TRACE_STRING_SIZE nm"
| "reg_fits (RFormat g nm) = fits TRACE_STRING_SIZE nm"
| "reg_fits (RProfiler g nm) = fits MDO_NAME_SIZE nm"

text \<open>C7: the registration operations implement the catalogue. On an attached object, empty or not, for a name that
  fits its buffer and a result within the table sizes, each of the four operations returns the position that
  the abstract operation returns and leaves an object whose catalogue is the abstract result. For a counter, a
  format or a profiler the group is one of the object (\<open>k\<close> is its number); a group needs nothing.\<close>

theorem registration_refines:
  assumes w: "can_register lay w" and nm: "reg_fits r"
    and g: "\<not> is_group r \<Longrightarrow> first_pos (reg_target r) (group_names (shm w)) = Some k"
    and step: "reg_step r (catalog_of (shm w)) = (i, cat)" "bounded cat"
  shows "\<exists>w'. can_register lay w' \<and> catalog_of (shm w') = cat \<and>
    (case r of
       RGroup nm \<Rightarrow> RTDBG_AllocRTDebugGroup lay nm w = Inr (of_nat i, w')
     | RCounter gn nm \<Rightarrow> RTDBG_AllocCounter (of_nat k) nm w = Inr (Some (k, i), w')
     | RFormat gn nm \<Rightarrow> RTDBG_AddTraceEntry (of_nat k) nm w = Inr (of_nat i, w')
     | RProfiler gn nm \<Rightarrow> RTDBG_AddProfiler lay (of_nat k) nm w = Inr (of_nat i, w'))"
proof (cases r)
  case (RGroup nm)
  with reg_group [OF w, of nm i cat] nm step show ?thesis by auto
next
  case (RCounter gn nm)
  with reg_counter [OF w, of nm gn k i cat] nm g step show ?thesis by (auto simp: is_group_def)
next
  case (RFormat gn nm)
  with reg_format [OF w, of nm gn k i cat] nm g step show ?thesis by (auto simp: is_group_def)
next
  case (RProfiler gn nm)
  with reg_profiler [OF w, of nm gn k i cat] nm g step show ?thesis by (auto simp: is_group_def)
qed

text \<open>A process with the group \<open>GEN\<close>, and its catalogue.\<close>

lemma demo_registry:
  "\<exists>w. can_register demo_lay w \<and> catalog_of (shm w) = [(''GEN'', [], [def_format], [])] \<and> group_names (shm w) = [''GEN'']"
proof -
  obtain w where w: "attached_ok w" "rt_debugp (hnd w) = 4096" "ngroups w = 1" "group_names (shm w) = [''GEN'']"
    "group_fresh ''GEN'' (debug_groups (shm w) ! 0)" using demo_world by blast
  have "can_register demo_lay w" using w(1,2) demo_lay_ok by (simp add: can_register_def)
  moreover have "catalog_of (shm w) = [(''GEN'', [], [def_format], [])]"
    using length_catalog [OF w(1)] catalog_at [OF w(1), of 0] w(3,5)
    by (cases "catalog_of (shm w)") (auto simp: entry_of_def group_fresh_def)
  ultimately show ?thesis using w(4) by blast
qed

text \<open>The first group of an empty object, with a name of 127 characters, and then a format of it.\<close>

theorem registration_refines_witness:
  "\<exists>w w1 w2. group_names (shm w) = [] \<and> RTDBG_AllocRTDebugGroup demo_lay (replicate 127 (CHR ''g'')) w = Inr (0, w1) \<and>
     catalog_of (shm w1) = [(replicate 127 (CHR ''g''), [], [def_format], [])] \<and> RTDBG_AddTraceEntry 0 ''A'' w1 = Inr (1, w2) \<and>
     catalog_of (shm w2) = [(replicate 127 (CHR ''g''), [], [def_format, ''A''], [])]"
proof -
  let ?nm = "replicate 127 (CHR ''g'')"
  obtain w where w: "attached_ok w" "rt_debugp (hnd w) = 4096" "group_names (shm w) = []"
    using Activate_ok [where lay = demo_lay, OF demo_start_ok demo_lay_ok] by blast
  have r: "can_register demo_lay w" using w(1,2) demo_lay_ok by (simp add: can_register_def)
  have c: "catalog_of (shm w) = []" using w(3) by (metis catalog_names map_is_Nil_conv)
  have f: "reg_fits (RGroup ?nm)" "reg_fits (RFormat ?nm ''A'')"
    by (simp_all add: fits_def c_string_def TRACE_STRING_SIZE_def)
  have s: "reg_step (RGroup ?nm) (catalog_of (shm w)) = (0, [(?nm, [], [def_format], [])])"
    unfolding c by (simp add: reg_step_def is_group_def)
  have b: "bounded [(?nm, [], [def_format], [])]" "bounded [(?nm, [], [def_format, ''A''], [])]"
    by (simp_all add: bounded_def MAX_GROUP_NUM_def MAX_TRACE_FORMATS_def)
  from registration_refines [OF r f(1) _ s b(1), of 0] obtain w1 where w1: "can_register demo_lay w1"
    "catalog_of (shm w1) = [(?nm, [], [def_format], [])]" "RTDBG_AllocRTDebugGroup demo_lay ?nm w = Inr (0, w1)"
    by (auto simp: is_group_def)
  have s1: "reg_step (RFormat ?nm ''A'') (catalog_of (shm w1)) = (1, [(?nm, [], [def_format, ''A''], [])])"
    unfolding w1(2) by (simp add: reg_step_def is_group_def enter_def def_format_def)
  have "group_names (shm w1) = [?nm]" using w1(2) catalog_names [of "shm w1"] by simp
  then have "first_pos (reg_target (RFormat ?nm ''A'')) (group_names (shm w1)) = Some 0" by simp
  from registration_refines [OF w1(1) f(2) this s1 b(2)] obtain w2 where
    "RTDBG_AddTraceEntry 0 ''A'' w1 = Inr (1, w2)" "catalog_of (shm w2) = [(?nm, [], [def_format, ''A''], [])]" by auto
  with w(3) w1(2,3) show ?thesis by blast
qed

end
