(* ===== verification/C_API.thy ===== *)
theory C_API
  imports Registry
begin

section \<open>The C interface\<close>

text \<open>
  The functions with C linkage at the end of \<open>rt_debug_main.cc\<close>: each forwards to the one global
  \<open>debug_handler\<close> (the \<open>hnd\<close> of the state). A client is a sequence of calls; a call is a value of
  \<open>api_call\<close> with its arguments, and \<open>api_exec\<close> is what it does. A profiling point belongs to the
  client and is passed by pointer: the call has its value before, the result the value after.
  What the call reads from its surroundings (clocks, the thread, the answers of the operating
  system, the uninitialised memory that \<open>AddTrace\<close> copies) is in \<open>env\<close>.
\<close>

subsection \<open>Calls\<close>

datatype api_call =
    C_GetCounter u32 u32
  | C_AllocCounter u32 string
  | C_GetCountersNum u32
  | C_AddTrace u32 u32 u32 u64 u64 u64 u64
  | C_GetTraceEntry cbuf
  | C_AddTraceEntry u32 string
  | C_AddLog u32 string
  | C_GetLog cbuf bool u64
  | C_AddProfiler u32 string
  | C_ProfInit u32 u32 ProfilePoint u32
  | C_ProfFlushMeas u32 u32 ProfilePoint
  | C_StartProfMeas u32 u32 ProfilePoint
  | C_StopProfMeas u32 u32 ProfilePoint
  | C_GetProfInfo u32 u32 cbuf cbuf
  | C_StopStartProfMeas u32 u32 ProfilePoint
  | C_Init
  | C_AllocRTDebugGroup string
  | C_PutProfVal u32 u32 "u64 option" ProfilePoint
  | C_AllocProfCntrNum u32
  | C_GetGrpName u32 cbuf
  | C_GetGrpNum
  | C_Stop
  | C_Start
  | C_SetSharedMemFile string
  | C_ActivateDebugDataCollection
  | C_AttachDebugData
  | C_ExtractDebugData
  | C_GetVersion
  | C_GetStatus
  | C_Close

datatype api_result =
    RNone
  | RNum u32
  | RBool bool
  | RCounterPtr "(nat \<times> nat) option"
  | REntry "(cbuf \<times> timespec) option"
  | RPoint ProfilePoint
  | RInfo "(cbuf \<times> (ProfileData \<times> cbuf) option) option"
  | RName "cbuf option"
  | RText "string option"
  | RStatus RTDBG_STATUS_T

record env =
  env_now :: timespec
  env_cyc :: u64
  env_self :: u64
  env_junk :: u32
  env_clk :: "nat \<Rightarrow> timespec"
  env_cycs :: "nat \<Rightarrow> u64"
  env_trace_clk :: "nat \<Rightarrow> nat \<Rightarrow> timespec"
  env_log_clk :: "nat \<Rightarrow> timespec"
  env_os :: os_answers
  env_file_ok :: bool

text \<open>A call that returns \<open>r\<close> or a fault, with the state; the ones that always return, and the ones that
  only read.\<close>

definition ret :: "('a \<Rightarrow> api_result) \<Rightarrow> fault + ('a \<times> world) \<Rightarrow> (fault + (api_result \<times> world)) option" where
  "ret f x = Some (bindE x (\<lambda>(r, w). Inr (f r, w)))"

definition ret_void :: "fault + world \<Rightarrow> (fault + (api_result \<times> world)) option" where
  "ret_void x = Some (bindE x (\<lambda>w. Inr (RNone, w)))"

definition ret_read :: "('a \<Rightarrow> api_result) \<Rightarrow> fault + 'a \<Rightarrow> world \<Rightarrow> (fault + (api_result \<times> world)) option" where
  "ret_read f x w = Some (bindE x (\<lambda>r. Inr (f r, w)))"

definition ret_loop :: "('a \<Rightarrow> api_result) \<Rightarrow> (fault + ('a \<times> world)) option \<Rightarrow> (fault + (api_result \<times> world)) option" where
  "ret_loop f x = bindD x (\<lambda>(r, w). Some (Inr (f r, w)))"

lemmas ret_defs = ret_def ret_void_def ret_read_def ret_loop_def

fun api_exec :: "layout \<Rightarrow> env \<Rightarrow> api_call \<Rightarrow> world \<Rightarrow> (fault + (api_result \<times> world)) option" where
  "api_exec lay e (C_GetCounter grp num) w = ret_read RCounterPtr (RTDBG_GetCounter grp num w) w"
| "api_exec lay e (C_AllocCounter grp nm) w = ret RCounterPtr (RTDBG_AllocCounter grp nm w)"
| "api_exec lay e (C_GetCountersNum grp) w = ret_read RNum (RTDBG_GetCountersNum grp w) w"
| "api_exec lay e (C_AddTrace grp tid line v0 v1 v2 v3) w =
     ret_void (RTDBG_AddTrace (env_now e) (env_self e) (env_junk e) grp tid line v0 v1 v2 v3 w)"
| "api_exec lay e (C_GetTraceEntry dst) w = ret REntry (RTDBG_GetTraceEntry (env_clk e) dst w)"
| "api_exec lay e (C_AddTraceEntry grp fmt) w = ret RNum (RTDBG_AddTraceEntry grp fmt w)"
| "api_exec lay e (C_AddLog grp str) w =
     bindD (RTDBG_AddLog (env_now e) grp str w) (\<lambda>w. Some (Inr (RNone, w)))"
| "api_exec lay e (C_GetLog dst tm_null msk) w = ret REntry (RTDBG_GetLog (env_now e) dst tm_null msk w)"
| "api_exec lay e (C_AddProfiler grp nm) w = ret RNum (RTDBG_AddProfiler lay grp nm w)"
| "api_exec lay e (C_ProfInit grp pid p meas_cnt) w =
     ret_read RPoint (RTDBG_ProfInit (env_clk e) (env_cycs e) grp pid meas_cnt p w) w"
| "api_exec lay e (C_ProfFlushMeas grp pid p) w = ret_loop RPoint (RTDBG_ProfFlushMeas lay p w)"
| "api_exec lay e (C_StartProfMeas grp pid p) w = ret_read RPoint (RTDBG_StartProfMeas (env_now e) (env_cyc e) p) w"
| "api_exec lay e (C_StopProfMeas grp pid p) w =
     ret_loop RPoint (RTDBG_StopProfMeas lay (env_now e) (env_cyc e) p w)"
| "api_exec lay e (C_GetProfInfo grp pid grp_name prof_name) w =
     ret_loop RInfo (RTDBG_GetProfInfo grp pid grp_name prof_name w)"
| "api_exec lay e (C_StopStartProfMeas grp pid p) w =
     Some (Inr (RPoint (RTDBG_StopStartProfMeas (env_now e) (env_cyc e) p), w))"
| "api_exec lay e C_Init w = ret_void (RTDBG_Init lay w)"
| "api_exec lay e (C_AllocRTDebugGroup nm) w = ret RNum (RTDBG_AllocRTDebugGroup lay nm w)"
| "api_exec lay e (C_PutProfVal grp pid val p) w =
     ret_loop RPoint (RTDBG_PutProfVal lay (env_now e) (env_cyc e) val p w)"
| "api_exec lay e (C_AllocProfCntrNum grp) w = ret_read RNum (RTDBG_AllocProfCntrNum grp w) w"
| "api_exec lay e (C_GetGrpName grp dst) w = ret_read RName (RTDBG_GetGrpName grp dst w) w"
| "api_exec lay e C_GetGrpNum w = ret_read RNum (RTDBG_GetGrpNum w) w"
| "api_exec lay e C_Stop w = ret_void (RTDBG_Stop w)"
| "api_exec lay e C_Start w = ret_void (RTDBG_Start w)"
| "api_exec lay e (C_SetSharedMemFile nm) w = ret_void (RTDBG_SetSharedMemFile nm w)"
| "api_exec lay e C_ActivateDebugDataCollection w =
     ret RBool (RTDBG_ActivateDebugDataCollection lay (env_os e) w)"
| "api_exec lay e C_AttachDebugData w = ret RBool (RTDBG_AttachDebugData (env_os e) w)"
| "api_exec lay e C_ExtractDebugData w =
     ret_loop RText (RTDBG_ExtractDebugData (env_file_ok e) (env_trace_clk e) (env_log_clk e) w)"
| "api_exec lay e C_GetVersion w = Some (Inr (RText (RTDBG_GetVersion w), w))"
| "api_exec lay e C_GetStatus w = Some (Inr (RStatus (RTDBG_GetStatus w), w))"
| "api_exec lay e C_Close w = Some (Inr (RNone, RTDBG_Close w))"

text \<open>A client that makes one call after the other.\<close>

fun run_calls :: "layout \<Rightarrow> (env \<times> api_call) list \<Rightarrow> world \<Rightarrow> (fault + (api_result list \<times> world)) option" where
  "run_calls lay [] w = Some (Inr ([], w))"
| "run_calls lay ((e, c) # cs) w =
     bindD (api_exec lay e c w) (\<lambda>(r, w). bindD (run_calls lay cs w) (\<lambda>(rs, w). Some (Inr (r # rs, w))))"

subsection \<open>What a call asks\<close>

text \<open>
  The conditions under which a call cannot fail, in three parts. \<open>typed_args\<close> is about the arguments and the
  surroundings alone: lengths of names, texts and buffers, a file of the size of the object, addresses that are
  aligned. \<open>proper_use\<close> is what the interface relies on and does not check: a point belongs to this process and its
  registered profiler, and a file that is attached to holds an object that was initialised. Typed and proper calls
  keep the state consistent when they return. \<open>call_ready\<close> is what they need to return: for an attached handler indices of
  what was registered, room in the tables, for the readers the conditions of \<open>Trace_Merge\<close>, \<open>Log_Merge\<close> and
  \<open>Extract_Data\<close>; a detached handler for \<open>RTDBG_ActivateDebugDataCollection\<close> and \<open>RTDBG_AttachDebugData\<close>, an attached one
  for the calls that do not test \<open>mem_attached_\<close> first. Every call of the interface has its condition.
\<close>

definition room :: "string \<Rightarrow> string list \<Rightarrow> nat \<Rightarrow> bool" where
  "room nm nms n \<longleftrightarrow> nm \<in> set nms \<or> length nms < n"

abbreviation grp_at :: "world \<Rightarrow> u32 \<Rightarrow> CGroupDebugRT" where
  "grp_at w g \<equiv> debug_groups (shm w) ! unat g"

fun typed_args :: "layout \<Rightarrow> env \<Rightarrow> api_call \<Rightarrow> bool" where
  "typed_args lay e (C_AllocCounter grp nm) = fits TRACE_STRING_SIZE nm"
| "typed_args lay e (C_AddTraceEntry grp fmt) = fits TRACE_STRING_SIZE fmt"
| "typed_args lay e (C_AddLog grp str) = loggable str"
| "typed_args lay e (C_AddProfiler grp nm) = fits MDO_NAME_SIZE nm"
| "typed_args lay e (C_AllocRTDebugGroup nm) = fits TRACE_STRING_SIZE nm"
| "typed_args lay e (C_GetProfInfo grp pid gb pb) = (MDO_NAME_SIZE \<le> length pb)"
| "typed_args lay e C_ActivateDebugDataCollection =
     (rt_shape (os_file (env_os e)) \<and> (\<forall>p. os_mmap (env_os e) = Some p \<longrightarrow> addrs_ok (lay p)))"
| "typed_args lay e C_AttachDebugData =
     (rt_shape (os_file (env_os e)) \<and> (\<forall>p. os_mmap (env_os e) = Some p \<longrightarrow> addrs_ok (lay p)))"
| "typed_args lay e c = True"

fun proper_use :: "layout \<Rightarrow> env \<Rightarrow> api_call \<Rightarrow> world \<Rightarrow> bool" where
  "proper_use lay e (C_ProfFlushMeas grp pid p) w = point_ok lay p w"
| "proper_use lay e (C_StopProfMeas grp pid p) w = point_ok lay p w"
| "proper_use lay e (C_PutProfVal grp pid val p) w = point_ok lay p w"
| "proper_use lay e C_AttachDebugData w = rt_wf (os_file (env_os e))"
| "proper_use lay e c w = True"

text \<open>What a call asks of an attached handler.\<close>

fun ready_attached :: "env \<Rightarrow> api_call \<Rightarrow> world \<Rightarrow> bool" where
  "ready_attached e (C_GetCounter grp num) w =
     (grp < num_alloc_groups (shm w) \<and> num < num_alloc_counters (event_counters (grp_at w grp)))"
| "ready_attached e (C_AllocCounter grp nm) w =
     (grp < num_alloc_groups (shm w) \<and> room nm (counter_names (event_counters (grp_at w grp))) (NUM_COUNTERS - 1))"
| "ready_attached e (C_GetCountersNum grp) w = (grp < num_alloc_groups (shm w))"
| "ready_attached e (C_AddTrace grp tid line v0 v1 v2 v3) w =
     (grp < num_alloc_groups (shm w) \<and> tid < num_alloc_formats (tracer (grp_at w grp)))"
| "ready_attached e (C_GetTraceEntry dst) w =
     (active (shm w) \<or> slots_ok w \<and> (\<forall>i. later (env_clk e i) w) \<and> TRACE_INFO_SIZE \<le> length dst)"
| "ready_attached e (C_AddTraceEntry grp fmt) w =
     (grp < num_alloc_groups (shm w) \<and> room fmt (trace_names (tracer (grp_at w grp))) MAX_TRACE_FORMATS)"
| "ready_attached e (C_AddLog grp str) w = (grp < num_alloc_groups (shm w))"
| "ready_attached e (C_GetLog dst tm_null msk) w =
     (logs_ok w \<and> log_later (env_now e) w \<and> LOG_STRING_SIZE \<le> length dst \<and> \<not> tm_null \<and> msk = - 1)"
| "ready_attached e (C_AddProfiler grp nm) w =
     (grp < num_alloc_groups (shm w) \<and> room nm (profiler_names (profiler (grp_at w grp))) PROF_GROUP_MAX)"
| "ready_attached e (C_ProfInit grp pid p meas_cnt) w = (grp < num_alloc_groups (shm w))"
| "ready_attached e (C_GetProfInfo grp pid gb pb) w =
     (grp < num_alloc_groups (shm w) \<and> pid < num_alloc_prof (profiler (grp_at w grp)) \<and>
      countable_group (profiler (grp_at w grp)) \<and> TRACE_STRING_SIZE \<le> length gb)"
| "ready_attached e (C_AllocRTDebugGroup nm) w = room nm (group_names (shm w)) MAX_GROUP_NUM"
| "ready_attached e (C_AllocProfCntrNum grp) w = (grp < num_alloc_groups (shm w))"
| "ready_attached e (C_GetGrpName grp dst) w = (grp < num_alloc_groups (shm w) \<and> TRACE_STRING_SIZE \<le> length dst)"
| "ready_attached e C_ExtractDebugData w =
     (slots_ok w \<and> logs_ok w \<and> short_names w \<and> status (hnd w) \<noteq> RTDBG_RUNNING_PRODUCER \<and> env_file_ok e \<and>
      (\<forall>i < ngroups w. countable_group (profiler (debug_groups (shm w) ! i))) \<and>
      (\<forall>n i. later (env_trace_clk e n i) w) \<and> (\<forall>n. log_later (env_log_clk e n) w))"
| "ready_attached e c w = True"

text \<open>Which calls need an attached handler, which a detached one, and what a call asks of any handler.\<close>

fun call_ready :: "env \<Rightarrow> api_call \<Rightarrow> world \<Rightarrow> bool" where
  "call_ready e (C_GetTraceEntry dst) w = (mem_attached (hnd w) \<and> ready_attached e (C_GetTraceEntry dst) w)"
| "call_ready e (C_ProfInit grp pid p meas_cnt) w =
     (mem_attached (hnd w) \<and> ready_attached e (C_ProfInit grp pid p meas_cnt) w)"
| "call_ready e (C_ProfFlushMeas grp pid p) w = mem_attached (hnd w)"
| "call_ready e (C_StartProfMeas grp pid p) w = (start_val p = 0)"
| "call_ready e (C_StopProfMeas grp pid p) w = mem_attached (hnd w)"
| "call_ready e (C_PutProfVal grp pid val p) w = mem_attached (hnd w)"
| "call_ready e (C_SetSharedMemFile nm) w =
     (length (shared_file_name (hnd w)) = TRACE_STRING_SIZE \<and> fits TRACE_STRING_SIZE nm)"
| "call_ready e C_ActivateDebugDataCollection w = (\<not> mem_attached (hnd w) \<and> named w)"
| "call_ready e C_AttachDebugData w = (\<not> mem_attached (hnd w) \<and> named w)"
| "call_ready e c w = (mem_attached (hnd w) \<longrightarrow> ready_attached e c w)"

text \<open>Surroundings for the examples.\<close>

definition demo_env :: env where
  "demo_env = \<lparr>env_now = \<lparr>tv_sec = 1, tv_nsec = 5\<rparr>, env_cyc = 7, env_self = 9, env_junk = 0, env_clk = \<lambda>_. zero_time,
     env_cycs = \<lambda>_. 0, env_trace_clk = \<lambda>_ _. zero_time, env_log_clk = \<lambda>_. zero_time, env_os = demo_os, env_file_ok = True\<rparr>"

end
