(* ===== verification/Cpp_Point.thy ===== *)
theory Cpp_Point
  imports C_API
begin

section \<open>The profiling point of a C++ client: \<open>CProfilePoint\<close>\<close>

text \<open>
  \<open>rt_debug_cpp_defs.h\<close>: the class extends the structure \<open>ProfilePoint\<close> by the group, registers
  itself by name and passes itself to the C interface. The record extends the record in the same
  way; \<open>point_of\<close> is the cast to the base class, \<open>with_point\<close> writes through it.
\<close>

subsection \<open>Operations\<close>

record CProfilePoint = ProfilePoint +
  group_id :: u32

definition point_of :: "CProfilePoint \<Rightarrow> ProfilePoint" where
  "point_of c = ProfilePoint.truncate c"

definition with_point :: "ProfilePoint \<Rightarrow> CProfilePoint \<Rightarrow> CProfilePoint" where
  "with_point p c = ProfilePoint.extend p (CProfilePoint.fields (group_id c))"

lemma with_point_of [simp]: "with_point (point_of c) c = c"
  by (cases c) (simp add: with_point_def point_of_def ProfilePoint.defs CProfilePoint.defs)

lemma point_of_with [simp]: "point_of (with_point p c) = p"
  by (cases p) (simp add: with_point_def point_of_def ProfilePoint.defs CProfilePoint.defs)

lemma with_point_with [simp]: "with_point p (with_point q c) = with_point p c"
  by (simp add: with_point_def ProfilePoint.defs CProfilePoint.defs)

lemma group_id_with [simp]: "group_id (with_point p c) = group_id c"
  by (simp add: with_point_def ProfilePoint.defs CProfilePoint.defs)

lemma delta_point: "delta c = delta (point_of c)"
  by (cases c) (simp add: point_of_def ProfilePoint.defs)

text \<open>The constructor leaves \<open>mem_ptr_\<close> as it is in memory.\<close>

definition cpp_new :: "(nat \<times> nat) option \<Rightarrow> CProfilePoint" where
  "cpp_new mem =
     \<lparr>prof_data = ProfileData_Reset, acc_cnt = 0, cnt_id = 0, max_calls = 500, start_val = 0, delta = 0,
      prof_id = - 1, evalType = TIME_EVAL, mem_ptr = mem, group_id = - 1\<rparr>"

definition cpp_SetMaxCalls :: "u32 \<Rightarrow> CProfilePoint \<Rightarrow> CProfilePoint" where
  "cpp_SetMaxCalls v c = c\<lparr>max_calls := v\<rparr>"

definition cpp_Reset :: "CProfilePoint \<Rightarrow> CProfilePoint" where
  "cpp_Reset c = c\<lparr>prof_data := ProfileData_Reset, start_val := 0, acc_cnt := 0\<rparr>"

definition cpp_Init ::
  "layout \<Rightarrow> env \<Rightarrow> string \<Rightarrow> string \<Rightarrow> CProfilePoint \<Rightarrow> world \<Rightarrow> fault + (CProfilePoint \<times> world)" where
  "cpp_Init lay e nm group_name c w =
     bindE (RTDBG_AllocRTDebugGroup lay group_name w) (\<lambda>(g, w). let c = c\<lparr>group_id := g\<rparr> in
     bindE (RTDBG_AddProfiler lay (group_id c) nm w) (\<lambda>(i, w). let c = c\<lparr>prof_id := i\<rparr> in
     (let c = cpp_Reset (c\<lparr>prof_data := ProfileData_Reset\<rparr>) in
      bindE (RTDBG_ProfInit (env_clk e) (env_cycs e) (group_id c) (prof_id c) (max_calls c) (point_of c) w) (\<lambda>p.
        Inr (with_point p c, w)))))"

definition cpp_Update :: "layout \<Rightarrow> CProfilePoint \<Rightarrow> world \<Rightarrow> (fault + (CProfilePoint \<times> world)) option" where
  "cpp_Update lay c w = bindD (RTDBG_ProfFlushMeas lay (point_of c) w) (\<lambda>(p, w). Some (Inr (with_point p c, w)))"

definition cpp_Start :: "timespec \<Rightarrow> u64 \<Rightarrow> CProfilePoint \<Rightarrow> fault + CProfilePoint" where
  "cpp_Start now cyc c = bindE (RTDBG_StartProfMeas now cyc (point_of c)) (\<lambda>p. Inr (with_point p c))"

definition cpp_StopContinue :: "timespec \<Rightarrow> u64 \<Rightarrow> CProfilePoint \<Rightarrow> CProfilePoint" where
  "cpp_StopContinue now cyc c = with_point (RTDBG_StopStartProfMeas now cyc (point_of c)) c"

definition cpp_ForceStop :: "layout \<Rightarrow> CProfilePoint \<Rightarrow> world \<Rightarrow> (fault + (CProfilePoint \<times> world)) option" where
  "cpp_ForceStop lay c w = bindD (cpp_Update lay c w) (\<lambda>(c, w). Some (Inr (cpp_Reset c, w)))"

text \<open>The argument \<open>prof_valp\<close> is not passed on.\<close>

definition cpp_Stop ::
  "layout \<Rightarrow> timespec \<Rightarrow> u64 \<Rightarrow> u64 option \<Rightarrow> CProfilePoint \<Rightarrow> world \<Rightarrow> (fault + (CProfilePoint \<times> world)) option" where
  "cpp_Stop lay now cyc prof_valp c w =
     bindD (RTDBG_StopProfMeas lay now cyc (point_of c) w) (\<lambda>(p, w). Some (Inr (with_point p c, w)))"

subsection \<open>Measuring through the shared object\<close>

text \<open>A series of measurements: each is started and stopped.\<close>

fun cpp_run :: "layout \<Rightarrow> (timespec \<times> timespec) list \<Rightarrow> CProfilePoint \<Rightarrow> world \<Rightarrow> (fault + (CProfilePoint \<times> world)) option" where
  "cpp_run lay [] c w = Some (Inr (c, w))"
| "cpp_run lay ((a, b) # xs) c w =
     bindD (Some (cpp_Start a 0 c)) (\<lambda>c. bindD (cpp_Stop lay b 0 None c w) (\<lambda>(c, w). cpp_run lay xs c w))"

text \<open>What the handler does with the FIFO that the point names, as an operation on that FIFO.\<close>

definition lift_point :: "CProfilePoint \<Rightarrow> world \<Rightarrow> (fault + (ProfilePoint \<times> prof_fifo)) option \<Rightarrow> (fault + (CProfilePoint \<times> world)) option" where
  "lift_point c w r = bindD r (\<lambda>(p, m). Some (Inr (with_point p c, put_fifo (point_of c) m w)))"

lemma put_fifo_same: "mem_fifo lay p w = Inr (b, m) \<Longrightarrow> put_fifo p m w = w"
  by (auto simp: mem_fifo_def put_fifo_def bindE_eq_Inr arr_get_def Let_def list_update_same_conv split: option.splits if_splits)

lemma mem_fifo_put:
  "mem_fifo lay p w = Inr (b, m) \<Longrightarrow> mem_ptr q = mem_ptr p \<Longrightarrow> mem_fifo lay q (put_fifo p m' w) = Inr (b, m')"
  by (auto simp: mem_fifo_def put_fifo_def bindE_eq_Inr arr_get_def Let_def split: option.splits if_splits)

lemma put_fifo_put:
  "mem_fifo lay p w = Inr (b, m) \<Longrightarrow> mem_ptr q = mem_ptr p \<Longrightarrow> put_fifo q m2 (put_fifo p m1 w) = put_fifo p m2 w"
  by (auto simp: mem_fifo_def put_fifo_def bindE_eq_Inr arr_get_def Let_def split: option.splits if_splits)

lemma put_fifo_ptr: "mem_ptr q = mem_ptr p \<Longrightarrow> put_fifo q m w = put_fifo p m w"
  by (simp add: put_fifo_def)

lemma Flush_lift:
  assumes "mem_fifo lay p w = Inr (b, m)"
  shows "RTDBG_ProfFlushMeas lay p w = bindD (prof_Update b p m) (\<lambda>(p', m'). Some (Inr (p', put_fifo p m' w)))"
  using assms put_fifo_same [OF assms] by (auto simp: RTDBG_ProfFlushMeas_def prof_Update_def)

lemma Stop_lift:
  assumes "mem_fifo lay p w = Inr (b, m)"
  shows "RTDBG_PutProfVal lay now cyc v p w = bindD (prof_Stop b now cyc v p m) (\<lambda>(p', m'). Some (Inr (p', put_fifo p m' w)))"
proof -
  have ptr: "mem_ptr (stop_collect now cyc v p) = mem_ptr p" by (simp add: stop_collect_def Let_def)
  then have f: "mem_fifo lay (stop_collect now cyc v p) w = Inr (b, m)" using assms by (simp add: mem_fifo_def)
  show ?thesis using Flush_lift [OF f] put_fifo_same [OF assms] put_fifo_ptr [OF ptr]
    by (simp add: RTDBG_PutProfVal_def prof_Stop_def Let_def)
qed

lemma prof_Stop_ptr: "prof_Stop b now cyc v p m = Some (Inr (p', m')) \<Longrightarrow> mem_ptr p' = mem_ptr p"
  by (auto simp: prof_Stop_def prof_Update_def stop_collect_def ResetProfData_def Let_def bindD_eq_Some_Inr split: if_splits)

lemma prof_Start_ptr: "prof_Start now cyc p = Inr p' \<Longrightarrow> mem_ptr p' = mem_ptr p"
  by (auto simp: prof_Start_def ASSERT_def Let_def split: if_splits)

lemma with_Reset: "cpp_Reset (with_point p c) = with_point (prof_Reset p) c"
  by (cases p) (simp add: cpp_Reset_def prof_Reset_def ResetProfData_def with_point_def ProfilePoint.defs CProfilePoint.defs)

lemma bindD_bindD: "bindD (bindD r f) g = bindD r (\<lambda>x. bindD (f x) g)"
  by (simp add: bindD_def split: option.splits sum.splits)

lemma cpp_Stop_lift:
  assumes "mem_fifo lay (point_of c) w = Inr (b, m)"
  shows "cpp_Stop lay now cyc v c w = lift_point c w (prof_Stop b now cyc None (point_of c) m)"
  using Stop_lift [OF assms, of now cyc None]
  by (simp add: cpp_Stop_def RTDBG_StopProfMeas_def lift_point_def bindD_bindD split_def)

lemma cpp_Update_lift:
  assumes "mem_fifo lay (point_of c) w = Inr (b, m)"
  shows "cpp_Update lay c w = lift_point c w (prof_Update b (point_of c) m)"
  using Flush_lift [OF assms] by (simp add: cpp_Update_def lift_point_def bindD_bindD split_def)

lemma cpp_run_lift:
  "mem_fifo lay (point_of c) w = Inr (b, m) \<Longrightarrow>
   cpp_run lay xs c w = lift_point c w (run_meas b (map (case_prod Timed) xs) (point_of c) m)"
proof (induction xs arbitrary: c w m)
  case Nil
  then show ?case using put_fifo_same [OF Nil] by (simp add: lift_point_def)
next
  case (Cons x xs)
  obtain s t where x: "x = (s, t)" by fastforce
  show ?case
  proof (cases "prof_Start s 0 (point_of c)")
    case (Inl f)
    then show ?thesis by (simp add: x cpp_Start_def RTDBG_StartProfMeas_def lift_point_def do_meas_def)
  next
    case (Inr p)
    let ?c = "with_point p c"
    have ptr: "mem_ptr (point_of ?c) = mem_ptr (point_of c)" using prof_Start_ptr [OF Inr] by simp
    then have f: "mem_fifo lay (point_of ?c) w = Inr (b, m)" using Cons.prems by (simp add: mem_fifo_def)
    have rest: "cpp_run lay xs (with_point q ?c) (put_fifo p m1 w) =
        lift_point c w (run_meas b (map (case_prod Timed) xs) q m1)"
      if "prof_Stop b t 0 None p m = Some (Inr (q, m1))" for q m1
    proof -
      have q: "mem_ptr q = mem_ptr p" "mem_ptr p = mem_ptr (point_of c)" using prof_Stop_ptr [OF that] ptr by simp_all
      have "mem_fifo lay (point_of (with_point q ?c)) (put_fifo p m1 w) = Inr (b, m1)"
        using mem_fifo_put [OF f] q by simp
      from Cons.IH [OF this] put_fifo_put [OF Cons.prems] put_fifo_ptr [OF q(2)] q show ?thesis
        by (simp add: lift_point_def)
    qed
    have one: "cpp_run lay (x # xs) c w = bindD (lift_point ?c w (prof_Stop b t 0 None p m)) (\<lambda>(c, w). cpp_run lay xs c w)"
      using Inr cpp_Stop_lift [OF f] by (simp add: x cpp_Start_def RTDBG_StartProfMeas_def)
    have two: "run_meas b (map (case_prod Timed) (x # xs)) (point_of c) m =
        bindD (prof_Stop b t 0 None p m) (\<lambda>(q, m1). run_meas b (map (case_prod Timed) xs) q m1)"
      using Inr by (simp add: x do_meas_def)
    show ?thesis
    proof (cases "prof_Stop b t 0 None p m")
      case (Some r)
      then show ?thesis
        unfolding one two using rest put_fifo_ptr [OF ptr] by (cases r) (auto simp: lift_point_def)
    next
      case None
      then show ?thesis unfolding one lift_point_def two by (simp add: lift_point_def)
    qed
  qed
qed

subsection \<open>Registering\<close>

text \<open>A profiler that is new in its group: its FIFO is empty and at the address of this process.\<close>

lemma AddProfiler_new:
  assumes w: "can_register lay w" and nm: "fits MDO_NAME_SIZE nm"
    and g: "first_pos gn (group_names (shm w)) = Some i"
    and r: "reg_step (RProfiler gn nm) (catalog_of (shm w)) = (k, cat)" "bounded cat" "cat \<noteq> catalog_of (shm w)"
  shows "\<exists>w' m. RTDBG_AddProfiler lay (of_nat i) nm w = Inr (of_nat k, w') \<and> can_register lay w' \<and> catalog_of (shm w') = cat \<and>
    GetDebugGrp (of_nat i) (shm w') = Inr (debug_groups (shm w') ! i) \<and> unat (of_nat i :: u32) = i \<and> unat (of_nat k :: u32) = k \<and>
    (\<forall>p. mem_ptr p = Some (i, k) \<longrightarrow> mem_fifo lay p w' = Inr (ga_prof (lay (rt_debugp (hnd w')) i) k, m)) \<and>
    prof_fifo_ok (ga_prof (lay (rt_debugp (hnd w')) i) k) m \<and> fifo_contents m = []"
proof -
  let ?g = "debug_groups (shm w) ! i" and ?p = "profiler (debug_groups (shm w) ! i)"
  let ?b = "ga_prof (lay (rt_debugp (hnd w)) (unat (of_nat i :: u32)))"
  have t: "first_pos (reg_target (RProfiler gn nm)) (group_names (shm w)) = Some i" "\<not> is_group (RProfiler gn nm)"
    using g by (simp_all add: is_group_def)
  obtain e where a: "attached_ok w" "i < ngroups w" "group_wf ?g" "unat (of_nat i :: u32) = i"
    and e: "reg_entry (RProfiler gn nm) (snd (entry_of ?g)) = (k, e)" "entry_bounded e"
      "cat = (catalog_of (shm w))[i := (str_of (gd_group_name ?g), e)]"
    using reg_member [OF w t(1) r(1,2) t(2)] .
  then obtain ps where ps: "enter nm (profiler_names ?p) = (k, ps)" "e = (counter_names (event_counters ?g), trace_names (tracer ?g), ps)"
    by (auto simp: entry_of_def split: prod.splits)
  have "catalog_of (shm w) ! i = entry_of ?g" using catalog_at [OF a(1,2)] .
  then have "cat = (catalog_of (shm w))[i := catalog_of (shm w) ! i]" if "ps = profiler_names ?p"
    using that e(3) ps(2) by (simp add: entry_of_def)
  then have "ps \<noteq> profiler_names ?p" using r(3) by auto
  then have new: "nm \<notin> set (profiler_names ?p)" "k = length (profiler_names ?p)" "ps = profiler_names ?p @ [nm]"
    using ps(1) enter_hit [of nm "profiler_names ?p"] by (auto simp: enter_def first_pos_None_iff split: option.splits)
  have pw: "profiler_wf ?p" using a(3) by (simp add: group_wf_def)
  have k: "k = unat (num_alloc_prof ?p)" "k < PROF_GROUP_MAX"
    using new(2,3) length_profiler_names [OF pw] e(2) ps(2) by simp_all
  have bs: "bases_ok ?b" using w a(2,4) ngroups_le [OF a(1)]
    by (simp add: can_register_def addrs_ok_def addr_ok_def)
  from RegistryProfileEntry_new [OF pw nm new(1) _ bs] k obtain m p' where m: "prof_fifo_ok (?b k) m" "fifo_contents m = []"
    "RegistryProfileEntry ?b nm ?p = Inr (num_alloc_prof ?p, p')" "prof_fifos p' = (prof_fifos ?p)[k := m]" by auto
  obtain w' where w': "RTDBG_AddProfiler lay (of_nat i) nm w = Inr (of_nat k, w')" "can_register lay w'" "catalog_of (shm w') = cat"
    "hnd w' = hnd w" using reg_profiler [OF w nm g r(1,2)] by blast
  let ?w = "w\<lparr>shm := put_grp (of_nat i) (?g\<lparr>profiler := p'\<rparr>) (shm w)\<rparr>"
  have "RTDBG_AddProfiler lay (of_nat i) nm w = Inr (num_alloc_prof ?p, ?w)"
    using m(3) group_at(1) [OF a(1,2)] attached_deref [OF a(1)] a(1)
    by (simp add: RTDBG_AddProfiler_def at_grp_def attached_ok_def)
  with w'(1) have w'_eq: "w' = ?w" by simp
  have l: "i < length (debug_groups (shm w))" using group_at(3) [OF a(1,2)] .
  have kl: "k < length (prof_fifos ?p)" using pw k(2) by (simp add: profiler_wf_def name_array_def)
  have a': "attached_ok w'" using w'(2) by (simp add: can_register_def)
  have "ngroups w' = ngroups w" by (simp add: w'_eq ngroups_def)
  then have i': "i < ngroups w'" using a(2) by simp
  have "profiler (debug_groups (shm w') ! i) = p'" using l a(4) by (simp add: w'_eq put_grp_def)
  then have "mem_fifo lay p w' = Inr (ga_prof (lay (rt_debugp (hnd w')) i) k, m)" if "mem_ptr p = Some (i, k)" for p
    using that group_at(3) [OF a' i'] m(4) kl a' by (simp add: mem_fifo_def attached_ok_def)
  moreover have "unat (of_nat k :: u32) = k" using k(2) by (intro unat_of_nat_u32) (simp add: PROF_GROUP_MAX_def)
  ultimately show ?thesis using w' m(1,2) a(4) group_at(1) [OF a' i'] by (intro exI [of _ w'] exI [of _ m]) simp
qed

subsection \<open>Properties\<close>

text \<open>C14: the class is the profiling point. On a point whose pointer was made in this process, the methods of
  \<open>CProfilePoint\<close>, which go through the C interface and the shared object, do exactly what the methods of \<open>CProfileCnt\<close> do to the FIFO it
  names; except that the value given to \<open>Stop\<close> is dropped, and the time is measured instead.\<close>

theorem cpp_point_is_prof_point:
  assumes "mem_fifo lay (point_of c) w = Inr (b, m)"
  shows "cpp_Start now cyc c = bindE (prof_Start now cyc (point_of c)) (\<lambda>p. Inr (with_point p c)) \<and>
    cpp_StopContinue now cyc c = with_point (prof_StopContinue now cyc (point_of c)) c \<and>
    cpp_Stop lay now cyc v c w = lift_point c w (prof_Stop b now cyc None (point_of c) m) \<and>
    cpp_Update lay c w = lift_point c w (prof_Update b (point_of c) m) \<and>
    cpp_ForceStop lay c w = lift_point c w (prof_ForceStop b (point_of c) m) \<and>
    cpp_run lay xs c w = lift_point c w (run_meas b (map (case_prod Timed) xs) (point_of c) m)"
proof -
  have "cpp_ForceStop lay c w = lift_point c w (prof_ForceStop b (point_of c) m)"
    using cpp_Update_lift [OF assms]
    by (simp add: cpp_ForceStop_def prof_ForceStop_def lift_point_def bindD_bindD split_def with_Reset)
  then show ?thesis using cpp_Stop_lift [OF assms] cpp_Update_lift [OF assms] cpp_run_lift [OF assms]
    by (simp add: cpp_Start_def cpp_StopContinue_def RTDBG_StartProfMeas_def RTDBG_StopStartProfMeas_def)
qed

text \<open>C13: a C++ client from registration to the shared memory. A point that is initialised under a new name, in a process
  that can register, has its group and profiler in the catalogue; fewer than 500 measurements with it
  touch nothing shared, and \<open>Update\<close> then leaves, in the FIFO of that profiler, exactly one record, which summarises
  them, and the point as it was after \<open>Init\<close>.\<close>

theorem cpp_point_measures:
  assumes w: "can_register lay w" and nm: "fits TRACE_STRING_SIZE gn" "fits MDO_NAME_SIZE nm"
    and r: "reg_step (RGroup gn) (catalog_of (shm w)) = (i, cat1)" "reg_step (RProfiler gn nm) cat1 = (k, cat)"
      "bounded cat" "cat \<noteq> cat1"
    and xs: "xs \<noteq> []" "length xs < 500"
  shows "\<exists>c1 w1 c2 w2 d. cpp_Init lay e nm gn c w = Inr (c1, w1) \<and> catalog_of (shm w1) = cat \<and> group_id c1 = of_nat i \<and>
    cpp_run lay xs c1 w1 = Some (Inr (c2, w1)) \<and> cpp_Update lay c2 w1 = Some (Inr (c1, w2)) \<and>
    fifo_contents (prof_fifos (profiler (debug_groups (shm w2) ! i)) ! k) = [d] \<and>
    summarises (delta c1) (map (case_prod Timed) xs) d"
proof -
  have "bounded cat1" using bounded_mono [OF _ r(3)] reg_step_extends [of cat1 "RProfiler gn nm"] r(2) by simp
  from reg_group [OF w nm(1) r(1) this] obtain w0 where w0: "RTDBG_AllocRTDebugGroup lay gn w = Inr (of_nat i, w0)"
    "can_register lay w0" "catalog_of (shm w0) = cat1" by blast
  have "settled (RGroup gn) i cat1" using reg_step_settles [OF r(1)] by (simp add: is_group_def)
  then have g: "first_pos gn (group_names (shm w0)) = Some i" using settled_group [of gn i cat1] w0(3) catalog_names [of "shm w0"] by simp
  from AddProfiler_new [OF w0(2) nm(2) g] r(2-4) w0(3) obtain w1 m where
    w1: "RTDBG_AddProfiler lay (of_nat i) nm w0 = Inr (of_nat k, w1)" "can_register lay w1" "catalog_of (shm w1) = cat"
      "GetDebugGrp (of_nat i) (shm w1) = Inr (debug_groups (shm w1) ! i)" "unat (of_nat i :: u32) = i" "unat (of_nat k :: u32) = k"
      "\<And>p. mem_ptr p = Some (i, k) \<Longrightarrow> mem_fifo lay p w1 = Inr (ga_prof (lay (rt_debugp (hnd w1)) i) k, m)"
      "prof_fifo_ok (ga_prof (lay (rt_debugp (hnd w1)) i) k) m" "fifo_contents m = []" by auto
  let ?b = "ga_prof (lay (rt_debugp (hnd w1)) i) k" and ?ys = "map (case_prod Timed) xs"
  obtain P where init: "\<And>n q. prof_Init (env_clk e) (env_cycs e) (i, k) n q = P"
    and p: "idle P" "prof_data P = ProfileData_Reset" "max_calls P = 500" "mem_ptr P = Some (i, k)"
    using prof_Init_ignores_count [where clk = "env_clk e" and cyc = "env_cycs e" and mem = "(i, k)"] by metis
  have "deref w1 = Inr (shm w1)" using w1(2) attached_deref by (simp add: can_register_def)
  then obtain c1 where c1: "cpp_Init lay e nm gn c w = Inr (c1, w1)" "point_of c1 = P" "group_id c1 = of_nat i"
    using w0(1) w1(1,4-6) by (simp add: cpp_Init_def RTDBG_ProfInit_def init cpp_Reset_def)
  have f: "mem_fifo lay (point_of c1) w1 = Inr (?b, m)" using w1(7) p(4) c1(2) by simp
  let ?c2 = "with_point (P\<lparr>prof_data := collected (delta P) ?ys ProfileData_Reset\<rparr>) c1"
  have "run_meas ?b ?ys P m = Some (Inr (P\<lparr>prof_data := collected (delta P) ?ys ProfileData_Reset\<rparr>, m))"
    using run_meas_collect [OF p(1), of ?ys ?b m] p(2,3) xs(2) by (simp add: ProfileData_Reset_def)
  then have run: "cpp_run lay xs c1 w1 = Some (Inr (?c2, w1))"
    using cpp_run_lift [OF f, of xs] put_fifo_same [OF f] c1(2) by (simp add: lift_point_def)
  have "meas_num (collected (delta P) ?ys ProfileData_Reset) \<noteq> 0" using xs by (intro meas_num_collected) auto
  with prof_Update_room [OF w1(8), of "point_of ?c2"] w1(9) p(4) obtain m' where
    u: "prof_Update ?b (point_of ?c2) m = Some (Inr (P, m'))" "fifo_contents m' = [sent (collected (delta P) ?ys ProfileData_Reset)]"
    using ResetProfData_id [OF p(2)] by (auto simp: PROF_FIFO_SIZE_def)
  let ?w2 = "put_fifo (point_of c1) m' w1"
  have f2: "mem_fifo lay (point_of ?c2) w1 = Inr (?b, m)" using w1(7) p(4) by simp
  have "with_point P ?c2 = c1" using c1(2) with_point_of [of c1] by simp
  then have upd: "cpp_Update lay ?c2 w1 = Some (Inr (c1, ?w2))"
    using cpp_Update_lift [OF f2] u(1) p(4) c1(2) by (simp add: lift_point_def put_fifo_def)
  have "mem_fifo lay P ?w2 = Inr (?b, m')" using mem_fifo_put [OF f] c1(2) by simp
  then have "prof_fifos (profiler (debug_groups (shm ?w2) ! i)) ! k = m'"
    using p(4) by (auto simp: mem_fifo_def bindE_eq_Inr arr_get_def split: if_splits)
  then have "fifo_contents (prof_fifos (profiler (debug_groups (shm ?w2) ! i)) ! k) = [sent (collected (delta P) ?ys ProfileData_Reset)]"
    using u(2) by simp
  moreover have "summarises (delta c1) ?ys (sent (collected (delta P) ?ys ProfileData_Reset))"
    using summarises_sent [of ?ys "delta P"] xs(1) c1(2) delta_point [of c1] by simp
  ultimately show ?thesis using c1(1,3) w1(3) run upd by blast
qed

subsection \<open>The properties at work\<close>

lemma demo_new_profiler:
  "reg_step (RGroup ''GEN'') [(''GEN'', [], [def_format], [])] = (0, [(''GEN'', [], [def_format], [])])"
  "reg_step (RProfiler ''GEN'' ''UI'') [(''GEN'', [], [def_format], [])] = (0, [(''GEN'', [], [def_format], [''UI''])])"
  "bounded [(''GEN'', [], [def_format], [''UI''])]" "fits TRACE_STRING_SIZE ''GEN''" "fits MDO_NAME_SIZE ''UI''"
  by (simp_all add: reg_step_def is_group_def enter_def bounded_def MAX_GROUP_NUM_def MAX_TRACE_FORMATS_def PROF_GROUP_MAX_def
      fits_def c_string_def TRACE_STRING_SIZE_def MDO_NAME_SIZE_def)

theorem cpp_point_is_prof_point_witness:
  "\<exists>w c b m c'. mem_fifo demo_lay (point_of c) w = Inr (b, m) \<and> fifo_contents m = [] \<and>
     cpp_Start \<lparr>tv_sec = 1, tv_nsec = 0\<rparr> 0 c = Inr c' \<and> prof_Start \<lparr>tv_sec = 1, tv_nsec = 0\<rparr> 0 (point_of c) = Inr (point_of c')"
proof -
  obtain w where w: "can_register demo_lay w" "catalog_of (shm w) = [(''GEN'', [], [def_format], [])]" "group_names (shm w) = [''GEN'']"
    using demo_registry by blast
  have "first_pos ''GEN'' (group_names (shm w)) = Some 0" using w(3) by simp
  from AddProfiler_new [OF w(1) demo_new_profiler(5) this, unfolded w(2), OF demo_new_profiler(2,3)] obtain w1 m where
    m: "\<forall>p. mem_ptr p = Some (0, 0) \<longrightarrow> mem_fifo demo_lay p w1 = Inr (ga_prof (demo_lay (rt_debugp (hnd w1)) 0) 0, m)"
      "fifo_contents m = []" by auto
  have p: "mem_ptr (point_of (cpp_new (Some (0, 0)))) = Some (0, 0)" "start_val (point_of (cpp_new (Some (0, 0)))) = 0"
    by (simp_all add: cpp_new_def point_of_def ProfilePoint.defs)
  then have f: "mem_fifo demo_lay (point_of (cpp_new (Some (0, 0)))) w1 = Inr (ga_prof (demo_lay (rt_debugp (hnd w1)) 0) 0, m)"
    using m(1) by blast
  obtain q where q: "prof_Start \<lparr>tv_sec = 1, tv_nsec = 0\<rparr> 0 (point_of (cpp_new (Some (0, 0)))) = Inr q"
    using p(2) by (simp add: prof_Start_def Let_def)
  with cpp_point_is_prof_point [OF f, of "\<lparr>tv_sec = 1, tv_nsec = 0\<rparr>" 0]
  have "cpp_Start \<lparr>tv_sec = 1, tv_nsec = 0\<rparr> 0 (cpp_new (Some (0, 0))) = Inr (with_point q (cpp_new (Some (0, 0))))" by simp
  with f m(2) q show ?thesis
    by (intro exI [of _ w1] exI [of _ "cpp_new (Some (0, 0))"] exI [of _ "ga_prof (demo_lay (rt_debugp (hnd w1)) 0) 0"]
        exI [of _ m] exI [of _ "with_point q (cpp_new (Some (0, 0)))"]) simp
qed

theorem cpp_point_measures_witness:
  "\<exists>w c1 w1 c2 w2 d. cpp_Init demo_lay demo_env ''UI'' ''GEN'' (cpp_new None) w = Inr (c1, w1) \<and>
     catalog_of (shm w1) = [(''GEN'', [], [def_format], [''UI''])] \<and>
     cpp_run demo_lay [(\<lparr>tv_sec = 1, tv_nsec = 0\<rparr>, \<lparr>tv_sec = 1, tv_nsec = 60\<rparr>)] c1 w1 = Some (Inr (c2, w1)) \<and>
     cpp_Update demo_lay c2 w1 = Some (Inr (c1, w2)) \<and>
     fifo_contents (prof_fifos (profiler (debug_groups (shm w2) ! 0)) ! 0) = [d] \<and> meas_num d = 1"
proof -
  obtain w where w: "can_register demo_lay w" "catalog_of (shm w) = [(''GEN'', [], [def_format], [])]"
    using demo_registry by blast
  let ?xs = "[(\<lparr>tv_sec = 1, tv_nsec = 0\<rparr>, \<lparr>tv_sec = 1, tv_nsec = 60\<rparr>)] :: (timespec \<times> timespec) list"
  have "?xs \<noteq> []" "length ?xs < 500" "[(''GEN'', [], [def_format], [''UI''])] \<noteq> [(''GEN'', [], [def_format], [])]" by simp_all
  from cpp_point_measures [OF w(1) demo_new_profiler(4,5), unfolded w(2), OF demo_new_profiler(1-3) this(3,1,2)]
  obtain c1 w1 c2 w2 d where r: "cpp_Init demo_lay demo_env ''UI'' ''GEN'' (cpp_new None) w = Inr (c1, w1)"
    "catalog_of (shm w1) = [(''GEN'', [], [def_format], [''UI''])]" "cpp_run demo_lay ?xs c1 w1 = Some (Inr (c2, w1))"
    "cpp_Update demo_lay c2 w1 = Some (Inr (c1, w2))" "fifo_contents (prof_fifos (profiler (debug_groups (shm w2) ! 0)) ! 0) = [d]"
    "summarises (delta c1) (map (case_prod Timed) ?xs) d" by blast
  moreover have "meas_num d = 1" using r(6) by (simp add: summarises_def)
  ultimately show ?thesis by blast
qed

end
