(* ===== verification/RT_Adapt.thy ===== *)
theory RT_Adapt
  imports Registry
begin

section \<open>The adaptation layer for C programs\<close>

text \<open>
  \<open>rt_adapt.c\<close>: a C program lists its groups, event counters, traces and profilers in the files of
  \<open>cust_api\<close>; the layer registers all of them in \<open>RT_debug_init\<close>, keeps what the registration
  returned in tables indexed by enumerations, and forwards the operations of the program. The tables
  are the fields of \<open>rt_adapt\<close>; the \<open>int\<close> fields hold what was returned as \<open>uint32_t\<close> and are passed
  on as such, so they are modelled as \<open>u32\<close>. What is printed on the terminal is left out.
\<close>

subsection \<open>The configuration\<close>

datatype E_GROUPS = INIT_GROUP | GEN_GROUP | STATUS_GROUP

datatype EGroupEvent = STATUS_GROUP_EV_STATUS | STATUS_GROUP_EV_WATCHDOG

datatype EGroupTrace =
    INIT_GROUP_CREATE_THREAD | GEN_GROUP_PASSED | GEN_GROUP_HW_WRITE | GEN_GROUP_HW_READ | GEN_GROUP_NEW_THREAD

datatype EGroupProfile = GEN_GROUP_TST_PROF | GEN_GROUP_UI_PROF

definition groups_inc :: "(E_GROUPS \<times> string) list" where
  "groups_inc = [(INIT_GROUP, ''INIT_GROUP''), (GEN_GROUP, ''GEN_GROUP''), (STATUS_GROUP, ''STATUS_GROUP'')]"

definition events_inc :: "(EGroupEvent \<times> E_GROUPS \<times> string) list" where
  "events_inc =
     [(STATUS_GROUP_EV_STATUS, STATUS_GROUP, ''EV_STATUS''),
      (STATUS_GROUP_EV_WATCHDOG, STATUS_GROUP, ''EV_WATCHDOG'')]"

definition traces_inc :: "(EGroupTrace \<times> E_GROUPS \<times> string) list" where
  "traces_inc =
     [(INIT_GROUP_CREATE_THREAD, INIT_GROUP, ''New thread was created num= %x thread_id = 0x%X''),
      (GEN_GROUP_PASSED, GEN_GROUP, ''Passed val= 0x%X''),
      (GEN_GROUP_HW_WRITE, GEN_GROUP, ''WRITE addr = 0x%X val = 0x%X''),
      (GEN_GROUP_HW_READ, GEN_GROUP, ''READ addr = 0x%X val = 0x%X''),
      (GEN_GROUP_NEW_THREAD, GEN_GROUP, ''Create thread num = 0x%X thread_id = 0x%X'')]"

definition profiles_inc :: "(EGroupProfile \<times> E_GROUPS \<times> string) list" where
  "profiles_inc = [(GEN_GROUP_TST_PROF, GEN_GROUP, ''TST_PROF''), (GEN_GROUP_UI_PROF, GEN_GROUP, ''UI_PROF'')]"

text \<open>The numbers of the enumeration constants.\<close>

fun group_num :: "E_GROUPS \<Rightarrow> nat" where
  "group_num INIT_GROUP = 0" | "group_num GEN_GROUP = 1" | "group_num STATUS_GROUP = 2"

fun event_num :: "EGroupEvent \<Rightarrow> nat" where
  "event_num STATUS_GROUP_EV_STATUS = 0" | "event_num STATUS_GROUP_EV_WATCHDOG = 1"

fun trace_num :: "EGroupTrace \<Rightarrow> nat" where
  "trace_num INIT_GROUP_CREATE_THREAD = 0" | "trace_num GEN_GROUP_PASSED = 1" | "trace_num GEN_GROUP_HW_WRITE = 2"
| "trace_num GEN_GROUP_HW_READ = 3" | "trace_num GEN_GROUP_NEW_THREAD = 4"

fun profile_num :: "EGroupProfile \<Rightarrow> nat" where
  "profile_num GEN_GROUP_TST_PROF = 0" | "profile_num GEN_GROUP_UI_PROF = 1"

definition MAX_GROUPS :: nat where "MAX_GROUPS = 3"
definition MAX_GROUP_EVENT :: nat where "MAX_GROUP_EVENT = 2"
definition MAX_TRACES :: nat where "MAX_TRACES = 5"
definition MAX_PROFILER :: nat where "MAX_PROFILER = 2"

text \<open>C compares enumeration constants by their numbers.\<close>

instantiation E_GROUPS :: linorder
begin

definition less_eq_E_GROUPS :: "E_GROUPS \<Rightarrow> E_GROUPS \<Rightarrow> bool" where
  "g \<le> h \<longleftrightarrow> group_num g \<le> group_num h"

definition less_E_GROUPS :: "E_GROUPS \<Rightarrow> E_GROUPS \<Rightarrow> bool" where
  "g < h \<longleftrightarrow> group_num g < group_num h"

instance
proof
  fix g h k :: E_GROUPS
  show "g < h \<longleftrightarrow> g \<le> h \<and> \<not> h \<le> g" by (auto simp: less_eq_E_GROUPS_def less_E_GROUPS_def)
  show "g \<le> g" "g \<le> h \<or> h \<le> g" by (auto simp: less_eq_E_GROUPS_def)
  show "g \<le> k" if "g \<le> h" "h \<le> k" using that by (simp add: less_eq_E_GROUPS_def)
  show "g = h" if "g \<le> h" "h \<le> g" using that by (cases g; cases h) (simp_all add: less_eq_E_GROUPS_def)
qed

end

subsection \<open>State\<close>

record SGroupEvent =
  ev_group_id :: u32
  event_cnt :: "(nat \<times> nat) option"
  event_name :: cbuf

record SGroupTrace =
  tr_group_id :: u32
  tr_trace_id :: u32

record SGroupProfiler =
  pr_group_id :: u32
  profile_id :: u32

record rt_adapt =
  group_indexes :: "u32 list"
  group_events :: "SGroupEvent list"
  traces :: "SGroupTrace list"
  prof_points :: "SGroupProfiler list"

text \<open>The static tables before \<open>RT_debug_init\<close>.\<close>

definition rt_adapt_zero :: rt_adapt where
  "rt_adapt_zero =
     \<lparr>group_indexes = replicate MAX_GROUPS 0,
      group_events = replicate MAX_GROUP_EVENT \<lparr>ev_group_id = 0, event_cnt = None, event_name = replicate TRACE_STRING_SIZE NUL\<rparr>,
      traces = replicate MAX_TRACES \<lparr>tr_group_id = 0, tr_trace_id = 0\<rparr>,
      prof_points = replicate MAX_PROFILER \<lparr>pr_group_id = 0, profile_id = 0\<rparr>\<rparr>"

subsection \<open>Initialisation\<close>

text \<open>What the macros \<open>DEF_GROUP\<close>, \<open>DEF_EVENT\<close>, \<open>DEF_TRACE\<close> and \<open>DEF_PROFILE\<close> expand to in \<open>RT_debug_init\<close>.\<close>

definition def_group :: "layout \<Rightarrow> E_GROUPS \<times> string \<Rightarrow> rt_adapt \<times> world \<Rightarrow> fault + (rt_adapt \<times> world)" where
  "def_group lay x s =
     (let (g, nm) = x; (a, w) = s in
      bindE (RTDBG_AllocRTDebugGroup lay nm w) (\<lambda>(i, w).
        Inr (a\<lparr>group_indexes := (group_indexes a)[group_num g := i]\<rparr>, w)))"

definition def_event :: "EGroupEvent \<times> E_GROUPS \<times> string \<Rightarrow> rt_adapt \<times> world \<Rightarrow> fault + (rt_adapt \<times> world)" where
  "def_event x s =
     (let (e, g, nm) = x; (a, w) = s in
      bindE (arr_get (group_indexes a) (group_num g)) (\<lambda>gi.
      bindE (arr_get (group_events a) (event_num e)) (\<lambda>ev.
      bindE (strncpy (event_name ev) nm (TRACE_STRING_SIZE - 1)) (\<lambda>b.
      bindE (RTDBG_AllocCounter gi nm w) (\<lambda>(c, w).
        Inr (a\<lparr>group_events := (group_events a)[event_num e :=
               \<lparr>ev_group_id = gi, event_cnt = c, event_name = b\<rparr>]\<rparr>, w))))))"

definition def_trace :: "EGroupTrace \<times> E_GROUPS \<times> string \<Rightarrow> rt_adapt \<times> world \<Rightarrow> fault + (rt_adapt \<times> world)" where
  "def_trace x s =
     (let (t, g, fmt) = x; (a, w) = s in
      bindE (arr_get (group_indexes a) (group_num g)) (\<lambda>gi.
      bindE (RTDBG_AddTraceEntry gi fmt w) (\<lambda>(i, w).
        Inr (a\<lparr>traces := (traces a)[trace_num t := \<lparr>tr_group_id = gi, tr_trace_id = i\<rparr>]\<rparr>, w))))"

definition def_profile :: "layout \<Rightarrow> EGroupProfile \<times> E_GROUPS \<times> string \<Rightarrow> rt_adapt \<times> world \<Rightarrow> fault + (rt_adapt \<times> world)" where
  "def_profile lay x s =
     (let (p, g, nm) = x; (a, w) = s in
      bindE (arr_get (group_indexes a) (group_num g)) (\<lambda>gi.
      bindE (RTDBG_AddProfiler lay gi nm w) (\<lambda>(i, w).
        Inr (a\<lparr>prof_points := (prof_points a)[profile_num p := \<lparr>pr_group_id = gi, profile_id = i\<rparr>]\<rparr>, w))))"

text \<open>\<open>exists\<close> is the answer of \<open>stat\<close> (\<open>file_exists\<close>); the result is the \<open>int\<close> that is returned, as 0 or 1.\<close>

definition open_file :: "layout \<Rightarrow> os_answers \<Rightarrow> bool \<Rightarrow> string \<Rightarrow> world \<Rightarrow> fault + (bool \<times> world)" where
  "open_file lay os exists mem_map_file w =
     bindE (RTDBG_SetSharedMemFile mem_map_file w) (\<lambda>w.
       if exists then RTDBG_AttachDebugData os w
       else bindE (RTDBG_ActivateDebugDataCollection lay os w) (\<lambda>(_, w).
            bindE (RTDBG_Start w) (\<lambda>w. Inr (True, w))))"

definition RT_debug_init ::
  "layout \<Rightarrow> os_answers \<Rightarrow> bool \<Rightarrow> string \<Rightarrow> rt_adapt \<times> world \<Rightarrow> fault + (nat \<times> rt_adapt \<times> world)" where
  "RT_debug_init lay os exists mem_map_file s =
     (let (a, w) = s in
      bindE (open_file lay os exists mem_map_file w) (\<lambda>(ok, w).
        if ok \<noteq> True then Inr (0, a, w)
        else
          bindE (foldE (def_group lay) groups_inc (a, w)) (\<lambda>s.
          bindE (foldE def_event events_inc s) (\<lambda>s.
          bindE (foldE def_trace traces_inc s) (\<lambda>s.
          bindE (foldE (def_profile lay) profiles_inc s) (\<lambda>(a, w).
          bindE (RTDBG_Start w) (\<lambda>w. Inr (1, a, w))))))))"

subsection \<open>Operations\<close>

definition RT_debug_save_trace ::
  "timespec \<Rightarrow> u64 \<Rightarrow> u32 \<Rightarrow> EGroupTrace \<Rightarrow> u32 \<Rightarrow> u64 \<Rightarrow> u64 \<Rightarrow> u64 \<Rightarrow> u64 \<Rightarrow> rt_adapt \<times> world \<Rightarrow> fault + (rt_adapt \<times> world)" where
  "RT_debug_save_trace now self junk tid line val0 val1 val2 val3 s =
     (let (a, w) = s in
      bindE (arr_get (traces a) (trace_num tid)) (\<lambda>t.
      bindE (RTDBG_AddTrace now self junk (tr_group_id t) (tr_trace_id t) line val0 val1 val2 val3 w) (\<lambda>w.
        Inr (a, w))))"

text \<open>The number of the enumeration constant is passed as the group.\<close>

definition RT_debug_save_log ::
  "timespec \<Rightarrow> E_GROUPS \<Rightarrow> string \<Rightarrow> rt_adapt \<times> world \<Rightarrow> (fault + (rt_adapt \<times> world)) option" where
  "RT_debug_save_log now gid str s =
     (let (a, w) = s in bindD (RTDBG_AddLog now (of_nat (group_num gid)) str w) (\<lambda>w. Some (Inr (a, w))))"

definition RT_debug_get_event_cnt :: "nat \<Rightarrow> rt_adapt \<Rightarrow> fault + (nat \<times> nat) option" where
  "RT_debug_get_event_cnt group_name a = bindE (arr_get (group_events a) group_name) (\<lambda>e. Inr (event_cnt e))"

definition RT_debug_prof_init ::
  "(nat \<Rightarrow> timespec) \<Rightarrow> (nat \<Rightarrow> u64) \<Rightarrow> nat \<Rightarrow> ProfilePoint \<Rightarrow> u32 \<Rightarrow> rt_adapt \<times> world \<Rightarrow> fault + ProfilePoint" where
  "RT_debug_prof_init clk cyc group_prof prof meas_cnt s =
     (let (a, w) = s in
      bindE (arr_get (prof_points a) group_prof) (\<lambda>p.
        RTDBG_ProfInit clk cyc (pr_group_id p) (profile_id p) meas_cnt prof w))"

definition RT_debug_prof_flush ::
  "layout \<Rightarrow> nat \<Rightarrow> ProfilePoint \<Rightarrow> rt_adapt \<times> world \<Rightarrow> (fault + (ProfilePoint \<times> rt_adapt \<times> world)) option" where
  "RT_debug_prof_flush lay group_prof prof s =
     (let (a, w) = s in
      bindD (Some (arr_get (prof_points a) group_prof)) (\<lambda>_.
      bindD (RTDBG_ProfFlushMeas lay prof w) (\<lambda>(prof, w). Some (Inr (prof, a, w)))))"

definition RT_debug_prof_start ::
  "timespec \<Rightarrow> u64 \<Rightarrow> nat \<Rightarrow> ProfilePoint \<Rightarrow> rt_adapt \<times> world \<Rightarrow> fault + ProfilePoint" where
  "RT_debug_prof_start now cyc group_prof prof s =
     bindE (arr_get (prof_points (fst s)) group_prof) (\<lambda>_. RTDBG_StartProfMeas now cyc prof)"

definition RT_debug_prof_stop ::
  "layout \<Rightarrow> timespec \<Rightarrow> u64 \<Rightarrow> nat \<Rightarrow> ProfilePoint \<Rightarrow> rt_adapt \<times> world \<Rightarrow>
   (fault + (ProfilePoint \<times> rt_adapt \<times> world)) option" where
  "RT_debug_prof_stop lay now cyc group_prof prof s =
     (let (a, w) = s in
      bindD (Some (arr_get (prof_points a) group_prof)) (\<lambda>_.
      bindD (RTDBG_StopProfMeas lay now cyc prof w) (\<lambda>(prof, w). Some (Inr (prof, a, w)))))"

text \<open>The names go to local buffers of 80 characters and are dropped.\<close>

definition RT_debug_get_prof_data ::
  "nat \<Rightarrow> rt_adapt \<times> world \<Rightarrow> (fault + (ProfileData option \<times> rt_adapt \<times> world)) option" where
  "RT_debug_get_prof_data pid s =
     (let (a, w) = s in
      bindD (Some (arr_get (prof_points a) pid)) (\<lambda>p.
      bindD (RTDBG_GetProfInfo (pr_group_id p) (profile_id p) (replicate 80 NUL) (replicate 80 NUL) w) (\<lambda>(r, w).
        Some (Inr (case r of Some (_, Some (d, _)) \<Rightarrow> Some d | _ \<Rightarrow> None, a, w)))))"

definition RT_debug_start :: "rt_adapt \<times> world \<Rightarrow> fault + (rt_adapt \<times> world)" where
  "RT_debug_start s = bindE (RTDBG_Start (snd s)) (\<lambda>w. Inr (fst s, w))"

definition RT_debug_stop :: "rt_adapt \<times> world \<Rightarrow> fault + (rt_adapt \<times> world)" where
  "RT_debug_stop s = bindE (RTDBG_Stop (snd s)) (\<lambda>w. Inr (fst s, w))"

definition RT_debug_ExtractDebugData ::
  "bool \<Rightarrow> (nat \<Rightarrow> nat \<Rightarrow> timespec) \<Rightarrow> (nat \<Rightarrow> timespec) \<Rightarrow> rt_adapt \<times> world \<Rightarrow>
   (fault + (string option \<times> rt_adapt \<times> world)) option" where
  "RT_debug_ExtractDebugData file_ok tclk lclk s =
     (let (a, w) = s in
      bindD (Some (RTDBG_Stop w)) (\<lambda>w.
      bindD (RTDBG_ExtractDebugData file_ok tclk lclk w) (\<lambda>(r, w). Some (Inr (r, a, w)))))"

text \<open>\<open>log_str\<close> is \<open>None\<close> for \<open>NULL\<close>; the result is the text when the function returns true.\<close>

definition RT_debug_get_grp_log ::
  "timespec \<Rightarrow> nat \<Rightarrow> cbuf option \<Rightarrow> rt_adapt \<times> world \<Rightarrow> fault + (cbuf option \<times> rt_adapt \<times> world)" where
  "RT_debug_get_grp_log now group_id dst s =
     (let (a, w) = s in
      case dst of
        None \<Rightarrow> Inr (None, a, w)
      | Some dst \<Rightarrow>
          if MAX_GROUP_NUM - 1 < group_id then Inr (None, a, w)
          else bindE (RTDBG_GetLog now dst True (push_bit group_id 1) w) (\<lambda>(r, w).
                 Inr (map_option fst r, a, w)))"

end
