(* ===== verification/Example_C.thy ===== *)
theory Example_C
  imports RT_Adapt C_API
begin

section \<open>The example program\<close>

text \<open>
  \<open>example_c.c\<close>: a program that collects data from ten threads, or extracts what another process collected. The
  program of each thread is a list of actions, each an operation of the adaptation layer or one
  access to a counter, so that the threads can be interleaved at any point; \<open>app_step\<close> lets any thread do its next
  action. What the program prints, and the time it sleeps, are left out.
\<close>

subsection \<open>The command line\<close>

datatype PROG_ACTION = E_NONE | E_APPLICATION | E_MONITOR | E_EXTRACT | E_MAX_ACTION

record options =
  tst_action :: PROG_ACTION
  rt_debug_data :: cbuf
  rt_debug_out :: cbuf

definition NAME_BUF :: nat where "NAME_BUF = 100"

definition name_buf :: "string \<Rightarrow> cbuf" where
  "name_buf s = s @ replicate (NAME_BUF - length s) NUL"

definition default_options :: options where
  "default_options =
     \<lparr>tst_action = E_NONE, rt_debug_data = name_buf ''/tmp/rt_debug.dat'', rt_debug_out = name_buf ''/tmp/rt_debug.txt''\<rparr>"

definition char_at :: "string \<Rightarrow> nat \<Rightarrow> char" where
  "char_at s i = (if i < length s then s ! i else NUL)"

text \<open>
  The loop over \<open>argv\<close> from \<open>argv[optind]\<close>. \<open>None\<close> is \<open>exit(EXIT_FAILURE)\<close>. The name after \<open>-i\<close> or \<open>-o\<close> is not checked:
  at the end of \<open>argv\<close> it is the null pointer that ends the array.
\<close>

fun parse_args :: "string list \<Rightarrow> options \<Rightarrow> fault + options option" where
  "parse_args [] opt = Inr (Some opt)"
| "parse_args (a # args) opt =
     (if char_at a 0 \<noteq> CHR ''-'' then Inr (Some opt)
      else if char_at a 1 = CHR ''a'' then
        (if tst_action opt \<noteq> E_NONE then Inr None else parse_args args (opt\<lparr>tst_action := E_APPLICATION\<rparr>))
      else if char_at a 1 = CHR ''m'' then
        (if tst_action opt \<noteq> E_NONE then Inr None else parse_args args (opt\<lparr>tst_action := E_MONITOR\<rparr>))
      else if char_at a 1 = CHR ''e'' then
        (if tst_action opt \<noteq> E_NONE then Inr None else parse_args args (opt\<lparr>tst_action := E_EXTRACT\<rparr>))
      else if char_at a 1 = CHR ''i'' then
        (case args of
           [] \<Rightarrow> Inl NullDeref
         | f # args \<Rightarrow> bindE (strcpy (rt_debug_data opt) f) (\<lambda>b. parse_args args (opt\<lparr>rt_debug_data := b\<rparr>)))
      else if char_at a 1 = CHR ''o'' then
        (case args of
           [] \<Rightarrow> Inl NullDeref
         | f # args \<Rightarrow> bindE (strcpy (rt_debug_out opt) f) (\<lambda>b. parse_args args (opt\<lparr>rt_debug_out := b\<rparr>)))
      else if char_at a 1 = CHR ''h'' then parse_args args opt
      else Inr None)"

subsection \<open>The programs of the threads\<close>

datatype point_var = PROF_TASK | PROF_TASK1

datatype action =
    A_get_event EGroupEvent
  | A_load
  | A_add
  | A_set u64
  | A_init_prof EGroupProfile point_var u32
  | A_start_prof EGroupProfile point_var
  | A_stop_prof EGroupProfile point_var
  | A_flush_prof EGroupProfile point_var
  | A_trace EGroupTrace u32 u64 u64 u64 u64
  | A_log E_GROUPS string "parg list"
  | A_RT_debug_start
  | A_RT_debug_stop
  | A_RTDBG_Stop
  | A_extract
  | A_create
  | A_join nat

text \<open>\<open>*watch_dog+=1\<close> is a load and a store.\<close>

definition num_iter :: nat where "num_iter = 10000"

definition WorkThread :: "action list" where
  "WorkThread =
     [A_get_event STATUS_GROUP_EV_WATCHDOG,
      A_init_prof GEN_GROUP_UI_PROF PROF_TASK 500,
      A_init_prof GEN_GROUP_TST_PROF PROF_TASK1 500,
      A_start_prof GEN_GROUP_TST_PROF PROF_TASK1] @
     concat (map (\<lambda>i.
       [A_load, A_add,
        A_start_prof GEN_GROUP_UI_PROF PROF_TASK,
        A_trace GEN_GROUP_PASSED 52 (of_nat i) 0 0 0,
        A_stop_prof GEN_GROUP_UI_PROF PROF_TASK]) [0..<num_iter]) @
     [A_stop_prof GEN_GROUP_TST_PROF PROF_TASK1,
      A_flush_prof GEN_GROUP_UI_PROF PROF_TASK,
      A_flush_prof GEN_GROUP_TST_PROF PROF_TASK1]"

definition thread_num :: nat where "thread_num = 10"

text \<open>\<open>tid i\<close> is what \<open>pthread_create\<close> stores in \<open>tid[i]\<close>.\<close>

definition Run_application :: "(nat \<Rightarrow> u64) \<Rightarrow> action list" where
  "Run_application tid =
     [A_get_event STATUS_GROUP_EV_STATUS, A_set 0] @
     concat (map (\<lambda>i. [A_create, A_trace INIT_GROUP_CREATE_THREAD 83 (of_nat i) (ucast (ucast (tid i) :: u32)) 0 0])
       [0..<thread_num]) @
     [A_set 1] @
     map A_join [0..<thread_num] @
     [A_set 2, A_log STATUS_GROUP ''Exit application'' [], A_RT_debug_stop, A_extract]"

text \<open>The \<open>switch\<close> of \<open>main\<close>; the case \<open>E_MONITOR\<close> falls through to \<open>E_EXTRACT\<close>. \<open>RunMonitor\<close> is empty.\<close>

definition ExtractData :: "action list" where
  "ExtractData = [A_extract]"

fun main_switch :: "(nat \<Rightarrow> u64) \<Rightarrow> PROG_ACTION \<Rightarrow> action list" where
  "main_switch tid E_APPLICATION =
     [A_RT_debug_start, A_log INIT_GROUP ''Start running application %d'' [AInt 10]] @
     Run_application tid @
     [A_log GEN_GROUP ''Stop application'' []]"
| "main_switch tid E_MONITOR = A_RTDBG_Stop # A_RT_debug_stop # ExtractData"
| "main_switch tid E_EXTRACT = A_RT_debug_stop # ExtractData"
| "main_switch tid _ = []"

subsection \<open>Threads\<close>

text \<open>The local variables of a thread, the last report it wrote, and what it has still to do.\<close>

record thread =
  cnt_ptr :: "(nat \<times> nat) option"
  cnt_tmp :: u64
  points :: "point_var \<Rightarrow> ProfilePoint"
  report :: "string option"
  todo :: "action list"

type_synonym program = "rt_adapt \<times> world"

definition counter_load :: "(nat \<times> nat) option \<Rightarrow> world \<Rightarrow> fault + u64" where
  "counter_load r w =
     (case r of
        None \<Rightarrow> Inl NullDeref
      | Some (i, k) \<Rightarrow>
          bindE (deref w) (\<lambda>d. bindE (arr_get (debug_groups d) i) (\<lambda>g.
            bindE (arr_get (rt_counters (event_counters g)) k) (\<lambda>c. Inr (cnt_val c)))))"

text \<open>The macro \<open>RTDBG_SAVE_LOG\<close>: the text is printed into a local buffer of 100 characters.\<close>

definition RTDBG_SAVE_LOG ::
  "timespec \<Rightarrow> E_GROUPS \<Rightarrow> string \<Rightarrow> parg list \<Rightarrow> program \<Rightarrow> (fault + program) option" where
  "RTDBG_SAVE_LOG now gid fmt args s =
     bindD (Some (sprintf (replicate 100 NUL) fmt args)) (\<lambda>b.
     bindD (Some (c_str b)) (\<lambda>str. RT_debug_save_log now gid str s))"

text \<open>One action of a thread, with its new local variables and the new state of the program. Creating and joining
  threads are steps of the program as a whole.\<close>

fun do_action :: "layout \<Rightarrow> env \<Rightarrow> action \<Rightarrow> thread \<Rightarrow> program \<Rightarrow> (fault + (thread \<times> program)) option" where
  "do_action lay e (A_get_event ev) t s =
     Some (bindE (RT_debug_get_event_cnt (event_num ev) (fst s)) (\<lambda>r. Inr (t\<lparr>cnt_ptr := r\<rparr>, s)))"
| "do_action lay e A_load t s =
     Some (bindE (counter_load (cnt_ptr t) (snd s)) (\<lambda>v. Inr (t\<lparr>cnt_tmp := v\<rparr>, s)))"
| "do_action lay e A_add t s =
     Some (bindE (counter_update (cnt_ptr t) (\<lambda>_. cnt_tmp t + 1) (snd s)) (\<lambda>w. Inr (t, fst s, w)))"
| "do_action lay e (A_set v) t s =
     Some (bindE (counter_update (cnt_ptr t) (\<lambda>_. v) (snd s)) (\<lambda>w. Inr (t, fst s, w)))"
| "do_action lay e (A_init_prof pr x n) t s =
     Some (bindE (RT_debug_prof_init (env_clk e) (env_cycs e) (profile_num pr) (points t x) n s) (\<lambda>p.
       Inr (t\<lparr>points := (points t)(x := p)\<rparr>, s)))"
| "do_action lay e (A_start_prof pr x) t s =
     Some (bindE (RT_debug_prof_start (env_now e) (env_cyc e) (profile_num pr) (points t x) s) (\<lambda>p.
       Inr (t\<lparr>points := (points t)(x := p)\<rparr>, s)))"
| "do_action lay e (A_stop_prof pr x) t s =
     bindD (RT_debug_prof_stop lay (env_now e) (env_cyc e) (profile_num pr) (points t x) s) (\<lambda>(p, s).
       Some (Inr (t\<lparr>points := (points t)(x := p)\<rparr>, s)))"
| "do_action lay e (A_flush_prof pr x) t s =
     bindD (RT_debug_prof_flush lay (profile_num pr) (points t x) s) (\<lambda>(p, s).
       Some (Inr (t\<lparr>points := (points t)(x := p)\<rparr>, s)))"
| "do_action lay e (A_trace tid line v0 v1 v2 v3) t s =
     Some (bindE (RT_debug_save_trace (env_now e) (env_self e) (env_junk e) tid line v0 v1 v2 v3 s) (\<lambda>s. Inr (t, s)))"
| "do_action lay e (A_log gid fmt args) t s =
     bindD (RTDBG_SAVE_LOG (env_now e) gid fmt args s) (\<lambda>s. Some (Inr (t, s)))"
| "do_action lay e A_RT_debug_start t s = Some (bindE (RT_debug_start s) (\<lambda>s. Inr (t, s)))"
| "do_action lay e A_RT_debug_stop t s = Some (bindE (RT_debug_stop s) (\<lambda>s. Inr (t, s)))"
| "do_action lay e A_RTDBG_Stop t s = Some (bindE (RTDBG_Stop (snd s)) (\<lambda>w. Inr (t, fst s, w)))"
| "do_action lay e A_extract t s =
     bindD (RT_debug_ExtractDebugData (env_file_ok e) (env_trace_clk e) (env_log_clk e) s) (\<lambda>(r, s).
       Some (Inr (t\<lparr>report := r\<rparr>, s)))"
| "do_action lay e A_create t s = Some (Inr (t, s))"
| "do_action lay e (A_join i) t s = Some (Inr (t, s))"

subsection \<open>The program\<close>

record app =
  main :: thread
  workers :: "thread list"
  prog_state :: program

text \<open>A new thread: its local variables hold whatever is on its stack (\<open>loc\<close>).\<close>

definition new_thread :: "action list \<Rightarrow> thread \<Rightarrow> thread" where
  "new_thread acts loc = loc\<lparr>todo := acts\<rparr>"

text \<open>
  A step: the main thread or any of the threads it has created does its next action. \<open>pthread_create\<close> starts the thread whose number is
  the number of threads created before; \<open>pthread_join\<close> waits until its thread has nothing more to do.
\<close>

inductive app_step :: "layout \<Rightarrow> app \<Rightarrow> app \<Rightarrow> bool" for lay where
  main_act: "todo (main p) = x # rest \<Longrightarrow> x \<noteq> A_create \<Longrightarrow> x \<notin> range A_join \<Longrightarrow>
    do_action lay e x (main p) (prog_state p) = Some (Inr (t, s)) \<Longrightarrow>
    app_step lay p (p\<lparr>main := t\<lparr>todo := rest\<rparr>, prog_state := s\<rparr>)"
| create: "todo (main p) = A_create # rest \<Longrightarrow>
    app_step lay p (p\<lparr>main := (main p)\<lparr>todo := rest\<rparr>, workers := workers p @ [new_thread WorkThread loc]\<rparr>)"
| join: "todo (main p) = A_join i # rest \<Longrightarrow> i < length (workers p) \<Longrightarrow> todo (workers p ! i) = [] \<Longrightarrow>
    app_step lay p (p\<lparr>main := (main p)\<lparr>todo := rest\<rparr>\<rparr>)"
| work: "i < length (workers p) \<Longrightarrow> todo (workers p ! i) = x # rest \<Longrightarrow>
    do_action lay e x (workers p ! i) (prog_state p) = Some (Inr (t, s)) \<Longrightarrow>
    app_step lay p (p\<lparr>workers := (workers p)[i := t\<lparr>todo := rest\<rparr>], prog_state := s\<rparr>)"

inductive app_reaches :: "layout \<Rightarrow> app \<Rightarrow> app \<Rightarrow> bool" for lay where
  start: "app_reaches lay p p"
| then_step: "app_reaches lay p q \<Longrightarrow> app_step lay q r \<Longrightarrow> app_reaches lay p r"

inductive_cases app_stepE: "app_step lay p q"

text \<open>
  \<open>main\<close> up to the \<open>switch\<close>: the options, the removal of an old file when the application is run, and \<open>RT_debug_init\<close>, whose
  result is not looked at. \<open>exists\<close> and \<open>removed\<close> say whether the file exists and whether
  \<open>remove\<close> succeeds. \<open>None\<close> inside is \<open>exit(EXIT_FAILURE)\<close>.
\<close>

definition main_start ::
  "layout \<Rightarrow> os_answers \<Rightarrow> bool \<Rightarrow> bool \<Rightarrow> (nat \<Rightarrow> u64) \<Rightarrow> thread \<Rightarrow> string list \<Rightarrow> program \<Rightarrow> fault + app option" where
  "main_start lay os exists removed tid loc argv s =
     bindE (parse_args (tl argv) default_options) (\<lambda>r.
       case r of
         None \<Rightarrow> Inr None
       | Some opt \<Rightarrow>
           bindE (c_str (rt_debug_data opt)) (\<lambda>nm.
             let exists = (exists \<and> \<not> (tst_action opt = E_APPLICATION \<and> removed)) in
             bindE (RT_debug_init lay os exists nm s) (\<lambda>(_, s).
               Inr (Some \<lparr>main = new_thread (main_switch tid (tst_action opt)) loc, workers = [], prog_state = s\<rparr>))))"

text \<open>The main thread alone.\<close>

fun run_main :: "layout \<Rightarrow> env \<Rightarrow> action list \<Rightarrow> thread \<Rightarrow> program \<Rightarrow> (fault + (thread \<times> program)) option" where
  "run_main lay e [] t s = Some (Inr (t, s))"
| "run_main lay e (x # acts) t s = bindD (do_action lay e x t s) (\<lambda>(t, s). run_main lay e acts t s)"

end
