(* ===== verification/Client_Calls.thy ===== *)
theory Client_Calls
  imports C_API
begin

section \<open>Clients of the C interface\<close>

text \<open>
  Type safety of the interface: a typed and proper call that returns leaves a consistent process (preservation),
  and a call that is also ready returns, without a fault and without looping (progress).
\<close>

subsection \<open>Preservation\<close>

definition process_ok :: "layout \<Rightarrow> world \<Rightarrow> bool" where
  "process_ok lay w \<longleftrightarrow> world_ok lay w \<and> rt_shape (shm w)"

text \<open>Every call is a step of the process, but for the calls that may map another file.\<close>

lemma exec_step:
  assumes "api_exec lay e c w = Some (Inr (r, w'))" "typed_args lay e c" "proper_use lay e c w"
    "c \<notin> {C_ActivateDebugDataCollection, C_AttachDebugData}"
  shows "w' = w \<or> (\<exists>b. api_step lay b w w')"
proof (cases "c = C_Init")
  case True
  then have "RTDBG_Init lay w = Inr w'" using assms(1) by (auto simp: ret_defs bindE_eq_Inr)
  from api_step.init [OF this] show ?thesis by blast
next
  case False
  have "w' = w \<or> api_step lay False w w'"
    using assms False
    by (cases c) (auto simp: ret_defs bindE_eq_Inr bindD_eq_Some_Inr RTDBG_StopProfMeas_def intro: api_step.intros)
  then show ?thesis by blast
qed

lemma Attach_preserves:
  assumes "RTDBG_AttachDebugData os w = Inr (r, w')" "world_ok lay w" "rt_wf (os_file os)"
    "\<forall>p. os_mmap os = Some p \<longrightarrow> addrs_ok (lay p)"
  shows "world_ok lay w' \<and> (shm w' = shm w \<or> shm w' = os_file os)"
  using assms
  by (auto simp: RTDBG_AttachDebugData_def ASSERT_def bindE_eq_Inr Let_def map_object_def world_ok_def
      split: if_splits option.splits)

lemma exec_preserves:
  assumes "api_exec lay e c w = Some (Inr (r, w'))" "typed_args lay e c" "proper_use lay e c w" "process_ok lay w"
  shows "process_ok lay w'"
proof -
  have w: "world_ok lay w" "rt_shape (shm w)" using assms(4) by (simp_all add: process_ok_def)
  consider "c \<notin> {C_ActivateDebugDataCollection, C_AttachDebugData}" | "c = C_ActivateDebugDataCollection"
    | "c = C_AttachDebugData" by blast
  then show ?thesis
  proof cases
    case 1
    from exec_step [OF assms(1-3) this] assms(4) w api_step_preserves [OF _ w(1)] show ?thesis
      unfolding process_ok_def by blast
  next
    case 2
    then obtain b where "RTDBG_ActivateDebugDataCollection lay (env_os e) w = Inr (b, w')"
      using assms(1) by (auto simp: ret_defs bindE_eq_Inr)
    from Activate_preserves [OF this w(1)] assms(2) w(2) 2 show ?thesis by (simp add: process_ok_def)
  next
    case 3
    then obtain b where "RTDBG_AttachDebugData (env_os e) w = Inr (b, w')"
      using assms(1) by (auto simp: ret_defs bindE_eq_Inr)
    from Attach_preserves [OF this w(1)] assms(2,3) w(2) 3 show ?thesis by (auto simp: process_ok_def)
  qed
qed

subsection \<open>Progress\<close>

text \<open>A handler that is attached, with the objects of a group that exists.\<close>

lemma attached_world: "world_ok lay w \<Longrightarrow> mem_attached (hnd w) \<Longrightarrow> can_register lay w"
  by (simp add: world_ok_def can_register_def attached_ok_def)

lemma ready_group:
  assumes "world_ok lay w" "mem_attached (hnd w)" "grp < num_alloc_groups (shm w)"
  shows "deref w = Inr (shm w)" "GetDebugGrp grp (shm w) = Inr (grp_at w grp)" "group_wf (grp_at w grp)"
    "unat grp < ngroups w" "unat grp < length (debug_groups (shm w))" "addr_ok (lay (rt_debugp (hnd w)) (unat grp))"
proof -
  have r: "attached_ok w" "addrs_ok (lay (rt_debugp (hnd w)))"
    using attached_world [OF assms(1,2)] by (auto simp: can_register_def)
  show n: "unat grp < ngroups w" using assms(3) by (simp add: word_less_nat_alt ngroups_def)
  from attached_deref [OF r(1)] group_at [OF r(1) n]
  show "deref w = Inr (shm w)" "GetDebugGrp grp (shm w) = Inr (grp_at w grp)" "group_wf (grp_at w grp)"
    "unat grp < length (debug_groups (shm w))" by simp_all
  show "addr_ok (lay (rt_debugp (hnd w)) (unat grp))"
    using r(2) n ngroups_le [OF r(1)] by (simp add: addrs_ok_def)
qed

lemma at_grp_returns:
  assumes "world_ok lay w" "mem_attached (hnd w)" "grp < num_alloc_groups (shm w)" "f (grp_at w grp) = Inr (x, g)"
  shows "at_grp grp f w = Inr (x, w\<lparr>shm := put_grp grp g (shm w)\<rparr>)"
  using ready_group(1,2) [OF assms(1-3)] assms(4) by (simp add: at_grp_def)

text \<open>A name table with room gives an index.\<close>

lemma room_enter: "room nm xs n \<Longrightarrow> length xs \<le> n \<Longrightarrow> length (snd (enter nm xs)) \<le> n"
  by (auto simp: room_def enter_def first_pos_None_iff split: option.splits)

context name_table
begin

lemma alloc_room:
  assumes "invar s" "ok nm" "room nm (names s) limit"
  shows "\<exists>i s'. alloc nm s = Inr (of_nat i, s') \<and> i < length (names s') \<and> length (names s') \<le> limit \<and> invar s'"
proof -
  obtain i xs where e: "enter nm (names s) = (i, xs)" by fastforce
  have "length xs \<le> limit" using room_enter [OF assms(3) names_limit [OF assms(1)]] e by simp
  from alloc_enter [OF assms(1,2) e this] enter_less [OF e] this show ?thesis by auto
qed

end

lemma AllocCounter_returns:
  assumes w: "world_ok lay w" "mem_attached (hnd w)" and g: "grp < num_alloc_groups (shm w)"
    and nm: "fits TRACE_STRING_SIZE nm" "room nm (counter_names (event_counters (grp_at w grp))) (NUM_COUNTERS - 1)"
  shows "\<exists>r. RTDBG_AllocCounter grp nm w = Inr r"
proof -
  have wf: "counters_wf (event_counters (grp_at w grp))" using ready_group(3) [OF w g] by (simp add: group_wf_def)
  from counters.alloc_room [OF this nm] obtain i c where
    c: "AllocCnt nm (event_counters (grp_at w grp)) = Inr (of_nat i, c)" "i < length (counter_names c)"
    "length (counter_names c) \<le> NUM_COUNTERS - 1" "counters_wf c" by blast
  have "unat (of_nat i :: u32) = i" using c(2,3) by (intro unat_of_nat_u32) (simp add: NUM_COUNTERS_def)
  then have "Get_counter (of_nat i) c = Inr i"
    using c(2) length_counter_names [OF c(4)] by (simp add: Get_counter_def word_le_nat_alt)
  then show ?thesis using c(1) w(2)
    by (simp add: RTDBG_AllocCounter_def at_grp_returns [OF w g])
qed

lemma AddTraceEntry_returns:
  assumes w: "world_ok lay w" "mem_attached (hnd w)" and g: "grp < num_alloc_groups (shm w)"
    and nm: "fits TRACE_STRING_SIZE nm" "room nm (trace_names (tracer (grp_at w grp))) MAX_TRACE_FORMATS"
  shows "\<exists>r. RTDBG_AddTraceEntry grp nm w = Inr r"
proof -
  have "trace_wf (tracer (grp_at w grp))" using ready_group(3) [OF w g] by (simp add: group_wf_def)
  from formats.alloc_room [OF this nm] w(2) show ?thesis
    by (auto simp: RTDBG_AddTraceEntry_def at_grp_returns [OF w g])
qed

lemma AddProfiler_returns:
  assumes w: "world_ok lay w" "mem_attached (hnd w)" and g: "grp < num_alloc_groups (shm w)"
    and nm: "fits MDO_NAME_SIZE nm" "room nm (profiler_names (profiler (grp_at w grp))) PROF_GROUP_MAX"
  shows "\<exists>r. RTDBG_AddProfiler lay grp nm w = Inr r"
proof -
  have "profiler_wf (profiler (grp_at w grp)) \<and> bases_ok (ga_prof (lay (rt_debugp (hnd w)) (unat grp)))"
    using ready_group(3,6) [OF w g] by (simp add: group_wf_def addr_ok_def)
  from profilers.alloc_room [OF this nm] w(2) show ?thesis
    by (auto simp: RTDBG_AddProfiler_def at_grp_returns [OF w g])
qed

lemma AllocGroup_returns:
  assumes w: "world_ok lay w" "mem_attached (hnd w)"
    and nm: "fits TRACE_STRING_SIZE nm" "room nm (group_names (shm w)) MAX_GROUP_NUM"
  shows "\<exists>r. RTDBG_AllocRTDebugGroup lay nm w = Inr r"
proof -
  have r: "attached_ok w" "addrs_ok (lay (rt_debugp (hnd w)))"
    using attached_world [OF w] by (auto simp: can_register_def)
  then have "rt_wf (shm w) \<and> addrs_ok (lay (rt_debugp (hnd w)))" by (simp add: attached_ok_def)
  from groups.alloc_room [OF this nm] attached_deref [OF r(1)] w(2) show ?thesis
    by (auto simp: RTDBG_AllocRTDebugGroup_def)
qed

lemma AddTrace_returns:
  assumes w: "world_ok lay w" "mem_attached (hnd w)" and g: "grp < num_alloc_groups (shm w)"
    and tid: "tid < num_alloc_formats (tracer (grp_at w grp))"
  shows "\<exists>w'. RTDBG_AddTrace now self junk grp tid line v0 v1 v2 v3 w = Inr w'"
proof -
  have "trace_wf (tracer (grp_at w grp))" using ready_group(3) [OF w g] by (simp add: group_wf_def)
  with AddTrace_eq [OF this tid, of now self junk line v0 v1 v2 v3] w(2) ready_group(1) [OF w g] show ?thesis
    by (simp add: RTDBG_AddTrace_def at_grp_returns [OF w g] Let_def)
qed

lemma AddLog_returns:
  assumes w: "world_ok lay w" "mem_attached (hnd w)" and g: "grp < num_alloc_groups (shm w)" and str: "loggable str"
  shows "\<exists>w'. RTDBG_AddLog now grp str w = Some (Inr w')"
proof -
  have "log_wf (logger (grp_at w grp))" using ready_group(3) [OF w g] by (simp add: group_wf_def)
  with AddLog_ok [OF this str, of now] w(2) ready_group(1,2) [OF w g] show ?thesis
    by (auto simp: RTDBG_AddLog_def)
qed

lemma nth_in_take: "i < k \<Longrightarrow> i < length xs \<Longrightarrow> xs ! i \<in> set (take k xs)"
  by (metis length_take min_less_iff_conj nth_mem nth_take)

text \<open>Sending the data of a point changes the contents of its buffer.\<close>

lemma ProfFlush_ok:
  assumes w: "world_ok lay w" "mem_attached (hnd w)" and p: "point_ok lay p w"
  shows "\<exists>p' m' i k. mem_ptr p = Some (i, k) \<and> RTDBG_ProfFlushMeas lay p w = Some (Inr (p', put_fifo p m' w)) \<and>
    area_frame m' = area_frame (prof_fifos (profiler (debug_groups (shm w) ! i)) ! k) \<and> p' \<in> {p, ResetProfData p}"
proof -
  obtain i k where ik: "mem_ptr p = Some (i, k)" "i < ngroups w"
    "k < unat (num_alloc_prof (profiler (debug_groups (shm w) ! i)))"
    "area_at (ga_prof (lay (rt_debugp (hnd w)) i) k) (prof_fifos (profiler (debug_groups (shm w) ! i)) ! k)"
    using p by (auto simp: point_ok_def split: option.splits)
  have a: "attached_ok w" using attached_world [OF w] by (simp add: can_register_def)
  let ?pg = "profiler (debug_groups (shm w) ! i)"
  let ?m = "prof_fifos ?pg ! k" and ?b = "ga_prof (lay (rt_debugp (hnd w)) i) k"
  have pw: "profiler_wf ?pg" using group_at(2) [OF a ik(2)] by (simp add: group_wf_def)
  then have k: "k < length (prof_fifos ?pg)" using ik(3) by (simp add: profiler_wf_def name_array_def)
  show ?thesis
  proof (cases "meas_num (prof_data p) = 0")
    case True
    moreover have "put_fifo p ?m w = w" using ik(1) by (simp add: put_fifo_def Let_def)
    ultimately show ?thesis using ik(1) by (intro exI [of _ p] exI [of _ ?m]) (simp add: RTDBG_ProfFlushMeas_def)
  next
    case False
    have "area_ready sizeof_ProfileData ?m"
      using pw nth_in_take [OF ik(3) k] by (simp add: profiler_wf_def)
    moreover have "prof_shape ?m" using pw k by (simp add: profiler_wf_def)
    ultimately have ok: "prof_fifo_ok ?b ?m" using ik(4) by (simp add: prof_fifo_ok_def prof_shape_def)
    then have "length (fifo_contents ?m) \<le> prof_cap"
      using prof_fifo_cap [OF ok] contents_len_cap [of ?m] by (simp add: prof_fifo_ok_def area_ready_def)
    then obtain m' where "prof_Update ?b p ?m = Some (Inr (ResetProfData p, m'))" "area_frame m' = area_frame ?m"
      using prof_Update_room [OF ok _ False] prof_Update_full [OF ok _ False] ik(1)
      by (metis le_neq_implies_less option.distinct(1))
    then show ?thesis using False ik(1) group_at(3) [OF a ik(2)] k a
      by (auto simp: RTDBG_ProfFlushMeas_def mem_fifo_def attached_ok_def)
  qed
qed

lemma ProfFlush_returns:
  assumes "world_ok lay w" "mem_attached (hnd w)" "point_ok lay p w"
  shows "\<exists>r. RTDBG_ProfFlushMeas lay p w = Some (Inr r)"
  using ProfFlush_ok [OF assms] by blast

lemma PutProfVal_returns:
  assumes "world_ok lay w" "mem_attached (hnd w)" "point_ok lay p w"
  shows "\<exists>r. RTDBG_PutProfVal lay now cyc val p w = Some (Inr r)"
proof -
  have "point_ok lay (stop_collect now cyc val p) w" using assms(3) by (simp add: point_ok_def stop_collect_def Let_def)
  from ProfFlush_returns [OF assms(1,2) this] show ?thesis by (simp add: RTDBG_PutProfVal_def Let_def)
qed

lemma GetGrpName_returns:
  assumes w: "world_ok lay w" "mem_attached (hnd w)" and g: "grp < num_alloc_groups (shm w)" and dst: "TRACE_STRING_SIZE \<le> length dst"
  shows "\<exists>r. RTDBG_GetGrpName grp dst w = Inr r"
proof -
  have a: "attached_ok w" using attached_world [OF w] by (simp add: can_register_def)
  have "terminated (gd_group_name (grp_at w grp)) \<and> length (gd_group_name (grp_at w grp)) = TRACE_STRING_SIZE"
    using a ready_group(5) [OF w g] nth_in_take [OF ready_group(4,5) [OF w g]]
    by (simp add: attached_ok_def rt_wf_def name_array_def ngroups_def)
  with GetGrpName_ok [of "grp_at w grp" dst] dst w(2) ready_group(1,2) [OF w g] show ?thesis
    by (auto simp: RTDBG_GetGrpName_def)
qed

text \<open>The readers.\<close>

lemma GetTraceEntry_returns:
  assumes w: "world_ok lay w" "mem_attached (hnd w)"
    and "active (shm w) \<or> slots_ok w \<and> (\<forall>i. later (clk i) w) \<and> TRACE_INFO_SIZE \<le> length dst"
  shows "\<exists>r. RTDBG_GetTraceEntry clk dst w = Inr r"
proof (cases "active (shm w)")
  case True
  have "deref w = Inr (shm w)" using w by (simp add: world_ok_def deref_def)
  then show ?thesis using True w(2) by (simp add: RTDBG_GetTraceEntry_def IsDataCollected_def Let_def)
next
  case False
  then show ?thesis using trace_call_ok [of w clk dst] assms(3) by blast
qed

lemma GetLog_returns:
  assumes "logs_ok w" "log_later now w" "LOG_STRING_SIZE \<le> length dst"
  shows "\<exists>r. RTDBG_GetLog now dst False (- 1) w = Inr r"
  using log_call_ok [OF assms] by blast

lemma GetProfInfo_returns:
  assumes w: "world_ok lay w" "mem_attached (hnd w)" and g: "grp < num_alloc_groups (shm w)"
    and p: "pid < num_alloc_prof (profiler (grp_at w grp))" "countable_group (profiler (grp_at w grp))"
    and len: "TRACE_STRING_SIZE \<le> length gb" "MDO_NAME_SIZE \<le> length pb"
  shows "\<exists>r. RTDBG_GetProfInfo grp pid gb pb w = Some (Inr r)"
proof -
  obtain b where b: "GetGrpName gb (grp_at w grp) = Inr b"
    using GetGrpName_returns [OF w g len(1)] w(2) ready_group(1,2) [OF w g] by (auto simp: RTDBG_GetGrpName_def bindE_eq_Inr)
  have "profiler_wf (profiler (grp_at w grp))" using ready_group(3) [OF w g] by (simp add: group_wf_def)
  from prof_GetProfInfo_eq [OF this p(1) len(2) refl] p obtain x y where
    "prof_GetProfInfo pid pb (profiler (grp_at w grp)) = Some (Inr (x, y))"
    by (auto simp: Let_def countable_group_def word_less_nat_alt split: if_splits)
  then show ?thesis using b w(2) ready_group(1,2) [OF w g] by (simp add: RTDBG_GetProfInfo_def)
qed

lemma ExtractDebugData_returns:
  assumes w: "slots_ok w" "logs_ok w" "short_names w" "status (hnd w) \<noteq> RTDBG_RUNNING_PRODUCER"
    and c: "\<forall>i < ngroups w. countable_group (profiler (debug_groups (shm w) ! i))"
    and clk: "\<forall>n i. later (tclk n i) w" "\<forall>n. log_later (lclk n) w"
  shows "\<exists>r. RTDBG_ExtractDebugData True tclk lclk w = Some (Inr r)"
  using report_returns [OF assms] by blast

text \<open>The life cycle.\<close>

lemma Init_returns:
  assumes "process_ok lay w" "mem_attached (hnd w)"
  shows "\<exists>w'. RTDBG_Init lay w = Inr w'"
proof -
  have w: "addrs_ok (lay (rt_debugp (hnd w)))" "rt_shape (shm w)" "rt_debugp (hnd w) \<noteq> 0" "mapped w"
    using assms by (simp_all add: process_ok_def world_ok_def)
  obtain d where "RT_Init (lay (rt_debugp (hnd w))) (shm w) = Inr d" using RT_Init_ok [OF w(2,1)] by blast
  then show ?thesis using w(3,4) assms(2) by (simp add: RTDBG_Init_def InitExtractTables_def deref_def)
qed

lemma Activate_returns:
  assumes "\<not> mem_attached (hnd w)" "named w" "rt_shape (os_file os)" "\<forall>p. os_mmap os = Some p \<longrightarrow> addrs_ok (lay p)"
  shows "\<exists>r. RTDBG_ActivateDebugDataCollection lay os w = Inr r"
proof (cases "os_good os")
  case True
  then obtain p where p: "os_mmap os = Some p" by (auto simp: os_good_def)
  from Activate_ok [where lay = lay, OF assms(1,2) True p assms(3)] assms(4) p show ?thesis by blast
next
  case False
  then show ?thesis using assms(1,2)
    by (auto simp: RTDBG_ActivateDebugDataCollection_def named_def os_good_def Let_def split: option.splits)
qed

lemma Attach_returns:
  assumes "\<not> mem_attached (hnd w)" "named w"
  shows "\<exists>r. RTDBG_AttachDebugData os w = Inr r"
  using assms by (auto simp: RTDBG_AttachDebugData_def named_def Let_def split: option.splits)

lemma SetSharedMemFile_returns:
  assumes "length (shared_file_name (hnd w)) = TRACE_STRING_SIZE" "fits TRACE_STRING_SIZE nm"
  shows "\<exists>w'. RTDBG_SetSharedMemFile nm w = Inr w'"
  using strcpy_fits [OF assms(2,1)] by (auto simp: RTDBG_SetSharedMemFile_def sprintf_def)

lemmas call_returns = AllocCounter_returns AddTraceEntry_returns AddProfiler_returns AllocGroup_returns AddTrace_returns
  AddLog_returns ProfFlush_returns PutProfVal_returns GetGrpName_returns

lemma attached_returns:
  assumes "process_ok lay w" "mem_attached (hnd w)" "typed_args lay e c" "proper_use lay e c w" "call_ready e c w"
  shows "\<exists>r. api_exec lay e c w = Some (Inr r)"
proof -
  have w: "world_ok lay w" using assms(1) by (simp add: process_ok_def)
  have m: "rt_debugp (hnd w) \<noteq> 0" "mapped w" using w assms(2) by (simp_all add: world_ok_def)
  then have d: "deref w' = Inr (shm w')" if "rt_debugp (hnd w') = rt_debugp (hnd w)" "mapped w' = mapped w" for w' :: world
    using that by (simp add: deref_def)
  note g = ready_group(2) [OF w assms(2)] and returns = call_returns [OF w assms(2)]
  note reads = ret_defs RTDBG_GetCounter_def RTDBG_GetCountersNum_def RTDBG_ProfInit_def RTDBG_StartProfMeas_def prof_Start_def
    RTDBG_AllocProfCntrNum_def RTDBG_GetGrpNum_def RTDBG_Stop_def RTDBG_Start_def Get_counter_def InitExtractTables_def
  show ?thesis
    using assms(3-5)
  proof (cases c)
    case (C_AllocCounter grp nm)
    then show ?thesis using returns(1) [of grp nm] assms(2-5) by (auto simp: ret_def)
  next
    case (C_AddTrace grp tid line v0 v1 v2 v3)
    then show ?thesis
      using returns(5) [of grp tid "env_now e" "env_self e" "env_junk e" line v0 v1 v2 v3] assms(2-5) by (auto simp: ret_void_def)
  next
    case (C_GetTraceEntry dst)
    then show ?thesis using GetTraceEntry_returns [OF w assms(2), of "env_clk e" dst] assms(5) by (auto simp: ret_def)
  next
    case (C_AddTraceEntry grp fmt)
    then show ?thesis using returns(2) [of grp fmt] assms(2-5) by (auto simp: ret_def)
  next
    case (C_AddLog grp str)
    then show ?thesis using returns(6) [of grp str "env_now e"] assms(2-5) by auto
  next
    case (C_GetLog dst tm_null msk)
    then show ?thesis using GetLog_returns [of w "env_now e" dst] assms(2,5) by (auto simp: ret_def)
  next
    case (C_AddProfiler grp nm)
    then show ?thesis using returns(3) [of grp nm] assms(2-5) by (auto simp: ret_def)
  next
    case (C_ProfFlushMeas grp pid p)
    then show ?thesis using returns(7) [of p] assms(4) by (auto simp: ret_loop_def)
  next
    case (C_StopProfMeas grp pid p)
    then show ?thesis using returns(8) [of p "env_now e" "env_cyc e" None] assms(4)
      by (auto simp: ret_loop_def RTDBG_StopProfMeas_def)
  next
    case (C_GetProfInfo grp pid gb pb)
    then show ?thesis using GetProfInfo_returns [OF w assms(2), of grp pid gb pb] assms(2,3,5) by (auto simp: ret_loop_def)
  next
    case C_Init
    then show ?thesis using Init_returns [OF assms(1,2)] by (auto simp: ret_void_def)
  next
    case (C_PutProfVal grp pid val p)
    then show ?thesis using returns(8) [of p "env_now e" "env_cyc e" val] assms(4) by (auto simp: ret_loop_def)
  next
    case (C_AllocRTDebugGroup nm)
    then show ?thesis using returns(4) [of nm] assms(2-5) by (auto simp: ret_def)
  next
    case (C_GetGrpName grp dst)
    then show ?thesis using returns(9) [of grp dst] assms(2,5) by (auto simp: ret_read_def)
  next
    case (C_SetSharedMemFile nm)
    then show ?thesis using SetSharedMemFile_returns [of w nm] assms(5) by (auto simp: ret_void_def)
  next
    case C_ExtractDebugData
    then show ?thesis using ExtractDebugData_returns [of w "env_trace_clk e" "env_log_clk e"] assms(2,5)
      by (auto simp: ret_loop_def)
  qed (use assms(2) d m g in \<open>auto simp: reads Let_def ASSERT_def less_imp_le\<close>)
qed

text \<open>On a detached handler.\<close>

lemma detached_returns:
  assumes "\<not> mem_attached (hnd w)" "typed_args lay e c" "call_ready e c w"
  shows "\<exists>r. api_exec lay e c w = Some (Inr r)"
proof -
  note inert = detached_ops [OF assms(1)]
  show ?thesis
    using assms(2,3)
  proof (cases c)
    case (C_SetSharedMemFile nm)
    then show ?thesis using SetSharedMemFile_returns [of w nm] assms(3) by (auto simp: ret_void_def)
  next
    case C_ActivateDebugDataCollection
    then show ?thesis using Activate_returns [of w "env_os e" lay] assms by (auto simp: ret_def)
  next
    case C_AttachDebugData
    then show ?thesis using Attach_returns [of w "env_os e"] assms by (auto simp: ret_def)
  qed (use assms(1) inert in \<open>auto simp: ret_defs RTDBG_StartProfMeas_def prof_Start_def ASSERT_def\<close>)
qed

lemma ready_returns:
  assumes "process_ok lay w" "typed_args lay e c" "proper_use lay e c w" "call_ready e c w"
  shows "\<exists>r. api_exec lay e c w = Some (Inr r)"
  using attached_returns [OF assms(1) _ assms(2-4)] detached_returns [OF _ assms(2,4)] by blast

subsection \<open>Properties\<close>

text \<open>The calls of a client, each judged in the state in which it is made.\<close>

fun client_typed :: "layout \<Rightarrow> (env \<times> api_call) list \<Rightarrow> world \<Rightarrow> bool" where
  "client_typed lay [] w = True"
| "client_typed lay ((e, c) # cs) w =
     (typed_args lay e c \<and> proper_use lay e c w \<and>
      (case api_exec lay e c w of Some (Inr (r, w')) \<Rightarrow> client_typed lay cs w' | _ \<Rightarrow> True))"

fun client_ready :: "layout \<Rightarrow> (env \<times> api_call) list \<Rightarrow> world \<Rightarrow> bool" where
  "client_ready lay [] w = True"
| "client_ready lay ((e, c) # cs) w =
     (typed_args lay e c \<and> proper_use lay e c w \<and> call_ready e c w \<and>
      (case api_exec lay e c w of Some (Inr (r, w')) \<Rightarrow> client_ready lay cs w' | _ \<Rightarrow> True))"

text \<open>C12: preservation. A client starts from a consistent process: a well-formed object of the size of its type, and a handler
  that is detached or attached to the mapped object at an aligned address. It makes any calls of the C interface,
  each with names, texts and buffers of the right sizes, with points (for flush, stop and put) that belong to a profiler
  registered in this process, with files of the size of the object that are mapped at aligned addresses, and attaching only to a file that
  holds a well-formed object (the code does not check it). If its calls return, they leave a consistent process.\<close>

theorem client_keeps_state:
  assumes "run_calls lay cs w = Some (Inr (out, w'))" "client_typed lay cs w" "process_ok lay w"
  shows "process_ok lay w'"
  using assms
proof (induction cs arbitrary: w out)
  case (Cons x cs)
  obtain e c where x: "x = (e, c)" by fastforce
  from Cons.prems(1) obtain r w1 out1 where 1: "api_exec lay e c w = Some (Inr (r, w1))"
    "run_calls lay cs w1 = Some (Inr (out1, w'))" unfolding x by (auto simp: bindD_eq_Some_Inr)
  then have t: "typed_args lay e c" "proper_use lay e c w" "client_typed lay cs w1" using Cons.prems(2) unfolding x by simp_all
  show ?case using Cons.IH [OF 1(2) t(3) exec_preserves [OF 1(1) t(1,2) Cons.prems(3)]] .
qed simp

text \<open>C11: progress. A client starts from a consistent process (a well-formed object of the size of its type, a handler that is detached or
  attached to the mapped object at an aligned address) and makes any number of calls of the thirty functions of the C interface,
  each meeting these conditions in the state in which it is made. Names, texts and buffers have the right sizes; points (for flush, stop and
  direct values) are of profilers that this process registered; files have the size of the object and are mapped at aligned addresses, and
  one that is attached to holds a well-formed object. On an attached handler: indices of what is registered; room for what is new; a buffer of 128 characters for a group name; for
  reading traces (with collection off), logs and the report, slots that are right (one that is marked empty is that of a group with nothing to read, and a trace in a slot is
  not later than those left in its group), stamps that are
  valid and earlier than the clock, and lines that fit; a buffer of the size of a line for the readers, for logs a place for the time and
  the mask of all groups; for reading a profiler and for the report, counts of measurements that do not wrap to zero; for the report, group
  names under 100 characters, a file that opens and a handler that is not the producer. The flush, the stop, the initialisation
  and the direct values of points and the reading of traces are called on an attached handler only; a point is not started twice;
  \<open>RTDBG_ActivateDebugDataCollection\<close> and \<open>RTDBG_AttachDebugData\<close> are called on a detached handler with a file name, whatever the
  system answers, and a file name that is set fits its buffer. Then no call aborts, accesses memory outside the object or loops: all return,
  and the process is consistent.\<close>

theorem client_returns:
  assumes "process_ok lay w" "client_ready lay cs w"
  shows "\<exists>out w'. run_calls lay cs w = Some (Inr (out, w')) \<and> length out = length cs \<and> process_ok lay w'"
  using assms
proof (induction cs arbitrary: w)
  case (Cons x cs)
  obtain e c where x: "x = (e, c)" by fastforce
  then have c: "typed_args lay e c" "proper_use lay e c w" "call_ready e c w" using Cons.prems(2) by simp_all
  from ready_returns [OF Cons.prems(1) c] obtain r w1 where 1: "api_exec lay e c w = Some (Inr (r, w1))" by auto
  then have "client_ready lay cs w1" using Cons.prems(2) x by simp
  from Cons.IH [OF exec_preserves [OF 1 c(1,2) Cons.prems(1)] this] 1 x show ?case by auto
qed simp

subsection \<open>The properties at work\<close>

text \<open>A process that has created an object with the group \<open>GEN\<close>, and after it has stopped the collection.\<close>

lemma demo_process:
  "\<exists>w. process_ok demo_lay w \<and> attached_ok w \<and> num_alloc_groups (shm w) = 1 \<and> group_names (shm w) = [''GEN''] \<and>
     group_fresh ''GEN'' (debug_groups (shm w) ! 0) \<and> new_slots w \<and> grp_logs_last (hnd w) = grp_logs_last debug_handler"
proof -
  obtain w where w: "attached_ok w" "rt_debugp (hnd w) = 4096" "ngroups w = 1" "group_names (shm w) = [''GEN'']" "rt_shape (shm w)"
    "group_fresh ''GEN'' (debug_groups (shm w) ! 0)" "grp_trace_res (hnd w) = grp_trace_res debug_handler"
    "grp_logs_last (hnd w) = grp_logs_last debug_handler" using demo_world by blast
  have "unat (num_alloc_groups (shm w)) = unat (1 :: u32)" using w(3) by (simp add: ngroups_def)
  then have "num_alloc_groups (shm w) = 1" by (simp only: word_unat_eq_iff)
  with w demo_lay_ok show ?thesis
    by (intro exI [of _ w]) (simp add: process_ok_def world_ok_def attached_ok_def new_slots_def)
qed

definition stopped_world :: "world \<Rightarrow> world" where
  "stopped_world w = w\<lparr>shm := (shm w)\<lparr>active := False\<rparr>, hnd := (InitExtractTables (hnd w))\<lparr>status := RTDBG_STOPPED\<rparr>\<rparr>"

lemma stop_stops: "attached_ok w \<Longrightarrow> RTDBG_Stop w = Inr (stopped_world w)"
  by (simp add: RTDBG_Stop_def stopped_world_def attached_ok_def deref_def InitExtractTables_def SetDataCollection_def Let_def)

text \<open>The report can be made there.\<close>

lemma demo_report_ready:
  assumes w: "attached_ok w" "num_alloc_groups (shm w) = 1" "group_fresh ''GEN'' (debug_groups (shm w) ! 0)" "new_slots w"
    "grp_logs_last (hnd w) = grp_logs_last debug_handler" "group_names (shm w) = [''GEN'']"
    and e: "e = demo_env\<lparr>env_trace_clk := \<lambda>_ _. \<lparr>tv_sec = 3, tv_nsec = 0\<rparr>, env_log_clk := \<lambda>_. \<lparr>tv_sec = 3, tv_nsec = 0\<rparr>\<rparr>"
  shows "call_ready e C_ExtractDebugData (stopped_world w)"
proof -
  let ?w = "stopped_world w" and ?g = "debug_groups (shm w) ! 0"
  have a: "attached_ok ?w" using w(1) by (simp add: attached_ok_def stopped_world_def InitExtractTables_def rt_wf_def)
  have n: "ngroups ?w = 1" using w(2) by (simp add: ngroups_def stopped_world_def)
  have g: "debug_groups (shm ?w) ! 0 = ?g" "group_names (shm ?w) = [''GEN'']"
    using w(6) by (simp_all add: stopped_world_def group_names_def)
  have p: "pending (tr ?w i) = {#}" if "i < ngroups ?w" for i
    using w(3) that n g(1) by (simp add: tr_def group_fresh_def)
  have new: "new_slots ?w" using w(4) by (simp add: new_slots_def stopped_world_def InitExtractTables_def)
  have s: "slots_ok ?w" using new_slots_ok [OF a _ new] p by (simp add: stopped_world_def)
  have "in_groups ?w = {#}" using p by (simp add: in_groups_def)
  then have rest: "all_rest ?w = {#([], zero_time)#}"
    using new_in_slots [OF new ngroups_le [OF a]] n by (simp add: all_rest_split)
  have slot: "ls ?w 0 = \<lparr>log_info = \<lparr>le_time = zero_time, log_str = replicate LOG_STRING_SIZE NUL\<rparr>, valid = False\<rparr>"
    "length (grp_logs_last (hnd ?w)) = MAX_GROUP_NUM" "lg ?w 0 = logger ?g"
    using w(5) g(1) by (simp_all add: ls_def lg_def stopped_world_def InitExtractTables_def debug_handler_def MAX_GROUP_NUM_def)
  have m: "messages (logger ?g) = []" using w(3) by (simp add: group_fresh_def)
  have l: "logs_ok ?w" "log_rests ?w = [[]]"
    using a n slot m by (simp_all add: logs_ok_def log_slot_ok_def log_rests_def log_rest_def)
  have t: "valid_time \<lparr>tv_sec = 3, tv_nsec = 0\<rparr>" "0 < ns_of \<lparr>tv_sec = 3, tv_nsec = 0\<rparr>"
    using demo_times(3) by (simp_all add: ns_of_def)
  have "group_wf ?g" using group_at(2) [OF a, of 0] n g(1) by simp
  then have "unat (num_alloc_prof (profiler ?g)) = 0" using w(3) wf_no_profilers by (simp add: group_wf_def group_fresh_def)
  then have "countable_group (profiler ?g)" by (simp add: countable_group_def)
  moreover have "short_names ?w" using n g(2) by (simp add: short_names_def)
  moreover have "status (hnd ?w) \<noteq> RTDBG_RUNNING_PRODUCER" by (simp add: stopped_world_def)
  ultimately show ?thesis using s l rest t n g(1) unfolding e
    by (simp add: later_def log_later_def demo_env_def)
qed

theorem client_keeps_state_witness:
  "\<exists>w w'. run_calls demo_lay [(demo_env, C_Start), (demo_env, C_GetGrpNum), (demo_env, C_Close)] w = Some (Inr ([RNone, RNum 1, RNone], w')) \<and>
     active (shm w') \<and> process_ok demo_lay w'"
proof -
  obtain w where w: "process_ok demo_lay w" "attached_ok w" "num_alloc_groups (shm w) = 1" using demo_process by blast
  let ?cs = "[(demo_env, C_Start), (demo_env, C_GetGrpNum), (demo_env, C_Close)]"
  let ?w = "RTDBG_Close (w\<lparr>shm := (shm w)\<lparr>active := True\<rparr>\<rparr>)"
  have run: "run_calls demo_lay ?cs w = Some (Inr ([RNone, RNum 1, RNone], ?w))"
    using w(2,3) by (simp add: ret_defs RTDBG_Start_def RTDBG_GetGrpNum_def SetDataCollection_def GetNumGrps_def attached_ok_def deref_def)
  have "client_typed demo_lay ?cs w" by (simp split: option.splits sum.splits)
  from client_keeps_state [OF run this w(1)] have "process_ok demo_lay ?w" .
  moreover have "active (shm ?w)" by (simp add: RTDBG_Close_def)
  ultimately show ?thesis using run by blast
qed

text \<open>A client that stops the collection, makes the report, closes, and makes two more calls on the detached handler.\<close>

theorem client_returns_witness:
  "\<exists>w e out w'. group_names (shm w) = [''GEN''] \<and>
     run_calls demo_lay (map (Pair e) [C_Stop, C_ExtractDebugData, C_Close, C_GetLog [] True 0, C_GetStatus]) w = Some (Inr (out, w')) \<and>
     length out = 5 \<and> process_ok demo_lay w'"
proof -
  obtain w where w: "process_ok demo_lay w" "attached_ok w" "num_alloc_groups (shm w) = 1" "group_names (shm w) = [''GEN'']"
    "group_fresh ''GEN'' (debug_groups (shm w) ! 0)" "new_slots w" "grp_logs_last (hnd w) = grp_logs_last debug_handler"
    using demo_process by blast
  let ?t = "\<lparr>tv_sec = 3, tv_nsec = 0\<rparr> :: timespec"
  let ?e = "demo_env\<lparr>env_trace_clk := \<lambda>_ _. ?t, env_log_clk := \<lambda>_. ?t\<rparr>"
  let ?cs = "map (Pair ?e) [C_Stop, C_ExtractDebugData, C_Close, C_GetLog [] True 0, C_GetStatus]"
  note ready = demo_report_ready [OF w(2,3,5-7,4) refl]
  have "client_ready demo_lay ?cs w"
    using ready stop_stops [OF w(2)]
    by (auto simp: ret_defs RTDBG_Close_def RTDBG_GetLog_def split: option.splits sum.splits)
  from client_returns [OF w(1) this] obtain out w' where r: "run_calls demo_lay ?cs w = Some (Inr (out, w'))"
    "length out = length ?cs" "process_ok demo_lay w'" by blast
  from r(2) have "length out = 5" by simp
  with r(1,3) w(4) show ?thesis by blast
qed

end
