(* ===== verification/Adapt_Init.thy ===== *)
theory Adapt_Init
  imports RT_Adapt
begin

section \<open>What the adaptation layer registers\<close>

text \<open>
  The files of \<open>cust_api\<close> as a list of registrations, and the proof that \<open>RT_debug_init\<close> performs
  them: its tables hold the numbers that the abstract catalogue gives. So they are the same in every
  process that uses the same files, whatever happened to the object in between.
\<close>

subsection \<open>The configuration as a list of registrations\<close>

fun group_string :: "E_GROUPS \<Rightarrow> string" where
  "group_string INIT_GROUP = ''INIT_GROUP''"
| "group_string GEN_GROUP = ''GEN_GROUP''"
| "group_string STATUS_GROUP = ''STATUS_GROUP''"

definition group_reg :: "E_GROUPS \<times> string \<Rightarrow> reg" where
  "group_reg x = RGroup (snd x)"

definition event_reg :: "EGroupEvent \<times> E_GROUPS \<times> string \<Rightarrow> reg" where
  "event_reg x = RCounter (group_string (fst (snd x))) (snd (snd x))"

definition trace_reg :: "EGroupTrace \<times> E_GROUPS \<times> string \<Rightarrow> reg" where
  "trace_reg x = RFormat (group_string (fst (snd x))) (snd (snd x))"

definition profile_reg :: "EGroupProfile \<times> E_GROUPS \<times> string \<Rightarrow> reg" where
  "profile_reg x = RProfiler (group_string (fst (snd x))) (snd (snd x))"

definition config :: "reg list" where
  "config = map group_reg groups_inc @ map event_reg events_inc @ map trace_reg traces_inc @ map profile_reg profiles_inc"

lemmas inc_defs = groups_inc_def events_inc_def traces_inc_def profiles_inc_def
lemmas max_defs = MAX_GROUPS_def MAX_GROUP_EVENT_def MAX_TRACES_def MAX_PROFILER_def

text \<open>A loop of registrations: each iteration does one, and stores its result in the tables.\<close>

definition same_but_catalog :: "world \<Rightarrow> world \<Rightarrow> bool" where
  "same_but_catalog w w' \<longleftrightarrow> hnd w' = hnd w \<and> active (shm w') = active (shm w)"

lemma register_loop:
  assumes step: "\<And>x a w i cat. x \<in> set xs \<Longrightarrow> P a \<Longrightarrow> can_register lay w \<Longrightarrow> prefix nms (group_names (shm w)) \<Longrightarrow>
      reg_step (reg x) (catalog_of (shm w)) = (i, cat) \<Longrightarrow> bounded cat \<Longrightarrow>
      \<exists>w'. F x (a, w) = Inr (upd x i a, w') \<and> P (upd x i a) \<and> can_register lay w' \<and> catalog_of (shm w') = cat \<and> same_but_catalog w w'"
    and s: "P a" "can_register lay w" "prefix nms (group_names (shm w))"
    and r: "bounded (snd (reg_run (map reg xs) (catalog_of (shm w))))"
  shows "\<exists>w'. foldE F xs (a, w) =
      Inr (fold (\<lambda>(x, i). upd x i) (zip xs (fst (reg_run (map reg xs) (catalog_of (shm w))))) a, w') \<and>
    P (fold (\<lambda>(x, i). upd x i) (zip xs (fst (reg_run (map reg xs) (catalog_of (shm w))))) a) \<and> can_register lay w' \<and>
    catalog_of (shm w') = snd (reg_run (map reg xs) (catalog_of (shm w))) \<and> same_but_catalog w w'"
  using assms
proof (induction xs arbitrary: a w)
  case (Cons x xs)
  obtain i cat where i: "reg_step (reg x) (catalog_of (shm w)) = (i, cat)" by fastforce
  have e: "cat_extends (catalog_of (shm w)) cat" using reg_step_extends [of "catalog_of (shm w)" "reg x"] i by simp
  have "bounded cat" using bounded_mono [OF reg_run_extends [of cat "map reg xs"]] Cons.prems(5) i by (simp add: Let_def split_beta)
  from Cons.prems(1) [OF _ Cons.prems(2-4) i this] obtain w1 where
    w1: "F x (a, w) = Inr (upd x i a, w1)" "P (upd x i a)" "can_register lay w1" "catalog_of (shm w1) = cat" "same_but_catalog w w1"
    by auto
  have "prefix (group_names (shm w)) (group_names (shm w1))"
    using e w1(4) catalog_names unfolding cat_extends_def by metis
  then have "prefix nms (group_names (shm w1))" using Cons.prems(4) prefix_order.trans by blast
  moreover have "bounded (snd (reg_run (map reg xs) (catalog_of (shm w1))))"
    using Cons.prems(5) i w1(4) by (simp add: Let_def split_beta)
  ultimately obtain w2 where "foldE F xs (upd x i a, w1) =
      Inr (fold (\<lambda>(x, i). upd x i) (zip xs (fst (reg_run (map reg xs) cat))) (upd x i a), w2)"
    "P (fold (\<lambda>(x, i). upd x i) (zip xs (fst (reg_run (map reg xs) cat))) (upd x i a))"
    "can_register lay w2" "catalog_of (shm w2) = snd (reg_run (map reg xs) cat)" "same_but_catalog w1 w2"
    using Cons.IH [of "upd x i a" w1] Cons.prems(1) w1(2-4) by auto
  then show ?case using w1(1,5) i
    by (cases "reg_run (map reg xs) cat") (auto simp: same_but_catalog_def)
qed (simp add: same_but_catalog_def)

lemma config_lists:
  "list_all (\<lambda>(g, nm). fits TRACE_STRING_SIZE nm \<and> nm = group_string g) groups_inc"
  "list_all (\<lambda>(e, g, nm). fits TRACE_STRING_SIZE nm) events_inc"
  "list_all (\<lambda>(t, g, nm). fits TRACE_STRING_SIZE nm) traces_inc"
  "list_all (\<lambda>(q, g, nm). fits MDO_NAME_SIZE nm) profiles_inc"
  by code_simp+

lemma config_fits:
  "(g, nm) \<in> set groups_inc \<Longrightarrow> fits TRACE_STRING_SIZE nm \<and> nm = group_string g"
  "(e, g, nm) \<in> set events_inc \<Longrightarrow> fits TRACE_STRING_SIZE nm"
  "(t, g, nm) \<in> set traces_inc \<Longrightarrow> fits TRACE_STRING_SIZE nm"
  "(q, g, nm) \<in> set profiles_inc \<Longrightarrow> fits MDO_NAME_SIZE nm"
proof -
  note l = config_lists [unfolded list_all_iff]
  show "fits TRACE_STRING_SIZE nm \<and> nm = group_string g" if "(g, nm) \<in> set groups_inc"
    using bspec [OF l(1) that] by auto
  show "fits TRACE_STRING_SIZE nm" if "(e, g, nm) \<in> set events_inc" using bspec [OF l(2) that] by simp
  show "fits TRACE_STRING_SIZE nm" if "(t, g, nm) \<in> set traces_inc" using bspec [OF l(3) that] by simp
  show "fits MDO_NAME_SIZE nm" if "(q, g, nm) \<in> set profiles_inc" using bspec [OF l(4) that] by simp
qed

text \<open>The three loops over the members of groups use the indices that the first loop stored.\<close>

definition indexed :: "(E_GROUPS \<Rightarrow> nat) \<Rightarrow> rt_adapt \<Rightarrow> bool" where
  "indexed j a \<longleftrightarrow> length (group_indexes a) = MAX_GROUPS \<and> (\<forall>g. group_indexes a ! group_num g = of_nat (j g))"

lemma indexed_get: "indexed j a \<Longrightarrow> arr_get (group_indexes a) (group_num g) = Inr (of_nat (j g))"
  by (cases g) (auto simp: indexed_def MAX_GROUPS_def arr_get_def dest: spec [where x = g])

definition resolves :: "(E_GROUPS \<Rightarrow> nat) \<Rightarrow> string list \<Rightarrow> bool" where
  "resolves j nms \<longleftrightarrow> (\<forall>g. first_pos (group_string g) nms = Some (j g))"

lemma resolves_prefix: "resolves j nms \<Longrightarrow> prefix nms nms' \<Longrightarrow> first_pos (group_string g) nms' = Some (j g)"
  by (metis first_pos_SomeD first_pos_append_hit nth_mem prefix_def resolves_def)

lemma resolves_extends: "resolves j (map fst a) \<Longrightarrow> cat_extends a b \<Longrightarrow> resolves j (map fst b)"
  using resolves_prefix [of j "map fst a" "map fst b"] by (simp add: resolves_def cat_extends_def)

definition put_group :: "E_GROUPS \<times> string \<Rightarrow> nat \<Rightarrow> rt_adapt \<Rightarrow> rt_adapt" where
  "put_group x i a = a\<lparr>group_indexes := (group_indexes a)[group_num (fst x) := of_nat i]\<rparr>"

lemma groups_loop:
  assumes w: "can_register lay w" "bounded (snd (reg_run (map group_reg groups_inc) (catalog_of (shm w))))"
  shows "\<exists>w'. foldE (def_group lay) groups_inc (a, w) =
      Inr (fold (\<lambda>(x, i). put_group x i) (zip groups_inc (fst (reg_run (map group_reg groups_inc) (catalog_of (shm w))))) a, w') \<and>
    True \<and> can_register lay w' \<and> catalog_of (shm w') = snd (reg_run (map group_reg groups_inc) (catalog_of (shm w))) \<and>
    same_but_catalog w w'"
proof (rule register_loop [where P = "\<lambda>_. True" and nms = "[]"])
  fix x a w i cat
  assume h: "x \<in> set groups_inc" "can_register lay w" "reg_step (group_reg x) (catalog_of (shm w)) = (i, cat)" "bounded cat"
  obtain g nm where x: "x = (g, nm)" by fastforce
  have "fits TRACE_STRING_SIZE nm" using config_fits(1) h(1) unfolding x by blast
  moreover have "reg_step (RGroup nm) (catalog_of (shm w)) = (i, cat)" using h(3) unfolding x by (simp add: group_reg_def)
  ultimately obtain w' where "RTDBG_AllocRTDebugGroup lay nm w = Inr (of_nat i, w')" "can_register lay w'"
    "catalog_of (shm w') = cat" "hnd w' = hnd w" "active (shm w') = active (shm w)"
    using reg_group [OF h(2) _ _ h(4)] by metis
  then show "\<exists>w'. def_group lay x (a, w) = Inr (put_group x i a, w') \<and> True \<and> can_register lay w' \<and>
      catalog_of (shm w') = cat \<and> same_but_catalog w w'"
    unfolding x by (simp add: def_group_def put_group_def same_but_catalog_def)
qed (use w in simp_all)

definition put_event :: "(E_GROUPS \<Rightarrow> nat) \<Rightarrow> EGroupEvent \<times> E_GROUPS \<times> string \<Rightarrow> nat \<Rightarrow> rt_adapt \<Rightarrow> rt_adapt" where
  "put_event j x i a = (let (e, g, nm) = x in a\<lparr>group_events := (group_events a)[event_num e :=
     \<lparr>ev_group_id = of_nat (j g), event_cnt = Some (j g, i),
      event_name = projr (strncpy (event_name (group_events a ! event_num e)) nm (TRACE_STRING_SIZE - 1))\<rparr>]\<rparr>)"

definition events_ok :: "rt_adapt \<Rightarrow> bool" where
  "events_ok a \<longleftrightarrow> length (group_events a) = MAX_GROUP_EVENT \<and>
     (\<forall>e \<in> set (group_events a). length (event_name e) = TRACE_STRING_SIZE)"

lemma events_loop:
  assumes w: "can_register lay w" "resolves j (group_names (shm w))"
    "bounded (snd (reg_run (map event_reg events_inc) (catalog_of (shm w))))" "indexed j a \<and> events_ok a"
  shows "\<exists>w'. foldE def_event events_inc (a, w) =
      Inr (fold (\<lambda>(x, i). put_event j x i) (zip events_inc (fst (reg_run (map event_reg events_inc) (catalog_of (shm w))))) a, w') \<and>
    (indexed j (fold (\<lambda>(x, i). put_event j x i) (zip events_inc (fst (reg_run (map event_reg events_inc) (catalog_of (shm w))))) a) \<and>
     events_ok (fold (\<lambda>(x, i). put_event j x i) (zip events_inc (fst (reg_run (map event_reg events_inc) (catalog_of (shm w))))) a)) \<and>
    can_register lay w' \<and> catalog_of (shm w') = snd (reg_run (map event_reg events_inc) (catalog_of (shm w))) \<and>
    same_but_catalog w w'"
proof (rule register_loop [where P = "\<lambda>a. indexed j a \<and> events_ok a" and nms = "group_names (shm w)"])
  fix x a w1 i cat
  assume h: "x \<in> set events_inc" "indexed j a \<and> events_ok a" "can_register lay w1" "prefix (group_names (shm w)) (group_names (shm w1))"
    "reg_step (event_reg x) (catalog_of (shm w1)) = (i, cat)" "bounded cat"
  obtain e g nm where x: "x = (e, g, nm)" by (metis prod.exhaust)
  have nm: "fits TRACE_STRING_SIZE nm" using config_fits(2) h(1) unfolding x by blast
  have st: "reg_step (RCounter (group_string g) nm) (catalog_of (shm w1)) = (i, cat)" using h(5) unfolding x by (simp add: event_reg_def)
  obtain w' where w': "RTDBG_AllocCounter (of_nat (j g)) nm w1 = Inr (Some (j g, i), w')" "can_register lay w'"
    "catalog_of (shm w') = cat" "hnd w' = hnd w1" "active (shm w') = active (shm w1)"
    using reg_counter [OF h(3) nm resolves_prefix [OF w(2) h(4)] st h(6)] by metis
  have e: "event_num e < length (group_events a)" using h(2) by (cases e) (simp_all add: events_ok_def MAX_GROUP_EVENT_def)
  then have l: "length (event_name (group_events a ! event_num e)) = TRACE_STRING_SIZE" using h(2) by (simp add: events_ok_def)
  then obtain b where b: "strncpy (event_name (group_events a ! event_num e)) nm (TRACE_STRING_SIZE - 1) = Inr b" "length b = TRACE_STRING_SIZE"
    by (simp add: strncpy_def TRACE_STRING_SIZE_def)
  have "indexed j (put_event j x i a)" using h(2) unfolding x by (simp add: put_event_def indexed_def)
  moreover have "events_ok (put_event j x i a)" unfolding x using h(2) b e
    by (auto simp: put_event_def events_ok_def dest!: set_update_subset_insert [THEN subsetD])
  ultimately show "\<exists>w'. def_event x (a, w1) = Inr (put_event j x i a, w') \<and> (indexed j (put_event j x i a) \<and> events_ok (put_event j x i a)) \<and>
      can_register lay w' \<and> catalog_of (shm w') = cat \<and> same_but_catalog w1 w'"
    using w' b(1) e indexed_get [of j a g] h(2) unfolding x by (simp add: def_event_def put_event_def same_but_catalog_def)
qed (use w in simp_all)

definition put_trace :: "(E_GROUPS \<Rightarrow> nat) \<Rightarrow> EGroupTrace \<times> E_GROUPS \<times> string \<Rightarrow> nat \<Rightarrow> rt_adapt \<Rightarrow> rt_adapt" where
  "put_trace j x i a = (let (t, g, fmt) = x in a\<lparr>traces := (traces a)[trace_num t :=
     \<lparr>tr_group_id = of_nat (j g), tr_trace_id = of_nat i\<rparr>]\<rparr>)"

lemma traces_loop:
  assumes w: "can_register lay w" "resolves j (group_names (shm w))"
    "bounded (snd (reg_run (map trace_reg traces_inc) (catalog_of (shm w))))" "indexed j a"
  shows "\<exists>w'. foldE def_trace traces_inc (a, w) =
      Inr (fold (\<lambda>(x, i). put_trace j x i) (zip traces_inc (fst (reg_run (map trace_reg traces_inc) (catalog_of (shm w))))) a, w') \<and>
    indexed j (fold (\<lambda>(x, i). put_trace j x i) (zip traces_inc (fst (reg_run (map trace_reg traces_inc) (catalog_of (shm w))))) a) \<and>
    can_register lay w' \<and> catalog_of (shm w') = snd (reg_run (map trace_reg traces_inc) (catalog_of (shm w))) \<and>
    same_but_catalog w w'"
proof (rule register_loop [where P = "indexed j" and nms = "group_names (shm w)"])
  fix x a w1 i cat
  assume h: "x \<in> set traces_inc" "indexed j a" "can_register lay w1" "prefix (group_names (shm w)) (group_names (shm w1))"
    "reg_step (trace_reg x) (catalog_of (shm w1)) = (i, cat)" "bounded cat"
  obtain t g nm where x: "x = (t, g, nm)" by (metis prod.exhaust)
  have nm: "fits TRACE_STRING_SIZE nm" using config_fits(3) h(1) unfolding x by blast
  have st: "reg_step (RFormat (group_string g) nm) (catalog_of (shm w1)) = (i, cat)" using h(5) unfolding x by (simp add: trace_reg_def)
  obtain w' where w': "RTDBG_AddTraceEntry (of_nat (j g)) nm w1 = Inr (of_nat i, w')" "can_register lay w'"
    "catalog_of (shm w') = cat" "hnd w' = hnd w1" "active (shm w') = active (shm w1)"
    using reg_format [OF h(3) nm resolves_prefix [OF w(2) h(4)] st h(6)] by metis
  have "indexed j (put_trace j x i a)" using h(2) unfolding x by (simp add: put_trace_def indexed_def)
  then show "\<exists>w'. def_trace x (a, w1) = Inr (put_trace j x i a, w') \<and> indexed j (put_trace j x i a) \<and>
      can_register lay w' \<and> catalog_of (shm w') = cat \<and> same_but_catalog w1 w'"
    using w' indexed_get [of j a g] h(2) unfolding x by (simp add: def_trace_def put_trace_def same_but_catalog_def)
qed (use w in simp_all)

definition put_profile :: "(E_GROUPS \<Rightarrow> nat) \<Rightarrow> EGroupProfile \<times> E_GROUPS \<times> string \<Rightarrow> nat \<Rightarrow> rt_adapt \<Rightarrow> rt_adapt" where
  "put_profile j x i a = (let (p, g, nm) = x in a\<lparr>prof_points := (prof_points a)[profile_num p :=
     \<lparr>pr_group_id = of_nat (j g), profile_id = of_nat i\<rparr>]\<rparr>)"

lemma profiles_loop:
  assumes w: "can_register lay w" "resolves j (group_names (shm w))"
    "bounded (snd (reg_run (map profile_reg profiles_inc) (catalog_of (shm w))))" "indexed j a"
  shows "\<exists>w'. foldE (def_profile lay) profiles_inc (a, w) =
      Inr (fold (\<lambda>(x, i). put_profile j x i) (zip profiles_inc (fst (reg_run (map profile_reg profiles_inc) (catalog_of (shm w))))) a, w') \<and>
    indexed j (fold (\<lambda>(x, i). put_profile j x i) (zip profiles_inc (fst (reg_run (map profile_reg profiles_inc) (catalog_of (shm w))))) a) \<and>
    can_register lay w' \<and> catalog_of (shm w') = snd (reg_run (map profile_reg profiles_inc) (catalog_of (shm w))) \<and>
    same_but_catalog w w'"
proof (rule register_loop [where P = "indexed j" and nms = "group_names (shm w)"])
  fix x a w1 i cat
  assume h: "x \<in> set profiles_inc" "indexed j a" "can_register lay w1" "prefix (group_names (shm w)) (group_names (shm w1))"
    "reg_step (profile_reg x) (catalog_of (shm w1)) = (i, cat)" "bounded cat"
  obtain q g nm where x: "x = (q, g, nm)" by (metis prod.exhaust)
  have nm: "fits MDO_NAME_SIZE nm" using config_fits(4) h(1) unfolding x by blast
  have st: "reg_step (RProfiler (group_string g) nm) (catalog_of (shm w1)) = (i, cat)" using h(5) unfolding x by (simp add: profile_reg_def)
  obtain w' where w': "RTDBG_AddProfiler lay (of_nat (j g)) nm w1 = Inr (of_nat i, w')" "can_register lay w'"
    "catalog_of (shm w') = cat" "hnd w' = hnd w1" "active (shm w') = active (shm w1)"
    using reg_profiler [OF h(3) nm resolves_prefix [OF w(2) h(4)] st h(6)] by metis
  have "indexed j (put_profile j x i a)" using h(2) unfolding x by (simp add: put_profile_def indexed_def)
  then show "\<exists>w'. def_profile lay x (a, w1) = Inr (put_profile j x i a, w') \<and> indexed j (put_profile j x i a) \<and>
      can_register lay w' \<and> catalog_of (shm w') = cat \<and> same_but_catalog w1 w'"
    using w' indexed_get [of j a g] h(2) unfolding x by (simp add: def_profile_def put_profile_def same_but_catalog_def)
qed (use w in simp_all)

subsection \<open>Initialisation registers the configuration\<close>

text \<open>What the tables hold when the registrations gave the numbers \<open>is\<close>.\<close>

definition tables_hold :: "rt_adapt \<Rightarrow> nat list \<Rightarrow> bool" where
  "tables_hold a is \<longleftrightarrow> length is = 12 \<and>
     group_indexes a = map of_nat (take 3 is) \<and>
     map event_cnt (group_events a) = map (\<lambda>i. Some (is ! 2, i)) (take 2 (drop 3 is)) \<and>
     map (\<lambda>t. (tr_group_id t, tr_trace_id t)) (traces a) =
       map (map_prod of_nat of_nat) (zip [is ! 0, is ! 1, is ! 1, is ! 1, is ! 1] (take 5 (drop 5 is))) \<and>
     map (\<lambda>p. (pr_group_id p, profile_id p)) (prof_points a) = map (\<lambda>i. (of_nat (is ! 1), of_nat i)) (drop 10 is)"

definition adapt_ok :: "rt_adapt \<Rightarrow> bool" where
  "adapt_ok a \<longleftrightarrow> length (group_indexes a) = MAX_GROUPS \<and> events_ok a \<and> length (traces a) = MAX_TRACES \<and>
     length (prof_points a) = MAX_PROFILER"

lemma length_lists: "length xs = 2 \<Longrightarrow> \<exists>a b. xs = [a, b]" "length xs = 3 \<Longrightarrow> \<exists>a b c. xs = [a, b, c]"
  "length xs = 5 \<Longrightarrow> \<exists>a b c d e. xs = [a, b, c, d, e]"
  by (auto simp: length_Suc_conv numeral_2_eq_2 numeral_3_eq_3 eval_nat_numeral)

lemma config_order: "groups_first {} config"
  by (simp add: config_def inc_defs group_reg_def event_reg_def trace_reg_def profile_reg_def is_group_def)

lemma groups_resolve:
  assumes "reg_run (map group_reg groups_inc) cat = (is, cat')"
  shows "first_pos (group_string g) (map fst cat') = Some (is ! group_num g)"
proof -
  have "groups_first {} (map group_reg groups_inc)" by (simp add: groups_inc_def group_reg_def is_group_def)
  from reg_run_each_settled [OF this, of cat "group_num g"] assms
  have "settled (map group_reg groups_inc ! group_num g) (is ! group_num g) cat'"
    by (cases g) (simp_all add: groups_inc_def)
  then have "settled (RGroup (group_string g)) (is ! group_num g) cat'"
    by (cases g) (simp_all add: groups_inc_def group_reg_def)
  then show ?thesis by (rule settled_group)
qed

lemma start_registers:
  assumes "can_register lay w"
  shows "\<exists>w'. RTDBG_Start w = Inr w' \<and> can_register lay w' \<and> catalog_of (shm w') = catalog_of (shm w) \<and> active (shm w')"
proof -
  have a: "attached_ok w" "mem_attached (hnd w)" using assms by (auto simp: can_register_def attached_ok_def)
  then show ?thesis using assms
    by (auto simp: RTDBG_Start_def attached_deref SetDataCollection_def can_register_def attached_ok_def rt_wf_def catalog_of_def)
qed

lemma put_groups:
  assumes "length (group_indexes a) = MAX_GROUPS" "length g = 3"
  shows "fold (\<lambda>(x, i). put_group x i) (zip groups_inc g) a = a\<lparr>group_indexes := map of_nat g\<rparr>"
proof -
  obtain x y z where "group_indexes a = [x, y, z]" using assms(1) length_lists(2) unfolding MAX_GROUPS_def by blast
  moreover obtain i j k where "g = [i, j, k]" using assms(2) length_lists(2) by blast
  ultimately show ?thesis by (cases a) (simp add: groups_inc_def put_group_def)
qed

lemma put_events:
  assumes "events_ok a" "length e = 2"
  shows "group_indexes (fold (\<lambda>(x, i). put_event j x i) (zip events_inc e) a) = group_indexes a"
    "map event_cnt (group_events (fold (\<lambda>(x, i). put_event j x i) (zip events_inc e) a)) = map (\<lambda>i. Some (j STATUS_GROUP, i)) e"
    "traces (fold (\<lambda>(x, i). put_event j x i) (zip events_inc e) a) = traces a"
    "prof_points (fold (\<lambda>(x, i). put_event j x i) (zip events_inc e) a) = prof_points a"
proof -
  obtain x y where "group_events a = [x, y]"
    using assms(1) length_lists(1) unfolding events_ok_def MAX_GROUP_EVENT_def by blast
  moreover obtain k l where "e = [k, l]" using assms(2) length_lists(1) by blast
  ultimately show
    "group_indexes (fold (\<lambda>(x, i). put_event j x i) (zip events_inc e) a) = group_indexes a"
    "map event_cnt (group_events (fold (\<lambda>(x, i). put_event j x i) (zip events_inc e) a)) = map (\<lambda>i. Some (j STATUS_GROUP, i)) e"
    "traces (fold (\<lambda>(x, i). put_event j x i) (zip events_inc e) a) = traces a"
    "prof_points (fold (\<lambda>(x, i). put_event j x i) (zip events_inc e) a) = prof_points a"
    by (simp_all add: events_inc_def put_event_def)
qed

lemma put_traces:
  assumes "length (traces a) = MAX_TRACES" "length t = 5"
  shows "fold (\<lambda>(x, i). put_trace j x i) (zip traces_inc t) a =
    a\<lparr>traces := map (\<lambda>(g, i). \<lparr>tr_group_id = of_nat (j g), tr_trace_id = of_nat i\<rparr>)
      (zip [INIT_GROUP, GEN_GROUP, GEN_GROUP, GEN_GROUP, GEN_GROUP] t)\<rparr>"
proof -
  obtain x y z u v where "traces a = [x, y, z, u, v]" using assms(1) length_lists(3) unfolding MAX_TRACES_def by blast
  moreover obtain i k l m n where "t = [i, k, l, m, n]" using assms(2) length_lists(3) by blast
  ultimately show ?thesis by (cases a) (simp add: traces_inc_def put_trace_def)
qed

lemma put_profiles:
  assumes "length (prof_points a) = MAX_PROFILER" "length p = 2"
  shows "fold (\<lambda>(x, i). put_profile j x i) (zip profiles_inc p) a =
    a\<lparr>prof_points := map (\<lambda>i. \<lparr>pr_group_id = of_nat (j GEN_GROUP), profile_id = of_nat i\<rparr>) p\<rparr>"
proof -
  obtain x y where "prof_points a = [x, y]" using assms(1) length_lists(1) unfolding MAX_PROFILER_def by blast
  moreover obtain k l where "p = [k, l]" using assms(2) length_lists(1) by blast
  ultimately show ?thesis by (cases a) (simp add: profiles_inc_def put_profile_def)
qed

lemma indexed_groups: "length g = 3 \<Longrightarrow> indexed (\<lambda>h. g ! group_num h) (a\<lparr>group_indexes := map of_nat g\<rparr>)"
proof -
  assume l: "length g = 3"
  have "group_num h < 3" for h by (cases h) simp_all
  then show ?thesis using l by (simp add: indexed_def MAX_GROUPS_def)
qed

lemma tables_hold_from:
  assumes "length g = 3" "length e = 2" "length t = 5" "length p = 2"
    and "group_indexes a = map of_nat g" "map event_cnt (group_events a) = map (\<lambda>i. Some (g ! group_num STATUS_GROUP, i)) e"
    "events_ok a" "traces a = map (\<lambda>(h, i). \<lparr>tr_group_id = of_nat (g ! group_num h), tr_trace_id = of_nat i\<rparr>)
      (zip [INIT_GROUP, GEN_GROUP, GEN_GROUP, GEN_GROUP, GEN_GROUP] t)"
    "prof_points a = map (\<lambda>i. \<lparr>pr_group_id = of_nat (g ! group_num GEN_GROUP), profile_id = of_nat i\<rparr>) p"
  shows "tables_hold a (g @ e @ t @ p) \<and> adapt_ok a"
proof -
  obtain i j k where g: "g = [i, j, k]" using assms(1) length_lists(2) by blast
  obtain m n where e: "e = [m, n]" using assms(2) length_lists(1) by blast
  obtain t0 t1 t2 t3 t4 where t: "t = [t0, t1, t2, t3, t4]" using assms(3) length_lists(3) by blast
  obtain u v where p: "p = [u, v]" using assms(4) length_lists(1) by blast
  show ?thesis using assms(5-) unfolding g e t p
    by (simp add: tables_hold_def adapt_ok_def MAX_GROUPS_def MAX_TRACES_def MAX_PROFILER_def)
qed

lemma init_registers:
  assumes o: "open_file lay os ex f w = Inr (True, w0)" "can_register lay w0" and a: "adapt_ok a"
    and r: "reg_run config (catalog_of (shm w0)) = (is, cat)" "bounded cat"
  shows "\<exists>a' w'. RT_debug_init lay os ex f (a, w) = Inr (1, a', w') \<and> tables_hold a' is \<and> adapt_ok a' \<and>
    can_register lay w' \<and> catalog_of (shm w') = cat \<and> active (shm w')"
proof -
  let ?c0 = "catalog_of (shm w0)"
  obtain g c1 where g: "reg_run (map group_reg groups_inc) ?c0 = (g, c1)" by fastforce
  obtain e c2 where e: "reg_run (map event_reg events_inc) c1 = (e, c2)" by fastforce
  obtain t c3 where t: "reg_run (map trace_reg traces_inc) c2 = (t, c3)" by fastforce
  obtain p c4 where p: "reg_run (map profile_reg profiles_inc) c3 = (p, c4)" by fastforce
  have "is": "is = g @ e @ t @ p" "cat = c4" using r(1) g e t p by (simp_all add: config_def reg_run_append)
  have x: "cat_extends c1 c2" "cat_extends c2 c3" "cat_extends c3 c4"
    using reg_run_extends e t p by (metis snd_conv)+
  have b: "bounded c3" "bounded c2" "bounded c1"
    using bounded_mono x r(2) "is"(2) by blast+
  let ?j = "\<lambda>h. g ! group_num h"
  obtain w1 where w1: "foldE (def_group lay) groups_inc (a, w0) = Inr (fold (\<lambda>(x, i). put_group x i) (zip groups_inc g) a, w1)"
    "can_register lay w1" "catalog_of (shm w1) = c1"
    using groups_loop [OF o(2), of a] g b(3) by auto
  have l: "length g = 3" "length e = 2" "length t = 5" "length p = 2"
    using length_reg_run [of "map group_reg groups_inc" ?c0] length_reg_run [of "map event_reg events_inc" c1]
      length_reg_run [of "map trace_reg traces_inc" c2] length_reg_run [of "map profile_reg profiles_inc" c3] g e t p
    by (simp_all add: inc_defs)
  let ?a1 = "a\<lparr>group_indexes := map of_nat g\<rparr>"
  have a1: "fold (\<lambda>(x, i). put_group x i) (zip groups_inc g) a = ?a1"
    using put_groups a l(1) by (simp add: adapt_ok_def)
  have ix: "indexed ?j ?a1" using indexed_groups l(1) by simp
  have res: "resolves ?j (map fst c1)" using groups_resolve [OF g] by (simp add: resolves_def)
  have res2: "resolves ?j (map fst c2)" and res3: "resolves ?j (map fst c3)"
    using res resolves_extends x(1,2) by blast+
  let ?a2 = "fold (\<lambda>(x, i). put_event ?j x i) (zip events_inc e) ?a1"
  have ok1: "indexed ?j ?a1 \<and> events_ok ?a1" using ix a by (simp add: adapt_ok_def events_ok_def)
  obtain w2 where w2: "foldE def_event events_inc (?a1, w1) = Inr (?a2, w2)" "indexed ?j ?a2" "events_ok ?a2"
    "can_register lay w2" "catalog_of (shm w2) = c2"
    using events_loop [OF w1(2) _ _ ok1] res b(2) e w1(3) catalog_names [of "shm w1"] by auto
  have a2: "group_indexes ?a2 = map of_nat g" "map event_cnt (group_events ?a2) = map (\<lambda>i. Some (?j STATUS_GROUP, i)) e"
    "traces ?a2 = traces a" "prof_points ?a2 = prof_points a"
    using put_events [of ?a1 e ?j] ok1 l(2) by simp_all
  let ?a3 = "fold (\<lambda>(x, i). put_trace ?j x i) (zip traces_inc t) ?a2"
  obtain w3 where w3: "foldE def_trace traces_inc (?a2, w2) = Inr (?a3, w3)" "indexed ?j ?a3"
    "can_register lay w3" "catalog_of (shm w3) = c3"
    using traces_loop [OF w2(4) _ _ w2(2)] res2 b(1) t w2(5) catalog_names [of "shm w2"] by auto
  let ?a4 = "fold (\<lambda>(x, i). put_profile ?j x i) (zip profiles_inc p) ?a3"
  obtain w4 where w4: "foldE (def_profile lay) profiles_inc (?a3, w3) = Inr (?a4, w4)"
    "can_register lay w4" "catalog_of (shm w4) = c4"
    using profiles_loop [OF w3(3) _ _ w3(2)] res3 r(2) "is"(2) p w3(4) catalog_names [of "shm w3"] by auto
  obtain w5 where w5: "RTDBG_Start w4 = Inr w5" "can_register lay w5" "catalog_of (shm w5) = c4" "active (shm w5)"
    using start_registers [OF w4(2)] w4(3) by auto
  have run: "RT_debug_init lay os ex f (a, w) = Inr (1, ?a4, w5)"
    using o(1) w1(1) a1 w2(1) w3(1) w4(1) w5(1) by (simp add: RT_debug_init_def)
  have a3: "?a3 = ?a2\<lparr>traces := map (\<lambda>(g, i). \<lparr>tr_group_id = of_nat (?j g), tr_trace_id = of_nat i\<rparr>)
      (zip [INIT_GROUP, GEN_GROUP, GEN_GROUP, GEN_GROUP, GEN_GROUP] t)\<rparr>"
    using put_traces a2(3) a l(3) by (simp add: adapt_ok_def)
  have a4: "?a4 = ?a3\<lparr>prof_points := map (\<lambda>i. \<lparr>pr_group_id = of_nat (?j GEN_GROUP), profile_id = of_nat i\<rparr>) p\<rparr>"
    using put_profiles [of ?a3 p ?j] a3 a2(4) a l(4) by (simp add: adapt_ok_def)
  have flds: "group_indexes ?a4 = map of_nat g" "map event_cnt (group_events ?a4) = map (\<lambda>i. Some (?j STATUS_GROUP, i)) e"
    "events_ok ?a4" "traces ?a4 = map (\<lambda>(g, i). \<lparr>tr_group_id = of_nat (?j g), tr_trace_id = of_nat i\<rparr>)
      (zip [INIT_GROUP, GEN_GROUP, GEN_GROUP, GEN_GROUP, GEN_GROUP] t)"
    "prof_points ?a4 = map (\<lambda>i. \<lparr>pr_group_id = of_nat (?j GEN_GROUP), profile_id = of_nat i\<rparr>) p"
    unfolding a4 unfolding a3 using a2 w2(3) by (simp_all add: events_ok_def)
  have "tables_hold ?a4 is \<and> adapt_ok ?a4"
    using tables_hold_from [OF l flds] "is"(1) by simp
  then show ?thesis using run w5 "is"(2) by blast
qed

end
