(* ===== verification/Adapt_Props.thy ===== *)
theory Adapt_Props
  imports Adapt_Init
begin

section \<open>Properties of the adaptation layer\<close>

text \<open>What a C program gets from \<open>RT_debug_init\<close>, and where its logs go.\<close>

subsection \<open>Opening the file\<close>

definition file_name_ok :: "string \<Rightarrow> world \<Rightarrow> bool" where
  "file_name_ok f w \<longleftrightarrow> length (shared_file_name (hnd w)) = TRACE_STRING_SIZE \<and> fits TRACE_STRING_SIZE f \<and> f \<noteq> []"

lemma open_file_new:
  assumes "\<not> mem_attached (hnd w)" "file_name_ok f w" and os: "os_good os" "os_mmap os = Some p"
    and obj: "rt_shape (os_file os)" "addrs_ok (lay p)"
  shows "\<exists>w'. open_file lay os False f w = Inr (True, w') \<and> can_register lay w' \<and> catalog_of (shm w') = []"
proof -
  obtain b where b: "RTDBG_SetSharedMemFile f w = Inr (w\<lparr>hnd := (hnd w)\<lparr>shared_file_name := b\<rparr>\<rparr>)"
    "named (w\<lparr>hnd := (hnd w)\<lparr>shared_file_name := b\<rparr>\<rparr>)"
    using SetSharedMemFile_ok assms(2) unfolding file_name_ok_def by blast
  have "\<not> mem_attached (hnd (w\<lparr>hnd := (hnd w)\<lparr>shared_file_name := b\<rparr>\<rparr>))" using assms(1) by simp
  from Activate_ok [where lay = lay, OF this b(2) os obj] obtain w1 where w1:
    "RTDBG_ActivateDebugDataCollection lay os (w\<lparr>hnd := (hnd w)\<lparr>shared_file_name := b\<rparr>\<rparr>) = Inr (True, w1)"
    "attached_ok w1" "rt_debugp (hnd w1) = p" "group_names (shm w1) = []" by auto
  then have "catalog_of (shm w1) = []" by (metis catalog_names map_is_Nil_conv)
  moreover have "can_register lay w1" using w1 obj(2) by (simp add: can_register_def)
  ultimately show ?thesis using start_registers [of lay w1] b(1) w1(1) by (auto simp: open_file_def)
qed

lemma open_file_existing:
  assumes "\<not> mem_attached (hnd w)" "file_name_ok f w"
    and os: "0 \<le> os_open os" "os_lseek os \<notin> {- 1, 0}" "os_mmap os = Some p" "p \<noteq> 0"
    and obj: "rt_wf (os_file os)" "addrs_ok (lay p)"
  shows "\<exists>w'. open_file lay os True f w = Inr (True, w') \<and> can_register lay w' \<and> shm w' = os_file os"
proof -
  obtain b where b: "RTDBG_SetSharedMemFile f w = Inr (w\<lparr>hnd := (hnd w)\<lparr>shared_file_name := b\<rparr>\<rparr>)"
    "named (w\<lparr>hnd := (hnd w)\<lparr>shared_file_name := b\<rparr>\<rparr>)"
    using SetSharedMemFile_ok assms(2) unfolding file_name_ok_def by blast
  then show ?thesis using assms
    by (auto simp: open_file_def RTDBG_AttachDebugData_def named_def map_object_def can_register_def attached_ok_def Let_def)
qed

lemma config_run: "reg_run config [] = ([0, 1, 2, 0, 1, 1, 1, 2, 3, 4, 0, 1], snd (reg_run config []))"
  by code_simp

lemma config_bounded: "bounded (snd (reg_run config []))"
  by code_simp

definition same_tables :: "rt_adapt \<Rightarrow> rt_adapt \<Rightarrow> bool" where
  "same_tables a b \<longleftrightarrow> group_indexes a = group_indexes b \<and>
     map event_cnt (group_events a) = map event_cnt (group_events b) \<and>
     traces a = traces b \<and> prof_points a = prof_points b"

lemma tables_hold_same:
  assumes "tables_hold a is" "tables_hold b is"
  shows "same_tables a b"
proof -
  have inj: "inj (\<lambda>t :: SGroupTrace. (tr_group_id t, tr_trace_id t))" "inj (\<lambda>p :: SGroupProfiler. (pr_group_id p, profile_id p))"
    by (auto intro!: injI SGroupTrace.equality SGroupProfiler.equality)
  have "map (\<lambda>t. (tr_group_id t, tr_trace_id t)) (traces a) = map (\<lambda>t. (tr_group_id t, tr_trace_id t)) (traces b)"
    "map (\<lambda>p. (pr_group_id p, profile_id p)) (prof_points a) = map (\<lambda>p. (pr_group_id p, profile_id p)) (prof_points b)"
    using assms unfolding tables_hold_def by simp_all
  then have "traces a = traces b" "prof_points a = prof_points b"
    using inj_map_eq_map [OF inj(1)] inj_map_eq_map [OF inj(2)] by blast+
  with assms show ?thesis by (simp add: same_tables_def tables_hold_def)
qed

subsection \<open>Properties\<close>

text \<open>C18: a new file. When the file does not exist and the system calls succeed, \<open>RT_debug_init\<close> returns
  1 with collection on; the object holds exactly the configured groups, counters, trace formats and
  profilers, and the tables hold their numbers: in order, so that the groups get the numbers of their
  enumeration constants, the formats count from 1 where the group's default format is 0.\<close>

theorem init_new_file:
  assumes "\<not> mem_attached (hnd w)" "file_name_ok f w" "os_good os" "os_mmap os = Some p"
    and "rt_shape (os_file os)" "addrs_ok (lay p)" "adapt_ok a"
  shows "\<exists>a' w'. RT_debug_init lay os False f (a, w) = Inr (1, a', w') \<and>
    tables_hold a' [0, 1, 2, 0, 1, 1, 1, 2, 3, 4, 0, 1] \<and> attached_ok w' \<and> active (shm w') \<and>
    catalog_of (shm w') =
      [(''INIT_GROUP'', [], [def_format, ''New thread was created num= %x thread_id = 0x%X''], []),
       (''GEN_GROUP'', [], [def_format, ''Passed val= 0x%X'', ''WRITE addr = 0x%X val = 0x%X'',
          ''READ addr = 0x%X val = 0x%X'', ''Create thread num = 0x%X thread_id = 0x%X''], [''TST_PROF'', ''UI_PROF'']),
       (''STATUS_GROUP'', [''EV_STATUS'', ''EV_WATCHDOG''], [def_format], [])]"
proof -
  obtain w0 where w0: "open_file lay os False f w = Inr (True, w0)" "can_register lay w0" "catalog_of (shm w0) = []"
    using open_file_new assms by blast
  from init_registers [OF w0(1,2) assms(7), of "[0, 1, 2, 0, 1, 1, 1, 2, 3, 4, 0, 1]" "snd (reg_run config [])"]
    w0(3) config_run config_bounded obtain a' w' where
    "RT_debug_init lay os False f (a, w) = Inr (1, a', w')" "tables_hold a' [0, 1, 2, 0, 1, 1, 1, 2, 3, 4, 0, 1]"
    "can_register lay w'" "catalog_of (shm w') = snd (reg_run config [])" "active (shm w')" by auto
  moreover have "snd (reg_run config []) =
      [(''INIT_GROUP'', [], [def_format, ''New thread was created num= %x thread_id = 0x%X''], []),
       (''GEN_GROUP'', [], [def_format, ''Passed val= 0x%X'', ''WRITE addr = 0x%X val = 0x%X'',
          ''READ addr = 0x%X val = 0x%X'', ''Create thread num = 0x%X thread_id = 0x%X''], [''TST_PROF'', ''UI_PROF'']),
       (''STATUS_GROUP'', [''EV_STATUS'', ''EV_WATCHDOG''], [def_format], [])]" by code_simp
  ultimately show ?thesis by (auto simp: can_register_def)
qed

text \<open>C19: the processes agree. Take a process that ran \<open>RT_debug_init\<close> (on a new or an existing file, in an object with room for
  the configuration), let
  any number of processes perform operations that return, with arguments as the interface asks and without a reset
  (no \<open>RTDBG_Init\<close> by an attached process and no successful \<open>RTDBG_ActivateDebugDataCollection\<close>, which empty the tables), and
  let another program with the same configuration run \<open>RT_debug_init\<close> on the file then, its system calls succeeding: it
  gets the same tables and registers nothing new.\<close>

theorem init_tables_agree:
  assumes first: "open_file lay os ex f w = Inr (True, w0)" "can_register lay w0" "adapt_ok a"
      "bounded (snd (reg_run config (catalog_of (shm w0))))" "RT_debug_init lay os ex f (a, w) = Inr (1, a1, view p s)"
    and later: "sys_ok lay s" "reaches lay 0 s s'"
    and second: "\<not> mem_attached (hnd v)" "file_name_ok f' v" "0 \<le> os_open os'" "os_lseek os' \<notin> {- 1, 0}"
      "os_mmap os' = Some q" "q \<noteq> 0" "os_file os' = object s'" "addrs_ok (lay q)" "adapt_ok b"
  shows "\<exists>b' v'. RT_debug_init lay os' True f' (b, v) = Inr (1, b', v') \<and> same_tables a1 b' \<and>
    catalog_of (shm v') = catalog_of (object s')"
proof -
  let ?cat = "snd (reg_run config (catalog_of (shm w0)))" and ?is = "fst (reg_run config (catalog_of (shm w0)))"
  have t1: "tables_hold a1 ?is" "catalog_of (object s) = ?cat"
    using init_registers [OF first(1-3) surjective_pairing first(4)] first(5) by auto
  have wf: "rt_wf (object s)" "rt_wf (object s')" "rt_extends (object s) (object s')"
    using later reaches_on [OF later(2,1)] by (auto simp: sys_ok_def world_ok_def)
  have run: "reg_run config (catalog_of (object s')) = (?is, catalog_of (object s'))"
    using reg_run_settled [OF config_order, of "catalog_of (shm w0)"] catalog_extends [OF wf] t1(2) by simp
  obtain v0 where v0: "open_file lay os' True f' v = Inr (True, v0)" "can_register lay v0" "shm v0 = object s'"
    using open_file_existing [where os = os' and lay = lay, OF second(1-6)] wf(2) second(7,8) by auto
  have b: "bounded (catalog_of (object s'))" using catalog_bounded [OF wf(2)] .
  from init_registers [OF v0(1,2) second(9) run [folded v0(3)]] b v0(3) obtain b' v' where
    "RT_debug_init lay os' True f' (b, v) = Inr (1, b', v')" "tables_hold b' ?is" "catalog_of (shm v') = catalog_of (object s')"
    by auto
  with tables_hold_same [OF t1(1)] show ?thesis by blast
qed

text \<open>C38: creation that fails is not reported. When the file does not exist and cannot be created,
  \<open>RT_debug_init\<close> still returns 1: nothing is attached, every index in the tables is -1 and every
  counter pointer is \<open>NULL\<close>.\<close>

theorem init_hides_failure:
  assumes "\<not> mem_attached (hnd w)" "file_name_ok f w" "os_open os < 0" "adapt_ok a"
  shows "\<exists>a' w'. RT_debug_init lay os False f (a, w) = Inr (1, a', w') \<and> \<not> mem_attached (hnd w') \<and> shm w' = shm w \<and>
    group_indexes a' = replicate MAX_GROUPS (- 1) \<and>
    map event_cnt (group_events a') = replicate MAX_GROUP_EVENT None \<and>
    traces a' = replicate MAX_TRACES \<lparr>tr_group_id = - 1, tr_trace_id = - 1\<rparr> \<and>
    prof_points a' = replicate MAX_PROFILER \<lparr>pr_group_id = - 1, profile_id = - 1\<rparr>"
proof -
  obtain b where b: "RTDBG_SetSharedMemFile f w = Inr (w\<lparr>hnd := (hnd w)\<lparr>shared_file_name := b\<rparr>\<rparr>)"
    "named (w\<lparr>hnd := (hnd w)\<lparr>shared_file_name := b\<rparr>\<rparr>)"
    using SetSharedMemFile_ok assms(2) unfolding file_name_ok_def by blast
  let ?w = "w\<lparr>hnd := (hnd w)\<lparr>shared_file_name := b, mmapFd := os_open os\<rparr>\<rparr>"
  have o: "open_file lay os False f w = Inr (True, ?w)"
    using assms(1,3) b by (simp add: open_file_def RTDBG_ActivateDebugDataCollection_def RTDBG_Start_def named_def)
  obtain i j k where g: "group_indexes a = [i, j, k]"
    using assms(4) length_lists(2) unfolding adapt_ok_def MAX_GROUPS_def by blast
  obtain x y where e: "group_events a = [x, y]" "length (event_name x) = TRACE_STRING_SIZE" "length (event_name y) = TRACE_STRING_SIZE"
    using assms(4) length_lists(1) unfolding adapt_ok_def events_ok_def MAX_GROUP_EVENT_def by (metis list.set_intros)
  obtain t0 t1 t2 t3 t4 where t: "traces a = [t0, t1, t2, t3, t4]"
    using assms(4) length_lists(3) unfolding adapt_ok_def MAX_TRACES_def by blast
  obtain u v where p: "prof_points a = [u, v]"
    using assms(4) length_lists(1) unfolding adapt_ok_def MAX_PROFILER_def by blast
  have cpy: "\<exists>c. strncpy (event_name z) nm (TRACE_STRING_SIZE - 1) = Inr c" if "length (event_name z) = TRACE_STRING_SIZE" for z nm
    using that by (simp add: strncpy_def TRACE_STRING_SIZE_def)
  obtain c1 where c1: "strncpy (event_name x) ''EV_STATUS'' (TRACE_STRING_SIZE - 1) = Inr c1" using cpy e(2) by blast
  obtain c2 where c2: "strncpy (event_name y) ''EV_WATCHDOG'' (TRACE_STRING_SIZE - 1) = Inr c2" using cpy e(3) by blast
  have 1: "foldE (def_group lay) groups_inc (a, ?w) = Inr (a\<lparr>group_indexes := [- 1, - 1, - 1]\<rparr>, ?w)"
    using g assms(1) by (simp add: groups_inc_def def_group_def RTDBG_AllocRTDebugGroup_def)
  let ?a2 = "a\<lparr>group_indexes := [- 1, - 1, - 1], group_events :=
    [\<lparr>ev_group_id = - 1, event_cnt = None, event_name = c1\<rparr>, \<lparr>ev_group_id = - 1, event_cnt = None, event_name = c2\<rparr>]\<rparr>"
  have 2: "foldE def_event events_inc (a\<lparr>group_indexes := [- 1, - 1, - 1]\<rparr>, ?w) = Inr (?a2, ?w)"
    using e(1) c1 c2 assms(1) by (simp add: events_inc_def def_event_def RTDBG_AllocCounter_def arr_get_def)
  let ?a3 = "?a2\<lparr>traces := replicate 5 \<lparr>tr_group_id = - 1, tr_trace_id = - 1\<rparr>\<rparr>"
  have 3: "foldE def_trace traces_inc (?a2, ?w) = Inr (?a3, ?w)"
    using t assms(1) by (simp add: traces_inc_def def_trace_def RTDBG_AddTraceEntry_def arr_get_def numeral_eq_Suc)
  let ?a4 = "?a3\<lparr>prof_points := replicate 2 \<lparr>pr_group_id = - 1, profile_id = - 1\<rparr>\<rparr>"
  have 4: "foldE (def_profile lay) profiles_inc (?a3, ?w) = Inr (?a4, ?w)"
    using p assms(1) by (simp add: profiles_inc_def def_profile_def RTDBG_AddProfiler_def arr_get_def numeral_eq_Suc)
  have "RT_debug_init lay os False f (a, w) = Inr (1, ?a4, ?w)"
    using o 1 2 3 4 assms(1) by (simp add: RT_debug_init_def RTDBG_Start_def)
  then show ?thesis using assms(1) by (simp add: max_defs numeral_eq_Suc)
qed

text \<open>C35: a log goes to the wrong group. Collection is on and the text fits an entry. \<open>RT_debug_save_log\<close> passes the number of the enumeration constant
  as the group, not the index from the table: when the program's group was registered at another index, because
  another program registered its groups first, the text is appended to the log of the group that
  happens to have that number, and the log of the program's group stays as it was.\<close>

theorem save_log_wrong_group:
  assumes w: "attached_ok w" "active (shm w)" and gid: "group_num gid < ngroups w" and str: "loggable str"
    and i: "i < ngroups w" "group_indexes a ! group_num gid = of_nat i" "i \<noteq> group_num gid"
  shows "\<exists>w'. RT_debug_save_log now gid str (a, w) = Some (Inr (a, w')) \<and>
    messages (lg w' (group_num gid)) = keep_last log_cap (messages (lg w (group_num gid)) @ [(now, str)]) \<and>
    lg w' (unat (group_indexes a ! group_num gid)) = lg w i"
proof -
  note at = group_at [OF w(1) gid]
  let ?k = "group_num gid" and ?g = "debug_groups (shm w) ! group_num gid"
  have "log_wf (logger ?g)" using at(2) by (simp add: group_wf_def)
  from AddLog_ok [OF this str, of now] obtain l where l: "AddLog now str (logger ?g) = Some (Inr l)"
    "messages l = keep_last log_cap (messages (logger ?g) @ [(now, str)])" by blast
  have k: "unat (of_nat ?k :: u32) = ?k" by (cases gid) simp_all
  let ?w = "w\<lparr>shm := put_grp (of_nat ?k) (?g\<lparr>logger := l\<rparr>) (shm w)\<rparr>"
  have "RTDBG_AddLog now (of_nat ?k) str w = Some (Inr ?w)"
    using w l(1) at(1) attached_deref [OF w(1)] by (simp add: RTDBG_AddLog_def IsDataCollected_def attached_ok_def)
  then have "RT_debug_save_log now gid str (a, w) = Some (Inr (a, ?w))" by (simp add: RT_debug_save_log_def)
  moreover have "lg ?w ?k = l" using at(3) k by (simp add: lg_def put_grp_def)
  moreover have "unat (of_nat i :: u32) = i" using i(1) ngroups_le [OF w(1)] by (intro unat_of_nat_u32) (simp add: MAX_GROUP_NUM_def)
  then have "lg ?w (unat (of_nat i :: u32)) = lg w i" using k i(3) by (simp add: lg_def put_grp_def)
  ultimately show ?thesis using l(2) i(2) by (intro exI [of _ ?w]) (simp add: lg_def)
qed

text \<open>\<open>RT_debug_get_grp_log\<close> never returns a log. Where the read of that group's log with a place for the time
  would return one, the call dereferences the \<open>NULL\<close> that it passes for the time; where there is none it
  returns false.\<close>

theorem get_grp_log_never:
  assumes "group_id < MAX_GROUP_NUM" "RTDBG_GetLog now dst False (push_bit group_id 1) w = Inr (r, w')"
  shows "RT_debug_get_grp_log now group_id (Some dst) (a, w) =
    (case r of None \<Rightarrow> Inr (None, a, w') | Some _ \<Rightarrow> Inl NullDeref)"
  using assms
  by (auto simp: RT_debug_get_grp_log_def RTDBG_GetLog_def bindE_eq_Inr MAX_GROUP_NUM_def split: if_splits)

subsection \<open>The properties at work\<close>

lemma adapt_zero_ok: "adapt_ok rt_adapt_zero"
  by (simp add: adapt_ok_def rt_adapt_zero_def events_ok_def)

lemma demo_file: "file_name_ok ''/tmp/rt'' demo_start" "file_name_ok ''/tmp/b'' demo_start"
  by (simp_all add: file_name_ok_def fits_def c_string_def TRACE_STRING_SIZE_def demo_start_def debug_handler_def)

theorem init_new_file_witness:
  "\<exists>a' w'. RT_debug_init demo_lay demo_os False ''/tmp/rt'' (rt_adapt_zero, demo_start) = Inr (1, a', w') \<and>
     tables_hold a' [0, 1, 2, 0, 1, 1, 1, 2, 3, 4, 0, 1] \<and> active (shm w')"
  using init_new_file [where lay = demo_lay, OF demo_start_ok(1) demo_file(1) demo_start_ok(3-5) demo_lay_ok adapt_zero_ok]
  by blast

theorem init_hides_failure_witness:
  "\<exists>a' w'. RT_debug_init demo_lay (demo_os\<lparr>os_open := - 1\<rparr>) False ''/tmp/rt'' (rt_adapt_zero, demo_start) = Inr (1, a', w') \<and>
     \<not> mem_attached (hnd w') \<and> group_indexes a' = replicate MAX_GROUPS (- 1)"
proof -
  have "os_open (demo_os\<lparr>os_open := - 1\<rparr>) < 0" by simp
  from init_hides_failure [where lay = demo_lay, OF demo_start_ok(1) demo_file(1) this adapt_zero_ok] show ?thesis by blast
qed

text \<open>A program that finds an object in which the group \<open>GEN\<close> is registered already: its own groups
  get the numbers 1 to 3.\<close>

lemma demo_second_program:
  "\<exists>(a :: rt_adapt) w. attached_ok w \<and> active (shm w) \<and> ngroups w = 4 \<and> group_indexes a = [1, 2, 3]"
proof -
  obtain w where w: "can_register demo_lay w" and c: "catalog_of (shm w) = [(''GEN'', [], [def_format], [])]"
    using demo_registry by blast
  have "\<exists>v. open_file demo_lay (demo_os\<lparr>os_file := shm w\<rparr>) True ''/tmp/rt'' demo_start = Inr (True, v) \<and>
      can_register demo_lay v \<and> shm v = shm w"
    using open_file_existing [where lay = demo_lay and os = "demo_os\<lparr>os_file := shm w\<rparr>", OF demo_start_ok(1) demo_file(1)]
      w demo_lay_ok by (simp add: demo_os_def can_register_def attached_ok_def)
  then obtain v where v: "open_file demo_lay (demo_os\<lparr>os_file := shm w\<rparr>) True ''/tmp/rt'' demo_start = Inr (True, v)"
    "can_register demo_lay v" "catalog_of (shm v) = [(''GEN'', [], [def_format], [])]" using c by auto
  obtain ix cat where r: "reg_run config [(''GEN'', [], [def_format], [])] = (ix, cat)" by fastforce
  have "fst (reg_run config [(''GEN'', [], [def_format], [])]) = [1, 2, 3, 0, 1, 1, 1, 2, 3, 4, 0, 1]"
    "bounded (snd (reg_run config [(''GEN'', [], [def_format], [])]))"
    "length (snd (reg_run config [(''GEN'', [], [def_format], [])])) = 4" by code_simp+
  then have ix: "ix = [1, 2, 3, 0, 1, 1, 1, 2, 3, 4, 0, 1]" "bounded cat" "length cat = 4" using r by simp_all
  from init_registers [OF v(1,2) adapt_zero_ok, unfolded v(3), OF r ix(2)] obtain a' w' where
    t: "tables_hold a' ix" "can_register demo_lay w'" "catalog_of (shm w') = cat" "active (shm w')" by blast
  then show ?thesis using ix(1,3) length_catalog [of w']
    by (intro exI [of _ a'] exI [of _ w']) (simp add: can_register_def tables_hold_def)
qed

theorem save_log_wrong_group_witness:
  "\<exists>a w w'. ngroups w = 4 \<and> group_indexes a ! group_num INIT_GROUP = 1 \<and>
     RT_debug_save_log zero_time INIT_GROUP ''hello'' (a, w) = Some (Inr (a, w')) \<and>
     messages (lg w' 0) = keep_last log_cap (messages (lg w 0) @ [(zero_time, ''hello'')]) \<and> lg w' 1 = lg w 1"
proof -
  obtain a :: rt_adapt and w where w: "attached_ok w" "active (shm w)" "ngroups w = 4" "group_indexes a = [1, 2, 3]"
    using demo_second_program by blast
  have "group_num INIT_GROUP < ngroups w" "loggable ''hello''" "1 < ngroups w"
    "group_indexes a ! group_num INIT_GROUP = of_nat 1" "1 \<noteq> group_num INIT_GROUP"
    using w(3,4) by (simp_all add: fits_def c_string_def LOG_STRING_SIZE_def TRACE_STRING_SIZE_def)
  from save_log_wrong_group [OF w(1,2) this, of zero_time] obtain w' where
    "RT_debug_save_log zero_time INIT_GROUP ''hello'' (a, w) = Some (Inr (a, w'))"
    "messages (lg w' 0) = keep_last log_cap (messages (lg w 0) @ [(zero_time, ''hello'')])" "lg w' 1 = lg w 1"
    using w(4) by auto
  then show ?thesis using w(3,4) by (intro exI [of _ a] exI [of _ w] exI [of _ w']) simp
qed

theorem get_grp_log_never_witness:
  "\<exists>w. ngroups w = 1 \<and> RT_debug_get_grp_log \<lparr>tv_sec = 3, tv_nsec = 0\<rparr> 5 (Some (replicate 1000 NUL)) (rt_adapt_zero, w) = Inl NullDeref"
proof -
  obtain w where w: "attached_ok w" "ngroups w = 1" "grp_logs_last (hnd w) = grp_logs_last debug_handler"
    using demo_world by blast
  have "0 < ngroups w" "valid_time \<lparr>tv_sec = 3, tv_nsec = 0\<rparr>" "0 < ns_of \<lparr>tv_sec = 3, tv_nsec = 0\<rparr>"
    "0 < length (replicate 1000 NUL)" "\<forall>i < ngroups w. (push_bit 5 1 :: u64) AND push_bit i 1 = 0"
    using w(2) by (simp_all add: valid_time_def ns_of_def)
  from unfilled_read [OF w(1) this(1) w(3) this(2-5)] obtain b where
    b: "RTDBG_GetLog \<lparr>tv_sec = 3, tv_nsec = 0\<rparr> (replicate 1000 NUL) False (push_bit 5 1) w = Inr (Some (b, zero_time), w)" by blast
  have "5 < MAX_GROUP_NUM" by (simp add: MAX_GROUP_NUM_def)
  from get_grp_log_never [OF this b, of rt_adapt_zero] w(2) show ?thesis by auto
qed

text \<open>The first program creates the file; another process adds the group \<open>A\<close>; the second program gets
  the tables of the first.\<close>

theorem init_tables_agree_witness:
  "\<exists>s a1 (s' :: system) b' v'. RT_debug_init demo_lay demo_os False ''/tmp/rt'' (rt_adapt_zero, demo_start) = Inr (1, a1, view 0 s) \<and>
     length (group_names (object s')) = 4 \<and>
     RT_debug_init demo_lay (demo_os\<lparr>os_file := object s'\<rparr>) True ''/tmp/b'' (rt_adapt_zero, demo_start) = Inr (1, b', v') \<and>
     same_tables a1 b'"
proof -
  obtain w0 where w0: "open_file demo_lay demo_os False ''/tmp/rt'' demo_start = Inr (True, w0)" "can_register demo_lay w0"
    "catalog_of (shm w0) = []"
    using open_file_new [where lay = demo_lay, OF demo_start_ok(1) demo_file(1) demo_start_ok(3-5) demo_lay_ok] by blast
  obtain ix cat where r: "reg_run config [] = (ix, cat)" by fastforce
  have b: "bounded cat" using config_bounded r by simp
  from init_registers [OF w0(1,2) adapt_zero_ok, unfolded w0(3), OF r b] obtain a1 w1 where
    w1: "RT_debug_init demo_lay demo_os False ''/tmp/rt'' (rt_adapt_zero, demo_start) = Inr (1, a1, w1)"
    "can_register demo_lay w1" "catalog_of (shm w1) = cat" by blast
  let ?s = "\<lparr>handlers = \<lambda>_. (hnd w1, True), object = shm w1\<rparr>"
  have view: "view p ?s = w1" for p using w1(2) by (simp add: view_def can_register_def attached_ok_def)
  have ok: "sys_ok demo_lay ?s" unfolding sys_ok_def view
    using w1(2) by (auto simp: world_ok_def can_register_def attached_ok_def)
  have "length (snd (reg_run config [])) = 3" "''A'' \<notin> set (map fst (snd (reg_run config [])))" by code_simp+
  then have cat: "length cat = 3" "''A'' \<notin> set (map fst cat)" using r by simp_all
  have a: "attached_ok w1" "addrs_ok (demo_lay (rt_debugp (hnd w1)))" using w1(2) by (auto simp: can_register_def)
  have n: "''A'' \<notin> set (group_names (shm w1))" "ngroups w1 < MAX_GROUP_NUM"
    using cat w1(3) length_catalog [OF a(1)] by (simp_all add: MAX_GROUP_NUM_def flip: catalog_names)
  from AllocRTDebugGroup_new [where lay = demo_lay, OF a demo_names(1) n] obtain i d where
    d: "RTDBG_AllocRTDebugGroup demo_lay ''A'' (view 1 ?s) = Inr (i, w1\<lparr>shm := d\<rparr>)" "group_names d = group_names (shm w1) @ [''A'']"
    unfolding view by blast
  let ?s' = "commit 1 (w1\<lparr>shm := d\<rparr>) ?s" and ?os = "demo_os\<lparr>os_file := d\<rparr>"
  have later: "reaches demo_lay 0 ?s ?s'"
    using reaches.more [OF reaches.here sys_step.proc [OF api_step.alloc_group [OF d(1) demo_names(1)]]] .
  have os: "0 \<le> os_open ?os" "os_lseek ?os \<notin> {- 1, 0}" "os_mmap ?os = Some 4096" "(4096 :: u64) \<noteq> 0" "os_file ?os = object ?s'"
    by (simp_all add: demo_os_def)
  have b0: "bounded (snd (reg_run config (catalog_of (shm w0))))" using b r w0(3) by simp
  have "length (group_names (shm w1)) = 3" using cat(1) w1(3) catalog_names [of "shm w1"] by (metis length_map)
  then have "length (group_names (object ?s')) = 4" using d(2) by simp
  moreover have run: "RT_debug_init demo_lay demo_os False ''/tmp/rt'' (rt_adapt_zero, demo_start) = Inr (1, a1, view 0 ?s)"
    using w1(1) view by simp
  moreover obtain b' v' where "RT_debug_init demo_lay ?os True ''/tmp/b'' (rt_adapt_zero, demo_start) = Inr (1, b', v')"
    "same_tables a1 b'"
    using init_tables_agree [where lay = demo_lay and p = 0 and s = ?s and s' = ?s' and q = 4096 and os' = ?os,
        OF w0(1,2) adapt_zero_ok b0 run ok later demo_start_ok(1) demo_file(2) os demo_lay_ok adapt_zero_ok] by blast
  moreover from this(1) have "RT_debug_init demo_lay (demo_os\<lparr>os_file := object ?s'\<rparr>) True ''/tmp/b'' (rt_adapt_zero, demo_start) = Inr (1, b', v')"
    by simp
  ultimately show ?thesis by blast
qed

end
