(* ===== verification/Example_Buffers.thy ===== *)
theory Example_Buffers
  imports Example_C Client_Calls Adapt_Props
begin

section \<open>The buffers of a program that creates the file\<close>

text \<open>
  The FIFO of a profiler holds the address at which the process that registered it maps the object. A process that creates the
  file registers all its profilers itself, so the addresses are its own (\<open>home\<close>), and no operation of a client changes that.
\<close>

subsection \<open>The buffers of the profilers\<close>

definition profiler_at :: "world \<Rightarrow> nat \<Rightarrow> CProfilerGroup" where
  "profiler_at w i = profiler (debug_groups (shm w) ! i)"

text \<open>All profilers were registered by a process that maps the object where this one does.\<close>

definition home :: "layout \<Rightarrow> world \<Rightarrow> bool" where
  "home lay w \<longleftrightarrow> (\<forall>i < ngroups w. \<forall>k < unat (num_alloc_prof (profiler_at w i)).
     area_at (ga_prof (lay (rt_debugp (hnd w)) i) k) (prof_fifos (profiler_at w i) ! k))"

named_theorems home_step

lemma nth_upd: "xs[i := x] ! j = (if i = j \<and> i < length xs then x else xs ! j)"
  by (cases "i < length xs") (auto simp: nth_list_update not_less list_update_beyond)

lemma home_same:
  assumes "home lay w" "rt_debugp (hnd w') = rt_debugp (hnd w)" "ngroups w' = ngroups w"
    "\<And>i. i < ngroups w \<Longrightarrow> profiler_at w' i = profiler_at w i"
  shows "home lay w'"
  using assms by (simp add: home_def)

lemma profiler_at_put:
  "profiler_at (w\<lparr>shm := (shm w)\<lparr>debug_groups := (debug_groups (shm w))[n := g]\<rparr>\<rparr>) i =
     (if i = n \<and> n < length (debug_groups (shm w)) then profiler g else profiler_at w i)"
  by (simp add: profiler_at_def nth_upd)

lemma home_at_grp:
  assumes "at_grp n f w = Inr (x, w')" "home lay w"
    "\<And>g y g'. f g = Inr (y, g') \<Longrightarrow> profiler g' = profiler g"
  shows "home lay w'"
proof -
  from assms(1) obtain g g' where g: "GetDebugGrp n (shm w) = Inr g" "f g = Inr (x, g')" "w' = w\<lparr>shm := put_grp n g' (shm w)\<rparr>"
    by (auto simp: at_grp_def bindE_eq_Inr deref_eq_Inr)
  have "profiler_at w (unat n) = profiler g" using g(1) by (auto simp: GetDebugGrp_eq_Inr profiler_at_def)
  then show ?thesis using assms(3) [OF g(2)] unfolding g(3)
    by (intro home_same [OF assms(2)]) (simp_all add: put_grp_def profiler_at_put ngroups_def)
qed

lemma home_switch [home_step]:
  "RTDBG_Start w = Inr w' \<Longrightarrow> home lay w \<Longrightarrow> home lay w'"
  "RTDBG_Stop w = Inr w' \<Longrightarrow> home lay w \<Longrightarrow> home lay w'"
  by (auto simp: RTDBG_Start_def RTDBG_Stop_def bindE_eq_Inr deref_eq_Inr SetDataCollection_def InitExtractTables_def Let_def
      home_def ngroups_def profiler_at_def split: if_splits)

lemma home_AllocCounter [home_step]: "RTDBG_AllocCounter grp nm w = Inr (c, w') \<Longrightarrow> home lay w \<Longrightarrow> home lay w'"
  by (auto simp: RTDBG_AllocCounter_def bindE_eq_Inr split: if_splits elim!: home_at_grp)

lemma home_AddTraceEntry [home_step]: "RTDBG_AddTraceEntry grp nm w = Inr (i, w') \<Longrightarrow> home lay w \<Longrightarrow> home lay w'"
  by (auto simp: RTDBG_AddTraceEntry_def bindE_eq_Inr split: if_splits elim!: home_at_grp)

lemma home_AddTrace [home_step]:
  "RTDBG_AddTrace now self junk grp tid line v0 v1 v2 v3 w = Inr w' \<Longrightarrow> home lay w \<Longrightarrow> home lay w'"
  by (auto simp: RTDBG_AddTrace_def bindE_eq_Inr Let_def split: if_splits elim!: home_at_grp)

lemma home_AddLog [home_step]: "RTDBG_AddLog now grp str w = Some (Inr w') \<Longrightarrow> home lay w \<Longrightarrow> home lay w'"
  by (auto simp: RTDBG_AddLog_def bindD_eq_Some_Inr deref_eq_Inr GetDebugGrp_eq_Inr put_grp_def ngroups_def
      profiler_at_def nth_upd split: if_splits elim!: home_same)

lemma home_counter_update [home_step]: "counter_update r f w = Inr w' \<Longrightarrow> home lay w \<Longrightarrow> home lay w'"
  by (auto simp: counter_update_def bindE_eq_Inr deref_eq_Inr arr_mod_def arr_get_def ngroups_def
      profiler_at_def nth_upd split: if_splits option.splits elim!: home_same)

lemma home_put_fifo:
  assumes "home lay w" "mem_ptr p = Some (i, k)" "area_frame m = area_frame (prof_fifos (profiler_at w i) ! k)"
  shows "home lay (put_fifo p m w)"
  using assms by (auto simp: home_def put_fifo_def Let_def profiler_at_def ngroups_def nth_upd area_at_def area_frame_def)

subsection \<open>The process that creates the file\<close>

lemma home_AllocRTDebugGroup:
  assumes h: "home lay w" and w: "can_register lay w" and nm: "fits TRACE_STRING_SIZE nm"
    and r: "RTDBG_AllocRTDebugGroup lay nm w = Inr (i, w')"
  shows "home lay w'"
proof (cases "nm \<in> set (group_names (shm w))")
  case True
  have a: "attached_ok w" "rt_wf (shm w) \<and> addrs_ok (lay (rt_debugp (hnd w)))" using w by (auto simp: can_register_def attached_ok_def)
  from r obtain d where d: "AllocDbgGrp (lay (rt_debugp (hnd w))) nm (shm w) = Inr (i, d)" "w' = w\<lparr>shm := d\<rparr>"
    using a attached_deref [OF a(1)] by (auto simp: RTDBG_AllocRTDebugGroup_def bindE_eq_Inr attached_ok_def)
  obtain k where "first_pos nm (group_names (shm w)) = Some k" using True by (metis first_pos_None_iff not_None_eq)
  from groups.hit [OF a(2) nm this] d show ?thesis using h by simp
next
  case new: False
  have a: "attached_ok w" "addrs_ok (lay (rt_debugp (hnd w)))" "rt_wf (shm w)" using w by (auto simp: can_register_def attached_ok_def)
  have "ngroups w < MAX_GROUP_NUM"
  proof (rule ccontr)
    assume "\<not> ngroups w < MAX_GROUP_NUM"
    then have "length (group_names (shm w)) = MAX_GROUP_NUM"
      using ngroups_le [OF a(1)] by (simp add: length_group_names [OF a(3)] ngroups_def)
    with groups.full [OF _ nm new] a(2,3) r show False
      using a(1) attached_deref [OF a(1)] by (fastforce simp: RTDBG_AllocRTDebugGroup_def attached_ok_def)
  qed
  with AllocRTDebugGroup_new [where lay = lay, OF a(1,2) nm new] r obtain d g where d: "w' = w\<lparr>shm := d\<rparr>" "attached_ok w'"
    "group_fresh nm g" "ngroups w' = ngroups w + 1" "debug_groups d = (debug_groups (shm w))[ngroups w := g]" by auto
  have "ngroups w < ngroups w'" using d(4) by simp
  note at = group_at [OF d(2) this]
  have g: "profiler_at w' (ngroups w) = profiler g" using at(3) d(1,5) by (simp add: profiler_at_def)
  then have "unat (num_alloc_prof (profiler g)) = 0"
    using at(2) d(3) wf_no_profilers by (simp add: group_wf_def group_fresh_def profiler_at_def)
  moreover have "profiler_at w' j = profiler_at w j" if "j \<noteq> ngroups w" for j
    using that d(1,5) by (simp add: profiler_at_def)
  moreover have "rt_debugp (hnd w') = rt_debugp (hnd w)" using d(1) by simp
  ultimately show ?thesis using h g d(4) unfolding home_def by (metis add.commute less_Suc_eq not_less_zero plus_1_eq_Suc)
qed

lemma RegistryProfileEntry_home:
  assumes r: "RegistryProfileEntry bases nm p = Inr (i, p')" and wf: "profiler_wf p" "bases_ok bases" and nm: "fits MDO_NAME_SIZE nm"
    and h: "\<And>k. k < unat (num_alloc_prof p) \<Longrightarrow> area_at (bases k) (prof_fifos p ! k)"
    and k: "k < unat (num_alloc_prof p')"
  shows "area_at (bases k) (prof_fifos p' ! k)"
proof (cases "nm \<in> set (profiler_names p)")
  case True
  then obtain j where "first_pos nm (profiler_names p) = Some j" by (metis first_pos_None_iff not_None_eq)
  with profilers.hit [OF _ nm this, of bases] wf r have "p' = p" by auto
  with h k show ?thesis by simp
next
  case new: False
  have room: "unat (num_alloc_prof p) < PROF_GROUP_MAX"
    using profilers.full [OF _ nm new, of bases] profiler_num(1) [OF wf(1)] wf r
    by (fastforce simp: length_profiler_names [OF wf(1)])
  from RegistryProfileEntry_new [OF wf(1) nm new room wf(2)] r obtain m where
    m: "prof_fifo_ok (bases (unat (num_alloc_prof p))) m"
      "p' = p\<lparr>num_alloc_prof := num_alloc_prof p + 1, prof_fifos := (prof_fifos p)[unat (num_alloc_prof p) := m]\<rparr>" by auto
  have "unat (num_alloc_prof p + 1) = Suc (unat (num_alloc_prof p))"
    using room by (simp add: PROF_GROUP_MAX_def unat_word_ariths)
  moreover have "unat (num_alloc_prof p) < length (prof_fifos p)" using wf(1) room by (simp add: profiler_wf_def name_array_def)
  ultimately show ?thesis using h k m by (cases "k = unat (num_alloc_prof p)") (auto simp: prof_fifo_ok_def)
qed

lemma home_AddProfiler:
  assumes h: "home lay w" and w: "can_register lay w" and nm: "fits MDO_NAME_SIZE nm"
    and r: "RTDBG_AddProfiler lay grp nm w = Inr (i, w')"
  shows "home lay w'"
proof -
  have a: "attached_ok w" "addrs_ok (lay (rt_debugp (hnd w)))" using w by (auto simp: can_register_def)
  then have att: "mem_attached (hnd w)" by (simp add: attached_ok_def)
  have grp: "unat grp < ngroups w" using AddProfiler_group [OF r att] by (simp add: ngroups_def word_less_nat_alt)
  note at = group_at [OF a(1) grp]
  let ?b = "ga_prof (lay (rt_debugp (hnd w)) (unat grp))" and ?g = "debug_groups (shm w) ! unat grp"
  have wf: "profiler_wf (profiler ?g)" "bases_ok ?b"
    using at(2) a(2) grp ngroups_le [OF a(1)] by (simp_all add: group_wf_def addrs_ok_def addr_ok_def)
  from r att at obtain p where p: "RegistryProfileEntry ?b nm (profiler ?g) = Inr (i, p)"
    "w' = w\<lparr>shm := put_grp grp (?g\<lparr>profiler := p\<rparr>) (shm w)\<rparr>"
    using attached_deref [OF a(1)] by (auto simp: RTDBG_AddProfiler_def at_grp_def bindE_eq_Inr)
  have "area_at (?b k) (prof_fifos p ! k)" if "k < unat (num_alloc_prof p)" for k
    using RegistryProfileEntry_home [OF p(1) wf nm _ that] h grp by (simp add: home_def profiler_at_def)
  moreover have "profiler_at w' j = (if j = unat grp then p else profiler_at w j)" for j
    using at(3) p(2) by (simp add: put_grp_def profiler_at_put)
  ultimately show ?thesis using h p(2) by (simp add: home_def put_grp_def ngroups_def)
qed

lemma foldE_inv_in:
  assumes "foldE f xs s = Inr s'" "P s" "\<And>x s s'. x \<in> set xs \<Longrightarrow> P s \<Longrightarrow> f x s = Inr s' \<Longrightarrow> P s'"
  shows "P s'"
  using assms
proof (induction xs arbitrary: s)
  case (Cons x xs)
  then obtain s1 where s1: "f x s = Inr s1" "foldE f xs s1 = Inr s'" by (auto simp: bindE_eq_Inr)
  have "P s1" using Cons.prems(3) [OF _ Cons.prems(2) s1(1)] by simp
  with s1(2) show ?case by (rule Cons.IH) (rule Cons.prems(3), simp_all)
qed simp

text \<open>So \<open>RT_debug_init\<close> on a new file leaves all buffers where the process maps them.\<close>

definition at_home :: "layout \<Rightarrow> program \<Rightarrow> bool" where
  "at_home lay s \<longleftrightarrow> can_register lay (snd s) \<and> home lay (snd s)"

lemma grows_can_register: "world_grows w w' \<Longrightarrow> can_register lay w \<Longrightarrow> can_register lay w'"
  by (auto simp: world_grows_def grows_def can_register_def attached_ok_def)

lemma def_steps_home:
  "x \<in> set groups_inc \<Longrightarrow> at_home lay s \<Longrightarrow> def_group lay x s = Inr s' \<Longrightarrow> at_home lay s'"
  "y \<in> set events_inc \<Longrightarrow> at_home lay s \<Longrightarrow> def_event y s = Inr s' \<Longrightarrow> at_home lay s'"
  "z \<in> set traces_inc \<Longrightarrow> at_home lay s \<Longrightarrow> def_trace z s = Inr s' \<Longrightarrow> at_home lay s'"
  "q \<in> set profiles_inc \<Longrightarrow> at_home lay s \<Longrightarrow> def_profile lay q s = Inr s' \<Longrightarrow> at_home lay s'"
proof -
  obtain a w where s: "s = (a, w)" by fastforce
  assume h: "at_home lay s"
  then have w: "can_register lay w" "home lay w" and adr: "addrs_ok (lay (rt_debugp (hnd w)))"
    by (simp_all add: at_home_def can_register_def s)
  show "at_home lay s'" if "x \<in> set groups_inc" "def_group lay x s = Inr s'"
  proof -
    obtain g nm where x: "x = (g, nm)" by fastforce
    have nm: "fits TRACE_STRING_SIZE nm" using config_fits(1) that(1) x by blast
    from that(2) obtain i where "RTDBG_AllocRTDebugGroup lay nm w = Inr (i, snd s')"
      by (auto simp: def_group_def x s bindE_eq_Inr)
    with home_AllocRTDebugGroup [OF w(2,1) nm] AllocRTDebugGroup_grow [where lay = lay, OF _ nm adr] show ?thesis
      using w(1) grows_can_register by (auto simp: at_home_def)
  qed
  show "at_home lay s'" if "y \<in> set events_inc" "def_event y s = Inr s'"
  proof -
    obtain e g nm where y: "y = (e, g, nm)" by (metis prod.exhaust)
    have nm: "fits TRACE_STRING_SIZE nm" using config_fits(2) that(1) y by blast
    from that(2) obtain gi c where r: "RTDBG_AllocCounter gi nm w = Inr (c, snd s')"
      by (auto simp: def_event_def y s bindE_eq_Inr)
    show ?thesis using home_AllocCounter [OF r w(2)] grows_can_register [OF AllocCounter_grow [OF r nm] w(1)] by (simp add: at_home_def)
  qed
  show "at_home lay s'" if "z \<in> set traces_inc" "def_trace z s = Inr s'"
  proof -
    obtain t g nm where z: "z = (t, g, nm)" by (metis prod.exhaust)
    have nm: "fits TRACE_STRING_SIZE nm" using config_fits(3) that(1) z by blast
    from that(2) obtain gi c where r: "RTDBG_AddTraceEntry gi nm w = Inr (c, snd s')"
      by (auto simp: def_trace_def z s bindE_eq_Inr)
    show ?thesis using home_AddTraceEntry [OF r w(2)] grows_can_register [OF AddTraceEntry_grow [OF r nm] w(1)] by (simp add: at_home_def)
  qed
  show "at_home lay s'" if "q \<in> set profiles_inc" "def_profile lay q s = Inr s'"
  proof -
    obtain t g nm where q: "q = (t, g, nm)" by (metis prod.exhaust)
    have nm: "fits MDO_NAME_SIZE nm" using config_fits(4) that(1) q by blast
    from that(2) obtain gi c where r: "RTDBG_AddProfiler lay gi nm w = Inr (c, snd s')"
      by (auto simp: def_profile_def q s bindE_eq_Inr)
    have a: "attached_ok w" "mem_attached (hnd w)" using w(1) by (auto simp: can_register_def attached_ok_def)
    have "unat gi < MAX_GROUP_NUM"
      using AddProfiler_group [OF r a(2)] ngroups_le [OF a(1)] by (simp add: ngroups_def word_less_nat_alt)
    then have "bases_ok (ga_prof (lay (rt_debugp (hnd w)) (unat gi)))" using adr by (simp add: addrs_ok_def addr_ok_def)
    from home_AddProfiler [OF w(2,1) nm r] AddProfiler_grow [OF r nm this] show ?thesis
      using w(1) grows_can_register by (auto simp: at_home_def)
  qed
qed

lemma init_at_home:
  assumes o: "open_file lay os ex f w = Inr (True, w0)" "can_register lay w0" "ngroups w0 = 0"
    and r: "RT_debug_init lay os ex f (a, w) = Inr (1, s')"
  shows "at_home lay s'"
proof -
  have h0: "at_home lay (a, w0)" using o(2,3) by (simp add: at_home_def home_def)
  from r o(1) obtain s1 s2 s3 a4 w4 w5 where
    1: "foldE (def_group lay) groups_inc (a, w0) = Inr s1" and 2: "foldE def_event events_inc s1 = Inr s2" and
    3: "foldE def_trace traces_inc s2 = Inr s3" and 4: "foldE (def_profile lay) profiles_inc s3 = Inr (a4, w4)" and
    5: "RTDBG_Start w4 = Inr w5" and s': "s' = (a4, w5)"
    by (auto simp: RT_debug_init_def bindE_eq_Inr)
  from foldE_inv_in [where P = "at_home lay", OF 1 h0] have "at_home lay s1" using def_steps_home(1) by blast
  from foldE_inv_in [where P = "at_home lay", OF 2 this] have "at_home lay s2" using def_steps_home(2) by blast
  from foldE_inv_in [where P = "at_home lay", OF 3 this] have "at_home lay s3" using def_steps_home(3) by blast
  from foldE_inv_in [where P = "at_home lay", OF 4 this] have "at_home lay (a4, w4)" using def_steps_home(4) by blast
  then show ?thesis unfolding s'
    using home_switch(1) [OF 5] grows_can_register [OF Start_grow [OF 5]] by (simp add: at_home_def)
qed

end
