(* ===== verification/Example_Run.thy ===== *)
theory Example_Run
  imports Example_Buffers
begin

section \<open>The threads of the example program do not fail\<close>

text \<open>
  A static check of the actions of a thread: a counter pointer is fetched and a profiling point initialised before they are
  used, and a point is not started twice. Sound with respect to \<open>do_action\<close>: an action that passes the check
  returns, in every surrounding, and what it leaves meets the check of the next action (progress and preservation).
\<close>

subsection \<open>The check\<close>

datatype point_state = Unset | Idle | Running

type_synonym thread_state = "bool \<times> (point_var \<Rightarrow> point_state)"

definition printable_log :: "string \<Rightarrow> parg list \<Rightarrow> bool" where
  "printable_log fmt args \<longleftrightarrow> (case sprintf (replicate 100 NUL) fmt args of
     Inl _ \<Rightarrow> False | Inr b \<Rightarrow> terminated b \<and> loggable (str_of b))"

fun check :: "action \<Rightarrow> thread_state \<Rightarrow> thread_state option" where
  "check (A_get_event ev) (b, f) = Some (True, f)"
| "check A_load (b, f) = (if b then Some (b, f) else None)"
| "check A_add (b, f) = (if b then Some (b, f) else None)"
| "check (A_set v) (b, f) = (if b then Some (b, f) else None)"
| "check (A_init_prof pr x n) (b, f) = Some (b, f(x := Idle))"
| "check (A_start_prof pr x) (b, f) = (if f x = Idle then Some (b, f(x := Running)) else None)"
| "check (A_stop_prof pr x) (b, f) = (if f x \<noteq> Unset then Some (b, f(x := Idle)) else None)"
| "check (A_flush_prof pr x) (b, f) = (if f x \<noteq> Unset then Some (b, f) else None)"
| "check (A_log gid fmt args) st = (if printable_log fmt args then Some st else None)"
| "check x st = Some st"

fun checks :: "action list \<Rightarrow> thread_state \<Rightarrow> thread_state option" where
  "checks [] st = Some st"
| "checks (x # xs) st = (case check x st of None \<Rightarrow> None | Some st \<Rightarrow> checks xs st)"

definition fresh_thread :: thread_state where
  "fresh_thread = (False, \<lambda>_. Unset)"

lemma checks_append: "checks (xs @ ys) st = (case checks xs st of None \<Rightarrow> None | Some st \<Rightarrow> checks ys st)"
  by (induction xs arbitrary: st) (auto split: option.splits)

text \<open>A loop whose body keeps the state.\<close>

lemma checks_loop: "(\<And>i. checks (body i) st = Some st) \<Longrightarrow> checks (concat (map body is)) st = Some st"
  by (induction "is") (simp_all add: checks_append)

lemma WorkThread_checks: "checks WorkThread fresh_thread \<noteq> None"
proof -
  let ?st = "(True, (\<lambda>_. Unset)(PROF_TASK := Idle, PROF_TASK1 := Running))"
  have "checks (concat (map (\<lambda>i. [A_load, A_add, A_start_prof GEN_GROUP_UI_PROF PROF_TASK,
      A_trace GEN_GROUP_PASSED 52 (of_nat i) 0 0 0, A_stop_prof GEN_GROUP_UI_PROF PROF_TASK]) [0..<num_iter])) ?st = Some ?st"
    by (rule checks_loop) (simp add: fun_upd_twist)
  then show ?thesis by (simp add: WorkThread_def checks_append fresh_thread_def)
qed

lemma main_logs: "printable_log ''Start running application %d'' [AInt 10]" "printable_log ''Exit application'' []"
  "printable_log ''Stop application'' []"
  by code_simp+

lemma application_checks: "checks (main_switch tid E_APPLICATION) fresh_thread \<noteq> None"
  by (simp add: Run_application_def checks_append fresh_thread_def main_logs checks_loop thread_num_def upt_rec)

subsection \<open>The invariant\<close>

definition ptr_ok :: "world \<Rightarrow> (nat \<times> nat) option \<Rightarrow> bool" where
  "ptr_ok w r \<longleftrightarrow> (case r of None \<Rightarrow> False | Some (i, k) \<Rightarrow> i < ngroups w \<and> k < NUM_COUNTERS)"

definition registered :: "world \<Rightarrow> ProfilePoint \<Rightarrow> bool" where
  "registered w p \<longleftrightarrow> (case mem_ptr p of
     None \<Rightarrow> False | Some (i, k) \<Rightarrow> i < ngroups w \<and> k < unat (num_alloc_prof (profiler_at w i)))"

fun point_in :: "world \<Rightarrow> point_state \<Rightarrow> ProfilePoint \<Rightarrow> bool" where
  "point_in w Unset p = True"
| "point_in w Idle p = (registered w p \<and> start_val p = 0)"
| "point_in w Running p = registered w p"

definition thread_ok :: "world \<Rightarrow> thread_state \<Rightarrow> thread \<Rightarrow> bool" where
  "thread_ok w st t \<longleftrightarrow> (fst st \<longrightarrow> ptr_ok w (cnt_ptr t)) \<and> (\<forall>x. point_in w (snd st x) (points t x))"

definition tables_ok :: "rt_adapt \<Rightarrow> world \<Rightarrow> bool" where
  "tables_ok a w \<longleftrightarrow> adapt_ok a \<and> MAX_GROUPS \<le> ngroups w \<and>
     (\<forall>e \<in> set (group_events a). ptr_ok w (event_cnt e)) \<and>
     (\<forall>t \<in> set (traces a). tr_group_id t < num_alloc_groups (shm w) \<and>
        tr_trace_id t < num_alloc_formats (tracer (grp_at w (tr_group_id t)))) \<and>
     (\<forall>p \<in> set (prof_points a). pr_group_id p < num_alloc_groups (shm w) \<and>
        profile_id p < num_alloc_prof (profiler (grp_at w (pr_group_id p))))"

definition program_ready :: "layout \<Rightarrow> program \<Rightarrow> bool" where
  "program_ready lay s \<longleftrightarrow> at_home lay s \<and> tables_ok (fst s) (snd s)"

lemma fresh_thread_ok [simp]: "thread_ok w fresh_thread t"
  by (simp add: thread_ok_def fresh_thread_def)

text \<open>The numbers that exist only grow.\<close>

lemma grown:
  assumes "world_grows w w'" "attached_ok w"
  shows "attached_ok w'" "num_alloc_groups (shm w) \<le> num_alloc_groups (shm w')"
    "i < ngroups w \<Longrightarrow> i < ngroups w'"
    "i < ngroups w \<Longrightarrow> num_alloc_prof (profiler_at w i) \<le> num_alloc_prof (profiler_at w' i)"
    "i < ngroups w \<Longrightarrow> num_alloc_formats (tracer (debug_groups (shm w) ! i)) \<le> num_alloc_formats (tracer (debug_groups (shm w') ! i))"
proof -
  show a: "attached_ok w'" and n: "num_alloc_groups (shm w) \<le> num_alloc_groups (shm w')"
    using assms by (auto simp: world_grows_def grows_def attached_ok_def rt_extends_def)
  show i': "i < ngroups w'" if "i < ngroups w" using that n by (simp add: ngroups_def word_le_nat_alt)
  assume i: "i < ngroups w"
  then have e: "group_extends (debug_groups (shm w) ! i) (debug_groups (shm w') ! i)"
    using assms by (simp add: world_grows_def grows_def attached_ok_def rt_extends_def ngroups_def)
  have wf: "group_wf (debug_groups (shm w) ! i)" "group_wf (debug_groups (shm w') ! i)"
    using group_at(2) [OF assms(2) i] group_at(2) [OF a i' [OF i]] by blast+
  show "num_alloc_prof (profiler_at w i) \<le> num_alloc_prof (profiler_at w' i)"
    using e wf prefix_length_le by (auto simp: group_extends_def group_wf_def profiler_at_def word_le_nat_alt
        length_profiler_names [symmetric])
  show "num_alloc_formats (tracer (debug_groups (shm w) ! i)) \<le> num_alloc_formats (tracer (debug_groups (shm w') ! i))"
    using e wf prefix_length_le by (auto simp: group_extends_def group_wf_def trace_wf_def word_le_nat_alt
        length_trace_names [symmetric])
qed

lemma ptr_ok_grown: "ptr_ok w r \<Longrightarrow> world_grows w w' \<Longrightarrow> attached_ok w \<Longrightarrow> ptr_ok w' r"
  using grown(3) by (auto simp: ptr_ok_def split: option.splits)

lemma registered_grown: "registered w p \<Longrightarrow> world_grows w w' \<Longrightarrow> attached_ok w \<Longrightarrow> registered w' p"
  using grown(3,4) by (fastforce simp: registered_def word_le_nat_alt split: option.splits)

lemma point_in_grown: "point_in w c p \<Longrightarrow> world_grows w w' \<Longrightarrow> attached_ok w \<Longrightarrow> point_in w' c p"
  using registered_grown by (cases c) auto

lemma thread_ok_grown: "thread_ok w st t \<Longrightarrow> world_grows w w' \<Longrightarrow> attached_ok w \<Longrightarrow> thread_ok w' st t"
  using ptr_ok_grown point_in_grown unfolding thread_ok_def by blast

lemma tables_ok_grown:
  assumes "tables_ok a w" "world_grows w w'" "attached_ok w"
  shows "tables_ok a w'"
proof -
  note g = grown [OF assms(2,3)]
  have u: "unat x < ngroups w" if "x < num_alloc_groups (shm w)" for x :: u32
    using that by (simp add: ngroups_def word_less_nat_alt)
  show ?thesis
    using assms(1) ptr_ok_grown [OF _ assms(2,3)] less_le_trans [OF _ g(2)] less_le_trans [OF _ g(4) [OF u]]
      less_le_trans [OF _ g(5) [OF u]] g(2)
    unfolding tables_ok_def profiler_at_def
    by (auto simp: ngroups_def word_le_nat_alt) 
qed

subsection \<open>Every action returns\<close>

lemma ready_world:
  assumes "program_ready lay s"
  shows "attached_ok (snd s)" "world_ok lay (snd s)" "mem_attached (hnd (snd s))" "home lay (snd s)" "tables_ok (fst s) (snd s)"
    "can_register lay (snd s)" "ngroups (snd s) \<le> MAX_GROUP_NUM"
  using assms ngroups_le
  by (auto simp: program_ready_def at_home_def can_register_def attached_ok_def world_ok_def)

lemma ready_grown:
  assumes "program_ready lay s" "world_grows (snd s) w'" "home lay w'"
  shows "program_ready lay (fst s, w')"
  using assms grows_can_register tables_ok_grown ready_world [OF assms(1)] by (auto simp: program_ready_def at_home_def)

text \<open>What an action does: it returns, and what it leaves meets the next check.\<close>

definition goes_on :: "layout \<Rightarrow> program \<Rightarrow> thread_state \<Rightarrow> thread \<Rightarrow> (fault + (thread \<times> program)) option \<Rightarrow> bool" where
  "goes_on lay s st t r \<longleftrightarrow> (\<exists>t' s'. r = Some (Inr (t', s')) \<and> fst s' = fst s \<and> todo t' = todo t \<and>
     world_grows (snd s) (snd s') \<and> home lay (snd s') \<and> thread_ok (snd s') st t')"

lemma goes_on_same_thread:
  assumes "program_ready lay s" "thread_ok (snd s) st t" "world_grows (snd s) w'" "home lay w'"
  shows "goes_on lay s st t (Some (Inr (t, fst s, w')))"
  using assms thread_ok_grown [OF assms(2,3)] ready_world(1) [OF assms(1)] by (simp add: goes_on_def)

lemma goes_on_same_state:
  assumes "program_ready lay s" "todo t' = todo t" "thread_ok (snd s) st t'"
  shows "goes_on lay s st t (Some (Inr (t', s)))"
  unfolding goes_on_def using assms ready_world(4) [OF assms(1)] by (intro exI [of _ t'] exI [of _ s]) simp

lemma counter_at:
  assumes "attached_ok w" "ptr_ok w r"
  obtains i k where "r = Some (i, k)" "i < ngroups w" "i < length (debug_groups (shm w))"
    "k < length (rt_counters (event_counters (debug_groups (shm w) ! i)))" "deref w = Inr (shm w)"
proof -
  obtain i k where ik: "r = Some (i, k)" "i < ngroups w" "k < NUM_COUNTERS"
    using assms(2) by (auto simp: ptr_ok_def split: option.splits)
  note at = group_at [OF assms(1) ik(2)]
  have "length (rt_counters (event_counters (debug_groups (shm w) ! i))) = NUM_COUNTERS"
    using at(2) by (simp add: group_wf_def counters_wf_def name_array_def)
  with ik at(3) attached_deref [OF assms(1)] that show thesis by simp
qed

lemma counter_loads:
  assumes "attached_ok w" "ptr_ok w r"
  shows "\<exists>v. counter_load r w = Inr v"
proof -
  obtain i k where "r = Some (i, k)" "i < length (debug_groups (shm w))"
    "k < length (rt_counters (event_counters (debug_groups (shm w) ! i)))" "deref w = Inr (shm w)"
    using counter_at [OF assms] .
  then show ?thesis by (simp add: counter_load_def)
qed

lemma update_returns:
  assumes "program_ready lay s" "ptr_ok (snd s) r"
  shows "\<exists>w'. counter_update r f (snd s) = Inr w' \<and> world_grows (snd s) w' \<and> home lay w'"
proof -
  note w = ready_world [OF assms(1)]
  obtain i k where ik: "r = Some (i, k)" "i < ngroups (snd s)" "i < length (debug_groups (shm (snd s)))"
    "k < length (rt_counters (event_counters (debug_groups (shm (snd s)) ! i)))" "deref (snd s) = Inr (shm (snd s))"
    using counter_at [OF w(1) assms(2)] .
  then obtain w' where u: "counter_update r f (snd s) = Inr w'" by (simp add: counter_update_def arr_mod_def)
  with counter_update_grow [OF _ ik(2) w(7)] ik(1) home_counter_update [OF u w(4)] show ?thesis by auto
qed

lemma act_counter:
  assumes s: "program_ready lay s" "thread_ok (snd s) (True, f) t"
  shows "goes_on lay s (True, f) t (do_action lay e A_load t s)" "goes_on lay s (True, f) t (do_action lay e A_add t s)"
    "goes_on lay s (True, f) t (do_action lay e (A_set v) t s)"
proof -
  note w = ready_world [OF s(1)]
  have p: "ptr_ok (snd s) (cnt_ptr t)" using s(2) by (simp add: thread_ok_def)
  obtain u where u: "counter_load (cnt_ptr t) (snd s) = Inr u" using counter_loads [OF w(1) p] by blast
  show "goes_on lay s (True, f) t (do_action lay e A_load t s)"
    using u s(2) w(4) by (simp add: goes_on_def thread_ok_def)
  have upd: "goes_on lay s (True, f) t (Some (bindE (counter_update (cnt_ptr t) h (snd s)) (\<lambda>w. Inr (t, fst s, w))))" for h
  proof -
    obtain w' where w': "counter_update (cnt_ptr t) h (snd s) = Inr w'" "world_grows (snd s) w'" "home lay w'"
      using update_returns [OF s(1) p] by blast
    then show ?thesis using goes_on_same_thread [OF s w'(2,3)] by simp
  qed
  show "goes_on lay s (True, f) t (do_action lay e A_add t s)" using upd by simp
  show "goes_on lay s (True, f) t (do_action lay e (A_set v) t s)" using upd by simp
qed

lemma act_get_event:
  assumes s: "program_ready lay s" "thread_ok (snd s) (b, f) t"
  shows "goes_on lay s (True, f) t (do_action lay e (A_get_event ev) t s)"
proof -
  note w = ready_world [OF s(1)]
  have "event_num ev < length (group_events (fst s))"
    using w(5) by (cases ev) (simp_all add: tables_ok_def adapt_ok_def events_ok_def MAX_GROUP_EVENT_def)
  then have "\<exists>r. RT_debug_get_event_cnt (event_num ev) (fst s) = Inr r \<and> ptr_ok (snd s) r"
    using w(5) by (simp add: RT_debug_get_event_cnt_def tables_ok_def)
  then obtain r where "do_action lay e (A_get_event ev) t s = Some (Inr (t\<lparr>cnt_ptr := r\<rparr>, s))" "ptr_ok (snd s) r" by auto
  moreover from this(2) s(2) have "thread_ok (snd s) (True, f) (t\<lparr>cnt_ptr := r\<rparr>)" by (simp add: thread_ok_def)
  ultimately show ?thesis using goes_on_same_state [OF s(1), of "t\<lparr>cnt_ptr := r\<rparr>" t] by simp
qed

lemma point_of_profile:
  assumes "tables_ok a w"
  obtains p where "arr_get (prof_points a) (profile_num pr) = Inr p" "pr_group_id p < num_alloc_groups (shm w)"
    "profile_id p < num_alloc_prof (profiler (grp_at w (pr_group_id p)))"
proof -
  have "profile_num pr < length (prof_points a)"
    using assms by (cases pr) (simp_all add: tables_ok_def adapt_ok_def MAX_PROFILER_def)
  then show thesis using assms that by (simp add: tables_ok_def)
qed

lemma Init_idle: "start_val (prof_Init clk cyc mem n p) = 0 \<and> mem_ptr (prof_Init clk cyc mem n p) = Some mem"
  using prof_Init_ignores_count [of clk cyc mem n p n p] by (simp add: idle_def)

lemma thread_ok_set_point:
  "thread_ok w (b, f) t \<Longrightarrow> point_in w c p \<Longrightarrow> thread_ok w (b, f(x := c)) (t\<lparr>points := (points t)(x := p)\<rparr>)"
  by (simp add: thread_ok_def)

lemma act_init:
  assumes s: "program_ready lay s" "thread_ok (snd s) (b, f) t"
  shows "goes_on lay s (b, f(x := Idle)) t (do_action lay e (A_init_prof pr x n) t s)"
proof -
  note w = ready_world [OF s(1)]
  obtain p where p: "arr_get (prof_points (fst s)) (profile_num pr) = Inr p" "pr_group_id p < num_alloc_groups (shm (snd s))"
    "profile_id p < num_alloc_prof (profiler (grp_at (snd s) (pr_group_id p)))"
    using point_of_profile [OF w(5)] .
  let ?p = "prof_Init (env_clk e) (env_cycs e) (unat (pr_group_id p), unat (profile_id p)) n (points t x)"
  have "RT_debug_prof_init (env_clk e) (env_cycs e) (profile_num pr) (points t x) n s = Inr ?p"
    using p(1) ready_group(1,2) [OF w(2,3) p(2)] by (simp add: RT_debug_prof_init_def RTDBG_ProfInit_def split_beta)
  moreover have "point_in (snd s) Idle ?p"
    using p(2,3) Init_idle [of "env_clk e" "env_cycs e"] by (simp add: registered_def profiler_at_def ngroups_def word_less_nat_alt)
  ultimately show ?thesis using w(4) thread_ok_set_point [OF s(2)] by (simp add: goes_on_def)
qed

lemma act_start:
  assumes s: "program_ready lay s" "thread_ok (snd s) (b, f) t" and x: "f x = Idle"
  shows "goes_on lay s (b, f(x := Running)) t (do_action lay e (A_start_prof pr x) t s)"
proof -
  note w = ready_world [OF s(1)]
  obtain p where p: "arr_get (prof_points (fst s)) (profile_num pr) = Inr p" using point_of_profile [OF w(5)] .
  have "point_in (snd s) (f x) (points t x)" using s(2) by (simp add: thread_ok_def)
  then have i: "registered (snd s) (points t x)" "start_val (points t x) = 0" using x by simp_all
  then obtain q where "RT_debug_prof_start (env_now e) (env_cyc e) (profile_num pr) (points t x) s = Inr q"
    "mem_ptr q = mem_ptr (points t x)"
    using p by (simp add: RT_debug_prof_start_def RTDBG_StartProfMeas_def prof_Start_def Let_def)
  moreover from this(2) i(1) have "point_in (snd s) Running q" by (simp add: registered_def)
  ultimately show ?thesis using w(4) thread_ok_set_point [OF s(2)] by (simp add: goes_on_def)
qed

text \<open>A point that is registered can be stopped and flushed.\<close>

lemma registered_point_ok: "home lay w \<Longrightarrow> registered w p \<Longrightarrow> point_ok lay p w"
  by (auto simp: home_def registered_def point_ok_def profiler_at_def split: option.splits)

lemma flush_returns:
  assumes s: "program_ready lay s" and p: "registered (snd s) p"
  shows "\<exists>p' w'. RTDBG_ProfFlushMeas lay p (snd s) = Some (Inr (p', w')) \<and> world_grows (snd s) w' \<and> home lay w' \<and>
    registered w' p' \<and> start_val p' = start_val p"
proof -
  note w = ready_world [OF s]
  have ok: "point_ok lay p (snd s)" using registered_point_ok [OF w(4) p] .
  from ProfFlush_ok [OF w(2,3) ok] obtain p' m' i k where f: "mem_ptr p = Some (i, k)"
    "RTDBG_ProfFlushMeas lay p (snd s) = Some (Inr (p', put_fifo p m' (snd s)))"
    "area_frame m' = area_frame (prof_fifos (profiler_at (snd s) i) ! k)" "p' \<in> {p, ResetProfData p}"
    unfolding profiler_at_def by blast
  have g: "world_grows (snd s) (put_fifo p m' (snd s))" using ProfFlushMeas_grow [OF f(2) ok w(7)] .
  have "mem_ptr p' = mem_ptr p" "start_val p' = start_val p" using f(4) by (auto simp: ResetProfData_def)
  then have "registered (snd s) p'" using p by (simp add: registered_def)
  with registered_grown [OF _ g w(1)] f g home_put_fifo [OF w(4) f(1,3)] \<open>start_val p' = start_val p\<close> show ?thesis by blast
qed

lemma stop_returns:
  assumes s: "program_ready lay s" and p: "registered (snd s) p"
  shows "\<exists>p' w'. RTDBG_StopProfMeas lay now cyc p (snd s) = Some (Inr (p', w')) \<and> world_grows (snd s) w' \<and> home lay w' \<and>
    point_in w' Idle p'"
proof -
  let ?p = "stop_collect now cyc None p"
  have q: "registered (snd s) ?p" "start_val ?p = 0" using p by (simp_all add: registered_def, simp add: stop_collect_def Let_def)
  show ?thesis
  proof (cases "full_batch ?p")
    case True
    with flush_returns [OF s q(1)] q(2) show ?thesis by (simp add: RTDBG_StopProfMeas_def RTDBG_PutProfVal_def Let_def)
  next
    case False
    with q ready_world(4) [OF s] show ?thesis by (simp add: RTDBG_StopProfMeas_def RTDBG_PutProfVal_def Let_def)
  qed
qed

lemma registered_in: "thread_ok w (b, f) t \<Longrightarrow> f x \<noteq> Unset \<Longrightarrow> registered w (points t x)"
  unfolding thread_ok_def by (cases "f x") (auto dest: spec [where x = x])

lemma act_stop:
  assumes s: "program_ready lay s" "thread_ok (snd s) (b, f) t" and x: "f x \<noteq> Unset"
  shows "goes_on lay s (b, f(x := Idle)) t (do_action lay e (A_stop_prof pr x) t s)"
proof -
  note w = ready_world [OF s(1)]
  obtain p where p: "arr_get (prof_points (fst s)) (profile_num pr) = Inr p" using point_of_profile [OF w(5)] .
  from stop_returns [OF s(1) registered_in [OF s(2) x], of "env_now e" "env_cyc e"] obtain p' w' where
    r: "RTDBG_StopProfMeas lay (env_now e) (env_cyc e) (points t x) (snd s) = Some (Inr (p', w'))" "world_grows (snd s) w'"
      "home lay w'" "point_in w' Idle p'" by blast
  have "thread_ok w' (b, f(x := Idle)) (t\<lparr>points := (points t)(x := p')\<rparr>)"
    using thread_ok_set_point [OF thread_ok_grown [OF s(2) r(2) w(1)] r(4)] .
  then show ?thesis using p r(1-3) by (simp add: goes_on_def RT_debug_prof_stop_def split_beta)
qed

lemma act_flush:
  assumes s: "program_ready lay s" "thread_ok (snd s) (b, f) t" and x: "f x \<noteq> Unset"
  shows "goes_on lay s (b, f) t (do_action lay e (A_flush_prof pr x) t s)"
proof -
  note w = ready_world [OF s(1)]
  obtain p where p: "arr_get (prof_points (fst s)) (profile_num pr) = Inr p" using point_of_profile [OF w(5)] .
  from flush_returns [OF s(1) registered_in [OF s(2) x]] obtain p' w' where
    r: "RTDBG_ProfFlushMeas lay (points t x) (snd s) = Some (Inr (p', w'))" "world_grows (snd s) w'"
      "home lay w'" "registered w' p'" "start_val p' = start_val (points t x)" by blast
  have "point_in (snd s) (f x) (points t x)" using s(2) by (simp add: thread_ok_def)
  then have "point_in w' (f x) p'" using r(4,5) by (cases "f x") simp_all
  from thread_ok_set_point [OF thread_ok_grown [OF s(2) r(2) w(1)] this, of x]
  have "thread_ok w' (b, f) (t\<lparr>points := (points t)(x := p')\<rparr>)" by simp
  then show ?thesis using p r(1-3) by (simp add: goes_on_def RT_debug_prof_flush_def split_beta)
qed

lemma act_trace:
  assumes s: "program_ready lay s" "thread_ok (snd s) st t"
  shows "goes_on lay s st t (do_action lay e (A_trace tid line v0 v1 v2 v3) t s)"
proof -
  note w = ready_world [OF s(1)]
  have "trace_num tid < length (traces (fst s))"
    using w(5) by (cases tid) (simp_all add: tables_ok_def adapt_ok_def MAX_TRACES_def)
  then obtain r where r: "arr_get (traces (fst s)) (trace_num tid) = Inr r" "tr_group_id r < num_alloc_groups (shm (snd s))"
    "tr_trace_id r < num_alloc_formats (tracer (grp_at (snd s) (tr_group_id r)))"
    using w(5) by (simp add: tables_ok_def)
  from AddTrace_returns [OF w(2,3) r(2,3), of "env_now e" "env_self e" "env_junk e" line v0 v1 v2 v3] obtain w' where
    a: "RTDBG_AddTrace (env_now e) (env_self e) (env_junk e) (tr_group_id r) (tr_trace_id r) line v0 v1 v2 v3 (snd s) = Inr w'" by blast
  from goes_on_same_thread [OF s AddTrace_world_grow [OF a] home_AddTrace [OF a w(4)]] r(1) a show ?thesis
    by (simp add: RT_debug_save_trace_def split_beta)
qed

lemma act_log:
  assumes s: "program_ready lay s" "thread_ok (snd s) st t" and p: "printable_log fmt args"
  shows "goes_on lay s st t (do_action lay e (A_log gid fmt args) t s)"
proof -
  note w = ready_world [OF s(1)]
  obtain b where b: "sprintf (replicate 100 NUL) fmt args = Inr b" "terminated b" "loggable (str_of b)"
    using p by (auto simp: printable_log_def split: sum.splits)
  have "group_num gid < ngroups (snd s)" "unat (of_nat (group_num gid) :: u32) = group_num gid"
    using w(5) by (cases gid; simp add: tables_ok_def MAX_GROUPS_def)+
  then have "of_nat (group_num gid) < num_alloc_groups (shm (snd s))" by (simp add: ngroups_def word_less_nat_alt)
  from AddLog_returns [OF w(2,3) this b(3), of "env_now e"] obtain w' where
    a: "RTDBG_AddLog (env_now e) (of_nat (group_num gid)) (str_of b) (snd s) = Some (Inr w')" by blast
  from goes_on_same_thread [OF s AddLog_world_grow [OF a b(3)] home_AddLog [OF a w(4)]] a b show ?thesis
    by (simp add: RTDBG_SAVE_LOG_def RT_debug_save_log_def split_beta)
qed

lemma act_switch:
  assumes s: "program_ready lay s" "thread_ok (snd s) st t"
  shows "goes_on lay s st t (do_action lay e A_RT_debug_start t s)" "goes_on lay s st t (do_action lay e A_RT_debug_stop t s)"
    "goes_on lay s st t (do_action lay e A_RTDBG_Stop t s)"
proof -
  note w = ready_world [OF s(1)]
  obtain u v where u: "RTDBG_Start (snd s) = Inr u" and v: "RTDBG_Stop (snd s) = Inr v"
    using w(3) attached_deref [OF w(1)]
    by (auto simp: RTDBG_Start_def RTDBG_Stop_def Let_def InitExtractTables_def deref_def split: if_splits)
  from goes_on_same_thread [OF s Start_grow [OF u] home_switch(1) [OF u w(4)]]
    goes_on_same_thread [OF s Stop_grow [OF v] home_switch(2) [OF v w(4)]] u v
  show "goes_on lay s st t (do_action lay e A_RT_debug_start t s)" "goes_on lay s st t (do_action lay e A_RT_debug_stop t s)"
    "goes_on lay s st t (do_action lay e A_RTDBG_Stop t s)"
    by (simp_all add: RT_debug_start_def RT_debug_stop_def)
qed

definition local_action :: "action \<Rightarrow> bool" where
  "local_action x \<longleftrightarrow> x \<noteq> A_extract \<and> x \<noteq> A_create \<and> x \<notin> range A_join"

lemma action_goes_on:
  assumes s: "program_ready lay s" "thread_ok (snd s) st t" and c: "check x st = Some st'" and x: "local_action x"
  shows "goes_on lay s st' t (do_action lay e x t s)"
proof -
  obtain b f where st: "st = (b, f)" by fastforce
  note s = s [unfolded st]
  show ?thesis using c x unfolding st
  proof (cases x)
    case (A_flush_prof pr y)
    then show ?thesis using c act_flush [OF s] unfolding st by (auto split: if_splits)
  next
    case (A_stop_prof pr y)
    then show ?thesis using c act_stop [OF s] unfolding st by (auto split: if_splits)
  next
    case (A_start_prof pr y)
    then show ?thesis using c act_start [OF s] unfolding st by (auto split: if_splits)
  next
    case (A_get_event ev)
    then show ?thesis using c act_get_event [OF s] unfolding st by auto
  next
    case A_load
    then show ?thesis using c s act_counter(1) [of lay s f t] unfolding st by (auto split: if_splits simp del: do_action.simps)
  next
    case A_add
    then show ?thesis using c s act_counter(2) [of lay s f t] unfolding st by (auto split: if_splits simp del: do_action.simps)
  next
    case (A_set v)
    then show ?thesis using c s act_counter(3) [of lay s f t] unfolding st by (auto split: if_splits simp del: do_action.simps)
  next
    case (A_init_prof pr y n)
    then show ?thesis using c act_init [OF s] unfolding st by auto
  next
    case (A_trace tid line v0 v1 v2 v3)
    then show ?thesis using c act_trace [OF s] unfolding st by (auto simp del: do_action.simps)
  next
    case (A_log gid fmt args)
    then show ?thesis using c act_log [OF s] unfolding st by (auto split: if_splits simp del: do_action.simps)
  next
    case A_RT_debug_start
    then show ?thesis using c act_switch(1) [OF s] unfolding st by (auto simp del: do_action.simps)
  next
    case A_RT_debug_stop
    then show ?thesis using c act_switch(2) [OF s] unfolding st by (auto simp del: do_action.simps)
  next
    case A_RTDBG_Stop
    then show ?thesis using c act_switch(3) [OF s] unfolding st by (auto simp del: do_action.simps)
  qed (auto simp: local_action_def)
qed

end
