(* ===== verification/Example_Threads.thy ===== *)
theory Example_Threads
  imports Example_Run
begin

section \<open>The order of the threads of the example program\<close>

text \<open>
  The invariant of the whole program: how far the main thread is in its program says which threads exist and which have
  finished, and every thread passes the check of \<open>Example_Run\<close>. From it, the main thread gets to the
  report in every schedule.
\<close>

subsection \<open>Created and finished threads\<close>

text \<open>The part of the program that the main thread has done says how many threads exist, and which have finished.\<close>

definition order_inv :: "action list \<Rightarrow> app \<Rightarrow> bool" where
  "order_inv prog p \<longleftrightarrow> (\<exists>pre. prog = pre @ todo (main p) \<and> length (workers p) = count_list pre A_create \<and>
     (\<forall>i. A_join i \<in> set pre \<longrightarrow> i < length (workers p) \<and> todo (workers p ! i) = []))"

lemma order_start: "todo (main p) = prog \<Longrightarrow> workers p = [] \<Longrightarrow> order_inv prog p"
  unfolding order_inv_def by (rule exI [of _ "[]"]) simp

lemma order_step:
  assumes "app_step lay p q" "order_inv prog p"
  shows "order_inv prog q"
proof -
  obtain pre where pre: "prog = pre @ todo (main p)" "length (workers p) = count_list pre A_create"
    "\<And>i. A_join i \<in> set pre \<Longrightarrow> i < length (workers p) \<and> todo (workers p ! i) = []"
    using assms(2) by (auto simp: order_inv_def)
  show ?thesis using assms(1)
  proof cases
    case (main_act x rest e t s)
    have "x \<noteq> A_join i" for i using main_act(4) by blast
    then have "\<forall>i. A_join i \<in> set (pre @ [x]) \<longrightarrow> i < length (workers p) \<and> todo (workers p ! i) = []" using pre(3) by auto
    then show ?thesis using pre main_act unfolding order_inv_def by (intro exI [of _ "pre @ [x]"]) simp
  next
    case (create rest loc)
    have "\<forall>i. A_join i \<in> set (pre @ [A_create]) \<longrightarrow>
        i < length (workers q) \<and> todo (workers q ! i) = []"
      using pre(3) create(1) by (auto simp: nth_append less_Suc_eq)
    then show ?thesis using pre create unfolding order_inv_def by (intro exI [of _ "pre @ [A_create]"]) simp
  next
    case (join i rest)
    have "\<forall>j. A_join j \<in> set (pre @ [A_join i]) \<longrightarrow> j < length (workers p) \<and> todo (workers p ! j) = []"
      using pre(3) join by auto
    then show ?thesis using pre join unfolding order_inv_def by (intro exI [of _ "pre @ [A_join i]"]) simp
  next
    case (work i x rest e t s)
    have "j \<noteq> i" if "A_join j \<in> set pre" for j using pre(3) [OF that] work(3) by auto
    then have "\<forall>j. A_join j \<in> set pre \<longrightarrow> todo ((workers p)[i := t\<lparr>todo := rest\<rparr>] ! j) = []"
      using pre(3) by (metis nth_list_update_neq)
    then show ?thesis using pre work(1) unfolding order_inv_def by (intro exI [of _ pre]) simp
  qed
qed

lemma split_unique:
  "xs @ a # ys = us @ a # vs \<Longrightarrow> a \<notin> set us \<Longrightarrow> a \<notin> set vs \<Longrightarrow> xs = us \<and> ys = vs"
  by (induction xs arbitrary: us) (auto simp: Cons_eq_append_conv append_eq_Cons_conv)

text \<open>The program of the application up to the report.\<close>

definition before_report :: "(nat \<Rightarrow> u64) \<Rightarrow> action list" where
  "before_report tid = [A_RT_debug_start, A_log INIT_GROUP ''Start running application %d'' [AInt 10],
     A_get_event STATUS_GROUP_EV_STATUS, A_set 0] @
     concat (map (\<lambda>i. [A_create, A_trace INIT_GROUP_CREATE_THREAD 83 (of_nat i) (ucast (ucast (tid i) :: u32)) 0 0])
       [0..<thread_num]) @
     [A_set 1] @ map A_join [0..<thread_num] @ [A_set 2, A_log STATUS_GROUP ''Exit application'' []]"

lemma application_split:
  "main_switch tid E_APPLICATION = (before_report tid @ [A_RT_debug_stop]) @ A_extract # [A_log GEN_GROUP ''Stop application'' []]"
  by (simp add: Run_application_def before_report_def)

lemma before_report_facts:
  "A_extract \<notin> set (before_report tid)" "count_list (before_report tid) A_create = thread_num"
  "i < thread_num \<Longrightarrow> A_join i \<in> set (before_report tid)"
proof -
  have c: "count_list (map A_join is) A_create = 0" for "is" by (induction "is") auto
  have d: "count_list (concat (map (\<lambda>i. [A_create, A_trace INIT_GROUP_CREATE_THREAD 83 (of_nat i) (ucast (ucast (tid i) :: u32)) 0 0]) is))
      A_create = length is" for "is" by (induction "is") auto
  show "A_extract \<notin> set (before_report tid)" by (auto simp: before_report_def)
  show "count_list (before_report tid) A_create = thread_num" by (simp add: before_report_def c d)
  show "i < thread_num \<Longrightarrow> A_join i \<in> set (before_report tid)" by (simp add: before_report_def)
qed

text \<open>When the main thread is at the report, all threads exist and have finished.\<close>

definition all_finished :: "app \<Rightarrow> bool" where
  "all_finished p \<longleftrightarrow> length (workers p) = thread_num \<and> (\<forall>t \<in> set (workers p). todo t = [])"

lemma at_report:
  assumes "order_inv (main_switch tid E_APPLICATION) p" "todo (main p) = A_extract # rest"
  shows "all_finished p"
proof -
  obtain pre where pre: "main_switch tid E_APPLICATION = pre @ A_extract # rest" "length (workers p) = count_list pre A_create"
    "\<And>i. A_join i \<in> set pre \<Longrightarrow> i < length (workers p) \<and> todo (workers p ! i) = []"
    using assms by (auto simp: order_inv_def simp del: main_switch.simps)
  have "pre = before_report tid @ [A_RT_debug_stop]"
    using split_unique [OF pre(1) [unfolded application_split, symmetric]] before_report_facts(1) by simp
  then have "length (workers p) = thread_num" "\<And>i. i < thread_num \<Longrightarrow> todo (workers p ! i) = []"
    using pre(2,3) before_report_facts(2,3) by auto
  then show ?thesis by (auto simp: all_finished_def in_set_conv_nth)
qed

text \<open>Before that it has switched the collection off.\<close>

definition collection_off :: "app \<Rightarrow> bool" where
  "collection_off p \<longleftrightarrow> (mem_attached (hnd (snd (prog_state p))) \<longrightarrow> \<not> active (shm (snd (prog_state p))))"

definition order_off :: "(nat \<Rightarrow> u64) \<Rightarrow> app \<Rightarrow> bool" where
  "order_off tid p \<longleftrightarrow> order_inv (main_switch tid E_APPLICATION) p \<and>
     (\<forall>rest. todo (main p) = A_extract # rest \<longrightarrow> collection_off p)"

lemma before_extract:
  assumes "order_inv (main_switch tid E_APPLICATION) p" "todo (main p) = x # A_extract # rest"
  shows "x = A_RT_debug_stop"
proof -
  obtain pre where "main_switch tid E_APPLICATION = pre @ x # A_extract # rest"
    using assms by (auto simp: order_inv_def simp del: main_switch.simps)
  then have "(pre @ [x]) @ A_extract # rest = (before_report tid @ [A_RT_debug_stop]) @ A_extract # [A_log GEN_GROUP ''Stop application'' []]"
    using application_split [of tid] by simp
  from split_unique [OF this] before_report_facts(1) show ?thesis by simp
qed

lemma order_off_step:
  assumes "app_step lay p q" "order_off tid p"
  shows "order_off tid q"
proof -
  have o: "order_inv (main_switch tid E_APPLICATION) p" using assms(2) by (simp add: order_off_def)
  have "collection_off q" if q: "todo (main q) = A_extract # rest" for rest
    using assms(1)
  proof cases
    case (main_act x r e t s)
    then have "x = A_RT_debug_stop" using before_extract [OF o] q by simp
    with main_act show ?thesis
      by (auto simp: collection_off_def RT_debug_stop_def RTDBG_Stop_def SetDataCollection_def Let_def bindE_eq_Inr
          InitExtractTables_def split: if_splits)
  next
    case (create r loc)
    then show ?thesis using before_extract [OF o] q by simp
  next
    case (join i r)
    then show ?thesis using before_extract [OF o] q by simp
  next
    case (work i x r e t s)
    then have "all_finished p" using at_report [OF o] q by simp
    with work show ?thesis by (auto simp: all_finished_def)
  qed
  with order_step [OF assms(1) o] show ?thesis by (simp add: order_off_def)
qed

lemma reaches_order: "app_reaches lay p q \<Longrightarrow> order_off tid p \<Longrightarrow> order_off tid q"
  by (induction rule: app_reaches.induct) (auto dest: order_off_step)

lemma order_off_start: "todo (main p) = main_switch tid E_APPLICATION \<Longrightarrow> workers p = [] \<Longrightarrow> order_off tid p"
  using order_start [of p "main_switch tid E_APPLICATION"] unfolding order_off_def by simp

subsection \<open>Progress and termination\<close>

text \<open>The main thread joins only threads that it has created.\<close>

fun joins_created :: "nat \<Rightarrow> action list \<Rightarrow> bool" where
  "joins_created n [] = True"
| "joins_created n (A_create # xs) = joins_created (Suc n) xs"
| "joins_created n (A_join i # xs) = (i < n \<and> joins_created n xs)"
| "joins_created n (x # xs) = joins_created n xs"

lemma joins_created_other: "x \<noteq> A_create \<Longrightarrow> x \<notin> range A_join \<Longrightarrow> joins_created n (x # xs) = joins_created n xs"
  by (cases x) auto

lemma application_joins: "joins_created 0 (main_switch tid E_APPLICATION)"
  by (simp add: Run_application_def thread_num_def upt_rec)

definition thread_safe :: "world \<Rightarrow> thread \<Rightarrow> bool" where
  "thread_safe w t \<longleftrightarrow> (\<exists>st. thread_ok w st t \<and> checks (todo t) st \<noteq> None)"

lemma thread_ok_todo [simp]: "thread_ok w st (t\<lparr>todo := acts\<rparr>) = thread_ok w st t"
  by (simp add: thread_ok_def)

lemma thread_safe_next:
  "thread_safe w t \<Longrightarrow> todo t = x # rest \<Longrightarrow> (\<And>st. check x st = Some st) \<Longrightarrow> thread_safe w (t\<lparr>todo := rest\<rparr>)"
  unfolding thread_safe_def by (elim exE conjE) (rule exI, simp)

lemma thread_safe_grown: "thread_safe w t \<Longrightarrow> world_grows w w' \<Longrightarrow> attached_ok w \<Longrightarrow> thread_safe w' t"
  using thread_ok_grown unfolding thread_safe_def by blast

lemma new_thread_safe: "thread_safe w (new_thread WorkThread loc)"
  unfolding thread_safe_def using WorkThread_checks by (intro exI [of _ fresh_thread]) (simp add: new_thread_def)

lemma WorkThread_local: "x \<in> set WorkThread \<Longrightarrow> local_action x"
proof -
  have body: "x \<in> set (concat (map (\<lambda>i. [A_load, A_add, A_start_prof GEN_GROUP_UI_PROF PROF_TASK,
      A_trace GEN_GROUP_PASSED 52 (of_nat i) 0 0 0, A_stop_prof GEN_GROUP_UI_PROF PROF_TASK]) is)) \<Longrightarrow> local_action x" for "is"
    by (induction "is") (auto simp: local_action_def)
  show ?thesis if "x \<in> set WorkThread"
    using that body [of "[0..<num_iter]"] unfolding WorkThread_def set_append Un_iff
    by (elim disjE) (auto simp: local_action_def simp del: set_concat)
qed

text \<open>A safe thread does its next action in every surrounding, and stays safe.\<close>

lemma safe_action:
  assumes s: "program_ready lay s" "thread_safe (snd s) t" and x: "todo t = x # rest" "local_action x"
  shows "\<exists>t' s'. do_action lay e x t s = Some (Inr (t', s')) \<and> program_ready lay s' \<and>
    world_grows (snd s) (snd s') \<and> thread_safe (snd s') (t'\<lparr>todo := rest\<rparr>)"
proof -
  obtain st st' where st: "thread_ok (snd s) st t" "check x st = Some st'" "checks rest st' \<noteq> None"
    using s(2) x(1) by (auto simp: thread_safe_def split: option.splits)
  from action_goes_on [OF s(1) st(1,2) x(2), of e] obtain t' s' where
    r: "do_action lay e x t s = Some (Inr (t', s'))" "fst s' = fst s" "world_grows (snd s) (snd s')" "home lay (snd s')"
      "thread_ok (snd s') st' t'" unfolding goes_on_def by blast
  have "program_ready lay (fst s', snd s')" using ready_grown [OF s(1) r(3,4)] r(2) by simp
  then have "program_ready lay s'" by simp
  moreover have "thread_safe (snd s') (t'\<lparr>todo := rest\<rparr>)" unfolding thread_safe_def using r(5) st(3) by (intro exI [of _ st']) simp
  ultimately show ?thesis using r(1,3) by blast
qed

text \<open>The invariant of the run, until the report.\<close>

definition running :: "layout \<Rightarrow> (nat \<Rightarrow> u64) \<Rightarrow> app \<Rightarrow> bool" where
  "running lay tid p \<longleftrightarrow> program_ready lay (prog_state p) \<and> order_off tid p \<and>
     joins_created (length (workers p)) (todo (main p)) \<and> A_extract \<in> set (todo (main p)) \<and>
     (\<forall>t \<in> set (main p # workers p). thread_safe (snd (prog_state p)) t) \<and>
     (\<forall>t \<in> set (workers p). \<forall>x \<in> set (todo t). local_action x)"

definition at_extract :: "app \<Rightarrow> bool" where
  "at_extract p \<longleftrightarrow> (\<exists>rest. todo (main p) = A_extract # rest)"

lemma do_action_det:
  assumes "program_ready lay (prog_state p)" "thread_safe (snd (prog_state p)) t" "todo t = x # rest" "local_action x"
    "do_action lay e x t (prog_state p) = Some (Inr (t', s'))"
  shows "program_ready lay s'" "world_grows (snd (prog_state p)) (snd s')" "thread_safe (snd s') (t'\<lparr>todo := rest\<rparr>)"
  using safe_action [OF assms(1-4), of e] assms(5) by auto

lemma running_step:
  assumes "app_step lay p q" "running lay tid p" "\<not> at_extract p"
  shows "running lay tid q"
proof -
  let ?w = "snd (prog_state p)"
  have r: "program_ready lay (prog_state p)" "order_off tid p" "joins_created (length (workers p)) (todo (main p))"
    "A_extract \<in> set (todo (main p))" "thread_safe ?w (main p)" "\<And>t. t \<in> set (workers p) \<Longrightarrow> thread_safe ?w t"
    "\<And>t x. t \<in> set (workers p) \<Longrightarrow> x \<in> set (todo t) \<Longrightarrow> local_action x"
    using assms(2) by (auto simp: running_def)
  have o: "order_off tid q" using order_off_step [OF assms(1) r(2)] .
  have a: "attached_ok ?w" using ready_world(1) [OF r(1)] .
  show ?thesis using assms(1)
  proof cases
    case (main_act x rest e t s)
    have x: "x \<noteq> A_extract" using assms(3) main_act(2) by (auto simp: at_extract_def)
    then have l: "local_action x" using main_act(3,4) by (simp add: local_action_def)
    note d = do_action_det [OF r(1,5) main_act(2) l main_act(5)]
    have "thread_safe (snd s) u" if "u \<in> set (workers p)" for u using thread_safe_grown [OF r(6) [OF that] d(2) a] .
    then show ?thesis
      using o d r(3,4,7) x main_act joins_created_other [OF main_act(3,4)] by (auto simp: running_def)
  next
    case (create rest loc)
    have "thread_safe ?w ((main p)\<lparr>todo := rest\<rparr>)" using thread_safe_next [OF r(5) create(2)] by simp
    then show ?thesis using o r create new_thread_safe WorkThread_local
      by (auto simp: running_def new_thread_def)
  next
    case (join i rest)
    have "thread_safe ?w ((main p)\<lparr>todo := rest\<rparr>)" using thread_safe_next [OF r(5) join(2)] by simp
    then show ?thesis using o r join by (auto simp: running_def)
  next
    case (work i x rest e t s)
    have i: "workers p ! i \<in> set (workers p)" using work(2) by simp
    have l: "local_action x" using r(7) [OF i] work(3) by simp
    note d = do_action_det [OF r(1) r(6) [OF i] work(3) l work(4)]
    have u: "thread_safe (snd s) u \<and> (\<forall>y \<in> set (todo u). local_action y)"
      if "u \<in> set ((workers p)[i := t\<lparr>todo := rest\<rparr>])" for u
    proof -
      from that have "u = t\<lparr>todo := rest\<rparr> \<or> u \<in> set (workers p)" using set_update_subset_insert by fastforce
      then show ?thesis
        using d(3) thread_safe_grown [OF r(6) d(2) a] r(7) [OF i] r(7) work(3) by auto
    qed
    then show ?thesis using o d(1) r(3,4) thread_safe_grown [OF r(5) d(2) a] work(1) by (simp add: running_def)
  qed
qed

lemma running_progress:
  assumes "running lay tid p" "\<not> at_extract p"
  shows "\<exists>q. app_step lay p q"
proof -
  have r: "program_ready lay (prog_state p)" "joins_created (length (workers p)) (todo (main p))"
    "A_extract \<in> set (todo (main p))" "thread_safe (snd (prog_state p)) (main p)"
    "\<And>t. t \<in> set (workers p) \<Longrightarrow> thread_safe (snd (prog_state p)) t"
    "\<And>t x. t \<in> set (workers p) \<Longrightarrow> x \<in> set (todo t) \<Longrightarrow> local_action x"
    using assms(1) by (auto simp: running_def)
  obtain x rest where x: "todo (main p) = x # rest" using r(3) by (cases "todo (main p)") auto
  then have "x \<noteq> A_extract" using assms(2) by (auto simp: at_extract_def)
  then consider "x = A_create" | i where "x = A_join i" | "local_action x" by (auto simp: local_action_def)
  then show ?thesis
  proof cases
    case 1
    then show ?thesis using app_step.create x by blast
  next
    case (2 i)
    then have i: "i < length (workers p)" using r(2) x by simp
    show ?thesis
    proof (cases "todo (workers p ! i)")
      case Nil
      then show ?thesis using app_step.join x 2 i by blast
    next
      case (Cons y ys)
      have w: "workers p ! i \<in> set (workers p)" using i by simp
      from safe_action [OF r(1) r(5) [OF w] Cons] r(6) [OF w] Cons obtain t s where
        "do_action lay demo_env y (workers p ! i) (prog_state p) = Some (Inr (t, s))" by fastforce
      from app_step.work [OF i Cons this] show ?thesis by blast
    qed
  next
    case 3
    from safe_action [OF r(1,4) x 3] obtain t s where d: "do_action lay demo_env x (main p) (prog_state p) = Some (Inr (t, s))" by blast
    have "x \<noteq> A_create" "x \<notin> range A_join" using 3 by (auto simp: local_action_def)
    from app_step.main_act [OF x this d] show ?thesis by blast
  qed
qed

text \<open>Every step brings the program nearer to its end.\<close>

fun cost :: "action \<Rightarrow> nat" where
  "cost A_create = Suc (length WorkThread)"
| "cost x = 1"

definition remaining :: "app \<Rightarrow> nat" where
  "remaining p = sum_list (map cost (todo (main p))) + sum_list (map (\<lambda>t. length (todo t)) (workers p))"

lemma cost_pos: "0 < cost x"
  by (cases x) simp_all

lemma sum_list_smaller:
  assumes "i < length xs" "f y < f (xs ! i)"
  shows "sum_list (map f (xs[i := y])) < sum_list (map (f :: 'a \<Rightarrow> nat) xs)"
  using assms by (induction xs arbitrary: i) (auto simp: nth_Cons split: nat.splits)

lemma step_remaining: "app_step lay p q \<Longrightarrow> remaining q < remaining p"
proof (cases rule: app_step.cases, assumption)
  fix i x rest e t s
  assume q: "q = p\<lparr>workers := (workers p)[i := t\<lparr>todo := rest\<rparr>], prog_state := s\<rparr>" and i: "i < length (workers p)"
    and x: "todo (workers p ! i) = x # rest"
  have "sum_list (map (\<lambda>t. length (todo t)) ((workers p)[i := t\<lparr>todo := rest\<rparr>])) < sum_list (map (\<lambda>t. length (todo t)) (workers p))"
    using i x by (intro sum_list_smaller) simp_all
  then show ?thesis using q by (simp add: remaining_def)
qed (auto simp: remaining_def new_thread_def cost_pos)

end
