(* ===== verification/Example_Props.thy ===== *)
theory Example_Props
  imports Example_Threads
begin

section \<open>Properties of the example program\<close>

text \<open>
  The options, the order of the threads, the run of the application from its start to the report, and two defects: the
  case that falls through, and the counter that the threads change without a lock.
\<close>

subsection \<open>The start of the application\<close>

lemma catalog_counts:
  assumes "attached_ok w" "catalog_of (shm w) = cat" "i < length cat"
  shows "i < ngroups w" "unat (num_alloc_formats (tracer (debug_groups (shm w) ! i))) = length (fst (snd (snd (cat ! i))))"
    "unat (num_alloc_prof (profiler (debug_groups (shm w) ! i))) = length (snd (snd (snd (cat ! i))))"
proof -
  show i: "i < ngroups w" using assms length_catalog [of w] by simp
  have wf: "group_wf (debug_groups (shm w) ! i)" using group_at(2) [OF assms(1) i] .
  have "cat ! i = entry_of (debug_groups (shm w) ! i)"
    using catalog_at [OF assms(1) i] assms(2) by simp
  then show "unat (num_alloc_formats (tracer (debug_groups (shm w) ! i))) = length (fst (snd (snd (cat ! i))))"
    "unat (num_alloc_prof (profiler (debug_groups (shm w) ! i))) = length (snd (snd (snd (cat ! i))))"
    using wf by (simp_all add: entry_of_def group_wf_def trace_wf_def length_profiler_names length_trace_names)
qed

definition new_tables :: "nat list" where
  "new_tables = [0, 1, 2, 0, 1, 1, 1, 2, 3, 4, 0, 1]"

definition config_numbers :: "(nat \<times> nat \<times> nat) list" where
  "config_numbers = [(0, 2, 0), (0, 5, 2), (2, 1, 0)]"

lemma config_sizes: "map (\<lambda>(nm, cs, fs, ps). (length cs, length fs, length ps)) (snd (reg_run config [])) = config_numbers"
  by code_simp

lemma new_tables_ok:
  assumes a: "tables_hold a new_tables" "adapt_ok a" and w: "attached_ok w" "catalog_of (shm w) = snd (reg_run config [])"
  shows "tables_ok a w"
proof -
  let ?cat = "snd (reg_run config [])"
  have l: "length ?cat = 3" using arg_cong [OF config_sizes, of length] by (simp add: config_numbers_def)
  have sz: "length (fst (snd (snd (?cat ! i)))) = fst (snd (config_numbers ! i))"
    "length (snd (snd (snd (?cat ! i)))) = snd (snd (config_numbers ! i))" if "i < 3" for i
    using arg_cong [OF config_sizes, of "\<lambda>xs. xs ! i"] that l by (simp_all add: split_beta) (metis fst_conv snd_conv)+
  note c = catalog_counts [OF w, unfolded l]
  have n: "ngroups w = 3" using length_catalog [OF w(1)] w(2) l by simp
  then have g: "num_alloc_groups (shm w) = 3" by (simp add: ngroups_def word_unat_eq_iff)
  have f: "unat (num_alloc_formats (tracer (debug_groups (shm w) ! 0))) = 2" "unat (num_alloc_formats (tracer (debug_groups (shm w) ! 1))) = 5"
    "unat (num_alloc_prof (profiler (debug_groups (shm w) ! 1))) = 2"
    using c(2) [of 0] c(2) [of 1] c(3) [of 1] sz(1) [of 0] sz(1) [of 1] sz(2) [of 1] by (simp_all add: config_numbers_def)
  obtain x y where e: "group_events a = [x, y]" using a(2) length_lists(1) unfolding adapt_ok_def events_ok_def MAX_GROUP_EVENT_def by blast
  obtain t0 t1 t2 t3 t4 where t: "traces a = [t0, t1, t2, t3, t4]"
    using a(2) length_lists(3) unfolding adapt_ok_def MAX_TRACES_def by blast
  obtain u v where p: "prof_points a = [u, v]" using a(2) length_lists(1) unfolding adapt_ok_def MAX_PROFILER_def by blast
  show ?thesis
    using a n g f unfolding tables_ok_def tables_hold_def new_tables_def e t p
    by (simp add: ptr_ok_def MAX_GROUPS_def NUM_COUNTERS_def word_less_nat_alt)
qed

lemma init_ready:
  assumes "\<not> mem_attached (hnd w)" "file_name_ok f w" "os_good os" "os_mmap os = Some base"
    and "rt_shape (os_file os)" "addrs_ok (lay base)" "adapt_ok a"
  shows "\<exists>s'. RT_debug_init lay os False f (a, w) = Inr (1, s') \<and> program_ready lay s'"
proof -
  obtain w0 where w0: "open_file lay os False f w = Inr (True, w0)" "can_register lay w0" "catalog_of (shm w0) = []"
    using open_file_new assms by blast
  from init_registers [OF w0(1,2) assms(7), of new_tables "snd (reg_run config [])"]
    w0(3) config_run config_bounded obtain a' w' where i: "RT_debug_init lay os False f (a, w) = Inr (1, a', w')"
    "tables_hold a' new_tables" "adapt_ok a'" "can_register lay w'" "catalog_of (shm w') = snd (reg_run config [])"
    unfolding new_tables_def by auto
  have "ngroups w0 = 0" using w0(2,3) length_catalog [of w0] by (simp add: can_register_def)
  from init_at_home [OF w0(1,2) this i(1)] new_tables_ok [OF i(2,3) _ i(5)] i(1,4) show ?thesis
    by (auto simp: program_ready_def can_register_def)
qed

text \<open>Whatever the threads do next, the program gets to a state in which \<open>P\<close> holds, and on the way no thread can fail (\<open>F\<close>).\<close>

inductive inevitable :: "(app \<Rightarrow> app \<Rightarrow> bool) \<Rightarrow> (app \<Rightarrow> bool) \<Rightarrow> (app \<Rightarrow> bool) \<Rightarrow> app \<Rightarrow> bool" for R F P where
  now: "P p \<Longrightarrow> inevitable R F P p"
| next_steps: "\<not> F p \<Longrightarrow> R p q \<Longrightarrow> (\<And>q. R p q \<Longrightarrow> inevitable R F P q) \<Longrightarrow> inevitable R F P p"

definition app_faults :: "layout \<Rightarrow> app \<Rightarrow> bool" where
  "app_faults lay p \<longleftrightarrow> (\<exists>t \<in> set (main p # workers p). \<exists>e x rest. todo t = x # rest \<and> x \<noteq> A_create \<and> x \<notin> range A_join \<and>
     \<not> (\<exists>r. do_action lay e x t (prog_state p) = Some (Inr r)))"

text \<open>The main thread is about to write the report: every thread has finished and collection is off.\<close>

definition reporting :: "app \<Rightarrow> bool" where
  "reporting p \<longleftrightarrow> (\<exists>rest. todo (main p) = A_extract # rest) \<and> all_finished p \<and> collection_off p"

lemma at_extract_reporting: "order_off tid p \<Longrightarrow> at_extract p \<Longrightarrow> reporting p"
  using at_report by (auto simp: reporting_def at_extract_def order_off_def simp del: main_switch.simps)

lemma running_no_fault:
  assumes "running lay tid p" "\<not> at_extract p"
  shows "\<not> app_faults lay p"
proof
  assume "app_faults lay p"
  then obtain t e x rest where f: "t \<in> set (main p # workers p)" "todo t = x # rest" "x \<noteq> A_create" "x \<notin> range A_join"
    "\<not> (\<exists>r. do_action lay e x t (prog_state p) = Some (Inr r))" by (auto simp: app_faults_def)
  have r: "program_ready lay (prog_state p)" "thread_safe (snd (prog_state p)) t"
    "\<And>t x. t \<in> set (workers p) \<Longrightarrow> x \<in> set (todo t) \<Longrightarrow> local_action x"
    using assms(1) f(1) by (auto simp: running_def)
  have "local_action x"
  proof (cases "t \<in> set (workers p)")
    case True
    then show ?thesis using r(3) f(2) by simp
  next
    case False
    then have "x \<noteq> A_extract" using f(1,2) assms(2) by (auto simp: at_extract_def)
    then show ?thesis using f(3,4) by (simp add: local_action_def)
  qed
  from safe_action [OF r(1,2) f(2) this, of e] f(5) show False by blast
qed

lemma running_inevitable: "running lay tid p \<Longrightarrow> inevitable (app_step lay) (app_faults lay) reporting p"
proof (induction "remaining p" arbitrary: p rule: less_induct)
  case less
  show ?case
  proof (cases "at_extract p")
    case True
    then show ?thesis using at_extract_reporting less.prems by (blast intro: now dest: running_def [THEN iffD1])
  next
    case False
    obtain q where "app_step lay p q" using running_progress [OF less.prems False] by blast
    with running_no_fault [OF less.prems False] show ?thesis
    proof (rule inevitable.next_steps)
      fix r assume "app_step lay p r"
      with less.hyps step_remaining running_step [OF _ less.prems False]
      show "inevitable (app_step lay) (app_faults lay) reporting r" by blast
    qed
  qed
qed

lemma reaches_first: "app_reaches lay q r \<Longrightarrow> app_step lay p q \<Longrightarrow> app_reaches lay p r"
  by (induction rule: app_reaches.induct) (blast intro: app_reaches.intros)+

lemma inevitable_reached: "inevitable (app_step lay) F P p \<Longrightarrow> \<exists>q. app_reaches lay p q \<and> P q"
proof (induction rule: inevitable.induct)
  case (next_steps p q)
  then show ?case using reaches_first by blast
qed (blast intro: app_reaches.start)

lemma default_names: "c_str (rt_debug_data default_options) = Inr ''/tmp/rt_debug.dat''" "tst_action default_options = E_NONE"
  by code_simp+

lemma start_running:
  assumes "\<not> mem_attached (hnd w)" "file_name_ok ''/tmp/rt_debug.dat'' w" "os_good os" "os_mmap os = Some base"
    and "rt_shape (os_file os)" "addrs_ok (lay base)" "adapt_ok a" "ex \<longrightarrow> removed"
  shows "\<exists>p. main_start lay os ex removed tid loc [nm, ''-a''] (a, w) = Inr (Some p) \<and> running lay tid p \<and>
    todo (main p) = main_switch tid E_APPLICATION \<and> workers p = []"
proof -
  obtain s' where s': "RT_debug_init lay os False ''/tmp/rt_debug.dat'' (a, w) = Inr (1, s')" "program_ready lay s'"
    using init_ready assms(1-7) by blast
  let ?p = "\<lparr>main = new_thread (main_switch tid E_APPLICATION) loc, workers = [], prog_state = s'\<rparr>"
  have "main_start lay os ex removed tid loc [nm, ''-a''] (a, w) = Inr (Some ?p)"
    using s'(1) default_names assms(8) by (cases ex; cases removed) (simp_all add: main_start_def char_at_def Let_def)
  moreover have "thread_safe (snd s') (new_thread (main_switch tid E_APPLICATION) loc)"
    unfolding thread_safe_def using application_checks [of tid] by (intro exI [of _ fresh_thread]) (simp add: new_thread_def)
  moreover have "todo (main ?p) = main_switch tid E_APPLICATION" by (simp add: new_thread_def)
  moreover have "A_extract \<in> set (main_switch tid E_APPLICATION)" unfolding application_split by simp
  ultimately show ?thesis using s'(2) order_off_start [of ?p tid] application_joins [of tid]
    by (intro exI [of _ ?p]) (simp add: running_def del: main_switch.simps)
qed

subsection \<open>The options\<close>

text \<open>The options as they are meant, and how they are written on the command line.\<close>

datatype cli_option = O_action PROG_ACTION | O_data string | O_out string | O_help

fun cli_words :: "cli_option \<Rightarrow> string list" where
  "cli_words (O_action E_APPLICATION) = [''-a'']"
| "cli_words (O_action E_MONITOR) = [''-m'']"
| "cli_words (O_action _) = [''-e'']"
| "cli_words (O_data f) = [''-i'', f]"
| "cli_words (O_out f) = [''-o'', f]"
| "cli_words O_help = [''-h'']"

fun cli_ok :: "cli_option \<Rightarrow> bool" where
  "cli_ok (O_action a) = (a \<in> {E_APPLICATION, E_MONITOR, E_EXTRACT})"
| "cli_ok (O_data f) = fits NAME_BUF f"
| "cli_ok (O_out f) = fits NAME_BUF f"
| "cli_ok O_help = True"

fun cli_actions :: "cli_option list \<Rightarrow> PROG_ACTION list" where
  "cli_actions [] = []"
| "cli_actions (O_action a # os) = a # cli_actions os"
| "cli_actions (_ # os) = cli_actions os"

fun cli_data :: "cli_option list \<Rightarrow> string list" where
  "cli_data [] = []"
| "cli_data (O_data f # os) = f # cli_data os"
| "cli_data (_ # os) = cli_data os"

fun cli_out :: "cli_option list \<Rightarrow> string list" where
  "cli_out [] = []"
| "cli_out (O_out f # os) = f # cli_out os"
| "cli_out (_ # os) = cli_out os"

definition name_ok :: "cbuf \<Rightarrow> bool" where
  "name_ok b \<longleftrightarrow> length b = NAME_BUF \<and> terminated b"

lemma strcpy_name: "fits NAME_BUF f \<Longrightarrow> name_ok b \<Longrightarrow> \<exists>b'. strcpy b f = Inr b' \<and> name_ok b' \<and> str_of b' = f"
  using strcpy_fits [of NAME_BUF f b] by (auto simp: name_ok_def)

definition read_as :: "PROG_ACTION \<Rightarrow> string \<Rightarrow> string \<Rightarrow> options \<Rightarrow> bool" where
  "read_as a d out opt \<longleftrightarrow> tst_action opt = a \<and> c_str (rt_debug_data opt) = Inr d \<and> c_str (rt_debug_out opt) = Inr out"

text \<open>The parser on such a command line, from any options that were read before.\<close>

lemma parse_written:
  assumes "list_all cli_ok os" "rest = [] \<or> char_at (hd rest) 0 \<noteq> CHR ''-''"
    and "name_ok (rt_debug_data opt)" "name_ok (rt_debug_out opt)"
    and "tst_action opt = E_NONE \<longrightarrow> length (cli_actions os) \<le> 1" "tst_action opt \<noteq> E_NONE \<longrightarrow> cli_actions os = []"
  shows "\<exists>opt'. parse_args (concat (map cli_words os) @ rest) opt = Inr (Some opt') \<and>
    read_as (last (tst_action opt # cli_actions os)) (last (str_of (rt_debug_data opt) # cli_data os))
      (last (str_of (rt_debug_out opt) # cli_out os)) opt'"
  using assms
proof (induction os arbitrary: opt)
  case Nil
  then show ?case by (cases rest) (auto simp: read_as_def name_ok_def)
next
  case (Cons x os)
  show ?case
  proof (cases x)
    case (O_action a)
    then have a: "a \<in> {E_APPLICATION, E_MONITOR, E_EXTRACT}" "tst_action opt = E_NONE" "cli_actions os = []" using Cons.prems by auto
    then have "\<exists>opt'. parse_args (concat (map cli_words os) @ rest) (opt\<lparr>tst_action := a\<rparr>) = Inr (Some opt') \<and>
        read_as a (last (str_of (rt_debug_data opt) # cli_data os)) (last (str_of (rt_debug_out opt) # cli_out os)) opt'"
      using Cons.IH [of "opt\<lparr>tst_action := a\<rparr>"] Cons.prems by auto
    then show ?thesis using a O_action by (auto simp: char_at_def)
  next
    case (O_data f)
    then obtain b where b: "strcpy (rt_debug_data opt) f = Inr b" "name_ok b" "str_of b = f"
      using strcpy_name Cons.prems(1,3) by auto
    then have "\<exists>opt'. parse_args (concat (map cli_words os) @ rest) (opt\<lparr>rt_debug_data := b\<rparr>) = Inr (Some opt') \<and>
        read_as (last (tst_action opt # cli_actions os)) (last (f # cli_data os)) (last (str_of (rt_debug_out opt) # cli_out os)) opt'"
      using Cons.IH [of "opt\<lparr>rt_debug_data := b\<rparr>"] Cons.prems O_data by auto
    then show ?thesis using b(1) O_data by (simp add: char_at_def)
  next
    case (O_out f)
    then obtain b where b: "strcpy (rt_debug_out opt) f = Inr b" "name_ok b" "str_of b = f"
      using strcpy_name Cons.prems(1,4) by auto
    then have "\<exists>opt'. parse_args (concat (map cli_words os) @ rest) (opt\<lparr>rt_debug_out := b\<rparr>) = Inr (Some opt') \<and>
        read_as (last (tst_action opt # cli_actions os)) (last (str_of (rt_debug_data opt) # cli_data os)) (last (f # cli_out os)) opt'"
      using Cons.IH [of "opt\<lparr>rt_debug_out := b\<rparr>"] Cons.prems O_out by auto
    then show ?thesis using b(1) O_out by (simp add: char_at_def)
  next
    case O_help
    then show ?thesis using Cons by (simp add: char_at_def)
  qed
qed

text \<open>A second action ends the program.\<close>

lemma parse_two_actions:
  assumes "list_all cli_ok os" "name_ok (rt_debug_data opt)" "name_ok (rt_debug_out opt)"
    and "tst_action opt = E_NONE \<longrightarrow> 1 < length (cli_actions os)" "tst_action opt \<noteq> E_NONE \<longrightarrow> cli_actions os \<noteq> []"
  shows "parse_args (concat (map cli_words os) @ rest) opt = Inr None"
  using assms
proof (induction os arbitrary: opt)
  case (Cons x os)
  show ?case
  proof (cases x)
    case (O_action a)
    then have a: "a \<in> {E_APPLICATION, E_MONITOR, E_EXTRACT}" using Cons.prems by auto
    show ?thesis
    proof (cases "tst_action opt = E_NONE")
      case True
      then have "parse_args (concat (map cli_words os) @ rest) (opt\<lparr>tst_action := a\<rparr>) = Inr None"
        using a O_action Cons.prems by (intro Cons.IH) auto
      then show ?thesis using a O_action True by (auto simp: char_at_def)
    qed (use a O_action in \<open>auto simp: char_at_def\<close>)
  next
    case (O_data f)
    then obtain b where b: "strcpy (rt_debug_data opt) f = Inr b" "name_ok b"
      using strcpy_name Cons.prems(1,2) by auto
    then have "parse_args (concat (map cli_words os) @ rest) (opt\<lparr>rt_debug_data := b\<rparr>) = Inr None"
      using O_data Cons.prems by (intro Cons.IH) auto
    then show ?thesis using b(1) O_data by (simp add: char_at_def)
  next
    case (O_out f)
    then obtain b where b: "strcpy (rt_debug_out opt) f = Inr b" "name_ok b"
      using strcpy_name Cons.prems(1,3) by auto
    then have "parse_args (concat (map cli_words os) @ rest) (opt\<lparr>rt_debug_out := b\<rparr>) = Inr None"
      using O_out Cons.prems by (intro Cons.IH) auto
    then show ?thesis using b(1) O_out by (simp add: char_at_def)
  next
    case O_help
    then show ?thesis using Cons by (simp add: char_at_def)
  qed
qed auto

lemma default_name_ok: "name_ok (rt_debug_data default_options)" "name_ok (rt_debug_out default_options)"
  "str_of (rt_debug_data default_options) = ''/tmp/rt_debug.dat''" "str_of (rt_debug_out default_options) = ''/tmp/rt_debug.txt''"
  by code_simp+

subsection \<open>Two threads and one counter\<close>

lemma load_after_update:
  assumes "counter_load r w = Inr v"
  shows "\<exists>w'. counter_update r f w = Inr w' \<and> counter_load r w' = Inr (f v)"
proof -
  obtain i k d where ik: "r = Some (i, k)" "deref w = Inr d" using assms
    by (auto simp: counter_load_def bindE_eq_Inr split: option.splits)
  then have l: "i < length (debug_groups d)" "k < length (rt_counters (event_counters (debug_groups d ! i)))"
    "cnt_val (rt_counters (event_counters (debug_groups d ! i)) ! k) = v"
    using assms by (auto simp: counter_load_def bindE_eq_Inr arr_get_def split: if_splits)
  have "deref (w\<lparr>shm := x\<rparr>) = Inr x" for x using ik(2) by (auto simp: deref_def split: if_splits)
  then show ?thesis using ik l by (auto simp: counter_update_def counter_load_def arr_mod_def)
qed

text \<open>The two halves of the increment, as steps of a thread.\<close>

lemma load_step:
  assumes "i < length (workers p)" "todo (workers p ! i) = A_load # acts"
    "counter_load (cnt_ptr (workers p ! i)) (snd (prog_state p)) = Inr v"
  shows "app_step lay p (p\<lparr>workers := (workers p)[i := (workers p ! i)\<lparr>cnt_tmp := v, todo := acts\<rparr>]\<rparr>)"
  using app_step.work [OF assms(1,2), of lay demo_env "(workers p ! i)\<lparr>cnt_tmp := v\<rparr>" "prog_state p"] assms(3) by simp

lemma add_step:
  assumes "i < length (workers p)" "todo (workers p ! i) = A_add # acts"
    "counter_update (cnt_ptr (workers p ! i)) (\<lambda>_. cnt_tmp (workers p ! i) + 1) (snd (prog_state p)) = Inr w"
  shows "app_step lay p (p\<lparr>workers := (workers p)[i := (workers p ! i)\<lparr>todo := acts\<rparr>], prog_state := (fst (prog_state p), w)\<rparr>)"
  using app_step.work [OF assms(1,2), of lay demo_env "workers p ! i" "(fst (prog_state p), w)"] assms(3) by simp

subsection \<open>Properties\<close>

text \<open>C9: the application gets to its report. Started with \<open>-a\<close> where there is no old file, or it is removed, when the
  system calls succeed: whatever the order in which the main thread and its ten threads do their half a million actions, whatever the
  clocks say and whatever is on the stacks of the threads, no action of any thread fails or loops, and the main thread gets to the report,
  with all threads finished and the collection switched off.\<close>

theorem application_reports:
  assumes "\<not> mem_attached (hnd w)" "file_name_ok ''/tmp/rt_debug.dat'' w" "os_good os" "os_mmap os = Some base"
    and "rt_shape (os_file os)" "addrs_ok (lay base)" "adapt_ok a" "ex \<longrightarrow> removed"
  shows "\<exists>p. main_start lay os ex removed tid loc [nm, ''-a''] (a, w) = Inr (Some p) \<and>
    todo (main p) = main_switch tid E_APPLICATION \<and> inevitable (app_step lay) (app_faults lay) reporting p"
  using start_running [where lay = lay and tid = tid and loc = loc and nm = nm, OF assms] running_inevitable by blast

text \<open>C10: no report before its time. However the program got there, and even when calls failed on the way or the file could not be
  opened: when the main thread of the application is about to write the report, ten threads were created, each has done all its
  actions, and the collection is off (on a handler that is attached; the other runs have no collection).\<close>

theorem report_after_threads:
  assumes "app_reaches lay p q" "todo (main p) = main_switch tid E_APPLICATION" "workers p = []"
    and "todo (main q) = A_extract # rest"
  shows "length (workers q) = thread_num \<and> (\<forall>t \<in> set (workers q). todo t = []) \<and>
    (mem_attached (hnd (snd (prog_state q))) \<longrightarrow> \<not> active (shm (snd (prog_state q))))"
proof -
  have o: "order_off tid q" using reaches_order [OF assms(1) order_off_start [OF assms(2,3)]] .
  then have "all_finished q" using at_report [of tid, OF _ assms(4)] by (simp add: order_off_def del: main_switch.simps)
  with o assms(4) show ?thesis by (simp add: all_finished_def order_off_def collection_off_def)
qed

text \<open>C15: the options are read as they were written. For a command line with any number of options, whose
  file names have room in the buffers of 100 characters, the parser gives the action and the last name of each kind (or the
  default), and ignores what follows the first word that is no option; with more than one action it ends the
  program.\<close>

theorem options_as_written:
  assumes "list_all cli_ok os" "rest = [] \<or> char_at (hd rest) 0 \<noteq> CHR ''-''"
  shows "if 1 < length (cli_actions os) then parse_args (concat (map cli_words os) @ rest) default_options = Inr None
    else \<exists>opt. parse_args (concat (map cli_words os) @ rest) default_options = Inr (Some opt) \<and>
      tst_action opt = last (E_NONE # cli_actions os) \<and>
      c_str (rt_debug_data opt) = Inr (last (''/tmp/rt_debug.dat'' # cli_data os)) \<and>
      c_str (rt_debug_out opt) = Inr (last (''/tmp/rt_debug.txt'' # cli_out os))"
proof (cases "1 < length (cli_actions os)")
  case True
  with parse_two_actions [OF assms(1) default_name_ok(1,2), of rest] default_names(2) show ?thesis by simp
next
  case False
  with parse_written [OF assms default_name_ok(1,2)] default_names(2) default_name_ok(3,4) show ?thesis
    by (simp add: read_as_def not_less)
qed

text \<open>C36: an increment of the watchdog counter is lost. When two threads of the application are about to do
  \<open>*watch_dog+=1\<close> on the same counter, there is a schedule after which both have done it and the counter is only one higher.\<close>

theorem watchdog_lost_update:
  assumes ij: "i < length (workers p)" "j < length (workers p)" "i \<noteq> j"
    and todo: "todo (workers p ! i) = A_load # A_add # acts" "todo (workers p ! j) = A_load # A_add # acts'"
    and ptr: "cnt_ptr (workers p ! i) = r" "cnt_ptr (workers p ! j) = r" and v: "counter_load r (snd (prog_state p)) = Inr v"
  shows "\<exists>q. app_reaches lay p q \<and> todo (workers q ! i) = acts \<and> todo (workers q ! j) = acts' \<and>
    counter_load r (snd (prog_state q)) = Inr (v + 1)"
proof -
  let ?s = "prog_state p"
  obtain w1 where w1: "counter_update r (\<lambda>_. v + 1) (snd ?s) = Inr w1" "counter_load r w1 = Inr (v + 1)"
    using load_after_update [OF v] by blast
  obtain w2 where w2: "counter_update r (\<lambda>_. v + 1) w1 = Inr w2" "counter_load r w2 = Inr (v + 1)"
    using load_after_update [OF w1(2)] by blast
  let ?p1 = "p\<lparr>workers := (workers p)[i := (workers p ! i)\<lparr>cnt_tmp := v, todo := A_add # acts\<rparr>]\<rparr>"
  let ?p2 = "?p1\<lparr>workers := (workers ?p1)[j := (workers ?p1 ! j)\<lparr>cnt_tmp := v, todo := A_add # acts'\<rparr>]\<rparr>"
  let ?p3 = "?p2\<lparr>workers := (workers ?p2)[i := (workers ?p2 ! i)\<lparr>todo := acts\<rparr>], prog_state := (fst ?s, w1)\<rparr>"
  let ?p4 = "?p3\<lparr>workers := (workers ?p3)[j := (workers ?p3 ! j)\<lparr>todo := acts'\<rparr>], prog_state := (fst ?s, w2)\<rparr>"
  have "app_step lay p ?p1" using load_step [of i p "A_add # acts" v lay] ij todo ptr v by simp
  moreover have "app_step lay ?p1 ?p2" using load_step [of j ?p1 "A_add # acts'" v lay] ij todo ptr v by simp
  moreover have "app_step lay ?p2 ?p3" using add_step [of i ?p2 acts w1 lay] ij ptr w1(1) by simp
  moreover have "app_step lay ?p3 ?p4" using add_step [of j ?p3 acts' w2 lay] ij ptr w2(1) by simp
  ultimately have "app_reaches lay p ?p4" by (meson app_reaches.intros)
  moreover have "todo (workers ?p4 ! i) = acts" "todo (workers ?p4 ! j) = acts'" using ij by simp_all
  moreover have "counter_load r (snd (prog_state ?p4)) = Inr (v + 1)" using w2(2) by simp
  ultimately show ?thesis by blast
qed

text \<open>C37: \<open>-m\<close> extracts. The case \<open>E_MONITOR\<close> has no \<open>break\<close>: in every state and surrounding, the main thread
  started with \<open>-m\<close> does the same as with \<open>-e\<close>: it stops the collection of the application that it was to watch, and writes the
  report.\<close>

theorem monitor_extracts:
  "run_main lay e (main_switch tid E_MONITOR) t s = run_main lay e (main_switch tid E_EXTRACT) t s"
proof -
  obtain a w where s: "s = (a, w)" by fastforce
  have "bindE (RTDBG_Stop w) RTDBG_Stop = RTDBG_Stop w"
    by (auto simp: RTDBG_Stop_def deref_def SetDataCollection_def InitExtractTables_def Let_def comp_def)
  then have again: "RTDBG_Stop v = Inr v" if "RTDBG_Stop w = Inr v" for v using that by simp
  show ?thesis unfolding s by (cases "RTDBG_Stop w") (auto simp: RT_debug_stop_def again)
qed

subsection \<open>The properties at work\<close>

lemma demo_data_file: "file_name_ok ''/tmp/rt_debug.dat'' demo_start"
  by (simp add: file_name_ok_def fits_def c_string_def TRACE_STRING_SIZE_def demo_start_def debug_handler_def)

definition demo_thread :: thread where
  "demo_thread = \<lparr>cnt_ptr = None, cnt_tmp = 0, points = \<lambda>_. demo_point 0, report = None, todo = []\<rparr>"

theorem application_reports_witness:
  "\<exists>p. main_start demo_lay demo_os True True (\<lambda>i. of_nat i) demo_thread [''example'', ''-a''] (rt_adapt_zero, demo_start) = Inr (Some p) \<and>
    inevitable (app_step demo_lay) (app_faults demo_lay) reporting p"
proof -
  have "True \<longrightarrow> True" by simp
  from application_reports [where lay = demo_lay, OF demo_start_ok(1) demo_data_file demo_start_ok(3-5) demo_lay_ok adapt_zero_ok this]
  show ?thesis by blast
qed

theorem report_after_threads_witness:
  "\<exists>p q. main_start demo_lay demo_os False False (\<lambda>i. of_nat i) demo_thread [''example'', ''-a''] (rt_adapt_zero, demo_start) = Inr (Some p) \<and>
    app_reaches demo_lay p q \<and> length (workers q) = 10 \<and> (\<forall>t \<in> set (workers q). todo t = [])"
proof -
  have "False \<longrightarrow> False" by simp
  from start_running [where lay = demo_lay and tid = "\<lambda>i. of_nat i" and loc = demo_thread and nm = "''example''",
      OF demo_start_ok(1) demo_data_file demo_start_ok(3-5) demo_lay_ok adapt_zero_ok this] obtain p where
    p: "main_start demo_lay demo_os False False (\<lambda>i. of_nat i) demo_thread [''example'', ''-a''] (rt_adapt_zero, demo_start) = Inr (Some p)"
      "running demo_lay (\<lambda>i. of_nat i) p" "todo (main p) = main_switch (\<lambda>i. of_nat i) E_APPLICATION" "workers p = []" by blast
  from inevitable_reached [OF running_inevitable [OF p(2)]] obtain q rest where
    q: "app_reaches demo_lay p q" "todo (main q) = A_extract # rest" by (auto simp: reporting_def)
  from report_after_threads [OF q(1) p(3,4) q(2)] p(1) q(1) show ?thesis by (auto simp: thread_num_def)
qed

theorem options_as_written_witness:
  "\<exists>opt. parse_args [''-i'', ''/tmp/x'', ''-a'', ''-h'', ''-i'', ''/tmp/y'', ''more''] default_options = Inr (Some opt) \<and>
     tst_action opt = E_APPLICATION \<and> c_str (rt_debug_data opt) = Inr ''/tmp/y''"
proof -
  let ?os = "[O_data ''/tmp/x'', O_action E_APPLICATION, O_help, O_data ''/tmp/y'']"
  have ok: "list_all cli_ok [O_data ''/tmp/x'', O_action E_APPLICATION, O_help, O_data ''/tmp/y'']"
    by (simp add: fits_def c_string_def NAME_BUF_def)
  have rest: "[''more''] = [] \<or> char_at (hd [''more'']) 0 \<noteq> CHR ''-''" by (simp add: char_at_def)
  obtain opt where "parse_args (concat (map cli_words ?os) @ [''more'']) default_options = Inr (Some opt)"
    "tst_action opt = last (E_NONE # cli_actions ?os)" "c_str (rt_debug_data opt) = Inr (last (''/tmp/rt_debug.dat'' # cli_data ?os))"
    using options_as_written [OF ok rest] by (auto simp del: parse_args.simps)
  then show ?thesis by (intro exI [of _ opt]) (simp del: parse_args.simps)
qed

theorem watchdog_lost_update_witness:
  "\<exists>(p :: app) q v. length (workers p) = 2 \<and> counter_load (Some (0, 0)) (snd (prog_state p)) = Inr v \<and> app_reaches demo_lay p q \<and>
     counter_load (Some (0, 0)) (snd (prog_state q)) = Inr (v + 1) \<and> (\<forall>k < 2. todo (workers p ! k) = [A_load, A_add] \<and> todo (workers q ! k) = [])"
proof -
  obtain w where w: "attached_ok w" "num_alloc_groups (shm w) = 1" using demo_process by blast
  then have "ptr_ok w (Some (0, 0))" by (simp add: ptr_ok_def ngroups_def NUM_COUNTERS_def)
  then obtain v where v: "counter_load (Some (0, 0)) w = Inr v" using counter_loads [OF w(1)] by blast
  let ?t = "demo_thread\<lparr>cnt_ptr := Some (0, 0), todo := [A_load, A_add]\<rparr>"
  let ?p = "\<lparr>main = demo_thread, workers = [?t, ?t], prog_state = (rt_adapt_zero, w)\<rparr>"
  have "\<exists>q. app_reaches demo_lay ?p q \<and> todo (workers q ! 0) = [] \<and> todo (workers q ! 1) = [] \<and>
      counter_load (Some (0, 0)) (snd (prog_state q)) = Inr (v + 1)"
    by (rule watchdog_lost_update) (use v in simp_all)
  then obtain q where q: "app_reaches demo_lay ?p q" "todo (workers q ! 0) = []" "todo (workers q ! 1) = []"
    "counter_load (Some (0, 0)) (snd (prog_state q)) = Inr (v + 1)" by blast
  then have "\<forall>k < 2. todo (workers ?p ! k) = [A_load, A_add] \<and> todo (workers q ! k) = []" by (simp add: less_2_cases_iff)
  with q v show ?thesis by (intro exI [of _ ?p] exI [of _ q] exI [of _ v]) simp
qed

end
