(* ===== verification/Spec2Isabelle.thy ===== *)
theory Spec2Isabelle
  imports Area_Buffers Fifo_Sharing Trace_Torn Register_Race OS_Wrappers Cpp_Point Example_Props
begin

text \<open>
  A verification library for \<open>rt_debug_lib\<close> (\<open>src/rt_debug/\<close>), a C and C++ library that
  collects event counters, traces, logs and profiler measurements of running processes in a memory
  mapped file, from which another process can read them.

  \<^bold>\<open>The program and its parts.\<close> One object \<open>CDebugRT\<close> lives in the file. It holds up to ten
  groups \<open>CGroupDebugRT\<close>, each with a table of event counters (\<open>CRT_counter_grp\<close>), a trace buffer with
  its formats (\<open>CTraceGroup\<close>), a log buffer (\<open>CLog_group\<close>) and up to fifty profilers (\<open>CProfilerGroup\<close>); the buffers are
  rings of chunks (\<open>CMemArea\<close>, \<open>StaticMemArea\<close>). Each process has one \<open>CDebugHandler\<close>, which
  maps the file, forwards each operation to the group, and merges the traces and the logs of all
  groups by time when they are read. Above it are the C interface (\<open>RTDBG_...\<close>), the class
  \<open>CProfilePoint\<close> for C++ clients, and \<open>rt_adapt.c\<close>, which registers what the configuration files in
  \<open>cust_api\<close> list. The program \<open>example_c.c\<close> uses \<open>rt_adapt.c\<close> from eleven threads. A profiling point is in the memory of the client; the other state that outlives a
  call is in the object or in the handler.

  \<^bold>\<open>Conventions.\<close> A call that can fail returns \<open>fault + 'a\<close>: \<open>Inl f\<close> when it does not return (an
  assertion that fails, a null pointer, an access outside a buffer or a mapping, a division by
  zero, a format that does not fit its arguments), \<open>Inr\<close> its result. Integers are words of the width
  of the code and wrap. Character arrays are lists of fixed length. State is passed explicitly;
  \<open>world\<close> is what one process sees: its handler, the object, and whether the file is mapped. What
  comes from outside (clocks, thread ids, system calls, uninitialised memory) is an argument.
  Loops over arrays are \<open>foldE\<close> over the indices. The loops that push until there is room, and that
  read until there is nothing, are \<open>partial_function (option)\<close>, where \<open>None\<close> is a loop that does not
  end; the theorems prove \<open>Some\<close>, so no fuel is used anywhere.

  \<^bold>\<open>Theories and code.\<close>
  \<^item> \<open>RT_Prelude\<close>: faults, \<open>bindE\<close>, \<open>bindD\<close>, \<open>foldE\<close>, constants of \<open>rt_debug_defs.h\<close>; lemmas on lists and words.
  \<^item> \<open>C_Strings\<close>, \<open>C_Printf\<close>: \<open>strcpy\<close>, \<open>strncpy\<close>, \<open>strcmp\<close>, \<open>sprintf\<close> for the formats that occur;
    the linear search for a name.
  \<^item> \<open>Mem_Layout\<close>, \<open>Mem_Area\<close>: the macros of \<open>i_osa_api.h\<close>, the ring buffers of \<open>i_cpp_sys_api.h\<close>.
    \<open>Fifo_Contract\<close> is the locale \<open>bounded_fifo\<close>, a queue with a bound; \<open>Area_Fifo\<close> interprets it on
    both classes, \<open>Area_Buffers\<close> has the alignment, the double buffer and the pool. \<open>Fifo_Threads\<close>: the FIFO at the
    grain of its memory accesses, called by any number of threads (\<open>ring_step\<close>); \<open>Fifo_Sharing\<close>: its invariant, and
    the locale \<open>ring_class\<close>, interpreted on both classes. \<open>OS_Wrappers\<close>: the thread and mutex wrappers of \<open>i_osa_api.h\<close>.
  \<^item> \<open>Time_Spec\<close>: \<open>timespec\<close> and the scan for the earliest entry.
  \<^item> \<open>Name_Table\<close>: the locale \<open>name_table\<close>, interpreted on the counters, formats, profilers and groups.
  \<^item> \<open>Event_Counters\<close>, \<open>Trace_Group\<close>, \<open>Trace_History\<close>, \<open>Log_Group\<close>, \<open>Profile_Point\<close>,
    \<open>Profile_Batches\<close>, \<open>Profiler_Group\<close>, \<open>Debug_RT\<close>: the classes of \<open>rt_debug_types.h\<close> and \<open>.cc\<close>, their
    invariants and what they do. \<open>Trace_Threads\<close>: \<open>AddTrace\<close> at the grain of its accesses, called by any number of threads;
    \<open>Trace_Torn\<close>: a reader between these accesses.
  \<^item> \<open>Debug_Handler\<close>, \<open>Handler_Life\<close>, \<open>Trace_Merge\<close>, \<open>Log_Merge\<close>, \<open>Extract_Data\<close>: \<open>CDebugHandler\<close> of
    \<open>rt_debug_main.h\<close> and \<open>.cc\<close>: its operations, the life cycle, the two merges, the report.
  \<^item> \<open>API_Steps\<close>: the operations as steps of any number of processes. \<open>Registry\<close>: the abstract catalogue
    of what is registered. \<open>Register_Race\<close>: \<open>AllocDbgGrp\<close> at the grain of its accesses.
  \<^item> \<open>C_API\<close>, \<open>Client_Calls\<close>: the functions with C linkage and their clients. \<open>Cpp_Point\<close>:
    \<open>CProfilePoint\<close> of \<open>rt_debug_cpp_defs.h\<close>.
  \<^item> \<open>RT_Adapt\<close>, \<open>Adapt_Init\<close>, \<open>Adapt_Props\<close>: \<open>rt_adapt.c\<close>, with \<open>rt_debug_adap_api.h\<close> and \<open>cust_api\<close>.
  \<^item> \<open>Example_C\<close>: \<open>example_c.c\<close>, its options, the programs of its threads, and \<open>app_step\<close>, their interleaving.
    \<open>Example_Buffers\<close>: the buffers of a process that created the file. \<open>Example_Run\<close>: a static check of the
    actions, and that it is sound. \<open>Example_Threads\<close>: the invariant of the whole program. \<open>Example_Props\<close>: its properties.

  \<^bold>\<open>What is proved.\<close>
  \<^item> Queues: a ring of \<open>n\<close> chunks is a queue of at most \<open>n - 2\<close> elements (refinement, for any mix of pushes
    and pops), also when threads push and pop at the same time and the copies are torn (each call takes effect at
    one moment between call and return; every call returns); traces that threads add at the same time are all kept,
    whole (up to a thousand; one that is read while it is written can come with the values of an older one); the log buffer keeps the last messages, the trace buffer the last thousand traces.
  \<^item> Time order: reading the traces (or the logs) of all groups ends, returns each exactly once, and sorted by
    time, when the clock is later than their stamps, the lines fit and the slots of the handler are right (on a new handler the slots
    give an empty line for each group besides); the report is then exactly the counters, the
    profilers, the merged traces and the merged logs.
  \<^item> Profilers: what a batch summarises, and the way from measurements to the aggregate that is read.
  \<^item> Registration: the four kinds of registration implement the catalogue; indices never change, whatever
    any number of processes do one operation after the other, as long as nobody resets the object (\<open>RTDBG_Init\<close>,
    \<open>RTDBG_ActivateDebugDataCollection\<close>); two registrations at the same time, in any order of their accesses where both look before
    either counts, get one index; programs with the same configuration get the same tables.
  \<^item> Type safety of the interface: operations that return keep the invariant, resets included (the conditions on a call are
    \<open>typed_args\<close> on its arguments and \<open>proper_use\<close> on its points and files), and calls that are also ready (\<open>call_ready\<close>) return.
    Every function of the interface is covered, the readers and the report included.
  \<^item> The example program: its options are read as written; in every schedule of its threads no call fails and it gets
    to its report, and it never writes the report before all threads have finished.
  \<^item> Errors: what happens on a handler that is not attached, with full buffers, with names and texts
    that are too long, with masks that exclude a group, when the file cannot be created, with thread priorities that Linux refuses. Several
    of these are defects of the code, and the theorems state what it does.

  \<^bold>\<open>Not modelled.\<close> The steps of \<open>sys_step\<close> and \<open>app_step\<close> are whole operations (an increment of a counter is two); those
  of \<open>sys_step\<close> return, and its label counts the resets;
  at a finer grain there are the FIFO, the adding of traces and the registration of groups, with accesses to an index that are atomic and in program order.
  The interleaving inside other operations and the memory order of the processor are not modelled. The
  example program's sleeping, its help, and the address of a local variable that it gives its threads are left out;
  \<open>pthread_create\<close> is taken to succeed. The prototypes without a body of \<open>i_osa_api.h\<close> are not used by the library.
  \<open>common_typedef.h\<close> has only macros and types that nothing uses. The C++ example prints a greeting. The build
  files and what is printed on the terminal are left out.
\<close>

end
